(* ===== verification/Prelude.thy ===== *)
theory Prelude
  imports Main "HOL-Library.Word"
begin

text \<open>
  The vocabulary the components share: bytes and JavaScript strings, the array operations
  of the language that the code uses (\<open>slice\<close>, out-of-range reads and writes, \<open>sort\<close>),
  results that may be an exception, and the generic list lemmas of the development.

  A \<open>Uint8Array\<close> is a list of \<open>8 word\<close>; a string is a list of UTF-16 code units
  (\<open>16 word\<close>), so that \<open>length\<close> and indices count what the code counts; a number the code
  keeps integral is an \<open>int\<close> (or a \<open>nat\<close> where it cannot be negative).
\<close>

type_synonym byte = "8 word"
type_synonym bytes = "byte list"
type_synonym jsstring = "16 word list"

text \<open>String literals of the source: \<open>js ''abc''\<close> is the JavaScript string \<open>abc\<close>.\<close>

definition js :: "string \<Rightarrow> jsstring" where
  "js s = map of_char s"

text \<open>An ASCII literal as the bytes it is encoded to.\<close>

definition ascii :: "string \<Rightarrow> bytes" where
  "ascii s = map of_char s"

abbreviation CRLF :: bytes where
  "CRLF \<equiv> [13, 10]"

named_theorems js_slices \<open>facts about the slices and indices of JavaScript arrays\<close>

subsection \<open>Results: a value or a thrown exception\<close>

text \<open>\<open>Inl\<close> is a thrown exception, \<open>Inr\<close> a returned value.\<close>

definition bindR :: "'e + 'a \<Rightarrow> ('a \<Rightarrow> 'e + 'b) \<Rightarrow> 'e + 'b" where
  "bindR m f = (case m of Inl e \<Rightarrow> Inl e | Inr x \<Rightarrow> f x)"

lemma bindR_simps [simp]:
  "bindR (Inl e) f = Inl e"
  "bindR (Inr x) f = f x"
  by (simp_all add: bindR_def)

lemma bindR_Inr_iff: "bindR m f = Inr y \<longleftrightarrow> (\<exists>x. m = Inr x \<and> f x = Inr y)"
  by (cases m) auto

lemma bindR_Inl_iff: "bindR m f = Inl e \<longleftrightarrow> m = Inl e \<or> (\<exists>x. m = Inr x \<and> f x = Inl e)"
  by (cases m) auto

fun mapR :: "('a \<Rightarrow> 'e + 'b) \<Rightarrow> 'a list \<Rightarrow> 'e + 'b list" where
  "mapR f [] = Inr []"
| "mapR f (x # xs) = bindR (f x) (\<lambda>y. bindR (mapR f xs) (\<lambda>ys. Inr (y # ys)))"

definition is_ok :: "'e + 'a \<Rightarrow> bool" where
  "is_ok m = (case m of Inl _ \<Rightarrow> False | Inr _ \<Rightarrow> True)"

lemma is_ok_simps [simp]: "is_ok (Inr x)" "\<not> is_ok (Inl e)"
  by (simp_all add: is_ok_def)

subsection \<open>Slices\<close>

text \<open>
  \<open>Array.prototype.slice\<close> (the same on strings and typed arrays): a negative index counts from
  the end, and every index is clamped to the array.
\<close>

definition js_index :: "nat \<Rightarrow> int \<Rightarrow> nat" where
  "js_index n i = (if i < 0 then nat (int n + i) else min (nat i) n)"

definition js_slice :: "'a list \<Rightarrow> int \<Rightarrow> int \<Rightarrow> 'a list" where
  "js_slice xs i j =
     (let n = length xs in take (js_index n j - js_index n i) (drop (js_index n i) xs))"

text \<open>\<open>slice(i)\<close> without an end.\<close>

definition js_slice_from :: "'a list \<Rightarrow> int \<Rightarrow> 'a list" where
  "js_slice_from xs i = drop (js_index (length xs) i) xs"

lemma js_index_le: "js_index n i \<le> n"
  by (auto simp: js_index_def)

lemma js_index_nonneg [js_slices]: "0 \<le> i \<Longrightarrow> js_index n i = min (nat i) n"
  by (simp add: js_index_def)

lemma js_slice_nonneg [js_slices]:
  assumes "0 \<le> i" and "0 \<le> j"
  shows "js_slice xs i j = take (nat j - nat i) (drop (nat i) xs)"
proof (cases "nat i \<le> length xs")
  case True
  then show ?thesis
    using assms by (auto simp: js_slice_def js_slices Let_def min_def)
next
  case False
  then show ?thesis using assms by (simp add: js_slice_def js_slices Let_def)
qed

lemma js_slice_from_nonneg [js_slices]: "0 \<le> i \<Longrightarrow> js_slice_from xs i = drop (nat i) xs"
  by (simp add: js_slice_from_def js_slices min_def)

lemma js_slice_drop_last [js_slices]: "0 < n \<Longrightarrow> js_slice xs 0 (- int n) = take (length xs - n) xs"
  by (auto simp: js_slice_def js_index_def Let_def nat_minus_as_int)

lemma length_js_slice: "length (js_slice xs i j) \<le> length xs"
  by (auto simp: js_slice_def Let_def)

text \<open>Reading an element: \<open>undefined\<close> (here \<open>None\<close>) outside the array.\<close>

definition js_get :: "'a list \<Rightarrow> int \<Rightarrow> 'a option" where
  "js_get xs i = (if 0 \<le> i \<and> i < int (length xs) then Some (xs ! nat i) else None)"

text \<open>Writing an element of a typed array: a write outside the array is ignored.\<close>

definition u8_put :: "bytes \<Rightarrow> int \<Rightarrow> byte \<Rightarrow> bytes" where
  "u8_put xs i v = (if 0 \<le> i \<and> i < int (length xs) then xs[nat i := v] else xs)"

lemma length_u8_put [simp]: "length (u8_put xs i v) = length xs"
  by (simp add: u8_put_def)

lemma nth_u8_put:
  "k < length xs \<Longrightarrow> u8_put xs i v ! k = (if int k = i then v else xs ! k)"
  by (auto simp: u8_put_def)

text \<open>\<open>typedArray.set(src, offset)\<close> raises a RangeError when the source does not fit.\<close>

definition u8_set :: "bytes \<Rightarrow> bytes \<Rightarrow> int \<Rightarrow> bytes option" where
  "u8_set dst src off =
     (if 0 \<le> off \<and> nat off + length src \<le> length dst
      then Some (take (nat off) dst @ src @ drop (nat off + length src) dst) else None)"

lemma u8_set_length: "u8_set dst src off = Some r \<Longrightarrow> length r = length dst"
  by (auto simp: u8_set_def split: if_splits)

lemma u8_set_nth:
  assumes "u8_set dst src off = Some r" and "k < length dst"
  shows "r ! k = (if nat off \<le> k \<and> k < nat off + length src then src ! (k - nat off) else dst ! k)"
  using assms by (auto simp: u8_set_def nth_append min_def split: if_splits)

subsection \<open>Sorting\<close>

text \<open>
  \<open>Array.prototype.sort\<close> with a comparator \<open>f a - f b\<close> is stable: insertion into the sorted
  list after the equal elements, which is the library's \<open>sort_key\<close>.
\<close>

abbreviation js_sort_on :: "('a \<Rightarrow> int) \<Rightarrow> 'a list \<Rightarrow> 'a list" where
  "js_sort_on f xs \<equiv> sort_key f xs"

subsection \<open>Maximal runs and searching\<close>

text \<open>First index at which a predicate holds of the suffix, as \<open>indexOf\<close> and the regular
  expressions without flags search: leftmost first, the empty suffix included.\<close>

fun find_suffix :: "('a list \<Rightarrow> bool) \<Rightarrow> 'a list \<Rightarrow> nat option" where
  "find_suffix P [] = (if P [] then Some 0 else None)"
| "find_suffix P (x # xs) = (if P (x # xs) then Some 0 else map_option Suc (find_suffix P xs))"

definition is_prefix :: "'a list \<Rightarrow> 'a list \<Rightarrow> bool" where
  "is_prefix p xs \<longleftrightarrow> take (length p) xs = p"

lemma is_prefix_append [simp]: "is_prefix p (p @ xs)"
  by (simp add: is_prefix_def)

text \<open>\<open>indexOf\<close>: -1 when there is no occurrence.\<close>

definition js_indexOf :: "'a list \<Rightarrow> 'a list \<Rightarrow> int" where
  "js_indexOf xs p = (case find_suffix (is_prefix p) xs of None \<Rightarrow> -1 | Some i \<Rightarrow> int i)"

definition js_includes :: "'a list \<Rightarrow> 'a list \<Rightarrow> bool" where
  "js_includes xs p \<longleftrightarrow> find_suffix (is_prefix p) xs \<noteq> None"

definition js_startsWith :: "'a list \<Rightarrow> 'a list \<Rightarrow> bool" where
  "js_startsWith xs p \<longleftrightarrow> is_prefix p xs"

definition js_endsWith :: "'a list \<Rightarrow> 'a list \<Rightarrow> bool" where
  "js_endsWith xs p \<longleftrightarrow> is_prefix (rev p) (rev xs)"

lemma find_suffix_Some:
  "find_suffix P xs = Some i \<Longrightarrow> i \<le> length xs \<and> P (drop i xs) \<and> (\<forall>j<i. \<not> P (drop j xs))"
proof (induction xs arbitrary: i)
  case Nil
  then show ?case by (auto split: if_splits)
next
  case (Cons x xs)
  then show ?case
    by (auto split: if_splits simp: less_Suc_eq_0_disj)
qed

lemma find_suffix_None: "find_suffix P xs = None \<Longrightarrow> i \<le> length xs \<Longrightarrow> \<not> P (drop i xs)"
proof (induction xs arbitrary: i)
  case Nil
  then show ?case by (auto split: if_splits)
next
  case (Cons x xs)
  then show ?case by (cases i) (auto split: if_splits)
qed

lemma find_suffix_eqI:
  "i \<le> length xs \<Longrightarrow> P (drop i xs) \<Longrightarrow> (\<And>j. j < i \<Longrightarrow> \<not> P (drop j xs)) \<Longrightarrow> find_suffix P xs = Some i"
proof (induction xs arbitrary: i)
  case Nil
  then show ?case by simp
next
  case (Cons x xs)
  show ?case
  proof (cases i)
    case 0
    with Cons.prems show ?thesis by simp
  next
    case (Suc k)
    have "find_suffix P xs = Some k"
    proof (rule Cons.IH)
      show "k \<le> length xs" and "P (drop k xs)" using Cons.prems Suc by simp_all
      show "\<not> P (drop j xs)" if "j < k" for j
        using Cons.prems(3)[of "Suc j"] that Suc by simp
    qed
    moreover have "\<not> P (x # xs)" using Cons.prems(3)[of 0] Suc by simp
    ultimately show ?thesis using Suc by simp
  qed
qed

subsection \<open>Generic list lemmas\<close>

lemma take_drop_append_take:
  "i \<le> j \<Longrightarrow> j \<le> k \<Longrightarrow> take (j - i) (drop i xs) @ take (k - j) (drop j xs) = take (k - i) (drop i xs)"
proof -
  assume ij: "i \<le> j" and jk: "j \<le> k"
  have "take (k - i) (drop i xs) = take ((j - i) + (k - j)) (drop i xs)" using ij jk by simp
  also have "\<dots> = take (j - i) (drop i xs) @ take (k - j) (drop (j - i) (drop i xs))"
    by (rule take_add)
  also have "drop (j - i) (drop i xs) = drop j xs" using ij by simp
  finally show ?thesis by simp
qed

lemma concat_replicate_nth: "i < n \<Longrightarrow> replicate n x ! i = x"
  by simp

end
