(* ===== verification/Js_Text.thy ===== *)
theory Js_Text
  imports Prelude
begin

text \<open>
  The parts of the JavaScript standard library that the code uses on text: the UTF-8 codecs
  (\<open>TextEncoder\<close>, \<open>TextDecoder\<close>), trimming, lower case, \<open>split\<close>, \<open>Number\<close> and
  \<open>parseInt\<close>; and the byte helpers of the package \<open>@reclaimprotocol/tls\<close>, which are not
  part of the repository: they are a record of functions, with the documented behaviour that
  the proofs rely on as the predicate \<open>tls_bytes_spec\<close>.
\<close>

subsection \<open>Numbers\<close>

text \<open>A number the code reads from text: an integer or NaN.\<close>

datatype jsnum = NaN | Num int

fun num_truthy :: "jsnum \<Rightarrow> bool" where
  "num_truthy NaN = False"
| "num_truthy (Num n) = (n \<noteq> 0)"

subsection \<open>Characters\<close>

definition is_digit :: "16 word \<Rightarrow> bool" where
  "is_digit c \<longleftrightarrow> 48 \<le> c \<and> c \<le> 57"

definition is_space :: "16 word \<Rightarrow> bool" where
  "is_space c \<longleftrightarrow> (9 \<le> c \<and> c \<le> 13) \<or> c = 32 \<or> c = 0xA0 \<or> c = 0x1680 \<or> (0x2000 \<le> c \<and> c \<le> 0x200A)
     \<or> c = 0x2028 \<or> c = 0x2029 \<or> c = 0x202F \<or> c = 0x205F \<or> c = 0x3000 \<or> c = 0xFEFF"

text \<open>\<open>\w\<close> of a regular expression, and the line terminators that \<open>.\<close> does not match.\<close>

definition is_word_char :: "16 word \<Rightarrow> bool" where
  "is_word_char c \<longleftrightarrow> is_digit c \<or> (65 \<le> c \<and> c \<le> 90) \<or> (97 \<le> c \<and> c \<le> 122) \<or> c = 95"

definition is_line_term :: "16 word \<Rightarrow> bool" where
  "is_line_term c \<longleftrightarrow> c = 10 \<or> c = 13 \<or> c = 0x2028 \<or> c = 0x2029"

text \<open>Lower case on the ASCII letters; other letters are left as they are.\<close>

definition lower_char :: "16 word \<Rightarrow> 16 word" where
  "lower_char c = (if 65 \<le> c \<and> c \<le> 90 then c + 32 else c)"

definition js_toLowerCase :: "jsstring \<Rightarrow> jsstring" where
  "js_toLowerCase s = map lower_char s"

definition js_trimStart :: "jsstring \<Rightarrow> jsstring" where
  "js_trimStart s = dropWhile is_space s"

definition js_trim :: "jsstring \<Rightarrow> jsstring" where
  "js_trim s = rev (dropWhile is_space (rev (dropWhile is_space s)))"

lemma length_js_toLowerCase [simp]: "length (js_toLowerCase s) = length s"
  by (simp add: js_toLowerCase_def)

subsection \<open>Numbers from text\<close>

text \<open>The value of a digit in bases up to 16.\<close>

definition digit_val :: "16 word \<Rightarrow> nat option" where
  "digit_val c =
     (if is_digit c then Some (unat c - 48)
      else if 97 \<le> c \<and> c \<le> 102 then Some (unat c - 87)
      else if 65 \<le> c \<and> c \<le> 70 then Some (unat c - 55) else None)"

definition is_base_digit :: "nat \<Rightarrow> 16 word \<Rightarrow> bool" where
  "is_base_digit b c = (case digit_val c of None \<Rightarrow> False | Some d \<Rightarrow> d < b)"

definition digits_val :: "nat \<Rightarrow> jsstring \<Rightarrow> nat" where
  "digits_val b s = foldl (\<lambda>acc c. acc * b + (case digit_val c of None \<Rightarrow> 0 | Some d \<Rightarrow> d)) 0 s"

text \<open>Leading sign, as in the grammars of \<open>Number\<close> and \<open>parseInt\<close>.\<close>

fun split_sign :: "jsstring \<Rightarrow> int \<times> jsstring" where
  "split_sign [] = (1, [])"
| "split_sign (c # s) = (if c = 45 then (-1, s) else if c = 43 then (1, s) else (1, c # s))"

text \<open>
  \<open>Number(s)\<close>: the empty string is 0, an integer literal its value, any other text NaN.
  Literals whose value is not an integer, exponents and \<open>Infinity\<close> are read as NaN here.
\<close>

definition js_Number :: "jsstring \<Rightarrow> jsnum" where
  "js_Number s0 =
     (let s = js_trim s0 in
      if s = [] then Num 0
      else if is_prefix (js ''0x'') s \<or> is_prefix (js ''0X'') s then
        (let t = drop 2 s in
         if t \<noteq> [] \<and> list_all (is_base_digit 16) t then Num (int (digits_val 16 t)) else NaN)
      else
        (let (sg, t) = split_sign s in
         if t \<noteq> [] \<and> list_all is_digit t then Num (sg * int (digits_val 10 t)) else NaN))"

text \<open>\<open>Number.parseInt(s, 16)\<close>: the longest prefix of hexadecimal digits.\<close>

definition js_parseInt16 :: "jsstring \<Rightarrow> jsnum" where
  "js_parseInt16 s0 =
     (let (sg, s) = split_sign (js_trimStart s0);
          t = (if is_prefix (js ''0x'') s \<or> is_prefix (js ''0X'') s then drop 2 s else s);
          ds = takeWhile (is_base_digit 16) t
      in if ds = [] then NaN else Num (sg * int (digits_val 16 ds)))"

subsection \<open>Splitting\<close>

lemma find_prefix_bound:
  assumes "find_suffix (is_prefix p) xs = Some i"
  shows "i + length p \<le> length xs"
proof -
  have "take (length p) (drop i xs) = p" and "i \<le> length xs"
    using find_suffix_Some[OF assms] by (auto simp: is_prefix_def)
  then have "min (length xs - i) (length p) = length p"
    by (metis length_drop length_take min.commute)
  then show ?thesis using \<open>i \<le> length xs\<close> by linarith
qed

function js_split :: "'a list \<Rightarrow> 'a list \<Rightarrow> 'a list list" where
  "js_split sep xs =
     (if sep = [] then map (\<lambda>x. [x]) xs
      else case find_suffix (is_prefix sep) xs of
             None \<Rightarrow> [xs]
           | Some i \<Rightarrow> take i xs # js_split sep (drop (i + length sep) xs))"
  by pat_completeness auto
termination
  by (relation "measure (\<lambda>(sep, xs). length xs)")
    (auto dest!: find_prefix_bound intro: diff_less)

declare js_split.simps [simp del]

lemma js_split_nonempty: "sep \<noteq> [] \<Longrightarrow> js_split sep xs \<noteq> []"
  by (subst js_split.simps) (simp split: option.split)

subsection \<open>The UTF-8 codecs\<close>

text \<open>
  The decoder of the Encoding standard, as \<open>new TextDecoder().decode\<close> runs it: an ill-formed
  sequence becomes U+FFFD, and a byte that breaks a sequence is read again as a first byte.
  \<open>utf8_lead b\<close> is the effect of a first byte: code points emitted, partial code point, bytes
  still needed, and the range of the next byte.
\<close>

definition utf8_lead :: "nat \<Rightarrow> nat list \<times> nat \<times> nat \<times> nat \<times> nat" where
  "utf8_lead b =
     (if b < 0x80 then ([b], 0, 0, 0x80, 0xBF)
      else if 0xC2 \<le> b \<and> b \<le> 0xDF then ([], b mod 32, 1, 0x80, 0xBF)
      else if 0xE0 \<le> b \<and> b \<le> 0xEF then
        ([], b mod 16, 2, (if b = 0xE0 then 0xA0 else 0x80), (if b = 0xED then 0x9F else 0xBF))
      else if 0xF0 \<le> b \<and> b \<le> 0xF4 then
        ([], b mod 8, 3, (if b = 0xF0 then 0x90 else 0x80), (if b = 0xF4 then 0x8F else 0xBF))
      else ([0xFFFD], 0, 0, 0x80, 0xBF))"

fun utf8_points :: "nat \<Rightarrow> nat \<Rightarrow> nat \<Rightarrow> nat \<Rightarrow> nat list \<Rightarrow> nat list" where
  "utf8_points cp need lo hi [] = (if need = 0 then [] else [0xFFFD])"
| "utf8_points cp need lo hi (b # bs) =
     (if need = 0 \<or> b < lo \<or> hi < b then
        (let (out, cp', need', lo', hi') = utf8_lead b
         in (if need = 0 then [] else [0xFFFD]) @ out @ utf8_points cp' need' lo' hi' bs)
      else
        (let cp' = cp * 64 + b mod 64
         in if need = 1 then cp' # utf8_points 0 0 0x80 0xBF bs
            else utf8_points cp' (need - 1) 0x80 0xBF bs))"

definition utf16_of_point :: "nat \<Rightarrow> jsstring" where
  "utf16_of_point p =
     (if p < 0x10000 then [of_nat p]
      else [of_nat (0xD800 + (p - 0x10000) div 0x400), of_nat (0xDC00 + (p - 0x10000) mod 0x400)])"

definition text_decode :: "bytes \<Rightarrow> jsstring" where
  "text_decode bs =
     (let bs' = (if is_prefix [0xEF, 0xBB, 0xBF] bs then drop 3 bs else bs)
      in concat (map utf16_of_point (utf8_points 0 0 0x80 0xBF (map unat bs'))))"

text \<open>The encoder: lone surrogates become U+FFFD.\<close>

fun utf16_points :: "nat list \<Rightarrow> nat list" where
  "utf16_points [] = []"
| "utf16_points (u # us) =
     (if 0xD800 \<le> u \<and> u \<le> 0xDBFF then
        (case us of
           v # vs \<Rightarrow> (if 0xDC00 \<le> v \<and> v \<le> 0xDFFF
                      then (0x10000 + (u - 0xD800) * 0x400 + (v - 0xDC00)) # utf16_points vs
                      else 0xFFFD # utf16_points us)
         | [] \<Rightarrow> 0xFFFD # utf16_points us)
      else if 0xDC00 \<le> u \<and> u \<le> 0xDFFF then 0xFFFD # utf16_points us
      else u # utf16_points us)"

definition utf8_of_point :: "nat \<Rightarrow> bytes" where
  "utf8_of_point p =
     (if p < 0x80 then [of_nat p]
      else if p < 0x800 then [of_nat (0xC0 + p div 64), of_nat (0x80 + p mod 64)]
      else if p < 0x10000 then
        [of_nat (0xE0 + p div 4096), of_nat (0x80 + (p div 64) mod 64), of_nat (0x80 + p mod 64)]
      else [of_nat (0xF0 + p div 262144), of_nat (0x80 + (p div 4096) mod 64),
            of_nat (0x80 + (p div 64) mod 64), of_nat (0x80 + p mod 64)])"

definition text_encode :: "jsstring \<Rightarrow> bytes" where
  "text_encode s = concat (map utf8_of_point (utf16_points (map unat s)))"

text \<open>On ASCII both codecs are the identity on codes.\<close>

definition ascii_bytes :: "bytes \<Rightarrow> bool" where
  "ascii_bytes bs \<longleftrightarrow> list_all (\<lambda>b. unat b < 128) bs"

definition ascii_string :: "jsstring \<Rightarrow> bool" where
  "ascii_string s \<longleftrightarrow> list_all (\<lambda>c. unat c < 128) s"

lemma utf8_points_ascii: "list_all (\<lambda>b. b < 128) bs \<Longrightarrow> utf8_points 0 0 0x80 0xBF bs = bs"
  by (induction bs) (auto simp: utf8_lead_def)

lemma of_nat_unat_ucast: "of_nat (unat (b :: byte)) = (ucast b :: 16 word)"
  by (rule of_nat_unat)

lemma text_decode_ascii:
  assumes "ascii_bytes bs"
  shows "text_decode bs = map ucast bs"
proof -
  have small: "\<forall>b \<in> set bs. unat b < 128"
    using assms by (simp add: ascii_bytes_def list_all_iff)
  have "\<not> is_prefix [0xEF, 0xBB, 0xBF] bs"
  proof (cases bs)
    case (Cons b bs')
    then have "unat b < 128" using small by simp
    then have "b \<noteq> 0xEF" by auto
    then show ?thesis using Cons by (auto simp: is_prefix_def)
  qed (simp add: is_prefix_def)
  moreover have "utf8_points 0 0 0x80 0xBF (map unat bs) = map unat bs"
    using small by (intro utf8_points_ascii) (simp add: list_all_iff)
  moreover have "concat (map utf16_of_point (map unat bs)) = map ucast bs"
    using small by (induction bs) (simp_all add: utf16_of_point_def of_nat_unat_ucast)
  ultimately show ?thesis by (simp add: text_decode_def)
qed

lemma utf16_points_ascii: "list_all (\<lambda>u. u < 128) us \<Longrightarrow> utf16_points us = us"
  by (induction us) auto

lemma text_encode_ascii:
  assumes "ascii_string s"
  shows "text_encode s = map ucast s"
proof -
  have small: "\<forall>c \<in> set s. unat c < 128"
    using assms by (simp add: ascii_string_def list_all_iff)
  then have "utf16_points (map unat s) = map unat s"
    by (intro utf16_points_ascii) (simp add: list_all_iff)
  moreover have "concat (map utf8_of_point (map unat s)) = map ucast s"
    using small by (induction s) (simp_all add: utf8_of_point_def)
  ultimately show ?thesis by (simp add: text_encode_def)
qed

text \<open>The encoding of a concatenation, when no surrogate pair is cut.\<close>

lemma utf16_points_append:
  "us = [] \<or> vs = [] \<or> last us < 0xD800 \<or> hd vs < 0xDC00 \<Longrightarrow>
     utf16_points (us @ vs) = utf16_points us @ utf16_points vs"
proof (induction us rule: utf16_points.induct)
  case (2 u us)
  show ?case
  proof (cases us)
    case Nil
    then show ?thesis using 2 by (cases vs) (auto simp: not_less)
  next
    case (Cons v ws)
    have "ws = [] \<or> vs = [] \<or> last ws < 0xD800 \<or> hd vs < 0xDC00" using "2.prems" Cons by auto
    moreover have "us = [] \<or> vs = [] \<or> last us < 0xD800 \<or> hd vs < 0xDC00" using "2.prems" Cons by auto
    ultimately show ?thesis using "2.IH" Cons by auto
  qed
qed simp

lemma text_encode_append:
  assumes "a = [] \<or> b = [] \<or> unat (last a) < 0xD800 \<or> unat (hd b) < 0xDC00"
  shows "text_encode (a @ b) = text_encode a @ text_encode b"
proof (cases "a = [] \<or> b = []")
  case True
  then show ?thesis by (auto simp: text_encode_def)
next
  case False
  then have "utf16_points (map unat a @ map unat b) = utf16_points (map unat a) @ utf16_points (map unat b)"
    using assms by (intro utf16_points_append) (auto simp: last_map hd_map)
  then show ?thesis by (simp add: text_encode_def)
qed

text \<open>The encoding is at least as long as the string, and longer beyond ASCII.\<close>

lemma length_utf8: "length (utf8_of_point p) = (if p < 0x80 then 1 else if p < 0x800 then 2 else if p < 0x10000 then 3 else 4)"
  by (simp add: utf8_of_point_def)

lemma utf16_cases:
  obtains (pair) v vs where "us = v # vs" "utf16_points (u # us) = (0x10000 + (u - 0xD800) * 0x400 + (v - 0xDC00)) # utf16_points vs"
  | (lone) "utf16_points (u # us) = 0xFFFD # utf16_points us"
  | (plain) "utf16_points (u # us) = u # utf16_points us"
  using utf16_points.simps(2)[of u us]
  by (cases us) (auto simp del: utf16_points.simps split: if_splits)

lemma encoded_length:
  "length us \<le> length (concat (map utf8_of_point (utf16_points us)))
   \<and> (list_ex (\<lambda>u. 0x80 \<le> u) us \<longrightarrow> length us < length (concat (map utf8_of_point (utf16_points us))))"
proof (induction us rule: measure_induct_rule[where f = length])
  case (less us0)
  show ?case
  proof (cases us0)
    case (Cons u us)
    show ?thesis
    proof (cases rule: utf16_cases[of us u])
      case (pair v vs)
      have "length (utf8_of_point (0x10000 + (u - 0xD800) * 0x400 + (v - 0xDC00))) = 4" by (simp add: length_utf8)
      moreover have "length vs \<le> length (concat (map utf8_of_point (utf16_points vs)))"
        using less[of vs] Cons pair(1) by simp
      ultimately show ?thesis using Cons pair by simp
    next
      case lone
      have "length (utf8_of_point 0xFFFD) = 3" by (simp add: length_utf8)
      moreover have "length us \<le> length (concat (map utf8_of_point (utf16_points us)))"
        using less[of us] Cons by simp
      ultimately show ?thesis using Cons lone by simp
    next
      case plain
      have "1 \<le> length (utf8_of_point u)" "0x80 \<le> u \<Longrightarrow> 2 \<le> length (utf8_of_point u)"
        by (simp_all add: length_utf8)
      then show ?thesis using less[of us] Cons plain by auto
    qed
  qed simp
qed

lemma length_text_encode:
  "length s \<le> length (text_encode s)"
  "\<not> ascii_string s \<Longrightarrow> length s < length (text_encode s)"
  using encoded_length[of "map unat s"]
  by (auto simp: text_encode_def ascii_string_def list_all_iff list_ex_iff not_less)

text \<open>\<open>String.fromCharCode\<close> byte by byte.\<close>

definition binary_str :: "bytes \<Rightarrow> jsstring" where
  "binary_str bs = map ucast bs"

subsection \<open>The TLS package\<close>

text \<open>
  The three byte helpers, the record-type and content-type numbers, and the length of the fixed
  IV of a cipher suite (\<open>SUPPORTED_CIPHER_SUITE_MAP[suite].ivLength\<close>).
\<close>

record tls_pkg =
  concatenateUint8Arrays :: "bytes list \<Rightarrow> bytes"
  areUint8ArraysEqual :: "bytes \<Rightarrow> bytes \<Rightarrow> bool"
  strToUint8Array :: "jsstring \<Rightarrow> bytes"
  PT_HELLO :: byte
  PT_CHANGE_CIPHER_SPEC :: byte
  PT_WRAPPED_RECORD :: byte
  CT_APPLICATION_DATA :: byte
  CT_HANDSHAKE :: byte
  fixedIvLength :: "jsstring \<Rightarrow> int"

definition tls_bytes_spec :: "tls_pkg \<Rightarrow> bool" where
  "tls_bytes_spec L \<longleftrightarrow>
     (\<forall>bss. concatenateUint8Arrays L bss = concat bss)
     \<and> (\<forall>a b. areUint8ArraysEqual L a b = (a = b))
     \<and> (\<forall>s. strToUint8Array L s = text_encode s)"

lemma tls_bytes_specD:
  assumes "tls_bytes_spec L"
  shows "concatenateUint8Arrays L bss = concat bss"
    and "areUint8ArraysEqual L a b = (a = b)"
    and "strToUint8Array L s = text_encode s"
  using assms by (simp_all add: tls_bytes_spec_def)

text \<open>An instance that meets the specification, on which the witnesses run.\<close>

definition tls_ref :: tls_pkg where
  "tls_ref = \<lparr>concatenateUint8Arrays = concat, areUint8ArraysEqual = (=),
     strToUint8Array = text_encode,
     PT_HELLO = 0x16, PT_CHANGE_CIPHER_SPEC = 0x14, PT_WRAPPED_RECORD = 0x17,
     CT_APPLICATION_DATA = 0x17, CT_HANDSHAKE = 0x16,
     fixedIvLength = (\<lambda>s. if js_includes s (js ''GCM'') \<and> js_includes s (js ''ECDHE'') then 4 else 12)\<rparr>"

lemma tls_ref_spec: "tls_bytes_spec tls_ref"
  by (simp add: tls_bytes_spec_def tls_ref_def)

lemma tls_ref_simps [simp]:
  "concatenateUint8Arrays tls_ref = concat"
  "areUint8ArraysEqual tls_ref = (=)"
  "strToUint8Array tls_ref = text_encode"
  by (simp_all add: tls_ref_def)

end
