(* ===== verification/Attestor_Error.thy ===== *)
theory Attestor_Error
  imports Js_Text
begin

text \<open>
  Errors (\<open>src/utils/error.ts\<close>, with the \<open>ErrorCode\<close> enum and the \<open>ErrorData\<close> message of
  \<open>src/proto/api.ts\<close>) and the retry loop (\<open>src/utils/retries.ts\<close> with the retry policy of
  \<open>src/client/create-claim.ts\<close>).

  A thrown value is a \<open>js_error\<close>. A message is its constant text; values the source splices
  into it for the reader are left out. JSON values are a datatype, and \<open>JSON.parse\<close> and
  \<open>JSON.stringify\<close> are arguments, with their round trip as a named hypothesis.
\<close>

subsection \<open>JSON values\<close>

datatype json =
    JNull
  | JBool bool
  | JNum int
  | JStr jsstring
  | JArr "json list"
  | JObj "(jsstring \<times> json) list"

record json_lib =
  JSON_parse :: "jsstring \<Rightarrow> json option"
  JSON_stringify :: "json \<Rightarrow> jsstring"

text \<open>A value that survives the trip (not all do: a duplicate key, for one, does not).\<close>

definition json_roundtrip :: "json_lib \<Rightarrow> json \<Rightarrow> bool" where
  "json_roundtrip J j \<longleftrightarrow> JSON_parse J (JSON_stringify J j) = Some j \<and> JSON_stringify J j \<noteq> []"

subsection \<open>Error codes\<close>

datatype ErrorCode =
    ERROR_NO_ERROR
  | ERROR_INTERNAL
  | ERROR_BAD_REQUEST
  | ERROR_NOT_FOUND
  | ERROR_PROXY_ERROR
  | ERROR_INVALID_CLAIM
  | ERROR_NETWORK_ERROR
  | ERROR_PAYMENT_REFUSED
  | ERROR_BGP_ANNOUNCEMENT_OVERLAP
  | ERROR_AUTHENTICATION_FAILED
  | ERROR_TIMEOUT
  | ERROR_TOPRF_OUT_OF_BOUNDS
  | UNRECOGNIZED

text \<open>\<open>ErrorCode[name]\<close> is the number of a name, \<open>ErrorCode[n]\<close> the name of a number, or
  \<open>undefined\<close> for a number outside the enum.\<close>

fun ErrorCode_num :: "ErrorCode \<Rightarrow> int" where
  "ErrorCode_num ERROR_NO_ERROR = 0"
| "ErrorCode_num ERROR_INTERNAL = 1"
| "ErrorCode_num ERROR_BAD_REQUEST = 2"
| "ErrorCode_num ERROR_NOT_FOUND = 3"
| "ErrorCode_num ERROR_PROXY_ERROR = 4"
| "ErrorCode_num ERROR_INVALID_CLAIM = 5"
| "ErrorCode_num ERROR_NETWORK_ERROR = 6"
| "ErrorCode_num ERROR_PAYMENT_REFUSED = 7"
| "ErrorCode_num ERROR_BGP_ANNOUNCEMENT_OVERLAP = 8"
| "ErrorCode_num ERROR_AUTHENTICATION_FAILED = 9"
| "ErrorCode_num ERROR_TIMEOUT = 10"
| "ErrorCode_num ERROR_TOPRF_OUT_OF_BOUNDS = 11"
| "ErrorCode_num UNRECOGNIZED = -1"

definition ErrorCode_name :: "int \<Rightarrow> ErrorCode option" where
  "ErrorCode_name n =
     (if n = 0 then Some ERROR_NO_ERROR
      else if n = 1 then Some ERROR_INTERNAL
      else if n = 2 then Some ERROR_BAD_REQUEST
      else if n = 3 then Some ERROR_NOT_FOUND
      else if n = 4 then Some ERROR_PROXY_ERROR
      else if n = 5 then Some ERROR_INVALID_CLAIM
      else if n = 6 then Some ERROR_NETWORK_ERROR
      else if n = 7 then Some ERROR_PAYMENT_REFUSED
      else if n = 8 then Some ERROR_BGP_ANNOUNCEMENT_OVERLAP
      else if n = 9 then Some ERROR_AUTHENTICATION_FAILED
      else if n = 10 then Some ERROR_TIMEOUT
      else if n = 11 then Some ERROR_TOPRF_OUT_OF_BOUNDS
      else if n = -1 then Some UNRECOGNIZED
      else None)"

lemma ErrorCode_name_num [simp]: "ErrorCode_name (ErrorCode_num c) = Some c"
  by (cases c) (simp_all add: ErrorCode_name_def)

subsection \<open>AttestorError\<close>

type_synonym message = string

text \<open>\<open>ae_code\<close> is \<open>None\<close> where the source's is \<open>undefined\<close>.\<close>

record attestor_error =
  ae_code :: "ErrorCode option"
  ae_message :: message
  ae_data :: "json option"

record ErrorData =
  ed_code :: int
  ed_message :: message
  ed_data :: jsstring

datatype js_error =
    AttestorErr attestor_error
  | PlainError message
  | JsTypeError message
  | JsRangeError message
  | JsSyntaxError message

fun error_message :: "js_error \<Rightarrow> message" where
  "error_message (AttestorErr e) = ae_message e"
| "error_message (PlainError m) = m"
| "error_message (JsTypeError m) = m"
| "error_message (JsRangeError m) = m"
| "error_message (JsSyntaxError m) = m"

text \<open>\<open>new AttestorError(code, message, data)\<close>\<close>

definition AttestorError :: "ErrorCode \<Rightarrow> message \<Rightarrow> json option \<Rightarrow> attestor_error" where
  "AttestorError c m d = \<lparr>ae_code = Some c, ae_message = m, ae_data = d\<rparr>"

lemma AttestorError_simps [simp]:
  "ae_code (AttestorError c m d) = Some c"
  "ae_message (AttestorError c m d) = m"
  "ae_data (AttestorError c m d) = d"
  by (simp_all add: AttestorError_def)

definition throwAttestor :: "ErrorCode \<Rightarrow> message \<Rightarrow> js_error" where
  "throwAttestor c m = AttestorErr (AttestorError c m None)"

definition badRequest :: "message \<Rightarrow> json option \<Rightarrow> attestor_error" where
  "badRequest m d = AttestorError ERROR_BAD_REQUEST m d"

definition throwBadRequest :: "message \<Rightarrow> js_error" where
  "throwBadRequest m = AttestorErr (badRequest m None)"

text \<open>\<open>toProto\<close>; \<open>ErrorData.create\<close> fills 0 and the empty string for absent fields.\<close>

definition toProto :: "json_lib \<Rightarrow> attestor_error \<Rightarrow> ErrorData" where
  "toProto J e =
     \<lparr>ed_code = (case ae_code e of None \<Rightarrow> 0 | Some c \<Rightarrow> ErrorCode_num c),
      ed_message = ae_message e,
      ed_data = (case ae_data e of None \<Rightarrow> [] | Some d \<Rightarrow> JSON_stringify J d)\<rparr>"

text \<open>\<open>fromProto(data = ErrorData.fromJSON({}))\<close>: \<open>None\<close> is a missing argument.\<close>

definition default_ErrorData :: ErrorData where
  "default_ErrorData = \<lparr>ed_code = 0, ed_message = [], ed_data = []\<rparr>"

definition fromProto :: "json_lib \<Rightarrow> ErrorData option \<Rightarrow> js_error + attestor_error" where
  "fromProto J od =
     (let d = (case od of None \<Rightarrow> default_ErrorData | Some d \<Rightarrow> d) in
      if ed_data d = [] then
        Inr \<lparr>ae_code = ErrorCode_name (ed_code d), ae_message = ed_message d, ae_data = None\<rparr>
      else
        (case JSON_parse J (ed_data d) of
           None \<Rightarrow> Inl (JsSyntaxError ''JSON.parse'')
         | Some j \<Rightarrow>
             Inr \<lparr>ae_code = ErrorCode_name (ed_code d), ae_message = ed_message d, ae_data = Some j\<rparr>))"

fun fromError :: "js_error \<Rightarrow> attestor_error" where
  "fromError (AttestorErr e) = e"
| "fromError err = AttestorError ERROR_INTERNAL (error_message err) None"

lemma fromError_code: "(\<And>e. err \<noteq> AttestorErr e) \<Longrightarrow> ae_code (fromError err) = Some ERROR_INTERNAL"
  by (cases err) auto

text \<open>An error that was constructed with a code survives the trip over the wire.\<close>

lemma fromProto_toProto:
  assumes "\<forall>d. ae_data e = Some d \<longrightarrow> json_roundtrip J d" and "ae_code e = Some c"
  shows "fromProto J (Some (toProto J e)) = Inr e"
  using assms by (simp add: fromProto_def toProto_def json_roundtrip_def Let_def split: option.split)

text \<open>An error whose code is \<open>undefined\<close> is sent as \<open>ERROR_NO_ERROR\<close>.\<close>

lemma toProto_undefined_code: "ae_code e = None \<Longrightarrow> ed_code (toProto J e) = ErrorCode_num ERROR_NO_ERROR"
  by (simp add: toProto_def)

subsection \<open>The retry loop\<close>

text \<open>
  \<open>executeWithRetries\<close>: \<open>run k\<close> is the outcome of the call \<open>code(k)\<close>. The loop variable only
  grows, so the distance to \<open>maxRetries\<close> decreases.
\<close>

function executeWithRetries ::
  "(nat \<Rightarrow> js_error + 'a) \<Rightarrow> (js_error \<Rightarrow> bool) \<Rightarrow> nat \<Rightarrow> nat \<Rightarrow> js_error + 'a" where
  "executeWithRetries run shouldRetry maxRetries retries =
     (if retries < maxRetries then
        (case run retries of
           Inr result \<Rightarrow> Inr result
         | Inl err \<Rightarrow>
             (if maxRetries \<le> retries + 1 then Inl err
              else if \<not> shouldRetry err then Inl err
              else executeWithRetries run shouldRetry maxRetries (retries + 1)))
      else Inl (PlainError ''retries exhausted''))"
  by pat_completeness auto
termination
  by (relation "measure (\<lambda>(run, sr, m, r). m - r)") auto

declare executeWithRetries.simps [simp del]

text \<open>\<open>'includes'\<close> on error messages.\<close>

definition msg_includes :: "message \<Rightarrow> message \<Rightarrow> bool" where
  "msg_includes m p = js_includes m p"

text \<open>\<open>shouldRetry\<close> of \<open>create-claim.ts\<close>\<close>

fun shouldRetry :: "js_error \<Rightarrow> bool" where
  "shouldRetry (JsTypeError m) = False"
| "shouldRetry (AttestorErr e) =
     (msg_includes (ae_message e) ''stream ended before''
      \<or> (ae_code e \<noteq> Some ERROR_INVALID_CLAIM
          \<and> ae_code e \<noteq> Some ERROR_BAD_REQUEST
          \<and> ae_code e \<noteq> Some ERROR_AUTHENTICATION_FAILED
          \<and> ae_code e \<noteq> Some ERROR_TOPRF_OUT_OF_BOUNDS))"
| "shouldRetry err = msg_includes (error_message err) ''stream ended before''"

text \<open>All attempts before \<open>k\<close> failed with an error that is retried.\<close>

definition retried_before :: "(nat \<Rightarrow> js_error + 'a) \<Rightarrow> (js_error \<Rightarrow> bool) \<Rightarrow> nat \<Rightarrow> nat \<Rightarrow> bool" where
  "retried_before run sr r k \<longleftrightarrow> (\<forall>j. r \<le> j \<longrightarrow> j < k \<longrightarrow> (\<exists>e. run j = Inl e \<and> sr e))"

lemma retried_before_Suc:
  assumes "r < k"
  shows "retried_before run sr r k \<longleftrightarrow> (\<exists>e. run r = Inl e \<and> sr e) \<and> retried_before run sr (r + 1) k"
proof -
  have "r \<le> j \<longleftrightarrow> j = r \<or> r + 1 \<le> j" for j by auto
  then show ?thesis using assms by (auto simp: retried_before_def)
qed

lemma retried_before_refl [simp]: "retried_before run sr r r"
  by (simp add: retried_before_def)

lemma retried_before_Inr: "run r = Inr x \<Longrightarrow> r \<le> k \<Longrightarrow> retried_before run sr r k \<Longrightarrow> k = r"
  using retried_before_Suc[of r k run sr] by (cases "r = k") auto

lemma executeWithRetries_Inr:
  "executeWithRetries run sr m r = Inr v
   \<longleftrightarrow> (\<exists>k. r \<le> k \<and> k < m \<and> run k = Inr v \<and> retried_before run sr r k)"
proof (induction run sr m r rule: executeWithRetries.induct)
  case (1 run sr m r)
  show ?case
  proof (cases "r < m")
    case False
    then show ?thesis by (subst executeWithRetries.simps) auto
  next
    case True
    show ?thesis
    proof (cases "run r")
      case (Inr x)
      have "executeWithRetries run sr m r = Inr x"
        using True Inr by (simp add: executeWithRetries.simps[of run sr m r])
      moreover have "(\<exists>k. r \<le> k \<and> k < m \<and> run k = Inr v \<and> retried_before run sr r k) \<longleftrightarrow> x = v"
        using True Inr retried_before_Inr[where run = run and r = r] by (metis le_refl retried_before_refl sum.inject(2))
      ultimately show ?thesis by simp
    next
      case (Inl e)
      show ?thesis
      proof (cases "m \<le> r + 1 \<or> \<not> sr e")
        case True
        have "\<not> (\<exists>k. r \<le> k \<and> k < m \<and> run k = Inr v \<and> retried_before run sr r k)"
        proof
          assume "\<exists>k. r \<le> k \<and> k < m \<and> run k = Inr v \<and> retried_before run sr r k"
          then obtain k where k: "r \<le> k" "k < m" "run k = Inr v" "retried_before run sr r k" by blast
          then have "r < k" using Inl by (cases "r = k") auto
          with k True Inl retried_before_Suc[of r k run sr] show False by auto
        qed
        moreover have "executeWithRetries run sr m r = Inl e"
          using \<open>r < m\<close> Inl True by (auto simp: executeWithRetries.simps[of run sr m r])
        ultimately show ?thesis by simp
      next
        case False
        have "(\<exists>k. r + 1 \<le> k \<and> k < m \<and> run k = Inr v \<and> retried_before run sr (r + 1) k)
              \<longleftrightarrow> (\<exists>k. r \<le> k \<and> k < m \<and> run k = Inr v \<and> retried_before run sr r k)"
          (is "?A \<longleftrightarrow> ?B")
        proof
          assume ?A
          then obtain k where k: "r + 1 \<le> k" "k < m" "run k = Inr v"
            "retried_before run sr (r + 1) k" by blast
          then have "retried_before run sr r k"
            using False Inl retried_before_Suc[of r k run sr] by simp
          with k show ?B by (intro exI[of _ k]) simp
        next
          assume ?B
          then obtain k where k: "r \<le> k" "k < m" "run k = Inr v" "retried_before run sr r k" by blast
          then have "r < k" using Inl by (cases "r = k") auto
          then have "retried_before run sr (r + 1) k"
            using k retried_before_Suc[of r k run sr] by simp
          with k \<open>r < k\<close> show ?A by (intro exI[of _ k]) simp
        qed
        moreover have "executeWithRetries run sr m r = executeWithRetries run sr m (r + 1)"
          using \<open>r < m\<close> Inl False by (simp add: executeWithRetries.simps[of run sr m r])
        ultimately show ?thesis using "1.IH"[OF \<open>r < m\<close> Inl] False by simp
      qed
    qed
  qed
qed

lemma executeWithRetries_Inl:
  assumes "executeWithRetries run sr m r = Inl e" and "r < m"
  shows "\<exists>k. r \<le> k \<and> k < m \<and> run k = Inl e \<and> (Suc k = m \<or> \<not> sr e) \<and> retried_before run sr r k"
  using assms
proof (induction run sr m r rule: executeWithRetries.induct)
  case (1 run sr m r)
  obtain e0 where e0: "run r = Inl e0"
    using "1.prems" by (cases "run r") (auto simp: executeWithRetries.simps[of run sr m r])
  show ?case
  proof (cases "m \<le> r + 1 \<or> \<not> sr e0")
    case True
    then have "e0 = e"
      using "1.prems" e0 by (auto simp: executeWithRetries.simps[of run sr m r] split: if_splits)
    then show ?thesis using True "1.prems"(2) e0 by (intro exI[of _ r]) auto
  next
    case False
    then have "executeWithRetries run sr m (r + 1) = Inl e"
      using "1.prems" e0 by (simp add: executeWithRetries.simps[of run sr m r])
    with "1.IH"[OF "1.prems"(2) e0] False
    obtain k where "r + 1 \<le> k" "k < m" "run k = Inl e" "Suc k = m \<or> \<not> sr e"
      "retried_before run sr (r + 1) k" by auto
    then show ?thesis using False e0 retried_before_Suc[of r k run sr] by (intro exI[of _ k]) auto
  qed
qed

subsection \<open>Properties\<close>

text \<open>The attempts with which a loop of \<open>m\<close> attempts may end: at most one.\<close>

definition ends_with :: "(nat \<Rightarrow> js_error + 'a) \<Rightarrow> (js_error \<Rightarrow> bool) \<Rightarrow> nat \<Rightarrow> nat \<Rightarrow> bool" where
  "ends_with run sr m k \<longleftrightarrow> k < m \<and> retried_before run sr 0 k
     \<and> (is_ok (run k) \<or> Suc k = m \<or> (\<exists>e. run k = Inl e \<and> \<not> sr e))"

lemma ends_with_later:
  assumes "ends_with run sr m k" and "ends_with run sr m k'"
  shows "\<not> k < k'"
proof
  assume less: "k < k'"
  then have "\<exists>e. run k = Inl e \<and> sr e" using assms(2) by (simp add: ends_with_def retried_before_def)
  moreover have "Suc k < m" using assms(2) less by (simp add: ends_with_def)
  ultimately show False using assms(1) by (auto simp: ends_with_def)
qed

lemma ends_with_unique: "ends_with run sr m k \<Longrightarrow> ends_with run sr m k' \<Longrightarrow> k = k'"
  using ends_with_later[of run sr m k k'] ends_with_later[of run sr m k' k] by simp

lemma executeWithRetries_ends:
  assumes "0 < m"
  obtains k where "ends_with run sr m k" and "executeWithRetries run sr m 0 = run k"
proof (cases "executeWithRetries run sr m 0")
  case (Inl e)
  then obtain k where "k < m" "run k = Inl e" "Suc k = m \<or> \<not> sr e" "retried_before run sr 0 k"
    using executeWithRetries_Inl[OF Inl assms] by blast
  then have "ends_with run sr m k" by (auto simp: ends_with_def)
  then show ?thesis using that Inl \<open>run k = Inl e\<close> by simp
next
  case (Inr v)
  then obtain k where "k < m" "run k = Inr v" "retried_before run sr 0 k" by (auto simp: executeWithRetries_Inr)
  then show ?thesis using that[of k] Inr by (simp add: ends_with_def)
qed

text \<open>\<open>executeWithRetries\<close> ends, and its outcome is the outcome of one attempt \<open>k\<close> below the
  limit: every earlier attempt failed with an error worth a retry, and attempt \<open>k\<close> succeeded, or
  was the last one allowed, or failed with an error that is not worth a retry.\<close>

theorem executeWithRetries_outcome:
  assumes "0 < maxRetries"
  shows "executeWithRetries run sr maxRetries 0 = outcome \<longleftrightarrow>
    (\<exists>k < maxRetries. run k = outcome \<and> retried_before run sr 0 k
       \<and> (is_ok outcome \<or> Suc k = maxRetries \<or> (\<exists>e. outcome = Inl e \<and> \<not> sr e)))"
proof -
  obtain k where k: "ends_with run sr maxRetries k" "executeWithRetries run sr maxRetries 0 = run k"
    by (rule executeWithRetries_ends[OF assms])
  have "(\<exists>k' < maxRetries. run k' = outcome \<and> retried_before run sr 0 k'
       \<and> (is_ok outcome \<or> Suc k' = maxRetries \<or> (\<exists>e. outcome = Inl e \<and> \<not> sr e)))
    \<longleftrightarrow> (\<exists>k'. ends_with run sr maxRetries k' \<and> run k' = outcome)" by (auto simp: ends_with_def)
  then show ?thesis using k ends_with_unique by metis
qed

theorem executeWithRetries_outcome_witness:
  "executeWithRetries (\<lambda>k. if k = 2 then Inr 7 else Inl (PlainError ''net'')) (\<lambda>_. True) 3 0 = Inr (7::int)"
  using executeWithRetries_outcome[of 3 "\<lambda>k. if k = 2 then Inr 7 else Inl (PlainError ''net'')" "\<lambda>_. True" "Inr (7::int)"]
  by (auto simp: retried_before_def)

text \<open>An \<open>AttestorError\<close> survives the trip over the wire, code, message and data, exactly when
  its code is not \<open>undefined\<close> (an undefined code arrives as \<open>ERROR_NO_ERROR\<close>).\<close>

theorem error_wire_roundtrip:
  assumes "\<forall>d. ae_data e = Some d \<longrightarrow> json_roundtrip J d"
  shows "fromProto J (Some (toProto J e)) = Inr e \<longleftrightarrow> ae_code e \<noteq> None"
proof (cases "ae_code e")
  case None
  then have "fromProto J (Some (toProto J e)) \<noteq> Inr e"
    by (cases e) (auto simp: fromProto_def toProto_def ErrorCode_name_def Let_def split: option.splits)
  then show ?thesis using None by simp
next
  case (Some c)
  then show ?thesis using fromProto_toProto[OF assms] by simp
qed

theorem error_wire_roundtrip_witness:
  "fromProto \<lparr>JSON_parse = \<lambda>_. Some (JBool True), JSON_stringify = \<lambda>_. js ''true''\<rparr>
     (Some (toProto \<lparr>JSON_parse = \<lambda>_. Some (JBool True), JSON_stringify = \<lambda>_. js ''true''\<rparr>
        (badRequest ''bad'' (Some (JBool True))))) = Inr (badRequest ''bad'' (Some (JBool True)))"
  using error_wire_roundtrip[of "badRequest ''bad'' (Some (JBool True))"
    "\<lparr>JSON_parse = \<lambda>_. Some (JBool True), JSON_stringify = \<lambda>_. js ''true''\<rparr>"]
  by (simp add: json_roundtrip_def badRequest_def js_def)

end
