(* ===== verification/Generics.thy ===== *)
theory Generics
  imports Attestor_Error
begin

text \<open>
  The shared helpers of \<open>src/utils/generics.ts\<close>: searching bytes, cutting TLS records, naming
  RPC messages, and extracting the application data and the handshake from a decrypted
  transcript. \<open>take_line\<close> is the body of the two \<open>getLine\<close> closures of
  \<open>src/utils/http-parser.ts\<close>, which differ only in the byte counter; the locale
  \<open>line_source\<close> is what their callers rely on.
\<close>

subsection \<open>Transcripts and packets\<close>

datatype sender = Client | Server

type_synonym 'a Transcript = "(sender \<times> 'a) list"

datatype TLSProtocolVersion = TLS1_2 | TLS1_3

datatype packet_type = PlaintextPacket | CiphertextPacket

record CompleteTLSPacket =
  pkt_type :: packet_type
  contentType :: "jsstring option"
  pkt_data :: bytes
  pkt_plaintext :: bytes
  pkt_ciphertext :: bytes
  pkt_iv :: bytes
  pkt_fixedIv :: bytes
  pkt_recordNumber :: int
  pkt_encKey :: bytes

record IDecryptedTranscriptMessage =
  dm_sender :: sender
  redacted :: bool
  dm_message :: bytes
  plaintextLength :: nat
  recordHeader :: bytes

subsection \<open>Searching\<close>

definition findIndexInUint8Array :: "tls_pkg \<Rightarrow> bytes \<Rightarrow> bytes \<Rightarrow> int" where
  "findIndexInUint8Array L haystack needle =
     (case List.find (\<lambda>i. areUint8ArraysEqual L (js_slice haystack (int i) (int i + int (length needle))) needle)
             [0..<length haystack] of
        Some i \<Rightarrow> int i
      | None \<Rightarrow> -1)"

definition occurs_at :: "'a list \<Rightarrow> 'a list \<Rightarrow> nat \<Rightarrow> bool" where
  "occurs_at xs p i \<longleftrightarrow> take (length p) (drop i xs) = p"

lemma slice_occurs: "js_slice xs (int i) (int i + int (length p)) = p \<longleftrightarrow> occurs_at xs p i"
  by (simp add: occurs_at_def js_slices nat_add_distrib)

lemma find_upt_Some:
  "List.find P [0..<n] = Some i \<longleftrightarrow> i < n \<and> P i \<and> (\<forall>j<i. \<not> P j)"
  by (auto simp: find_Some_iff)

lemma findIndex_Some:
  assumes "tls_bytes_spec L"
  shows "findIndexInUint8Array L h n = int i
         \<longleftrightarrow> i < length h \<and> occurs_at h n i \<and> (\<forall>j<i. \<not> occurs_at h n j)"
proof -
  have "a = b" if "occurs_at h n a" "\<forall>j<a. \<not> occurs_at h n j" "occurs_at h n b" "\<forall>j<b. \<not> occurs_at h n j" for a b
    using that by (metis linorder_neqE_nat)
  then show ?thesis
    by (auto simp: findIndexInUint8Array_def tls_bytes_specD[OF assms] slice_occurs find_upt_Some
        find_None_iff split: option.splits)
qed

lemma findIndex_None:
  assumes "tls_bytes_spec L"
  shows "findIndexInUint8Array L h n = -1 \<longleftrightarrow> (\<forall>i<length h. \<not> occurs_at h n i)"
  by (auto simp: findIndexInUint8Array_def tls_bytes_specD[OF assms] slice_occurs find_None_iff
      find_upt_Some split: option.splits)

lemma findIndex_cases:
  obtains "findIndexInUint8Array L h n = -1"
  | i where "findIndexInUint8Array L h n = int i"
  by (cases "List.find (\<lambda>i. areUint8ArraysEqual L (js_slice h (int i) (int i + int (length n))) n)
               [0..<length h]")
    (simp_all add: findIndexInUint8Array_def)

subsection \<open>Lines\<close>

text \<open>
  \<open>getLine\<close>: the text up to the first CRLF, the buffer after it, and the number of bytes
  consumed; nothing when the buffer holds no CRLF.
\<close>

definition take_line :: "tls_pkg \<Rightarrow> bytes \<Rightarrow> (jsstring \<times> bytes \<times> int) option" where
  "take_line L buf =
     (let idx = findIndexInUint8Array L buf CRLF in
      if idx = -1 then None
      else Some (text_decode (js_slice buf 0 idx), js_slice_from buf (idx + 2), idx + 2))"

definition has_crlf :: "bytes \<Rightarrow> bool" where
  "has_crlf buf \<longleftrightarrow> (\<exists>i. i < length buf \<and> occurs_at buf CRLF i)"

lemma take_CRLF: "take (Suc (Suc 0)) ys = [13, 10 :: byte] \<longleftrightarrow> Suc 0 < length ys \<and> ys ! 0 = 13 \<and> ys ! Suc 0 = 10"
  by (cases ys; cases "tl ys") auto

lemma occurs_CRLF: "occurs_at buf CRLF i \<longleftrightarrow> Suc i < length buf \<and> buf ! i = 13 \<and> buf ! Suc i = 10"
  using take_CRLF[of "drop i buf"] by (auto simp: occurs_at_def)

lemma take_line_None:
  assumes "tls_bytes_spec L"
  shows "take_line L buf = None \<longleftrightarrow> \<not> has_crlf buf"
  by (auto simp: take_line_def Let_def findIndex_None[OF assms] has_crlf_def)

lemma take_line_Some:
  assumes L: "tls_bytes_spec L"
  shows "take_line L buf = Some (line, rest, n)
    \<longleftrightarrow> (\<exists>raw. buf = raw @ CRLF @ rest \<and> line = text_decode raw \<and> n = int (length raw) + 2
               \<and> (\<forall>j < length raw. \<not> occurs_at buf CRLF j))"
    (is "?lhs \<longleftrightarrow> ?rhs")
proof
  assume ?lhs
  then obtain i where i: "findIndexInUint8Array L buf CRLF = int i"
    and line: "line = text_decode (take i buf)" and rest: "rest = drop (i + 2) buf"
    and n: "n = int i + 2"
    by (cases rule: findIndex_cases[of L buf CRLF])
      (auto simp: take_line_def Let_def js_slices nat_add_distrib)
  then have "i < length buf" "occurs_at buf CRLF i" and first: "\<forall>j<i. \<not> occurs_at buf CRLF j"
    by (auto simp: findIndex_Some[OF L])
  then have occ: "take 2 (drop i buf) = CRLF" by (simp add: occurs_at_def numeral_2_eq_2)
  have "buf = take i buf @ take 2 (drop i buf) @ drop 2 (drop i buf)"
    by (metis append_take_drop_id)
  then have "buf = take i buf @ CRLF @ rest" using occ rest by (simp add: add.commute)
  moreover have "length (take i buf) = i" using \<open>i < length buf\<close> by simp
  ultimately show ?rhs using line n first by (intro exI[of _ "take i buf"]) auto
next
  assume ?rhs
  then obtain raw where raw: "buf = raw @ CRLF @ rest" "line = text_decode raw"
    "n = int (length raw) + 2" "\<forall>j < length raw. \<not> occurs_at buf CRLF j" by blast
  then have "findIndexInUint8Array L buf CRLF = int (length raw)"
    by (auto simp: findIndex_Some[OF L] occurs_CRLF nth_append)
  then show ?lhs using raw
    by (simp add: take_line_def Let_def js_slices nat_add_distrib)
qed

lemma take_line_shorter:
  assumes "tls_bytes_spec L" and "take_line L buf = Some (line, rest, n)"
  shows "length rest < length buf" and "int (length buf) = int (length rest) + n"
  using assms by (auto simp: take_line_Some)

text \<open>The buffer shrinks whatever the package returns, so the line loops end.\<close>

lemma take_line_decreases:
  assumes "take_line L buf = Some (line, rest, n)"
  shows "length rest < length buf"
proof -
  obtain i where i: "findIndexInUint8Array L buf CRLF = int i"
    using assms by (cases rule: findIndex_cases[of L buf CRLF]) (auto simp: take_line_def Let_def)
  then have "i < length buf"
    by (auto simp: findIndexInUint8Array_def find_upt_Some split: option.splits)
  moreover have "rest = drop (i + 2) buf"
    using assms i by (auto simp: take_line_def Let_def js_slices nat_add_distrib)
  ultimately show ?thesis by simp
qed

text \<open>More bytes at the end do not change a line that is complete.\<close>

lemma take_line_append:
  assumes L: "tls_bytes_spec L" and line: "take_line L buf = Some (line, rest, n)"
  shows "take_line L (buf @ extra) = Some (line, rest @ extra, n)"
proof -
  obtain raw where raw: "buf = raw @ CRLF @ rest" "line = text_decode raw"
    "n = int (length raw) + 2" "\<forall>j < length raw. \<not> occurs_at buf CRLF j"
    using line by (auto simp: take_line_Some[OF L])
  have "\<not> occurs_at (buf @ extra) CRLF j" if "j < length raw" for j
    using raw that by (auto simp: occurs_CRLF nth_append split: if_splits)
  then show ?thesis using raw
    by (auto simp: take_line_Some[OF L] intro!: exI[of _ raw])
qed

text \<open>The same by structural recursion, for evaluation.\<close>

fun split_crlf :: "bytes \<Rightarrow> (bytes \<times> bytes) option" where
  "split_crlf (b # c # bs) =
     (if b = 13 \<and> c = 10 then Some ([], bs)
      else map_option (\<lambda>(raw, rest). (b # raw, rest)) (split_crlf (c # bs)))"
| "split_crlf bs = None"

lemma has_crlf_iff: "has_crlf buf \<longleftrightarrow> (\<exists>i. occurs_at buf CRLF i)"
  unfolding has_crlf_def using occurs_CRLF Suc_lessD by blast

lemma occurs_CRLF_Cons:
  "occurs_at (b # c # bs) CRLF 0 \<longleftrightarrow> b = 13 \<and> c = 10"
  "occurs_at (b # xs) CRLF (Suc j) \<longleftrightarrow> occurs_at xs CRLF j"
  by (auto simp: occurs_CRLF)

lemma split_crlf_None: "split_crlf buf = None \<longleftrightarrow> \<not> has_crlf buf"
proof (induction buf rule: split_crlf.induct)
  case (1 b c bs)
  have "has_crlf (b # c # bs) \<longleftrightarrow> (b = 13 \<and> c = 10) \<or> has_crlf (c # bs)"
    unfolding has_crlf_iff using occurs_CRLF_Cons by (metis not0_implies_Suc)
  with 1 show ?case by auto
qed (auto simp: has_crlf_def occurs_CRLF)

lemma split_crlf_Some:
  "split_crlf buf = Some (raw, rest) \<Longrightarrow>
     buf = raw @ CRLF @ rest \<and> (\<forall>j < length raw. \<not> occurs_at buf CRLF j)"
proof (induction buf arbitrary: raw rest rule: split_crlf.induct)
  case (1 b c bs)
  show ?case
  proof (cases "b = 13 \<and> c = 10")
    case True
    with "1.prems" show ?thesis by auto
  next
    case False
    then obtain raw' where raw': "split_crlf (c # bs) = Some (raw', rest)" "raw = b # raw'"
      using "1.prems" by auto
    have ih: "c # bs = raw' @ CRLF @ rest" "\<forall>j < length raw'. \<not> occurs_at (c # bs) CRLF j"
      using "1.IH"[OF False raw'(1)] by auto
    have "\<not> occurs_at (b # c # bs) CRLF j" if "j < length raw" for j
    proof (cases j)
      case 0
      then show ?thesis using False by (simp only: occurs_CRLF_Cons) simp
    next
      case (Suc i)
      then have "i < length raw'" using that raw' by simp
      then have "\<not> occurs_at (c # bs) CRLF i" using ih(2) by blast
      then show ?thesis unfolding Suc occurs_CRLF_Cons(2) .
    qed
    then show ?thesis using ih raw' by simp
  qed
qed auto

lemma take_line_eval:
  assumes "tls_bytes_spec L"
  shows "take_line L buf =
     (case split_crlf buf of
        None \<Rightarrow> None
      | Some (raw, rest) \<Rightarrow> Some (text_decode raw, rest, int (length raw) + 2))"
  using take_line_None[OF assms, of buf] take_line_Some[OF assms, of buf] split_crlf_None[of buf]
    split_crlf_Some[of buf]
  by (auto split: option.splits)

text \<open>
  What the parsers need of a source of lines: its state holds a buffer, a line is the decoded
  text before the first CRLF, and the rest stays in the buffer.
\<close>

locale line_source =
  fixes next_line :: "'st \<Rightarrow> (jsstring \<times> 'st) option"
    and buffer :: "'st \<Rightarrow> bytes"
    and invar :: "'st \<Rightarrow> bool"
  assumes next_Some: "invar st \<Longrightarrow> next_line st = Some (line, st') \<Longrightarrow>
      invar st' \<and> (\<exists>raw. buffer st = raw @ CRLF @ buffer st' \<and> line = text_decode raw \<and> \<not> has_crlf raw)"
    and next_None: "invar st \<Longrightarrow> next_line st = None \<Longrightarrow> \<not> has_crlf (buffer st)"
begin

text \<open>Reading \<open>k\<close> lines.\<close>

primrec lines :: "nat \<Rightarrow> 'st \<Rightarrow> jsstring list \<times> 'st" where
  "lines 0 st = ([], st)"
| "lines (Suc k) st =
     (case next_line st of
        None \<Rightarrow> ([], st)
      | Some (l, st') \<Rightarrow> (let (ls, st'') = lines k st' in (l # ls, st'')))"

lemma buffer_decreases: "invar st \<Longrightarrow> next_line st = Some (line, st') \<Longrightarrow> length (buffer st') < length (buffer st)"
  using next_Some by fastforce

lemma lines_consume:
  "invar st \<Longrightarrow> lines k st = (ls, st') \<Longrightarrow>
     invar st' \<and> (\<exists>raws. buffer st = concat (map (\<lambda>r. r @ CRLF) raws) @ buffer st'
                        \<and> ls = map text_decode raws)"
proof (induction k arbitrary: st ls)
  case 0
  then show ?case by auto
next
  case (Suc k)
  show ?case
  proof (cases "next_line st")
    case None
    with Suc.prems show ?thesis by auto
  next
    case (Some p)
    obtain l st1 where p: "p = (l, st1)" by (cases p)
    obtain ls1 where ls1: "lines k st1 = (ls1, st')" and ls: "ls = l # ls1"
      using Suc.prems Some p by (auto split: prod.splits)
    obtain raw where raw: "buffer st = raw @ CRLF @ buffer st1" "l = text_decode raw" "invar st1"
      using next_Some Suc.prems(1) Some p by blast
    obtain raws where raws: "invar st'"
      "buffer st1 = concat (map (\<lambda>r. r @ CRLF) raws) @ buffer st'" "ls1 = map text_decode raws"
      using Suc.IH[OF raw(3) ls1] by blast
    then show ?thesis using raw ls by (intro conjI exI[of _ "raw # raws"]) auto
  qed
qed

end

lemma take_line_no_crlf:
  assumes L: "tls_bytes_spec L" and "take_line L buf = Some (line, rest, n)"
  shows "\<exists>raw. buf = raw @ CRLF @ rest \<and> line = text_decode raw \<and> \<not> has_crlf raw"
proof -
  obtain raw where raw: "buf = raw @ CRLF @ rest" "line = text_decode raw"
    "\<forall>j < length raw. \<not> occurs_at buf CRLF j"
    using assms by (auto simp: take_line_Some[OF L])
  have "\<not> occurs_at raw CRLF i" if "i < length raw" for i
    using raw that by (auto simp: occurs_CRLF nth_append)
  with raw show ?thesis by (auto simp: has_crlf_def)
qed

interpretation take_line_source: line_source
  "\<lambda>(L, buf). map_option (\<lambda>(l, rest, n). (l, (L, rest))) (take_line L buf)"
  snd "\<lambda>(L, buf). tls_bytes_spec L"
  by unfold_locales (use take_line_no_crlf take_line_None in \<open>fastforce split: prod.splits\<close>)+

subsection \<open>Cipher suites\<close>

datatype EncryptionAlgorithm = Chacha20 | Aes256Ctr | Aes128Ctr

definition getZkAlgorithmForCipherSuite :: "jsstring \<Rightarrow> js_error + EncryptionAlgorithm" where
  "getZkAlgorithmForCipherSuite cipherSuite =
     (if js_includes cipherSuite (js ''CHACHA20'') then Inr Chacha20
      else if js_includes cipherSuite (js ''AES_256_GCM'') then Inr Aes256Ctr
      else if js_includes cipherSuite (js ''AES_128_GCM'') then Inr Aes128Ctr
      else Inl (PlainError ''not supported for ZK ops''))"

definition getPureCiphertext :: "tls_pkg \<Rightarrow> bytes \<Rightarrow> jsstring \<Rightarrow> js_error + bytes" where
  "getPureCiphertext L content cipherSuite =
     bindR (getZkAlgorithmForCipherSuite cipherSuite) (\<lambda>_.
       (let content1 = js_slice content 0 (-16);
            recordIvLength = 12 - fixedIvLength L cipherSuite
        in Inr (js_slice_from content1 recordIvLength)))"

definition getRecordIV :: "tls_pkg \<Rightarrow> bytes \<Rightarrow> jsstring \<Rightarrow> js_error + bytes" where
  "getRecordIV L content cipherSuite =
     bindR (getZkAlgorithmForCipherSuite cipherSuite) (\<lambda>_.
       (let recordIvLength = 12 - fixedIvLength L cipherSuite
        in Inr (js_slice content 0 recordIvLength)))"

text \<open>The record splits into the explicit IV, the pure ciphertext and the 16-byte tag.\<close>

lemma record_split:
  assumes "getPureCiphertext L content cs = Inr ct" and "getRecordIV L content cs = Inr iv"
    and "0 \<le> 12 - fixedIvLength L cs" and "nat (12 - fixedIvLength L cs) + 16 \<le> length content"
  shows "content = iv @ ct @ drop (length content - 16) content"
proof -
  let ?k = "nat (12 - fixedIvLength L cs)" and ?n = "length content - 16"
  have iv: "iv = take ?k content" and ct: "ct = drop ?k (take ?n content)"
    using assms js_slice_drop_last[of 16 content]
    by (auto simp: getPureCiphertext_def getRecordIV_def bindR_Inr_iff Let_def js_slices)
  have "?k \<le> ?n" using assms(4) by linarith
  then have "take ?n content = take ?k content @ drop ?k (take ?n content)"
    by (metis append_take_drop_id min.absorb1 take_take)
  then show ?thesis using iv ct by (metis append.assoc append_take_drop_id)
qed

subsection \<open>RPC names\<close>

datatype rpc_direction = RpcRequest | RpcResponse

definition getRpcTypeFromKey :: "jsstring \<Rightarrow> (jsstring \<times> rpc_direction) option" where
  "getRpcTypeFromKey key =
     (if js_endsWith key (js ''Request'') then Some (js_slice key 0 (-7), RpcRequest)
      else if js_endsWith key (js ''Response'') then Some (js_slice key 0 (-8), RpcResponse)
      else None)"

definition getRpcResponseType :: "jsstring \<Rightarrow> jsstring" where
  "getRpcResponseType type = type @ js ''Response''"

definition getRpcRequestType :: "jsstring \<Rightarrow> jsstring" where
  "getRpcRequestType type = type @ js ''Request''"

lemma js_endsWith_append [simp]: "js_endsWith (xs @ p) p"
  by (simp add: js_endsWith_def)

lemma getRpcTypeFromKey_request: "getRpcTypeFromKey (getRpcRequestType t) = Some (t, RpcRequest)"
proof -
  have "length (js ''Request'') = 7" by (simp add: js_def)
  then show ?thesis
    using js_slice_drop_last[of 7 "t @ js ''Request''"]
    by (simp add: getRpcTypeFromKey_def getRpcRequestType_def)
qed

lemma getRpcTypeFromKey_response: "getRpcTypeFromKey (getRpcResponseType t) = Some (t, RpcResponse)"
proof -
  have len: "length (js ''Response'') = 8" by (simp add: js_def)
  have "\<not> js_endsWith (t @ js ''Response'') (js ''Request'')"
    by (simp add: js_endsWith_def is_prefix_def js_def)
  with len show ?thesis
    using js_slice_drop_last[of 8 "t @ js ''Response''"]
    by (simp add: getRpcTypeFromKey_def getRpcResponseType_def)
qed

subsection \<open>Application data\<close>

definition isApplicationData :: "tls_pkg \<Rightarrow> CompleteTLSPacket \<Rightarrow> TLSProtocolVersion option \<Rightarrow> bool" where
  "isApplicationData L packet tlsVersion \<longleftrightarrow>
     pkt_type packet = CiphertextPacket
     \<and> (contentType packet = Some (js ''APPLICATION_DATA'')
        \<or> (js_get (pkt_data packet) 0 = Some (PT_WRAPPED_RECORD L) \<and> tlsVersion = Some TLS1_2))"

text \<open>
  One message of \<open>extractApplicationDataFromTranscript\<close>: \<open>None\<close> is the \<open>continue\<close>. The redaction
  character \<open>star\<close> is the constant of \<open>@reclaimprotocol/zk-symmetric-crypto\<close>.
\<close>

definition application_data_of ::
  "tls_pkg \<Rightarrow> byte \<Rightarrow> TLSProtocolVersion \<Rightarrow> IDecryptedTranscriptMessage \<Rightarrow> bytes option" where
  "application_data_of L star tlsVersion m =
     (if redacted m then
        (if plaintextLength m = 0 then Some (replicate 4 star)
         else Some (replicate (if tlsVersion = TLS1_3 then plaintextLength m - 1
                               else plaintextLength m) star))
      else if tlsVersion = TLS1_3 then
        (if js_get (dm_message m) (int (length (dm_message m)) - 1) \<noteq> Some (CT_APPLICATION_DATA L)
         then None
         else Some (js_slice (dm_message m) 0 (-1)))
      else if js_get (recordHeader m) 0 = Some (PT_WRAPPED_RECORD L) then Some (dm_message m)
      else None)"

fun extractApplicationDataFromTranscript ::
  "tls_pkg \<Rightarrow> byte \<Rightarrow> TLSProtocolVersion \<Rightarrow> IDecryptedTranscriptMessage list \<Rightarrow> bytes Transcript" where
  "extractApplicationDataFromTranscript L star v [] = []"
| "extractApplicationDataFromTranscript L star v (m # ms) =
     (case application_data_of L star v m of
        None \<Rightarrow> extractApplicationDataFromTranscript L star v ms
      | Some message \<Rightarrow> (dm_sender m, message) # extractApplicationDataFromTranscript L star v ms)"

text \<open>A redacted message contributes redaction characters only.\<close>

lemma application_data_redacted:
  "redacted m \<Longrightarrow> application_data_of L star v m = Some bs \<Longrightarrow> set bs \<subseteq> {star}"
  by (auto simp: application_data_of_def split: if_splits)

text \<open>
  \<open>extractHandshakeFromTranscript\<close>: \<open>break\<close> ends the list, \<open>continue\<close> drops the message, an empty
  message is an error.
\<close>

fun extractHandshakeFromTranscript ::
  "tls_pkg \<Rightarrow> TLSProtocolVersion \<Rightarrow> nat \<Rightarrow> IDecryptedTranscriptMessage list
   \<Rightarrow> js_error + (sender \<times> nat \<times> bytes) list" where
  "extractHandshakeFromTranscript L v i [] = Inr []"
| "extractHandshakeFromTranscript L v i (m # ms) =
     (if redacted m then Inr []
      else
        (let header = js_get (recordHeader m) 0;
             push = (\<lambda>message. if message = [] then Inl (PlainError ''unsupported handshake message'')
                     else bindR (extractHandshakeFromTranscript L v (Suc i) ms)
                            (\<lambda>rest. Inr ((dm_sender m, i, message) # rest)))
         in if header = Some (PT_HELLO L) then push (dm_message m)
            else if header = Some (PT_WRAPPED_RECORD L) then
              (if v = TLS1_3 then
                 (if js_get (dm_message m) (int (length (dm_message m)) - 1) \<noteq> Some (CT_HANDSHAKE L)
                  then Inr []
                  else push (js_slice (dm_message m) 0 (-1)))
               else Inr [])
            else extractHandshakeFromTranscript L v (Suc i) ms))"

subsection \<open>Properties\<close>

text \<open>The explicit IV (\<open>getRecordIV\<close>) and the pure ciphertext (\<open>getPureCiphertext\<close>) of a TLS
  record are its consecutive parts: with the 16-byte tag they are the whole record, for every
  supported cipher suite.\<close>

theorem tls_record_cut:
  assumes "getPureCiphertext L content cs = Inr ct" and "getRecordIV L content cs = Inr iv"
    and "0 \<le> 12 - fixedIvLength L cs" and "nat (12 - fixedIvLength L cs) + 16 \<le> length content"
  shows "content = iv @ ct @ drop (length content - 16) content"
  by (rule record_split[OF assms])

theorem tls_record_cut_witness:
  "map of_nat [0..<30] = (map of_nat [0..<8] :: bytes) @ map of_nat [8..<14] @ drop 14 (map of_nat [0..<30])"
  using tls_record_cut[of tls_ref "map of_nat [0..<30]" "js ''TLS_ECDHE_RSA_WITH_AES_128_GCM_SHA256''"
    "map of_nat [8..<14]" "map of_nat [0..<8]"]
  by (simp add: getPureCiphertext_def getRecordIV_def getZkAlgorithmForCipherSuite_def js_includes_def js_def
    is_prefix_def js_slice_def js_slice_from_def js_index_def tls_ref_def upt_rec)

text \<open>A sender whose messages are all marked as redacted contributes redaction characters only
  to the application data, whatever bytes its messages hold.\<close>

theorem redacted_transcript_reveals_nothing:
  assumes "(s, bs) \<in> set (extractApplicationDataFromTranscript L star v ms)"
    and "\<forall>m \<in> set ms. dm_sender m = s \<longrightarrow> redacted m"
  shows "set bs \<subseteq> {star}"
  using assms
  by (induction ms) (auto dest: application_data_redacted split: option.splits)

theorem redacted_transcript_reveals_nothing_witness:
  "set (replicate 4 (42 :: byte)) \<subseteq> {42}"
  using redacted_transcript_reveals_nothing[of Server "replicate 4 42" tls_ref 42 TLS1_2
    "[\<lparr>dm_sender = Server, redacted = True, dm_message = [1, 2], plaintextLength = 0, recordHeader = []\<rparr>]"]
  by (simp add: application_data_of_def)

end
