(* ===== verification/Redactions.thy ===== *)
theory Redactions
  imports Generics
begin

text \<open>
  Redaction (\<open>src/utils/redactions.ts\<close>): starring out slices of a byte array, comparing a redacted
  array with the original, and \<open>getBlocksToReveal\<close>, which walks a cursor over the blocks of a
  response to apply redactions that span several blocks.

  The specification is flat: \<open>redact_flat\<close> overwrites the slices in the concatenation of the
  blocks. The walk refines it whenever no block is empty and the slices come in order, without
  overlap and inside the response (\<open>slices_chain\<close>).
\<close>

definition REDACTION_CHAR_CODE :: byte where
  "REDACTION_CHAR_CODE = 42"

record ArraySlice =
  fromIndex :: int
  toIndex :: int

record RedactedOrHashedArraySlice = ArraySlice +
  oprf_hash :: bool

text \<open>
  A TOPRF claim; the code does not look into the \<open>responses\<close>. The location is set when the hash is
  written into the redacted blocks; a payload that comes over the wire may lack it.
\<close>

record DataSlice =
  ds_fromIndex :: int
  ds_length :: int

record TOPRFResponse =
  tr_publicKeyShare :: bytes
  tr_evaluated :: bytes
  tr_c :: bytes
  tr_r :: bytes

record TOPRFProofParams =
  dataLocation :: "DataSlice option"
  nullifier :: bytes
  responses :: "TOPRFResponse list"
  mask :: bytes
  toprf_plaintext :: bytes

definition loc_fromIndex :: "TOPRFProofParams \<Rightarrow> int" where
  "loc_fromIndex t = (case dataLocation t of None \<Rightarrow> 0 | Some d \<Rightarrow> ds_fromIndex d)"

definition loc_length :: "TOPRFProofParams \<Rightarrow> int" where
  "loc_length t = (case dataLocation t of None \<Rightarrow> 0 | Some d \<Rightarrow> ds_length d)"

text \<open>Reading the location of a payload that has none is an exception.\<close>

definition no_location :: js_error where
  "no_location = JsTypeError ''Cannot read properties of undefined''"

lemma loc_simps [simp]:
  "loc_fromIndex (t\<lparr>dataLocation := Some d\<rparr>) = ds_fromIndex d"
  "loc_length (t\<lparr>dataLocation := Some d\<rparr>) = ds_length d"
  by (simp_all add: loc_fromIndex_def loc_length_def)

subsection \<open>Congruence and full redaction\<close>

definition isRedactionCongruent :: "bytes \<Rightarrow> bytes \<Rightarrow> bool" where
  "isRedactionCongruent red original =
     list_all (\<lambda>i. js_get original (int i) = Some (red ! i) \<or> red ! i = REDACTION_CHAR_CODE)
       [0..<length red]"

definition isFullyRedacted :: "bytes \<Rightarrow> bool" where
  "isFullyRedacted red = list_all (\<lambda>element. element = REDACTION_CHAR_CODE) red"

lemma isRedactionCongruent_iff:
  "isRedactionCongruent red original \<longleftrightarrow>
     (\<forall>i < length red. red ! i = REDACTION_CHAR_CODE \<or> (i < length original \<and> red ! i = original ! i))"
  by (auto simp: isRedactionCongruent_def list_all_iff js_get_def)

lemma isFullyRedacted_iff: "isFullyRedacted red \<longleftrightarrow> set red \<subseteq> {REDACTION_CHAR_CODE}"
  by (auto simp: isFullyRedacted_def list_all_iff)

subsection \<open>redactSlices\<close>

definition redactSlice :: "bytes \<Rightarrow> 'a ArraySlice_scheme \<Rightarrow> bytes" where
  "redactSlice red sl =
     fold (\<lambda>i r. u8_put r i REDACTION_CHAR_CODE) [fromIndex sl..toIndex sl - 1] red"

definition redactSlices :: "bytes \<Rightarrow> 'a ArraySlice_scheme list \<Rightarrow> bytes" where
  "redactSlices tot slices = foldl redactSlice tot slices"

lemma fold_u8_put_length [simp]: "length (fold (\<lambda>i r. u8_put r i v) is xs) = length xs"
  by (induction "is" arbitrary: xs) auto

lemma fold_u8_put_nth:
  "k < length xs \<Longrightarrow> fold (\<lambda>i r. u8_put r i v) is xs ! k = (if int k \<in> set is then v else xs ! k)"
  by (induction "is" arbitrary: xs) (auto simp: nth_u8_put)

lemma redactSlice_length [simp]: "length (redactSlice xs s) = length xs"
  by (simp add: redactSlice_def)

lemma redactSlice_nth:
  "k < length xs \<Longrightarrow>
     redactSlice xs s ! k = (if fromIndex s \<le> int k \<and> int k < toIndex s then REDACTION_CHAR_CODE else xs ! k)"
  by (auto simp: redactSlice_def fold_u8_put_nth)

lemma redactSlices_length [simp]: "length (redactSlices tot slices) = length tot"
  by (induction slices arbitrary: tot) (simp_all add: redactSlices_def)

lemma redactSlices_nth:
  "k < length tot \<Longrightarrow>
     redactSlices tot slices ! k =
       (if \<exists>s \<in> set slices. fromIndex s \<le> int k \<and> int k < toIndex s
        then REDACTION_CHAR_CODE else tot ! k)"
proof (induction slices arbitrary: tot)
  case Nil
  then show ?case by (simp add: redactSlices_def)
next
  case (Cons s ss)
  have "redactSlices tot (s # ss) = redactSlices (redactSlice tot s) ss"
    by (simp add: redactSlices_def)
  then show ?case using Cons.IH[of "redactSlice tot s"] Cons.prems
    by (auto simp: redactSlice_nth)
qed

lemma redactSlices_congruent: "isRedactionCongruent (redactSlices tot slices) tot"
  by (auto simp: isRedactionCongruent_iff redactSlices_nth)

subsection \<open>Hashes as text\<close>

text \<open>\<open>base64Encode\<close> of \<open>@bufbuild/protobuf\<close> is the argument \<open>b64\<close>.\<close>

definition js_padEnd :: "jsstring \<Rightarrow> int \<Rightarrow> 16 word \<Rightarrow> jsstring" where
  "js_padEnd s n c = s @ replicate (nat n - length s) c"

definition binaryHashToStr :: "(bytes \<Rightarrow> jsstring) \<Rightarrow> bytes \<Rightarrow> int \<Rightarrow> jsstring" where
  "binaryHashToStr b64 hash expLength = js_slice (js_padEnd (b64 hash) expLength 48) 0 expLength"

lemma binaryHashToStr_length:
  "0 \<le> n \<Longrightarrow> length (binaryHashToStr b64 h n) = nat n"
  by (simp add: binaryHashToStr_def js_padEnd_def js_slices)

subsection \<open>getBlocksToReveal\<close>

text \<open>
  The walk's variables. \<open>redactedPlaintexts\<close> and \<open>toprfs\<close> are the fields of \<open>slicesWithReveal\<close>
  (an empty list of claims stands for \<open>undefined\<close>).
\<close>

record redact_state =
  blockIdx :: nat
  cursorInBlock :: nat
  cursor :: nat
  redactedPlaintexts :: "bytes list"
  toprfs :: "TOPRFProofParams list list"

definition init_redact_state :: "bytes list \<Rightarrow> redact_state" where
  "init_redact_state blocks =
     \<lparr>blockIdx = 0, cursorInBlock = 0, cursor = 0,
      redactedPlaintexts = blocks, toprfs = map (\<lambda>_. []) blocks\<rparr>"

text \<open>\<open>advance\<close>: reading the length of a block that does not exist is a TypeError.\<close>

definition advance :: "bytes list \<Rightarrow> redact_state \<Rightarrow> js_error + redact_state" where
  "advance blocks st =
     (let st1 = st\<lparr>cursor := cursor st + 1, cursorInBlock := cursorInBlock st + 1\<rparr> in
      if blockIdx st < length blocks then
        Inr (if cursorInBlock st1 \<ge> length (blocks ! blockIdx st)
             then st1\<lparr>blockIdx := blockIdx st + 1, cursorInBlock := 0\<rparr> else st1)
      else Inl (JsTypeError ''undefined block''))"

text \<open>\<open>slicesWithReveal[blockIdx].redactedPlaintext[cursorInBlock] = v\<close>\<close>

definition write_at_cursor :: "byte \<Rightarrow> redact_state \<Rightarrow> js_error + redact_state" where
  "write_at_cursor v st =
     (if blockIdx st < length (redactedPlaintexts st) then
        Inr (st\<lparr>redactedPlaintexts := (redactedPlaintexts st)
                 [blockIdx st := u8_put (redactedPlaintexts st ! blockIdx st) (int (cursorInBlock st)) v]\<rparr>)
      else Inl (JsTypeError ''undefined block''))"

lemma advance_cursor: "advance blocks st = Inr st' \<Longrightarrow> cursor st' = cursor st + 1"
  by (auto simp: advance_def Let_def split: if_splits)

lemma write_cursor: "write_at_cursor v st = Inr st' \<Longrightarrow> cursor st' = cursor st"
  by (auto simp: write_at_cursor_def split: if_splits)

text \<open>
  The three loops \<open>while(cursor < bound)\<close>. \<open>src\<close> gives what is written: nothing while skipping,
  the characters of the nullifier, or the redaction character.
\<close>

function walk :: "bytes list \<Rightarrow> (nat \<Rightarrow> byte option) \<Rightarrow> nat \<Rightarrow> int \<Rightarrow> redact_state \<Rightarrow> js_error + redact_state"
where
  "walk blocks src i bound st =
     (if int (cursor st) < bound then
        (case (case src i of None \<Rightarrow> Inr st | Some v \<Rightarrow> write_at_cursor v st) of
           Inl e \<Rightarrow> Inl e
         | Inr st1 \<Rightarrow>
             (case advance blocks st1 of
                Inl e \<Rightarrow> Inl e
              | Inr st2 \<Rightarrow> walk blocks src (i + 1) bound st2))
      else Inr st)"
  by pat_completeness auto
termination
  by (relation "measure (\<lambda>(blocks, src, i, bound, st). nat (bound - int (cursor st)))")
    (auto dest!: advance_cursor write_cursor split: option.splits)

declare walk.simps [simp del]

definition charCode_bytes :: "jsstring \<Rightarrow> nat \<Rightarrow> byte option" where
  "charCode_bytes s i = Some (case js_get s (int i) of None \<Rightarrow> 0 | Some c \<Rightarrow> ucast c)"

lemma charCode_bytes_in: "i < length s \<Longrightarrow> charCode_bytes s i = Some (ucast (s ! i))"
  by (simp add: charCode_bytes_def js_get_def)

text \<open>\<open>performOprf\<close> is the client's call to the attestor; its argument \<open>k\<close> numbers the calls.\<close>

definition redactBlocks ::
  "(bytes \<Rightarrow> jsstring) \<Rightarrow> (nat \<Rightarrow> bytes \<Rightarrow> js_error + TOPRFProofParams) \<Rightarrow> bytes list \<Rightarrow> bytes
   \<Rightarrow> nat \<Rightarrow> RedactedOrHashedArraySlice \<Rightarrow> redact_state \<Rightarrow> js_error + redact_state" where
  "redactBlocks b64 performOprf blocks tot k sl st =
     bindR (walk blocks (\<lambda>_. None) 0 (fromIndex sl) st) (\<lambda>st1.
     bindR
       (if oprf_hash sl then
          (let plaintext = js_slice tot (fromIndex sl) (toIndex sl) in
           bindR (performOprf k plaintext) (\<lambda>res.
             (let toprf = res\<lparr>toprf_plaintext := plaintext,
                              dataLocation := Some \<lparr>ds_fromIndex = int (cursorInBlock st1),
                                ds_length = toIndex sl - fromIndex sl\<rparr>\<rparr>
              in if blockIdx st1 < length (toprfs st1) then
                   walk blocks
                     (charCode_bytes (binaryHashToStr b64 (nullifier toprf) (loc_length toprf)))
                     0 (toIndex sl)
                     (st1\<lparr>toprfs := (toprfs st1)[blockIdx st1 := toprfs st1 ! blockIdx st1 @ [toprf]]\<rparr>)
                 else Inl (JsTypeError ''undefined block''))))
        else Inr st1)
       (walk blocks (\<lambda>_. Some REDACTION_CHAR_CODE) 0 (toIndex sl)))"

fun redactAll ::
  "(bytes \<Rightarrow> jsstring) \<Rightarrow> (nat \<Rightarrow> bytes \<Rightarrow> js_error + TOPRFProofParams) \<Rightarrow> bytes list \<Rightarrow> bytes
   \<Rightarrow> nat \<Rightarrow> RedactedOrHashedArraySlice list \<Rightarrow> redact_state \<Rightarrow> js_error + redact_state" where
  "redactAll b64 oprf blocks tot k [] st = Inr st"
| "redactAll b64 oprf blocks tot k (sl # slices) st =
     bindR (redactBlocks b64 oprf blocks tot k sl st)
       (redactAll b64 oprf blocks tot (k + 1) slices)"

text \<open>A revealed block: its index in \<open>blocks\<close>, its redacted plaintext and its claims.\<close>

type_synonym SliceWithReveal = "nat \<times> bytes \<times> TOPRFProofParams list"

datatype RevealedSlices = RevealAll | RevealSlices "SliceWithReveal list"

definition slicesWithReveal :: "redact_state \<Rightarrow> SliceWithReveal list" where
  "slicesWithReveal st = zip [0..<length (redactedPlaintexts st)] (zip (redactedPlaintexts st) (toprfs st))"

text \<open>\<open>redact\<close> may throw, as the provider's \<open>getResponseRedactions\<close> does.\<close>

definition getBlocksToReveal ::
  "tls_pkg \<Rightarrow> (bytes \<Rightarrow> jsstring) \<Rightarrow> (nat \<Rightarrow> bytes \<Rightarrow> js_error + TOPRFProofParams)
   \<Rightarrow> (bytes \<Rightarrow> js_error + RedactedOrHashedArraySlice list) \<Rightarrow> bytes list \<Rightarrow> js_error + RevealedSlices" where
  "getBlocksToReveal L b64 performOprf redact blocks =
     (let tot = concatenateUint8Arrays L blocks in
      bindR (redact tot) (\<lambda>redactions.
        if redactions = [] then Inr RevealAll
        else
          bindR (redactAll b64 performOprf blocks tot 0 redactions (init_redact_state blocks)) (\<lambda>st.
            Inr (RevealSlices
              (filter (\<lambda>(_, redactedPlaintext, _). \<not> isFullyRedacted redactedPlaintext)
                 (slicesWithReveal st))))))"

subsection \<open>The walk refines the flat specification\<close>

text \<open>
  Between two steps: the cursor is the position of \<open>cursorInBlock\<close> in the concatenation, and the
  redacted plaintexts have the lengths of the blocks.
\<close>

definition walk_inv :: "bytes list \<Rightarrow> redact_state \<Rightarrow> bool" where
  "walk_inv blocks st \<longleftrightarrow>
     (\<forall>b \<in> set blocks. b \<noteq> []) \<and> blockIdx st \<le> length blocks
     \<and> map length (redactedPlaintexts st) = map length blocks
     \<and> length (toprfs st) = length blocks
     \<and> cursor st = length (concat (take (blockIdx st) blocks)) + cursorInBlock st
     \<and> (if blockIdx st < length blocks then cursorInBlock st < length (blocks ! blockIdx st)
        else cursorInBlock st = 0)"

definition flat :: "redact_state \<Rightarrow> bytes" where
  "flat st = concat (redactedPlaintexts st)"

lemma map_length_concat: "map length xs = map length ys \<Longrightarrow> length (concat xs) = length (concat ys)"
  by (simp add: length_concat)

lemma flat_length: "walk_inv blocks st \<Longrightarrow> length (flat st) = length (concat blocks)"
  by (auto simp: flat_def walk_inv_def intro: map_length_concat)

lemma walk_inv_init: "\<forall>b \<in> set blocks. b \<noteq> [] \<Longrightarrow> walk_inv blocks (init_redact_state blocks)"
  by (auto simp: walk_inv_def init_redact_state_def)

lemma flat_init [simp]: "flat (init_redact_state blocks) = concat blocks"
  by (simp add: flat_def init_redact_state_def)

lemma walk_inv_in_range:
  assumes "walk_inv blocks st" and "cursor st < length (concat blocks)"
  shows "blockIdx st < length blocks"
  using assms by (cases "blockIdx st < length blocks") (auto simp: walk_inv_def)

lemma concat_list_update:
  "i < length rs \<Longrightarrow> c < length (rs ! i) \<Longrightarrow>
     concat (rs[i := (rs ! i)[c := v]]) = (concat rs)[length (concat (take i rs)) + c := v]"
proof (induction rs arbitrary: i)
  case Nil
  then show ?case by simp
next
  case (Cons r rs)
  then show ?case by (cases i) (auto simp: list_update_append)
qed

lemma map_length_take: "map length xs = map length ys \<Longrightarrow> length (concat (take i xs)) = length (concat (take i ys))"
  by (rule map_length_concat) (metis take_map)

lemma advance_ok:
  assumes inv: "walk_inv blocks st" and lt: "cursor st < length (concat blocks)"
  shows "\<exists>st'. advance blocks st = Inr st' \<and> walk_inv blocks st' \<and> cursor st' = cursor st + 1
           \<and> redactedPlaintexts st' = redactedPlaintexts st \<and> toprfs st' = toprfs st"
proof -
  have b: "blockIdx st < length blocks" by (rule walk_inv_in_range[OF assms])
  show ?thesis
  proof (cases "cursorInBlock st + 1 < length (blocks ! blockIdx st)")
    case True
    then show ?thesis using b inv by (auto simp: advance_def walk_inv_def Let_def)
  next
    case False
    then have len: "cursorInBlock st + 1 = length (blocks ! blockIdx st)"
      using b inv by (auto simp: walk_inv_def)
    have take: "take (Suc (blockIdx st)) blocks = take (blockIdx st) blocks @ [blocks ! blockIdx st]"
      using b by (rule take_Suc_conv_app_nth)
    have "0 < length (blocks ! Suc (blockIdx st))" if "Suc (blockIdx st) < length blocks"
      using inv that by (auto simp: walk_inv_def)
    then show ?thesis using False b inv len take
      by (auto simp: advance_def walk_inv_def Let_def)
  qed
qed

lemma write_ok:
  assumes inv: "walk_inv blocks st" and lt: "cursor st < length (concat blocks)"
  shows "\<exists>st'. write_at_cursor v st = Inr st' \<and> walk_inv blocks st' \<and> cursor st' = cursor st
           \<and> flat st' = (flat st)[cursor st := v] \<and> toprfs st' = toprfs st"
proof -
  let ?rs = "redactedPlaintexts st" and ?i = "blockIdx st" and ?c = "cursorInBlock st"
  have b: "?i < length blocks" by (rule walk_inv_in_range[OF assms])
  have rs: "map length ?rs = map length blocks" using inv by (simp add: walk_inv_def)
  then have len: "length ?rs = length blocks" by (metis length_map)
  have leni: "length (?rs ! ?i) = length (blocks ! ?i)" using rs b by (metis len nth_map)
  have c: "?c < length (?rs ! ?i)" using inv b leni by (simp add: walk_inv_def)
  have put: "u8_put (?rs ! ?i) (int ?c) v = (?rs ! ?i)[?c := v]" using c by (simp add: u8_put_def)
  have "concat (?rs[?i := (?rs ! ?i)[?c := v]]) = (concat ?rs)[cursor st := v]"
    using concat_list_update[of ?i ?rs ?c v] b len c map_length_take[OF rs, of ?i] inv
    by (simp add: walk_inv_def)
  moreover have "map length (?rs[?i := (?rs ! ?i)[?c := v]]) = map length blocks"
    using rs b len leni by (simp add: map_update) (metis list_update_id nth_map)
  ultimately show ?thesis using b len put inv
    by (auto simp: write_at_cursor_def walk_inv_def flat_def)
qed

text \<open>What one loop does to the concatenation.\<close>

lemma walk_ok:
  assumes "walk_inv blocks st" and "bound \<le> int (length (concat blocks))"
  shows "\<exists>st'. walk blocks src i bound st = Inr st' \<and> walk_inv blocks st'
           \<and> cursor st' = max (cursor st) (nat bound) \<and> toprfs st' = toprfs st
           \<and> (\<forall>k < length (concat blocks). flat st' ! k =
                 (if cursor st \<le> k \<and> int k < bound then
                    (case src (i + (k - cursor st)) of None \<Rightarrow> flat st ! k | Some v \<Rightarrow> v)
                  else flat st ! k))"
  using assms
proof (induction blocks src i bound st rule: walk.induct)
  case (1 blocks src i bound st)
  note inv = "1.prems"(1) and bound = "1.prems"(2)
  show ?case
  proof (cases "int (cursor st) < bound")
    case False
    then have "walk blocks src i bound st = Inr st" by (subst walk.simps) simp
    moreover have "max (cursor st) (nat bound) = cursor st" using False by linarith
    ultimately show ?thesis using inv False by auto
  next
    case True
    have lt: "cursor st < length (concat blocks)" using True bound by linarith
    obtain st1 where st1: "(case src i of None \<Rightarrow> Inr st | Some v \<Rightarrow> write_at_cursor v st) = Inr st1"
      and inv1: "walk_inv blocks st1" and cur1: "cursor st1 = cursor st" and t1: "toprfs st1 = toprfs st"
      and flat1: "flat st1 = (case src i of None \<Rightarrow> flat st | Some v \<Rightarrow> (flat st)[cursor st := v])"
      using inv write_ok[OF inv lt] by (cases "src i") force+
    obtain st2 where st2: "advance blocks st1 = Inr st2" and inv2: "walk_inv blocks st2"
      and cur2: "cursor st2 = cursor st + 1" and t2: "toprfs st2 = toprfs st"
      and flat2: "flat st2 = flat st1"
      using advance_ok[OF inv1] lt cur1 t1 by (auto simp: flat_def)
    obtain st' where st': "walk blocks src (i + 1) bound st2 = Inr st'" and inv': "walk_inv blocks st'"
      and cur': "cursor st' = max (cursor st + 1) (nat bound)" and t': "toprfs st' = toprfs st"
      and flat': "\<And>k. k < length (concat blocks) \<Longrightarrow> flat st' ! k =
                 (if cursor st + 1 \<le> k \<and> int k < bound then
                    (case src (i + 1 + (k - (cursor st + 1))) of None \<Rightarrow> flat st1 ! k | Some v \<Rightarrow> v)
                  else flat st1 ! k)"
      using "1.IH"[OF True st1 st2 inv2 bound] unfolding cur2 t2 flat2 by blast
    have "walk blocks src i bound st = Inr st'"
      using True st1 st2 st' by (subst walk.simps) simp
    moreover have "cursor st' = max (cursor st) (nat bound)" using cur' True by linarith
    moreover have "flat st' ! k = (if cursor st \<le> k \<and> int k < bound then
                    (case src (i + (k - cursor st)) of None \<Rightarrow> flat st ! k | Some v \<Rightarrow> v)
                  else flat st ! k)" if k: "k < length (concat blocks)" for k
    proof (cases "k = cursor st")
      case True
      then show ?thesis using flat'[OF k] flat1 \<open>int (cursor st) < bound\<close> flat_length[OF inv] lt
        by (auto split: option.splits)
    next
      case False
      have "i + 1 + (k - (cursor st + 1)) = i + (k - cursor st)" if "cursor st + 1 \<le> k"
        using that by linarith
      moreover have "flat st1 ! k = flat st ! k"
        using flat1 False by (auto split: option.splits)
      ultimately show ?thesis using flat'[OF k] False by (auto split: option.splits)
    qed
    ultimately show ?thesis using inv' t' by blast
  qed
qed

text \<open>
  The flat specification. A redacted position becomes the redaction character; a hashed one the
  character of the nullifier's text at its offset in the slice.
\<close>

definition slice_value ::
  "(bytes \<Rightarrow> jsstring) \<Rightarrow> (nat \<Rightarrow> bytes \<Rightarrow> js_error + TOPRFProofParams) \<Rightarrow> bytes \<Rightarrow> nat
   \<Rightarrow> RedactedOrHashedArraySlice \<Rightarrow> nat \<Rightarrow> byte" where
  "slice_value b64 oprf tot k s p =
     (if oprf_hash s then
        (case oprf k (js_slice tot (fromIndex s) (toIndex s)) of
           Inl _ \<Rightarrow> REDACTION_CHAR_CODE
         | Inr r \<Rightarrow> ucast (binaryHashToStr b64 (nullifier r) (toIndex s - fromIndex s)
                           ! (p - nat (fromIndex s))))
      else REDACTION_CHAR_CODE)"

fun redact_flat ::
  "(bytes \<Rightarrow> jsstring) \<Rightarrow> (nat \<Rightarrow> bytes \<Rightarrow> js_error + TOPRFProofParams) \<Rightarrow> bytes \<Rightarrow> nat
   \<Rightarrow> RedactedOrHashedArraySlice list \<Rightarrow> bytes \<Rightarrow> bytes" where
  "redact_flat b64 oprf tot k [] xs = xs"
| "redact_flat b64 oprf tot k (s # ss) xs =
     redact_flat b64 oprf tot (k + 1) ss
       (map (\<lambda>p. if fromIndex s \<le> int p \<and> int p < toIndex s
                 then slice_value b64 oprf tot k s p else xs ! p) [0..<length xs])"

text \<open>The slices are in order, disjoint, inside the array, and a hashed one is not empty.\<close>

fun slices_chain :: "nat \<Rightarrow> int \<Rightarrow> RedactedOrHashedArraySlice list \<Rightarrow> bool" where
  "slices_chain n c [] \<longleftrightarrow> True"
| "slices_chain n c (s # ss) \<longleftrightarrow>
     c \<le> fromIndex s \<and> fromIndex s \<le> toIndex s \<and> toIndex s \<le> int n
     \<and> (oprf_hash s \<longrightarrow> fromIndex s < toIndex s) \<and> slices_chain n (toIndex s) ss"

fun chop :: "nat list \<Rightarrow> 'a list \<Rightarrow> 'a list list" where
  "chop [] xs = []"
| "chop (n # ns) xs = take n xs # chop ns (drop n xs)"

lemma chop_concat: "chop (map length rs) (concat rs) = rs"
  by (induction rs) simp_all

lemma length_chop [simp]: "length (chop ns xs) = length ns"
  by (induction ns arbitrary: xs) simp_all

lemma redact_flat_length [simp]: "length (redact_flat b64 oprf tot k ss xs) = length xs"
  by (induction ss arbitrary: k xs) simp_all

lemma redactBlocks_ok:
  assumes inv: "walk_inv blocks st" and cur: "int (cursor st) \<le> fromIndex s"
    and ft: "fromIndex s \<le> toIndex s" and bound: "toIndex s \<le> int (length (concat blocks))"
    and ne: "oprf_hash s \<longrightarrow> fromIndex s < toIndex s" and oprf: "\<And>k p. is_ok (oprf k p)"
  shows "\<exists>st'. redactBlocks b64 oprf blocks tot k s st = Inr st' \<and> walk_inv blocks st'
           \<and> int (cursor st') = toIndex s
           \<and> flat st' = map (\<lambda>p. if fromIndex s \<le> int p \<and> int p < toIndex s
                 then slice_value b64 oprf tot k s p else flat st ! p) [0..<length (flat st)]"
proof -
  let ?n = "length (concat blocks)"
  obtain st1 where w1: "walk blocks (\<lambda>_. None) 0 (fromIndex s) st = Inr st1" and inv1: "walk_inv blocks st1"
    and cur1: "int (cursor st1) = fromIndex s"
    and flat1: "\<And>p. p < ?n \<Longrightarrow> flat st1 ! p = flat st ! p"
    using walk_ok[OF inv, of "fromIndex s" "\<lambda>_. None" 0] ft bound cur by force
  have len1: "length (flat st1) = ?n" "length (flat st) = ?n"
    using inv inv1 by (simp_all add: flat_length)
  show ?thesis
  proof (cases "oprf_hash s")
    case False
    obtain st2 where w2: "walk blocks (\<lambda>_. Some REDACTION_CHAR_CODE) 0 (toIndex s) st1 = Inr st2"
      and inv2: "walk_inv blocks st2" and cur2: "int (cursor st2) = toIndex s"
      and flat2: "\<And>p. p < ?n \<Longrightarrow> flat st2 ! p =
        (if cursor st1 \<le> p \<and> int p < toIndex s then REDACTION_CHAR_CODE else flat st1 ! p)"
      using walk_ok[OF inv1 bound, of "\<lambda>_. Some REDACTION_CHAR_CODE" 0] cur1 ft by force
    have "flat st2 = map (\<lambda>p. if fromIndex s \<le> int p \<and> int p < toIndex s
                 then slice_value b64 oprf tot k s p else flat st ! p) [0..<length (flat st)]"
      using False flat2 flat1 cur1 len1 flat_length[OF inv2]
      by (intro nth_equalityI) (auto simp: slice_value_def)
    then show ?thesis using False w1 w2 inv2 cur2 by (auto simp: redactBlocks_def)
  next
    case True
    obtain r where r: "oprf k (js_slice tot (fromIndex s) (toIndex s)) = Inr r"
      using oprf[of k "js_slice tot (fromIndex s) (toIndex s)"]
      by (cases "oprf k (js_slice tot (fromIndex s) (toIndex s))") auto
    let ?str = "binaryHashToStr b64 (nullifier r) (toIndex s - fromIndex s)"
    let ?toprf = "r\<lparr>toprf_plaintext := js_slice tot (fromIndex s) (toIndex s),
        dataLocation := Some \<lparr>ds_fromIndex = int (cursorInBlock st1), ds_length = toIndex s - fromIndex s\<rparr>\<rparr>"
    let ?st1 = "st1\<lparr>toprfs := (toprfs st1)[blockIdx st1 := toprfs st1 ! blockIdx st1 @ [?toprf]]\<rparr>"
    have lt: "cursor st1 < ?n" using cur1 ne True bound by linarith
    have b: "blockIdx st1 < length (toprfs st1)"
      using walk_inv_in_range[OF inv1 lt] inv1 by (simp add: walk_inv_def)
    have inv1': "walk_inv blocks ?st1" using inv1 by (simp add: walk_inv_def)
    have f1': "flat ?st1 = flat st1" by (simp add: flat_def)
    obtain st2 where w2: "walk blocks (charCode_bytes ?str) 0 (toIndex s) ?st1 = Inr st2"
      and inv2: "walk_inv blocks st2" and cur2: "int (cursor st2) = toIndex s"
      and flat2: "\<And>p. p < ?n \<Longrightarrow> flat st2 ! p =
        (if cursor st1 \<le> p \<and> int p < toIndex s
         then (case charCode_bytes ?str (p - cursor st1) of None \<Rightarrow> flat st1 ! p | Some v \<Rightarrow> v)
         else flat st1 ! p)"
      using walk_ok[OF inv1' bound, of "charCode_bytes ?str" 0] cur1 ft unfolding f1' by force
    have w3: "walk blocks (\<lambda>_. Some REDACTION_CHAR_CODE) 0 (toIndex s) st2 = Inr st2"
      using cur2 by (subst walk.simps) simp
    have char: "charCode_bytes ?str (p - cursor st1) = Some (slice_value b64 oprf tot k s p)"
      if "cursor st1 \<le> p" "int p < toIndex s" for p
    proof -
      have "p - cursor st1 < length ?str" using that cur1 ft by (simp add: binaryHashToStr_length)
      moreover have "nat (fromIndex s) = cursor st1" using cur1 by linarith
      ultimately show ?thesis using True r by (simp add: charCode_bytes_in slice_value_def)
    qed
    have "flat st2 = map (\<lambda>p. if fromIndex s \<le> int p \<and> int p < toIndex s
                 then slice_value b64 oprf tot k s p else flat st ! p) [0..<length (flat st)]"
    proof (intro nth_equalityI)
      fix p assume "p < length (flat st2)"
      then have p: "p < ?n" using flat_length[OF inv2] by simp
      then show "flat st2 ! p = map (\<lambda>p. if fromIndex s \<le> int p \<and> int p < toIndex s
                 then slice_value b64 oprf tot k s p else flat st ! p) [0..<length (flat st)] ! p"
        using flat2[OF p] flat1[OF p] char[of p] cur1 len1 by (auto simp: flat_length)
    qed (use flat_length[OF inv2] len1 in simp)
    then show ?thesis using True w1 w2 w3 r b inv2 cur2 by (auto simp: redactBlocks_def Let_def)
  qed
qed

lemma redactAll_ok:
  assumes "walk_inv blocks st" and "slices_chain (length (concat blocks)) (int (cursor st)) slices"
    and "\<And>k p. is_ok (oprf k p)"
  shows "\<exists>st'. redactAll b64 oprf blocks tot k slices st = Inr st' \<and> walk_inv blocks st'
           \<and> flat st' = redact_flat b64 oprf tot k slices (flat st)"
  using assms(1,2)
proof (induction slices arbitrary: k st)
  case Nil
  then show ?case by simp
next
  case (Cons s ss)
  obtain st1 where st1: "redactBlocks b64 oprf blocks tot k s st = Inr st1" "walk_inv blocks st1"
    "int (cursor st1) = toIndex s"
    "flat st1 = map (\<lambda>p. if fromIndex s \<le> int p \<and> int p < toIndex s
                 then slice_value b64 oprf tot k s p else flat st ! p) [0..<length (flat st)]"
    using redactBlocks_ok[OF Cons.prems(1), of s oprf b64 tot k] Cons.prems(2) assms(3) by auto
  then show ?case using Cons.IH[of st1 "k + 1"] Cons.prems(2) by auto
qed

text \<open>The flat result position by position.\<close>

lemma redact_flat_outside:
  assumes "p < length xs" and "\<forall>s \<in> set ss. \<not> (fromIndex s \<le> int p \<and> int p < toIndex s)"
  shows "redact_flat b64 oprf tot k ss xs ! p = xs ! p"
  using assms by (induction ss arbitrary: k xs) auto

lemma slices_chain_ge: "slices_chain n c ss \<Longrightarrow> s \<in> set ss \<Longrightarrow> c \<le> fromIndex s"
  by (induction ss arbitrary: c) fastforce+

lemma redact_flat_inside:
  assumes "slices_chain n c ss" and "i < length ss" and "p < length xs"
    and "fromIndex (ss ! i) \<le> int p" and "int p < toIndex (ss ! i)"
  shows "redact_flat b64 oprf tot k ss xs ! p = slice_value b64 oprf tot (k + i) (ss ! i) p"
  using assms
proof (induction ss arbitrary: c k xs i)
  case Nil
  then show ?case by simp
next
  case (Cons s ss)
  let ?xs = "map (\<lambda>p. if fromIndex s \<le> int p \<and> int p < toIndex s
                 then slice_value b64 oprf tot k s p else xs ! p) [0..<length xs]"
  show ?case
  proof (cases i)
    case 0
    have "\<forall>t \<in> set ss. \<not> (fromIndex t \<le> int p \<and> int p < toIndex t)"
      using Cons.prems 0 by (auto dest: slices_chain_ge)
    then have "redact_flat b64 oprf tot (k + 1) ss ?xs ! p = ?xs ! p"
      using Cons.prems(3) by (intro redact_flat_outside) simp_all
    then show ?thesis using 0 Cons.prems by simp
  next
    case (Suc j)
    have "redact_flat b64 oprf tot (k + 1) ss ?xs ! p = slice_value b64 oprf tot (k + 1 + j) (ss ! j) p"
      using Cons.prems Suc by (intro Cons.IH[of "toIndex s"]) simp_all
    then show ?thesis using Suc by simp
  qed
qed

text \<open>Without hashes the flat specification is the code's own \<open>redactSlices\<close>.\<close>

lemma redact_flat_redactSlices:
  "\<forall>s \<in> set ss. \<not> oprf_hash s \<Longrightarrow> redact_flat b64 oprf tot k ss xs = redactSlices xs ss"
proof (induction ss arbitrary: k xs)
  case Nil
  then show ?case by (simp add: redactSlices_def)
next
  case (Cons s ss)
  have "map (\<lambda>p. if fromIndex s \<le> int p \<and> int p < toIndex s
             then slice_value b64 oprf tot k s p else xs ! p) [0..<length xs] = redactSlice xs s"
    using Cons.prems by (intro nth_equalityI) (auto simp: redactSlice_nth slice_value_def)
  moreover have "redactSlices xs (s # ss) = redactSlices (redactSlice xs s) ss"
    by (simp add: redactSlices_def)
  ultimately show ?case using Cons by simp
qed

lemma getBlocksToReveal_flat:
  assumes "tls_bytes_spec L" and "\<forall>b \<in> set blocks. b \<noteq> []"
    and "redact (concat blocks) = Inr reds" and "reds \<noteq> []"
    and "slices_chain (length (concat blocks)) 0 reds" and "\<forall>k p. is_ok (oprf k p)"
  shows "\<exists>claims. length claims = length blocks \<and>
     getBlocksToReveal L b64 oprf redact blocks =
       Inr (RevealSlices (filter (\<lambda>(_, r, _). \<not> isFullyRedacted r)
         (zip [0..<length blocks]
           (zip (chop (map length blocks) (redact_flat b64 oprf (concat blocks) 0 reds (concat blocks)))
              claims))))"
proof -
  have inv: "walk_inv blocks (init_redact_state blocks)" by (rule walk_inv_init[OF assms(2)])
  have "cursor (init_redact_state blocks) = 0" by (simp add: init_redact_state_def)
  then obtain st where st: "redactAll b64 oprf blocks (concat blocks) 0 reds (init_redact_state blocks) = Inr st"
    and inv': "walk_inv blocks st"
    and fl: "flat st = redact_flat b64 oprf (concat blocks) 0 reds (concat blocks)"
    using redactAll_ok[OF inv, of reds oprf b64 "concat blocks" 0] assms by auto
  have ml: "map length (redactedPlaintexts st) = map length blocks"
    using inv' by (simp add: walk_inv_def)
  then have "redactedPlaintexts st = chop (map length blocks) (flat st)"
    using chop_concat[of "redactedPlaintexts st"] by (simp add: flat_def)
  moreover have "length (redactedPlaintexts st) = length blocks" using ml by (metis length_map)
  moreover have "length (toprfs st) = length blocks" using inv' by (simp add: walk_inv_def)
  ultimately show ?thesis using st fl assms
    by (intro exI[of _ "toprfs st"])
      (simp add: getBlocksToReveal_def tls_bytes_specD Let_def slicesWithReveal_def)
qed

lemma walk_toprfs: "walk blocks src i bound st = Inr st' \<Longrightarrow> toprfs st' = toprfs st"
proof (induction blocks src i bound st rule: walk.induct)
  case (1 blocks src i bound st)
  show ?case
  proof (cases "int (cursor st) < bound")
    case True
    then obtain st1 st2 where st: "(case src i of None \<Rightarrow> Inr st | Some v \<Rightarrow> write_at_cursor v st) = Inr st1"
      "advance blocks st1 = Inr st2" "walk blocks src (i + 1) bound st2 = Inr st'"
      using "1.prems" by (subst (asm) walk.simps) (auto split: sum.splits)
    have "toprfs st1 = toprfs st"
      using st(1) by (auto simp: write_at_cursor_def split: option.splits if_splits)
    moreover have "toprfs st2 = toprfs st1"
      using st(2) by (auto simp: advance_def Let_def split: if_splits)
    ultimately show ?thesis using "1.IH"[OF True st] by simp
  qed (use "1.prems" in \<open>subst (asm) walk.simps, simp\<close>)
qed

text \<open>Without hashed slices the client is not asked and no claim is made.\<close>

lemma redactAll_plain:
  "\<forall>s \<in> set ss. \<not> oprf_hash s \<Longrightarrow>
     redactAll b64 oprf blocks tot k ss st = redactAll b64 oprf' blocks tot k ss st
     \<and> (redactAll b64 oprf blocks tot k ss st = Inr st' \<longrightarrow> toprfs st' = toprfs st)"
proof (induction ss arbitrary: k st)
  case Nil
  then show ?case by simp
next
  case (Cons s ss)
  have "redactBlocks b64 oprf blocks tot k s st = redactBlocks b64 oprf' blocks tot k s st"
    using Cons.prems by (simp add: redactBlocks_def)
  moreover have "toprfs st1 = toprfs st" if "redactBlocks b64 oprf' blocks tot k s st = Inr st1" for st1
    using that Cons.prems by (auto simp: redactBlocks_def bindR_Inr_iff dest!: walk_toprfs)
  ultimately show ?case
    using Cons by (cases "redactBlocks b64 oprf' blocks tot k s st") auto
qed

lemma walk_eval:
  "\<not> int (cursor st) < bound \<Longrightarrow> walk blocks src i bound st = Inr st"
  "int (cursor st) < bound \<Longrightarrow> walk blocks src i bound st =
     bindR (case src i of None \<Rightarrow> Inr st | Some v \<Rightarrow> write_at_cursor v st) (\<lambda>st1.
     bindR (advance blocks st1) (walk blocks src (i + 1) bound))"
  by (subst walk.simps; simp add: bindR_def split: sum.split)+

subsection \<open>Slices and a client to run the walk on\<close>

definition plain_slice :: "int \<Rightarrow> int \<Rightarrow> RedactedOrHashedArraySlice" where
  "plain_slice i j = \<lparr>fromIndex = i, toIndex = j, oprf_hash = False\<rparr>"

definition hashed_slice :: "int \<Rightarrow> int \<Rightarrow> RedactedOrHashedArraySlice" where
  "hashed_slice i j = \<lparr>fromIndex = i, toIndex = j, oprf_hash = True\<rparr>"

lemma slice_sel [simp]:
  "fromIndex (plain_slice i j) = i" "toIndex (plain_slice i j) = j" "\<not> oprf_hash (plain_slice i j)"
  "fromIndex (hashed_slice i j) = i" "toIndex (hashed_slice i j) = j" "oprf_hash (hashed_slice i j)"
  by (simp_all add: plain_slice_def hashed_slice_def)

definition oprf_ref :: "nat \<Rightarrow> bytes \<Rightarrow> js_error + TOPRFProofParams" where
  "oprf_ref k p = Inr \<lparr>dataLocation = None, nullifier = p, responses = [], mask = [], toprf_plaintext = []\<rparr>"

subsection \<open>Properties\<close>

text \<open>C32: \<open>getBlocksToReveal\<close> implements redaction of the concatenated response: when no block is
  empty and the slices come in order, disjoint and inside the response, its walk ends without an
  error, and the revealed blocks are the blocks of the flat redaction (stars, or the characters of
  the nullifier for a hashed slice), less those that are starred out in full.\<close>

theorem getBlocksToReveal_refines:
  assumes "tls_bytes_spec L" and "\<forall>b \<in> set blocks. b \<noteq> []"
    and "redact (concat blocks) = Inr reds" and "reds \<noteq> []"
    and "slices_chain (length (concat blocks)) 0 reds" and "\<forall>k p. is_ok (oprf k p)"
  shows "\<exists>claims. length claims = length blocks \<and>
     getBlocksToReveal L b64 oprf redact blocks =
       Inr (RevealSlices (filter (\<lambda>(_, r, _). \<not> isFullyRedacted r)
         (zip [0..<length blocks]
           (zip (chop (map length blocks) (redact_flat b64 oprf (concat blocks) 0 reds (concat blocks)))
              claims))))"
  using assms by (rule getBlocksToReveal_flat)

theorem getBlocksToReveal_refines_witness:
  "\<exists>claims. length claims = Suc (Suc 0) \<and>
     getBlocksToReveal tls_ref binary_str oprf_ref (\<lambda>_. Inr [hashed_slice 0 2, plain_slice 2 4])
       [[97, 98, 99], [100, 101]] =
       Inr (RevealSlices (filter (\<lambda>(_, r, _). \<not> isFullyRedacted r)
         (zip [0, 1] (zip [[97, 98, 42], [42, 101]] claims))))"
  using getBlocksToReveal_refines[OF tls_ref_spec, of "[[97, 98, 99], [100, 101]]"
      "\<lambda>_. Inr [hashed_slice 0 2, plain_slice 2 4]" "[hashed_slice 0 2, plain_slice 2 4]"
      oprf_ref binary_str]
  by (simp add: oprf_ref_def slice_value_def REDACTION_CHAR_CODE_def binaryHashToStr_def js_padEnd_def
      binary_str_def js_slices upt_rec upto.simps)

text \<open>Without hashed slices the walk over the blocks is \<open>redactSlices\<close> on the concatenation: the
  client is never asked, no claim is made, and the blocks not fully redacted are returned.\<close>

theorem getBlocksToReveal_redactSlices:
  assumes "tls_bytes_spec L" and "\<forall>b \<in> set blocks. b \<noteq> []"
    and "redact (concat blocks) = Inr reds" and "reds \<noteq> []"
    and "slices_chain (length (concat blocks)) 0 reds" and "\<forall>s \<in> set reds. \<not> oprf_hash s"
  shows "getBlocksToReveal L b64 oprf redact blocks =
     Inr (RevealSlices (filter (\<lambda>(_, r, _). \<not> isFullyRedacted r)
         (zip [0..<length blocks]
           (zip (chop (map length blocks) (redactSlices (concat blocks) reds))
              (replicate (length blocks) [])))))"
proof -
  have inv: "walk_inv blocks (init_redact_state blocks)" by (rule walk_inv_init[OF assms(2)])
  have init: "cursor (init_redact_state blocks) = 0" "toprfs (init_redact_state blocks) = replicate (length blocks) []"
    by (simp_all add: init_redact_state_def map_replicate_const)
  let ?run = "\<lambda>f. redactAll b64 f blocks (concat blocks) 0 reds (init_redact_state blocks)"
  obtain st where st: "?run oprf_ref = Inr st" and inv': "walk_inv blocks st"
    and fl: "flat st = redactSlices (concat blocks) reds"
    using redactAll_ok[OF inv, of reds oprf_ref b64 "concat blocks" 0] assms(5,6) init
    by (auto simp: oprf_ref_def redact_flat_redactSlices)
  have run: "?run oprf = Inr st" "toprfs st = replicate (length blocks) []"
    using redactAll_plain[OF assms(6), of b64 oprf blocks "concat blocks" 0 _ oprf_ref st] st init by simp_all
  have ml: "map length (redactedPlaintexts st) = map length blocks"
    using inv' by (simp add: walk_inv_def)
  then have "redactedPlaintexts st = chop (map length blocks) (flat st)"
    using chop_concat[of "redactedPlaintexts st"] by (simp add: flat_def)
  moreover have "length (redactedPlaintexts st) = length blocks" using ml by (metis length_map)
  ultimately show ?thesis using run fl assms(1,3,4)
    by (simp add: getBlocksToReveal_def tls_bytes_specD Let_def slicesWithReveal_def)
qed

theorem getBlocksToReveal_redactSlices_witness:
  "getBlocksToReveal tls_ref binary_str (\<lambda>_ _. Inl (PlainError [])) (\<lambda>_. Inr [plain_slice 1 4])
       [[97, 98, 99], [100, 101]] =
     Inr (RevealSlices [(0, [97, 42, 42], []), (1, [42, 101], [])])"
  using getBlocksToReveal_redactSlices[OF tls_ref_spec, of "[[97, 98, 99], [100, 101]]"
      "\<lambda>_. Inr [plain_slice 1 4]" "[plain_slice 1 4]" binary_str "\<lambda>_ _. Inl (PlainError [])"]
  by (simp add: redactSlices_def redactSlice_def upto.simps u8_put_def REDACTION_CHAR_CODE_def
      isFullyRedacted_def upt_rec)

text \<open>An empty block breaks the walk: \<open>advance\<close> spends a step of the cursor on it, so the
  redaction of both bytes of \<open>se\<close> after an empty block reveals the second one.\<close>

theorem empty_block_shifts_redaction:
  "getBlocksToReveal tls_ref b64 oprf (\<lambda>_. Inr [plain_slice 0 2]) [[], [115, 101]] =
     Inr (RevealSlices [(1, [42, 101], [])])"
  by (simp add: getBlocksToReveal_def redactBlocks_def init_redact_state_def walk_eval advance_def
      write_at_cursor_def u8_put_def)
    (simp add: slicesWithReveal_def isFullyRedacted_def REDACTION_CHAR_CODE_def)

text \<open>\<open>isRedactionCongruent\<close> accepts an array of the same length exactly when some list of
  slices redacts the original to it.\<close>

theorem congruent_iff_redaction:
  assumes "length red = length original"
  shows "isRedactionCongruent red original \<longleftrightarrow> (\<exists>ss :: ArraySlice list. red = redactSlices original ss)"
proof
  assume "isRedactionCongruent red original"
  then have c: "\<And>i. i < length red \<Longrightarrow> red ! i = REDACTION_CHAR_CODE \<or> red ! i = original ! i"
    by (auto simp: isRedactionCongruent_iff)
  let ?ss = "map (\<lambda>i. \<lparr>fromIndex = int i, toIndex = int i + 1\<rparr>)
       (filter (\<lambda>i. red ! i = REDACTION_CHAR_CODE) [0..<length red])"
  have "red = redactSlices original ?ss"
    using assms c by (intro nth_equalityI) (fastforce simp: redactSlices_nth)+
  then show "\<exists>ss :: ArraySlice list. red = redactSlices original ss" by blast
next
  assume "\<exists>ss :: ArraySlice list. red = redactSlices original ss"
  then show "isRedactionCongruent red original" by (auto simp: redactSlices_congruent)
qed

theorem congruent_iff_redaction_witness:
  "isRedactionCongruent [42, 98] [97, 98] \<longleftrightarrow> (\<exists>ss :: ArraySlice list. [42, 98] = redactSlices [97, 98] ss)"
  using congruent_iff_redaction[of "[42, 98]" "[97, 98]"] by simp

end
