(* ===== verification/Client_Writes.thy ===== *)
theory Client_Writes
  imports Redactions
begin

text \<open>
  How the client writes the request and marks its records for reveal
  (\<open>writeRedactedWithKeyUpdate\<close>, \<open>writeRedactedZk\<close>, \<open>writeWithReveal\<close>, \<open>setRevealOfLastSentBlocks\<close> and
  \<open>getLastBlocks\<close> of \<open>src/client/create-claim.ts\<close>).

  A record of the transcript is named by its index, which stands for the identity of its
  \<open>TLSPacketContext\<close>. The objects that say how to reveal a record live in a store (\<open>reveals\<close>) and the
  map \<open>revealMap\<close> holds references to them, as several records may share one object. The TLS client of
  the package is the record \<open>tls_client\<close>: writing and updating the keys return its new state, the
  records that entered the transcript meanwhile, in either direction, and the exception, if any.
\<close>

datatype MessageRevealInfo = CompleteReveal | ZkReveal bytes "TOPRFProofParams list"

record 't tls_client =
  tls_write :: "'t \<Rightarrow> bytes \<Rightarrow> 't \<times> CompleteTLSPacket Transcript \<times> js_error option"
  tls_updateTrafficKeys :: "'t \<Rightarrow> 't \<times> CompleteTLSPacket Transcript \<times> js_error option"

record 't tls_tunnel =
  tn_tls :: 't
  tn_transcript :: "CompleteTLSPacket Transcript"
  revealMap :: "nat \<rightharpoonup> nat"
  reveals :: "MessageRevealInfo list"
  lastMsgRevealed :: bool

subsection \<open>Marking records\<close>

text \<open>The loop of \<open>getLastBlocks\<close> from the end; the first argument counts the records still to look at.\<close>

fun last_blocks :: "sender \<Rightarrow> nat \<Rightarrow> 'a Transcript \<Rightarrow> nat \<Rightarrow> nat list \<Rightarrow> nat list" where
  "last_blocks s nBlocks tr 0 lastBlocks = lastBlocks"
| "last_blocks s nBlocks tr (Suc i) lastBlocks =
     (if fst (tr ! i) = s then
        (if length (lastBlocks @ [i]) = nBlocks then lastBlocks @ [i]
         else last_blocks s nBlocks tr i (lastBlocks @ [i]))
      else last_blocks s nBlocks tr i lastBlocks)"

definition getLastBlocks :: "sender \<Rightarrow> nat \<Rightarrow> 'a Transcript \<Rightarrow> nat list" where
  "getLastBlocks s nBlocks tr = last_blocks s nBlocks tr (length tr) []"

text \<open>The reveal object is made by the caller; \<open>None\<close> is \<open>undefined\<close>.\<close>

definition setRevealOfMessage :: "nat \<Rightarrow> nat option \<Rightarrow> (nat \<rightharpoonup> nat) \<Rightarrow> (nat \<rightharpoonup> nat)" where
  "setRevealOfMessage i r m = m(i := r)"

definition setRevealOfLastSentBlocks :: "MessageRevealInfo option \<Rightarrow> nat \<Rightarrow> 't tls_tunnel \<Rightarrow> 't tls_tunnel" where
  "setRevealOfLastSentBlocks reveal nBlocks t =
     (let ref = map_option (\<lambda>_. length (reveals t)) reveal;
          lastBlocks = getLastBlocks Client nBlocks (tn_transcript t)
      in t\<lparr>reveals := (case reveal of None \<Rightarrow> reveals t | Some r \<Rightarrow> reveals t @ [r]),
           revealMap := fold (\<lambda>i. setRevealOfMessage i ref) lastBlocks (revealMap t)\<rparr>)"

subsection \<open>Writing\<close>

definition run_tls :: "('t \<Rightarrow> 't \<times> CompleteTLSPacket Transcript \<times> js_error option) \<Rightarrow> 't tls_tunnel
    \<Rightarrow> 't tls_tunnel \<times> js_error option" where
  "run_tls op t = (case op (tn_tls t) of (tls', pkts, e) \<Rightarrow>
     (t\<lparr>tn_tls := tls', tn_transcript := tn_transcript t @ pkts\<rparr>, e))"

text \<open>Steps that may throw: a step after an exception is not run.\<close>

definition then_do :: "'s \<times> js_error option \<Rightarrow> ('s \<Rightarrow> 's \<times> js_error option) \<Rightarrow> 's \<times> js_error option" where
  "then_do r f = (case r of (s, None) \<Rightarrow> f s | (s, Some e) \<Rightarrow> (s, Some e))"

definition write_data :: "'t tls_client \<Rightarrow> bytes \<Rightarrow> MessageRevealInfo option \<Rightarrow> 't tls_tunnel
    \<Rightarrow> 't tls_tunnel \<times> js_error option" where
  "write_data T data reveal t =
     (let before = length (tn_transcript t) in
      then_do (run_tls (\<lambda>s. tls_write T s data) t) (\<lambda>t1.
        (setRevealOfLastSentBlocks reveal (length (tn_transcript t1) - before) t1, None)))"

definition writeWithReveal :: "'t tls_client \<Rightarrow> bytes \<Rightarrow> bool \<Rightarrow> 't tls_tunnel \<Rightarrow> 't tls_tunnel \<times> js_error option" where
  "writeWithReveal T data reveal t =
     then_do (if reveal \<noteq> lastMsgRevealed t then run_tls (tls_updateTrafficKeys T) t else (t, None)) (\<lambda>t1.
     then_do (write_data T data (if reveal then Some CompleteReveal else None) t1) (\<lambda>t2.
       (t2\<lparr>lastMsgRevealed := reveal\<rparr>, None)))"

fun write_sections :: "'t tls_client \<Rightarrow> bytes \<Rightarrow> int \<Rightarrow> 'a ArraySlice_scheme list \<Rightarrow> 't tls_tunnel
    \<Rightarrow> 't tls_tunnel \<times> js_error option" where
  "write_sections T requestData currentIndex [] t = (t, None)"
| "write_sections T requestData currentIndex (section # sections) t =
     (let block = js_slice requestData currentIndex (fromIndex section);
          secret = js_slice requestData (fromIndex section) (toIndex section)
      in then_do (if block \<noteq> [] then writeWithReveal T block True t else (t, None)) (\<lambda>t1.
         then_do (writeWithReveal T secret False t1) (\<lambda>t2.
           write_sections T requestData (toIndex section) sections t2)))"

definition last_block_start :: "'a ArraySlice_scheme list \<Rightarrow> int" where
  "last_block_start redactions = (if redactions = [] then 0 else toIndex (last redactions))"

definition writeRedactedWithKeyUpdate :: "'t tls_client \<Rightarrow> bytes \<Rightarrow> 'a ArraySlice_scheme list \<Rightarrow> 't tls_tunnel
    \<Rightarrow> 't tls_tunnel \<times> js_error option" where
  "writeRedactedWithKeyUpdate T requestData redactions t =
     then_do (write_sections T requestData 0 redactions t) (\<lambda>t1.
       let block = js_slice_from requestData (last_block_start redactions) in
       if block \<noteq> [] then writeWithReveal T block True t1 else (t1, None))"

definition writeRedactedZk :: "'t tls_client \<Rightarrow> bytes \<Rightarrow> 'a ArraySlice_scheme list \<Rightarrow> 't tls_tunnel
    \<Rightarrow> 't tls_tunnel \<times> js_error option" where
  "writeRedactedZk T requestData redactions t =
     write_data T requestData (Some (ZkReveal (redactSlices requestData redactions) [])) t"

definition reveal_of :: "'t tls_tunnel \<Rightarrow> nat \<Rightarrow> MessageRevealInfo option" where
  "reveal_of t i = Option.bind (revealMap t i) (js_get (reveals t) \<circ> int)"

subsection \<open>The records marked\<close>

lemma last_blocks_take:
  "nBlocks \<noteq> 0 \<Longrightarrow> length acc < nBlocks \<Longrightarrow>
     last_blocks s nBlocks tr n acc = acc @ take (nBlocks - length acc) (rev (filter (\<lambda>i. fst (tr ! i) = s) [0..<n]))"
proof (induction n arbitrary: acc)
  case (Suc n)
  then show ?case using Suc.IH[of "acc @ [n]"] by (auto simp: take_Cons' Suc_diff_le)
qed simp

lemma last_blocks_all:
  "last_blocks s 0 tr n acc = acc @ rev (filter (\<lambda>i. fst (tr ! i) = s) [0..<n])"
  by (induction n arbitrary: acc) auto

lemma getLastBlocks_written:
  assumes "\<forall>p \<in> set pkts. fst p = s" and "pkts \<noteq> []"
  shows "getLastBlocks s (length pkts) (tr @ pkts) = rev [length tr..<length tr + length pkts]"
proof -
  have "filter (\<lambda>i. fst ((tr @ pkts) ! i) = s) [length tr..<length tr + length pkts] = [length tr..<length tr + length pkts]"
    using assms(1) by (auto simp: filter_id_conv nth_append)
  moreover have "[0..<length tr + length pkts] = [0..<length tr] @ [length tr..<length tr + length pkts]"
    by (rule upt_add_eq_append) simp
  ultimately show ?thesis
    using assms(2) by (simp add: getLastBlocks_def last_blocks_take)
qed

lemma fold_setReveal:
  "fold (\<lambda>i. setRevealOfMessage i r) is m = (\<lambda>i. if i \<in> set is then r else m i)"
  by (induction "is" arbitrary: m) (auto simp: setRevealOfMessage_def fun_eq_iff)

subsection \<open>The transcript with its marks\<close>

definition marked :: "'t tls_tunnel \<Rightarrow> (CompleteTLSPacket \<times> MessageRevealInfo option) list" where
  "marked t = map (\<lambda>i. (snd (tn_transcript t ! i), reveal_of t i)) [0..<length (tn_transcript t)]"

text \<open>References point into the store and belong to records of the transcript.\<close>

definition marks_wf :: "'t tls_tunnel \<Rightarrow> bool" where
  "marks_wf t \<longleftrightarrow> (\<forall>i r. revealMap t i = Some r \<longrightarrow> i < length (tn_transcript t) \<and> r < length (reveals t))"

lemma marked_run_tls:
  assumes "marks_wf t" and "run_tls op t = (t', None)"
  shows "\<exists>tls' pkts. op (tn_tls t) = (tls', pkts, None) \<and> tn_tls t' = tls' \<and> tn_transcript t' = tn_transcript t @ pkts
    \<and> marks_wf t' \<and> lastMsgRevealed t' = lastMsgRevealed t \<and> marked t' = marked t @ map (\<lambda>p. (snd p, None)) pkts"
proof -
  obtain tls' pkts where op: "op (tn_tls t) = (tls', pkts, None)"
    and t': "t' = t\<lparr>tn_tls := tls', tn_transcript := tn_transcript t @ pkts\<rparr>"
    using assms(2) by (auto simp: run_tls_def split: prod.splits)
  have "revealMap t i = None" if "length (tn_transcript t) \<le> i" for i
    using assms(1) that by (cases "revealMap t i") (auto simp: marks_wf_def dest: leD)
  then have "marked t' = marked t @ map (\<lambda>p. (snd p, None)) pkts"
    unfolding t' by (intro nth_equalityI) (auto simp: marked_def nth_append reveal_of_def)
  then show ?thesis using op t' assms(1) by (fastforce simp: marks_wf_def)
qed

lemma marked_write_data:
  assumes "marks_wf t" and "write_data T data reveal t = (t', None)"
    and "tls_write T (tn_tls t) data = (tls', pkts, None)" and "\<forall>p \<in> set pkts. fst p = Client" and "pkts \<noteq> []"
  shows "marks_wf t' \<and> tn_tls t' = tls' \<and> lastMsgRevealed t' = lastMsgRevealed t
    \<and> marked t' = marked t @ map (\<lambda>p. (snd p, reveal)) pkts"
proof -
  let ?n = "length (tn_transcript t)" and ?ref = "map_option (\<lambda>_. length (reveals t)) reveal"
  have old: "i < ?n \<and> r < length (reveals t)" if "revealMap t i = Some r" for i r
    using assms(1) that by (simp add: marks_wf_def)
  have t': "t' = t\<lparr>tn_tls := tls', tn_transcript := tn_transcript t @ pkts,
      reveals := (case reveal of None \<Rightarrow> reveals t | Some r \<Rightarrow> reveals t @ [r]),
      revealMap := (\<lambda>i. if ?n \<le> i \<and> i < ?n + length pkts then ?ref else revealMap t i)\<rparr>"
    using assms(2,3) getLastBlocks_written[OF assms(4,5), of "tn_transcript t"]
    by (cases reveal) (simp_all add: write_data_def run_tls_def then_do_def setRevealOfLastSentBlocks_def fold_setReveal cong: if_cong)
  have "reveal_of t' i = (if ?n \<le> i \<and> i < ?n + length pkts then reveal else reveal_of t i)" for i
  proof (cases "?n \<le> i \<and> i < ?n + length pkts")
    case True
    then show ?thesis unfolding t' by (cases reveal) (auto simp: reveal_of_def js_get_def)
  next
    case False
    then show ?thesis unfolding t'
      by (cases "revealMap t i"; cases reveal) (auto simp: reveal_of_def js_get_def nth_append dest!: old)
  qed
  then have "marked t' = marked t @ map (\<lambda>p. (snd p, reveal)) pkts"
    by (intro nth_equalityI) (auto simp: marked_def nth_append t')
  moreover have "marks_wf t'"
    unfolding marks_wf_def t' by (cases reveal) (auto dest!: old split: if_splits)
  ultimately show ?thesis by (simp add: t')
qed

subsection \<open>What is assumed of the TLS client\<close>

definition app_text :: "TLSProtocolVersion option \<Rightarrow> CompleteTLSPacket \<Rightarrow> bytes" where
  "app_text tlsVersion p = (if tlsVersion = Some TLS1_3 then js_slice (pkt_plaintext p) 0 (-1) else pkt_plaintext p)"

text \<open>
  Nothing arrives while the client writes; the records of a write hold its data, in order, under the
  current traffic key; updating the keys sends no application data and moves to the next key.
\<close>

definition tls_client_spec ::
  "tls_pkg \<Rightarrow> TLSProtocolVersion option \<Rightarrow> ('t \<Rightarrow> nat) \<Rightarrow> (nat \<Rightarrow> bytes) \<Rightarrow> 't tls_client \<Rightarrow> bool" where
  "tls_client_spec L v epoch key T \<longleftrightarrow>
     inj key
     \<and> (\<forall>s data s' pkts. tls_write T s data = (s', pkts, None) \<longrightarrow>
          epoch s' = epoch s \<and> concat (map (app_text v \<circ> snd) pkts) = data
          \<and> (\<forall>p \<in> set pkts. fst p = Client \<and> isApplicationData L (snd p) v \<and> pkt_encKey (snd p) = key (epoch s)))
     \<and> (\<forall>s s' pkts. tls_updateTrafficKeys T s = (s', pkts, None) \<longrightarrow>
          epoch s' = Suc (epoch s) \<and> (\<forall>p \<in> set pkts. fst p = Client \<and> \<not> isApplicationData L (snd p) v))"

lemma tls_client_specD:
  assumes "tls_client_spec L v epoch key T"
  shows "inj key"
    and "tls_write T s data = (s', pkts, None) \<Longrightarrow> epoch s' = epoch s \<and> concat (map (app_text v \<circ> snd) pkts) = data
          \<and> (\<forall>p \<in> set pkts. fst p = Client \<and> isApplicationData L (snd p) v \<and> pkt_encKey (snd p) = key (epoch s))"
    and "tls_updateTrafficKeys T s = (s', pkts, None) \<Longrightarrow>
          epoch s' = Suc (epoch s) \<and> (\<forall>p \<in> set pkts. fst p = Client \<and> \<not> isApplicationData L (snd p) v)"
  using assms unfolding tls_client_spec_def by blast+

subsection \<open>What a marked record shows\<close>

definition shown :: "TLSProtocolVersion option \<Rightarrow> CompleteTLSPacket \<Rightarrow> MessageRevealInfo option \<Rightarrow> bytes" where
  "shown v p r =
     (case r of
        None \<Rightarrow> replicate (length (app_text v p)) REDACTION_CHAR_CODE
      | Some CompleteReveal \<Rightarrow> app_text v p
      | Some (ZkReveal red _) \<Rightarrow> red)"

definition view :: "tls_pkg \<Rightarrow> TLSProtocolVersion option \<Rightarrow> (CompleteTLSPacket \<times> MessageRevealInfo option) list \<Rightarrow> bytes" where
  "view L v ms = concat (map (\<lambda>(p, r). shown v p r) (filter (\<lambda>(p, r). isApplicationData L p v) ms))"

lemma view_append: "view L v (ms @ ns) = view L v ms @ view L v ns"
  by (simp add: view_def)

lemma view_written:
  assumes "\<forall>p \<in> set pkts. isApplicationData L (snd p) v"
  shows "view L v (map (\<lambda>p. (snd p, if reveal then Some CompleteReveal else None)) pkts) =
    (if reveal then concat (map (app_text v \<circ> snd) pkts)
     else replicate (length (concat (map (app_text v \<circ> snd) pkts))) REDACTION_CHAR_CODE)"
  using assms by (induction pkts) (auto simp: view_def shown_def replicate_add)

lemma view_other: "\<forall>p \<in> set pkts. \<not> isApplicationData L (snd p) v \<Longrightarrow> view L v (map (\<lambda>p. (snd p, r)) pkts) = []"
  by (induction pkts) (auto simp: view_def)

text \<open>One call of \<open>writeWithReveal\<close>.\<close>

definition written_under :: "tls_pkg \<Rightarrow> TLSProtocolVersion option \<Rightarrow> bytes \<Rightarrow> bool \<Rightarrow>
    (CompleteTLSPacket \<times> MessageRevealInfo option) list \<Rightarrow> bool" where
  "written_under L v k reveal ms \<longleftrightarrow>
     (\<forall>(p, r) \<in> set ms. if isApplicationData L p v then pkt_encKey p = k \<and> (r \<noteq> None) = reveal else r = None)"

lemma write_step:
  assumes T: "tls_client_spec L v epoch key T" and wf: "marks_wf t" and "data \<noteq> []"
    and run: "writeWithReveal T data reveal t = (t', None)"
  shows "\<exists>ms. marked t' = marked t @ ms \<and> marks_wf t' \<and> lastMsgRevealed t' = reveal
    \<and> epoch (tn_tls t') = (if reveal = lastMsgRevealed t then epoch (tn_tls t) else Suc (epoch (tn_tls t)))
    \<and> view L v ms = (if reveal then data else replicate (length data) REDACTION_CHAR_CODE)
    \<and> written_under L v (key (epoch (tn_tls t'))) reveal ms"
proof -
  let ?r = "if reveal then Some CompleteReveal else None"
  obtain t1 t2 where t1: "(if reveal \<noteq> lastMsgRevealed t then run_tls (tls_updateTrafficKeys T) t else (t, None)) = (t1, None)"
    and t2: "write_data T data ?r t1 = (t2, None)" and t': "t' = t2\<lparr>lastMsgRevealed := reveal\<rparr>"
    using run by (auto simp: writeWithReveal_def then_do_def split: prod.splits option.splits)
  have "\<exists>u :: CompleteTLSPacket Transcript. marked t1 = marked t @ map (\<lambda>p. (snd p, None)) u \<and> marks_wf t1
      \<and> (\<forall>p \<in> set u. \<not> isApplicationData L (snd p) v)
      \<and> epoch (tn_tls t1) = (if reveal = lastMsgRevealed t then epoch (tn_tls t) else Suc (epoch (tn_tls t)))"
  proof (cases "reveal = lastMsgRevealed t")
    case True
    then show ?thesis using t1 wf by (intro exI[of _ "[]"]) auto
  next
    case False
    then have "run_tls (tls_updateTrafficKeys T) t = (t1, None)" using t1 by simp
    then obtain s1 u where "tls_updateTrafficKeys T (tn_tls t) = (s1, u, None)" "tn_tls t1 = s1" "marks_wf t1"
      "marked t1 = marked t @ map (\<lambda>p. (snd p, None)) u" using marked_run_tls[OF wf] by blast
    then show ?thesis using tls_client_specD(3)[OF T] False by (intro exI[of _ u]) auto
  qed
  then obtain u :: "CompleteTLSPacket Transcript" where u: "marked t1 = marked t @ map (\<lambda>p. (snd p, None)) u" "marks_wf t1"
    "\<forall>p \<in> set u. \<not> isApplicationData L (snd p) v"
    "epoch (tn_tls t1) = (if reveal = lastMsgRevealed t then epoch (tn_tls t) else Suc (epoch (tn_tls t)))" by blast
  obtain s' pkts where w: "tls_write T (tn_tls t1) data = (s', pkts, None)"
    using t2 by (auto simp: write_data_def run_tls_def then_do_def split: prod.splits option.splits)
  note spec = tls_client_specD(2)[OF T w]
  then have "pkts \<noteq> []" using \<open>data \<noteq> []\<close> by auto
  with marked_write_data[OF u(2) t2 w] spec
  have m: "marks_wf t2" "tn_tls t2 = s'" "marked t2 = marked t1 @ map (\<lambda>p. (snd p, ?r)) pkts" by auto
  have keep: "marked t' = marked t2" "marks_wf t' = marks_wf t2" "tn_tls t' = tn_tls t2"
    by (simp_all add: t' marked_def marks_wf_def reveal_of_def)
  let ?ms = "map (\<lambda>p. (snd p, None)) u @ map (\<lambda>p. (snd p, ?r)) pkts"
  have "view L v ?ms = (if reveal then data else replicate (length data) REDACTION_CHAR_CODE)"
    using spec view_written[of pkts L v reveal] view_other[OF u(3), of None] by (simp add: view_append)
  moreover have "written_under L v (key (epoch (tn_tls t'))) reveal ?ms"
    using u(3) spec keep(3) m(2) by (auto simp: written_under_def)
  ultimately show ?thesis using u m spec keep by (intro exI[of _ ?ms]) (simp add: t')
qed

subsection \<open>The whole request\<close>

text \<open>Redactions in order, without overlap, none empty, all inside the request.\<close>

fun request_chain :: "nat \<Rightarrow> int \<Rightarrow> 'a ArraySlice_scheme list \<Rightarrow> bool" where
  "request_chain n c [] \<longleftrightarrow> c \<le> int n"
| "request_chain n c (s # ss) \<longleftrightarrow> c \<le> fromIndex s \<and> fromIndex s < toIndex s \<and> request_chain n (toIndex s) ss"

fun cut_sections :: "bytes \<Rightarrow> int \<Rightarrow> 'a ArraySlice_scheme list \<Rightarrow> bytes" where
  "cut_sections data c [] = []"
| "cut_sections data c (s # ss) = js_slice data c (fromIndex s)
     @ replicate (length (js_slice data (fromIndex s) (toIndex s))) REDACTION_CHAR_CODE @ cut_sections data (toIndex s) ss"

fun end_of :: "int \<Rightarrow> 'a ArraySlice_scheme list \<Rightarrow> int" where
  "end_of c [] = c"
| "end_of c (s # ss) = end_of (toIndex s) ss"

lemma end_of_last: "end_of c ss = (if ss = [] then c else toIndex (last ss))"
  by (induction ss arbitrary: c) auto

lemma request_chain_bounds: "request_chain n c ss \<Longrightarrow> c \<le> end_of c ss \<and> end_of c ss \<le> int n"
  by (induction ss arbitrary: c) (auto dest: less_imp_le order_trans)

lemma request_chain_ge: "request_chain n c ss \<Longrightarrow> s \<in> set ss \<Longrightarrow> c \<le> fromIndex s"
  by (induction ss arbitrary: c) fastforce+

lemma cut_sections_redact:
  "request_chain (length data) c ss \<Longrightarrow> 0 \<le> c \<Longrightarrow>
     cut_sections data c ss @ drop (nat (end_of c ss)) data = drop (nat c) (redactSlices data ss)"
proof (induction ss arbitrary: c)
  case Nil
  then show ?case by (simp add: redactSlices_def)
next
  case (Cons s ss)
  let ?a = "nat (fromIndex s)" and ?b = "nat (toIndex s)" and ?R = "redactSlices data (s # ss)"
  have le: "c \<le> fromIndex s" "fromIndex s < toIndex s" and chain: "request_chain (length data) (toIndex s) ss"
    using Cons.prems by auto
  have b: "toIndex s \<le> int (length data)" using request_chain_bounds[OF chain] by simp
  have ge: "toIndex s \<le> fromIndex x" if "x \<in> set ss" for x by (rule request_chain_ge[OF chain that])
  have "take (?a - nat c) (drop (nat c) ?R) = take (?a - nat c) (drop (nat c) data)"
    using le b Cons.prems(2) ge by (intro nth_equalityI) (fastforce simp: redactSlices_nth)+
  moreover have "take (?b - ?a) (drop ?a ?R) = replicate (?b - ?a) REDACTION_CHAR_CODE"
    using le b Cons.prems(2) ge by (intro nth_equalityI) (auto simp: redactSlices_nth)
  moreover have "drop ?b ?R = drop ?b (redactSlices data ss)"
    using le b Cons.prems(2) ge by (intro nth_equalityI) (auto simp: redactSlices_nth)
  moreover have "drop (nat c) ?R = take (?a - nat c) (drop (nat c) ?R) @ take (?b - ?a) (drop ?a ?R) @ drop ?b ?R"
  proof -
    have "drop (nat c) ?R = take (?a - nat c) (drop (nat c) ?R) @ drop (?a - nat c) (drop (nat c) ?R)"
      by (rule append_take_drop_id[symmetric])
    also have "drop (?a - nat c) (drop (nat c) ?R) = drop ?a ?R" using le Cons.prems(2) by simp
    also have "\<dots> = take (?b - ?a) (drop ?a ?R) @ drop (?b - ?a) (drop ?a ?R)"
      by (rule append_take_drop_id[symmetric])
    also have "drop (?b - ?a) (drop ?a ?R) = drop ?b ?R" using le Cons.prems(2) by simp
    finally show ?thesis .
  qed
  moreover have "cut_sections data (toIndex s) ss @ drop (nat (end_of (toIndex s) ss)) data = drop ?b (redactSlices data ss)"
    using Cons.IH[OF chain] le Cons.prems(2) by simp
  moreover have "js_slice data c (fromIndex s) = take (?a - nat c) (drop (nat c) data)"
    "length (js_slice data (fromIndex s) (toIndex s)) = ?b - ?a"
    using le b Cons.prems(2) by (auto simp: js_slices)
  ultimately show ?case by simp
qed

text \<open>Every key has been used for revealed records only or for hidden ones only.\<close>

definition keys_separated ::
  "tls_pkg \<Rightarrow> TLSProtocolVersion option \<Rightarrow> (nat \<Rightarrow> bytes) \<Rightarrow> nat \<Rightarrow> bool
   \<Rightarrow> (CompleteTLSPacket \<times> MessageRevealInfo option) list \<Rightarrow> bool" where
  "keys_separated L v key e lastRevealed ms \<longleftrightarrow>
     (\<exists>status. status e = lastRevealed
        \<and> (\<forall>(p, r) \<in> set ms. if isApplicationData L p v
             then \<exists>i \<le> e. pkt_encKey p = key i \<and> (r \<noteq> None) = status i else r = None))"

lemma keys_separated_step:
  assumes "keys_separated L v key e lr ms" and "written_under L v (key e') reveal ns"
    and "e' = (if reveal = lr then e else Suc e)"
  shows "keys_separated L v key e' reveal (ms @ ns)"
proof -
  obtain status where s: "status e = lr" "\<forall>(p, r) \<in> set ms. if isApplicationData L p v
      then \<exists>i \<le> e. pkt_encKey p = key i \<and> (r \<noteq> None) = status i else r = None"
    using assms(1) unfolding keys_separated_def by blast
  have "e' \<ge> e" using assms(3) by simp
  then have "\<exists>i \<le> e'. pkt_encKey p = key i \<and> (r \<noteq> None) = (status(e' := reveal)) i"
    if new: "(p, r) \<in> set (ms @ ns)" "isApplicationData L p v" for p r
  proof (cases "(p, r) \<in> set ms")
    case True
    then obtain i where i: "i \<le> e" "pkt_encKey p = key i" "(r \<noteq> None) = status i" using bspec[OF s(2) True] new(2) by auto
    have "status i = (status(e' := reveal)) i"
      using i(1) assms(3) s(1) by (cases "reveal = lr") simp_all
    then show ?thesis using i \<open>e \<le> e'\<close> order_trans by metis
  next
    case False
    then show ?thesis using new assms(2) by (intro exI[of _ e']) (auto simp: written_under_def)
  qed
  note new = this
  show ?thesis unfolding keys_separated_def
  proof (intro exI[of _ "status(e' := reveal)"] conjI ballI)
    show "(status(e' := reveal)) e' = reveal" by simp
    fix x assume x: "x \<in> set (ms @ ns)"
    obtain p r where "x = (p, r)" by (cases x)
    moreover have "r = None" if "\<not> isApplicationData L p v"
      using x \<open>x = (p, r)\<close> that assms(2) s(2) by (auto simp: written_under_def)
    ultimately show "case x of (p, r) \<Rightarrow> if isApplicationData L p v
        then \<exists>i \<le> e'. pkt_encKey p = key i \<and> (r \<noteq> None) = (status(e' := reveal)) i else r = None"
      using new[of p r] x by (simp only: prod.case split: if_split) blast
  qed
qed

definition request_written ::
  "tls_pkg \<Rightarrow> TLSProtocolVersion option \<Rightarrow> ('t \<Rightarrow> nat) \<Rightarrow> (nat \<Rightarrow> bytes) \<Rightarrow> 't tls_tunnel \<Rightarrow> bytes
   \<Rightarrow> (CompleteTLSPacket \<times> MessageRevealInfo option) list \<Rightarrow> 't tls_tunnel \<Rightarrow> bool" where
  "request_written L v epoch key t0 sofar ms t \<longleftrightarrow>
     marked t = marked t0 @ ms \<and> marks_wf t \<and> view L v ms = sofar
     \<and> keys_separated L v key (epoch (tn_tls t)) (lastMsgRevealed t) ms"

lemma request_written_step:
  assumes T: "tls_client_spec L v epoch key T" and w: "request_written L v epoch key t0 sofar ms t"
    and run: "(if data \<noteq> [] then writeWithReveal T data reveal t else (t, None)) = (t', None)"
  shows "\<exists>ms'. request_written L v epoch key t0
      (sofar @ (if reveal then data else replicate (length data) REDACTION_CHAR_CODE)) ms' t'"
proof (cases "data = []")
  case True
  then show ?thesis using assms by auto
next
  case False
  then have "writeWithReveal T data reveal t = (t', None)" using run by simp
  from write_step[OF T _ False this] w
  obtain ns where ns: "marked t' = marked t @ ns" "marks_wf t'" "lastMsgRevealed t' = reveal"
    "epoch (tn_tls t') = (if reveal = lastMsgRevealed t then epoch (tn_tls t) else Suc (epoch (tn_tls t)))"
    "view L v ns = (if reveal then data else replicate (length data) REDACTION_CHAR_CODE)"
    "written_under L v (key (epoch (tn_tls t'))) reveal ns"
    unfolding request_written_def by blast
  then have "request_written L v epoch key t0 (sofar @ view L v ns) (ms @ ns) t'"
    using w keys_separated_step[where e' = "epoch (tn_tls t')" and e = "epoch (tn_tls t)" and key = key and lr = "lastMsgRevealed t",
      OF _ ns(6,4), of ms] by (simp add: request_written_def view_append)
  then show ?thesis using ns(5) by auto
qed

lemma sections_written:
  assumes T: "tls_client_spec L v epoch key T"
  shows "request_chain (length data) c ss \<Longrightarrow> 0 \<le> c \<Longrightarrow> request_written L v epoch key t0 sofar ms t \<Longrightarrow>
     write_sections T data c ss t = (t', None) \<Longrightarrow>
     \<exists>ms'. request_written L v epoch key t0 (sofar @ cut_sections data c ss) ms' t'"
proof (induction ss arbitrary: c sofar ms t)
  case (Cons s ss)
  let ?block = "js_slice data c (fromIndex s)" and ?secret = "js_slice data (fromIndex s) (toIndex s)"
  have b: "toIndex s \<le> int (length data)" "c \<le> fromIndex s" "fromIndex s < toIndex s"
    using Cons.prems(1) request_chain_bounds[of "length data" "toIndex s" ss] by auto
  then have secret: "?secret \<noteq> []" using Cons.prems(2) by (simp add: js_slices) linarith
  obtain t1 t2 where r: "(if ?block \<noteq> [] then writeWithReveal T ?block True t else (t, None)) = (t1, None)"
    "writeWithReveal T ?secret False t1 = (t2, None)" "write_sections T data (toIndex s) ss t2 = (t', None)"
    using Cons.prems(4) by (auto simp: then_do_def Let_def split: prod.splits option.splits)
  obtain m1 where "request_written L v epoch key t0 (sofar @ ?block) m1 t1"
    using request_written_step[OF T Cons.prems(3) r(1)] by auto
  then obtain m2 where "request_written L v epoch key t0
      ((sofar @ ?block) @ replicate (length ?secret) REDACTION_CHAR_CODE) m2 t2"
    using request_written_step[OF T, of t0 "sofar @ ?block" m1 t1 ?secret False t2] r(2) secret by auto
  from Cons.IH[OF _ _ this r(3)] Cons.prems(1,2) b show ?case by simp
qed (auto simp: request_written_def)

lemma key_update_written:
  assumes T: "tls_client_spec L v epoch key T" and "marks_wf t" and "request_chain (length data) 0 ss"
    and run: "writeRedactedWithKeyUpdate T data ss t = (t', None)"
  shows "\<exists>ms. request_written L v epoch key t (redactSlices data ss) ms t'"
proof -
  let ?rest = "js_slice_from data (last_block_start ss)"
  obtain t1 where r: "write_sections T data 0 ss t = (t1, None)"
    "(if ?rest \<noteq> [] then writeWithReveal T ?rest True t1 else (t1, None)) = (t', None)"
    using run by (auto simp: writeRedactedWithKeyUpdate_def then_do_def Let_def split: prod.splits option.splits)
  have "request_written L v epoch key t [] [] t"
    using assms(2) by (auto simp: request_written_def view_def keys_separated_def)
  from sections_written[OF T assms(3) _ this r(1)]
  obtain m1 where m1: "request_written L v epoch key t (cut_sections data 0 ss) m1 t1" by auto
  have "0 \<le> last_block_start ss" "last_block_start ss = end_of 0 ss"
    using request_chain_bounds[OF assms(3)] by (simp_all add: last_block_start_def end_of_last)
  then have "cut_sections data 0 ss @ ?rest = redactSlices data ss"
    using cut_sections_redact[OF assms(3)] by (simp add: js_slices)
  with request_written_step[OF T m1 r(2)] show ?thesis by auto
qed

lemma zk_written:
  assumes "marks_wf t" and "writeRedactedZk T data ss t = (t', None)"
    and "tls_write T (tn_tls t) data = (s', pkts, None)" and "pkts \<noteq> []"
    and "\<forall>p \<in> set pkts. fst p = Client \<and> isApplicationData L (snd p) v"
  shows "\<exists>ms. marked t' = marked t @ ms \<and> marks_wf t'
    \<and> view L v ms = concat (replicate (length pkts) (redactSlices data ss))"
proof -
  let ?r = "Some (ZkReveal (redactSlices data ss) [])"
  have "marks_wf t' \<and> marked t' = marked t @ map (\<lambda>p. (snd p, ?r)) pkts"
    using marked_write_data[OF assms(1) _ assms(3) _ assms(4), of ?r t'] assms(2,5) by (simp add: writeRedactedZk_def)
  moreover have "view L v (map (\<lambda>p. (snd p, ?r)) pkts) = concat (replicate (length pkts) (redactSlices data ss))"
    using assms(5) by (induction pkts) (auto simp: view_def shown_def)
  ultimately show ?thesis by blast
qed

lemma separated_keys_differ:
  assumes "inj key" and "keys_separated L v key e lr ms"
  shows "(p, Some r) \<in> set ms \<Longrightarrow> (q, None) \<in> set ms \<Longrightarrow> isApplicationData L p v \<Longrightarrow> isApplicationData L q v
    \<Longrightarrow> pkt_encKey p \<noteq> pkt_encKey q"
proof -
  assume two: "(p, Some r) \<in> set ms" "(q, None) \<in> set ms" "isApplicationData L p v" "isApplicationData L q v"
  obtain status where s: "\<forall>(p, r) \<in> set ms. if isApplicationData L p v
      then \<exists>i \<le> e. pkt_encKey p = key i \<and> (r \<noteq> None) = status i else r = None"
    using assms(2) unfolding keys_separated_def by blast
  obtain i j where "pkt_encKey p = key i" "status i" "pkt_encKey q = key j" "\<not> status j"
    using bspec[OF s two(1)] bspec[OF s two(2)] two(3,4) by auto
  then show ?thesis using assms(1) by (auto dest: injD)
qed

subsection \<open>Properties\<close>


text \<open>In key-update mode a record that is revealed, and whose key is thereby given away, never shares its
  key with a record of the request that stays hidden.\<close>

theorem hidden_records_have_own_keys:
  assumes "tls_client_spec L v epoch key T" and "marks_wf t" and "request_chain (length data) 0 ss"
    and "writeRedactedWithKeyUpdate T data ss t = (t', None)"
  shows "\<exists>ms. marked t' = marked t @ ms
    \<and> (\<forall>p r q. (p, Some r) \<in> set ms \<and> (q, None) \<in> set ms \<and> isApplicationData L p v \<and> isApplicationData L q v
         \<longrightarrow> pkt_encKey p \<noteq> pkt_encKey q)"
  using key_update_written[OF assms] separated_keys_differ[OF tls_client_specD(1)[OF assms(1)]]
  unfolding request_written_def by blast

text \<open>In ZK mode every record of the request is marked with the redaction of the whole request: what the
  marks show is that redaction once for each record, which is the redacted request only when the
  request fits into one record.\<close>

theorem zk_write_repeats_redaction:
  assumes "marks_wf t" and "writeRedactedZk T data ss t = (t', None)"
    and "tls_write T (tn_tls t) data = (s', pkts, None)" and "pkts \<noteq> []"
    and "\<forall>p \<in> set pkts. fst p = Client \<and> isApplicationData L (snd p) v"
  shows "\<exists>ms. marked t' = marked t @ ms
    \<and> view L v ms = concat (replicate (length pkts) (redactSlices data ss))"
  using zk_written[OF assms] by blast

text \<open>Asked for no blocks, \<open>getLastBlocks\<close> returns all of a party's: a write that makes no record, such as
  that of an empty section, changes the marks of every record before it.\<close>

theorem no_blocks_means_all:
  "getLastBlocks s 0 tr = rev (filter (\<lambda>i. fst (tr ! i) = s) [0..<length tr])"
  by (simp add: getLastBlocks_def last_blocks_all)

subsection \<open>A TLS client for the witnesses\<close>

definition ref_sent :: "bytes \<Rightarrow> string \<Rightarrow> bytes \<Rightarrow> CompleteTLSPacket" where
  "ref_sent k ct plaintext = \<lparr>pkt_type = CiphertextPacket, contentType = Some (js ct), pkt_data = [23, 3, 3, 0, 0] @ plaintext,
     pkt_plaintext = plaintext, pkt_ciphertext = plaintext, pkt_iv = [], pkt_fixedIv = [], pkt_recordNumber = 0, pkt_encKey = k\<rparr>"

text \<open>The state is the number of key updates; a write makes a record for each two bytes.\<close>

fun ref_cut :: "bytes \<Rightarrow> bytes list" where
  "ref_cut (x # y # zs) = [x, y] # ref_cut zs"
| "ref_cut [x] = [[x]]"
| "ref_cut [] = []"

definition ref_tls_client :: "nat tls_client" where
  "ref_tls_client = \<lparr>
     tls_write = (\<lambda>n data. (n, map (\<lambda>c. (Client, ref_sent (replicate n 0) ''APPLICATION_DATA'' (c @ [23]))) (ref_cut data), None)),
     tls_updateTrafficKeys = (\<lambda>n. (Suc n, [(Client, ref_sent (replicate n 0) ''HANDSHAKE'' [22])], None))\<rparr>"

definition ref_tunnel_start :: "nat tls_tunnel" where
  "ref_tunnel_start = \<lparr>tn_tls = 0, tn_transcript = [], revealMap = Map.empty, reveals = [], lastMsgRevealed = False\<rparr>"

lemma ref_tls_client_spec: "tls_client_spec tls_ref (Some TLS1_3) (\<lambda>n. n) (\<lambda>n. replicate n 0) ref_tls_client"
proof -
  have "concat (ref_cut d) = d" for d by (induction d rule: ref_cut.induct) auto
  moreover have "app_text (Some TLS1_3) \<circ> snd \<circ> (\<lambda>c. (s, ref_sent k ct (c @ [23]))) = id" for k ct and s :: sender
    using js_slice_drop_last[where 'a = byte and n = 1] by (simp add: fun_eq_iff app_text_def ref_sent_def)
  moreover have "isApplicationData tls_ref (ref_sent k ct d) (Some TLS1_3) \<longleftrightarrow> js ct = js ''APPLICATION_DATA''" "pkt_encKey (ref_sent k ct d) = k"
    for k ct d by (simp_all add: isApplicationData_def ref_sent_def)
  moreover have "js ''HANDSHAKE'' \<noteq> js ''APPLICATION_DATA''" by (simp add: js_def)
  ultimately show ?thesis
    by (auto simp: tls_client_spec_def inj_def ref_tls_client_def comp_assoc[symmetric] dest: arg_cong[of _ _ length])
qed

lemma ref_tunnel_start_wf: "marks_wf ref_tunnel_start"
  by (simp add: marks_wf_def ref_tunnel_start_def)

text \<open>The request \<open>1 2 3 4 5\<close> with \<open>2 3 4\<close> secret.\<close>

lemma ref_request_written:
  "\<exists>t'. writeRedactedWithKeyUpdate ref_tls_client [1, 2, 3, 4, 5] [\<lparr>fromIndex = 1, toIndex = 4\<rparr>] ref_tunnel_start = (t', None)
    \<and> map (\<lambda>p. (pkt_plaintext (snd p), length (pkt_encKey (snd p)))) (tn_transcript t') =
        [([22], 0), ([1, 23], 1), ([22], 1), ([2, 3, 23], 2), ([4, 23], 2), ([22], 2), ([5, 23], 3)]
    \<and> map (reveal_of t') [0..<7] = [None, Some CompleteReveal, None, None, None, None, Some CompleteReveal]"
  by (simp add: writeRedactedWithKeyUpdate_def writeWithReveal_def write_data_def run_tls_def then_do_def ref_tls_client_def
    ref_tunnel_start_def setRevealOfLastSentBlocks_def getLastBlocks_def setRevealOfMessage_def js_slices last_block_start_def
    ref_sent_def reveal_of_def js_get_def upt_rec)


theorem hidden_records_have_own_keys_witness:
  "\<exists>t' p q. writeRedactedWithKeyUpdate ref_tls_client [1, 2, 3, 4, 5] [\<lparr>fromIndex = 1, toIndex = 4\<rparr>] ref_tunnel_start = (t', None)
    \<and> (p, Some CompleteReveal) \<in> set (marked t') \<and> (q, None) \<in> set (marked t')
    \<and> app_text (Some TLS1_3) p = [1] \<and> app_text (Some TLS1_3) q = [2, 3] \<and> pkt_encKey p \<noteq> pkt_encKey q"
proof -
  obtain t' where t': "writeRedactedWithKeyUpdate ref_tls_client [1, 2, 3, 4, 5] [\<lparr>fromIndex = 1, toIndex = 4\<rparr>] ref_tunnel_start
      = (t', None)"
    and tr: "tn_transcript t' = map (Pair Client) [ref_sent [] ''HANDSHAKE'' [22], ref_sent [0] ''APPLICATION_DATA'' [1, 23],
        ref_sent [0] ''HANDSHAKE'' [22], ref_sent [0, 0] ''APPLICATION_DATA'' [2, 3, 23], ref_sent [0, 0] ''APPLICATION_DATA'' [4, 23],
        ref_sent [0, 0] ''HANDSHAKE'' [22], ref_sent [0, 0, 0] ''APPLICATION_DATA'' [5, 23]]"
    and rv: "reveal_of t' 1 = Some CompleteReveal" "reveal_of t' 3 = None"
    by (atomize_elim, simp add: writeRedactedWithKeyUpdate_def writeWithReveal_def write_data_def run_tls_def then_do_def
      ref_tls_client_def ref_tunnel_start_def setRevealOfLastSentBlocks_def getLastBlocks_def setRevealOfMessage_def js_slices
      last_block_start_def reveal_of_def js_get_def)
  let ?p = "ref_sent [0] ''APPLICATION_DATA'' [1, 23]" and ?q = "ref_sent [0, 0] ''APPLICATION_DATA'' [2, 3, 23]"
  have "marked t' ! 1 = (?p, Some CompleteReveal)" "marked t' ! 3 = (?q, None)" "length (marked t') = 7"
    using rv by (simp_all add: marked_def tr numeral_3_eq_3)
  then have pq: "(?p, Some CompleteReveal) \<in> set (marked t')" "(?q, None) \<in> set (marked t')"
    using nth_mem[of 1 "marked t'"] nth_mem[of 3 "marked t'"] by simp_all
  have app: "isApplicationData tls_ref ?p (Some TLS1_3)" "isApplicationData tls_ref ?q (Some TLS1_3)"
    by (simp_all add: isApplicationData_def ref_sent_def)
  have "marked ref_tunnel_start = []" by (simp add: marked_def ref_tunnel_start_def)
  then have "pkt_encKey ?p \<noteq> pkt_encKey ?q"
    using hidden_records_have_own_keys[OF ref_tls_client_spec ref_tunnel_start_wf _ t'] pq app by auto
  moreover have "app_text (Some TLS1_3) ?p = [1]" "app_text (Some TLS1_3) ?q = [2, 3]"
    using js_slice_drop_last[where 'a = byte and n = 1] by (simp_all add: app_text_def ref_sent_def)
  ultimately show ?thesis using t' pq by blast
qed

theorem zk_write_repeats_redaction_witness:
  "\<exists>t' ms. writeRedactedZk ref_tls_client [1, 2, 3] [\<lparr>fromIndex = 1, toIndex = 2\<rparr>] ref_tunnel_start = (t', None)
    \<and> marked t' = ms \<and> view tls_ref (Some TLS1_3) ms = [1, 42, 3, 1, 42, 3]"
proof -
  obtain t' where t': "writeRedactedZk ref_tls_client [1, 2, 3] [\<lparr>fromIndex = 1, toIndex = 2\<rparr>] ref_tunnel_start = (t', None)"
    by (simp add: writeRedactedZk_def write_data_def run_tls_def then_do_def ref_tls_client_def)
  have w: "tls_write ref_tls_client (tn_tls ref_tunnel_start) [1, 2, 3] = (0, map (Pair Client)
      [ref_sent [] ''APPLICATION_DATA'' [1, 2, 23], ref_sent [] ''APPLICATION_DATA'' [3, 23]], None)"
    by (simp add: ref_tls_client_def ref_tunnel_start_def)
  have "marked ref_tunnel_start = []" by (simp add: marked_def ref_tunnel_start_def)
  moreover have "redactSlices [1, 2, 3] [\<lparr>fromIndex = 1, toIndex = 2\<rparr>] = [1, 42, 3]"
    by (simp add: redactSlices_def redactSlice_def u8_put_def REDACTION_CHAR_CODE_def upto_rec1)
  ultimately show ?thesis
    using zk_write_repeats_redaction[OF ref_tunnel_start_wf t' w, of tls_ref "Some TLS1_3"] t'
    by (simp add: isApplicationData_def ref_sent_def numeral_2_eq_2)
qed

end
