(* ===== verification/Http_Parser.thy ===== *)
theory Http_Parser
  imports Redactions
begin

text \<open>
  The HTTP/1.1 response parser and the request reader of \<open>src/utils/http-parser.ts\<close>. The closure
  variables of \<open>makeHttpResponseParser\<close> are the record \<open>parser\<close>; \<open>onChunk\<close> runs the header
  loop, then reads the body by length, until the end of the stream, or chunk by chunk.

  What the byte positions mean is proved in \<open>Http_Parser_Positions\<close>, and that the cut of the
  response into pieces does not matter in \<open>Http_Parser_Stream\<close>.
\<close>

record HttpResponse =
  statusCode :: jsnum
  statusMessage :: "jsstring option"
  headers :: "jsstring \<rightharpoonup> jsstring option"
  body :: bytes
  headersComplete :: bool
  complete :: bool
  statusLineEndIndex :: "int option"
  bodyStartIndex :: "int option"
  chunks :: "ArraySlice list option"
  headerIndices :: "jsstring \<rightharpoonup> ArraySlice"
  headerEndIdx :: int

record parser =
  res :: HttpResponse
  remainingBodyBytes :: jsnum
  isChunked :: bool
  remaining :: bytes
  currentByteIdx :: int

definition makeHttpResponseParser :: parser where
  "makeHttpResponseParser =
     \<lparr>res = \<lparr>statusCode = Num 0, statusMessage = Some [], headers = Map.empty, body = [],
             headersComplete = False, complete = False, statusLineEndIndex = None,
             bodyStartIndex = None, chunks = None, headerIndices = Map.empty, headerEndIdx = 0\<rparr>,
      remainingBodyBytes = Num 0, isChunked = False, remaining = [], currentByteIdx = 0\<rparr>"

abbreviation update_res :: "(HttpResponse \<Rightarrow> HttpResponse) \<Rightarrow> parser \<Rightarrow> parser" where
  "update_res f p \<equiv> p\<lparr>res := f (res p)\<rparr>"

subsection \<open>The status line\<close>

text \<open>The regular expression for the status line, anchored at the start of \<open>s\<close>: its two groups.\<close>

definition status_line_at :: "jsstring \<Rightarrow> (jsstring \<times> jsstring) option" where
  "status_line_at s =
     (let ds = takeWhile is_digit (drop 9 s); rest = dropWhile is_digit (drop 9 s) in
      if is_prefix (js ''HTTP/'') s \<and> 9 \<le> length s \<and> is_digit (s ! 5) \<and> s ! 6 = 46
         \<and> is_digit (s ! 7) \<and> s ! 8 = 32 \<and> ds \<noteq> [] \<and> rest \<noteq> [] \<and> hd rest = 32
      then Some (ds, takeWhile (\<lambda>c. \<not> is_line_term c) (tl rest))
      else None)"

definition match_status_line :: "jsstring \<Rightarrow> (jsstring \<times> jsstring) option" where
  "match_status_line line =
     (case find_suffix (\<lambda>t. status_line_at t \<noteq> None) line of
        None \<Rightarrow> None
      | Some i \<Rightarrow> status_line_at (drop i line))"

subsection \<open>Reading the body\<close>

definition readBody :: "tls_pkg \<Rightarrow> parser \<Rightarrow> js_error + parser" where
  "readBody L p =
     (if complete (res p) then Inl (PlainError ''got more data after response was complete'')
      else
        (let p1 = (if bodyStartIndex (res p) = None \<or> bodyStartIndex (res p) = Some 0
                   then update_res (\<lambda>r. r\<lparr>bodyStartIndex := Some (currentByteIdx p)\<rparr>) p else p);
             len = int (length (remaining p));
             (bytesToCopy, rbb) =
               (case remainingBodyBytes p of
                  NaN \<Rightarrow> (0, NaN)
                | Num n \<Rightarrow> (if n = -1 then (len, Num n)
                           else (min n len, Num (n - min n len))))
         in Inr (p1\<lparr>res := (res p1)\<lparr>body := concatenateUint8Arrays L
                       [body (res p1), js_slice (remaining p) 0 bytesToCopy]\<rparr>,
                    remainingBodyBytes := rbb,
                    remaining := js_slice_from (remaining p) bytesToCopy,
                    currentByteIdx := currentByteIdx p + bytesToCopy\<rparr>)))"

text \<open>Shorthand for the two ways a response header is looked at.\<close>

definition header_text :: "HttpResponse \<Rightarrow> jsstring \<Rightarrow> jsstring option" where
  "header_text r k = (case headers r k of None \<Rightarrow> None | Some v \<Rightarrow> v)"

text \<open>The blank line: how the body will be read.\<close>

definition end_of_headers :: "parser \<Rightarrow> parser" where
  "end_of_headers p =
     (let p1 = update_res (\<lambda>r. r\<lparr>headersComplete := True, headerEndIdx := currentByteIdx p - 4\<rparr>) p in
      if (case header_text (res p1) (js ''transfer-encoding'') of
            None \<Rightarrow> False | Some v \<Rightarrow> js_includes v (js ''chunked''))
      then update_res (\<lambda>r. r\<lparr>chunks := Some []\<rparr>) (p1\<lparr>isChunked := True\<rparr>)
      else
        (case header_text (res p1) (js ''content-length'') of
           None \<Rightarrow> p1\<lparr>remainingBodyBytes := Num (-1)\<rparr>
         | Some v \<Rightarrow> (if v = [] then p1\<lparr>remainingBodyBytes := Num (-1)\<rparr>
                     else p1\<lparr>remainingBodyBytes := js_Number v\<rparr>)))"

definition status_line :: "jsstring \<Rightarrow> parser \<Rightarrow> parser" where
  "status_line line p =
     update_res (\<lambda>r. r\<lparr>statusCode := (case match_status_line line of
                          None \<Rightarrow> NaN | Some (c, m) \<Rightarrow> js_Number c),
                       statusMessage := map_option snd (match_status_line line),
                       statusLineEndIndex := Some (currentByteIdx p - 2)\<rparr>) p"

definition header_line :: "jsstring \<Rightarrow> parser \<Rightarrow> parser" where
  "header_line line p =
     (let parts = js_split (js '': '') line;
          key = js_toLowerCase (hd parts);
          value = js_get parts 1
      in update_res (\<lambda>r. r\<lparr>headers := (headers r)(key \<mapsto> value),
                            headerIndices := (headerIndices r)(key \<mapsto>
                              \<lparr>fromIndex = currentByteIdx p - int (length line) - 2,
                               toIndex = currentByteIdx p - 2\<rparr>)\<rparr>) p)"

lemma line_remaining [simp]:
  "remaining (status_line line p) = remaining p"
  "remaining (header_line line p) = remaining p"
  by (simp_all add: status_line_def header_line_def Let_def)

text \<open>Consuming a line: the effect of \<open>getLine\<close> on the closure variables.\<close>

abbreviation consume_line :: "bytes \<Rightarrow> int \<Rightarrow> parser \<Rightarrow> parser" where
  "consume_line rest n p \<equiv> p\<lparr>remaining := rest, currentByteIdx := currentByteIdx p + n\<rparr>"

function header_loop :: "tls_pkg \<Rightarrow> parser \<Rightarrow> js_error + parser" where
  "header_loop L p =
     (case take_line L (remaining p) of
        None \<Rightarrow> Inr p
      | Some (line, rest, n) \<Rightarrow>
          (let p1 = consume_line rest n p in
           if \<not> num_truthy (statusCode (res p1)) then header_loop L (status_line line p1)
           else if line = [] then Inr (end_of_headers p1)
           else if \<not> complete (res p1) then header_loop L (header_line line p1)
           else Inl (PlainError ''got more data after response was complete'')))"
  by pat_completeness auto
termination
  by (relation "measure (\<lambda>(L, p). length (remaining p))")
    (auto dest: take_line_decreases)

declare header_loop.simps [simp del]

lemma header_loop_None: "take_line L (remaining p) = None \<Longrightarrow> header_loop L p = Inr p"
  by (simp add: header_loop.simps[of L p])

lemma header_loop_Some:
  assumes "take_line L (remaining p) = Some (line, rest, n)"
  shows "header_loop L p =
     (let p1 = consume_line rest n p in
      if \<not> num_truthy (statusCode (res p1)) then header_loop L (status_line line p1)
      else if line = [] then Inr (end_of_headers p1)
      else if \<not> complete (res p1) then header_loop L (header_line line p1)
      else Inl (PlainError ''got more data after response was complete''))"
  using assms by (simp add: header_loop.simps[of L p])

text \<open>The body of the chunk loop after a line that is not blank and not the last chunk.\<close>

definition start_chunk :: "int \<Rightarrow> parser \<Rightarrow> parser" where
  "start_chunk chunkSize p =
     (update_res (\<lambda>r. r\<lparr>chunks := map_option (\<lambda>cs. cs @
         [\<lparr>fromIndex = currentByteIdx p, toIndex = currentByteIdx p + chunkSize\<rparr>]) (chunks r)\<rparr>) p)
       \<lparr>remainingBodyBytes := Num chunkSize\<rparr>"

lemma readBody_remaining: "readBody L p = Inr p' \<Longrightarrow> length (remaining p') \<le> length (remaining p)"
  by (auto simp: readBody_def Let_def js_slice_from_def split: if_splits prod.splits)

lemma start_chunk_remaining [simp]: "remaining (start_chunk n p) = remaining p"
  by (simp add: start_chunk_def)

function chunk_loop :: "tls_pkg \<Rightarrow> parser \<Rightarrow> js_error + parser" where
  "chunk_loop L p =
     (case take_line L (remaining p) of
        None \<Rightarrow> Inr p
      | Some (line, rest, n) \<Rightarrow>
          (let p1 = consume_line rest n p in
           if line = [] then chunk_loop L p1
           else
             (case js_parseInt16 line of
                NaN \<Rightarrow> chunk_loop L (update_res (\<lambda>r. r\<lparr>complete := True\<rparr>) p1)
              | Num chunkSize \<Rightarrow>
                  (if chunkSize = 0 then chunk_loop L (update_res (\<lambda>r. r\<lparr>complete := True\<rparr>) p1)
                   else
                     (case readBody L (start_chunk chunkSize p1) of
                        Inl e \<Rightarrow> Inl e
                      | Inr p2 \<Rightarrow>
                          (if num_truthy (remainingBodyBytes p2) then Inr p2 else chunk_loop L p2))))))"
  by pat_completeness auto
termination
  by (relation "measure (\<lambda>(L, p). length (remaining p))")
    (auto dest!: take_line_decreases readBody_remaining)

declare chunk_loop.simps [simp del]

lemma chunk_loop_None: "take_line L (remaining p) = None \<Longrightarrow> chunk_loop L p = Inr p"
  by (simp add: chunk_loop.simps[of L p])

text \<open>The end of the chunked body as the loop sees it: a size of 0 or no size at all.\<close>

definition last_chunk :: "jsstring \<Rightarrow> bool" where
  "last_chunk line \<longleftrightarrow> \<not> num_truthy (js_parseInt16 line)"

abbreviation set_complete :: "parser \<Rightarrow> parser" where
  "set_complete p \<equiv> update_res (\<lambda>r. r\<lparr>complete := True\<rparr>) p"

lemma chunk_loop_blank:
  "take_line L (remaining p) = Some ([], rest, n) \<Longrightarrow> chunk_loop L p = chunk_loop L (consume_line rest n p)"
  by (simp add: chunk_loop.simps[of L p])

lemma chunk_loop_last:
  "take_line L (remaining p) = Some (line, rest, n) \<Longrightarrow> line \<noteq> [] \<Longrightarrow> last_chunk line \<Longrightarrow>
     chunk_loop L p = chunk_loop L (set_complete (consume_line rest n p))"
  by (cases "js_parseInt16 line") (simp_all add: chunk_loop.simps[of L p] last_chunk_def)

lemma chunk_loop_size:
  "take_line L (remaining p) = Some (line, rest, n) \<Longrightarrow> line \<noteq> [] \<Longrightarrow>
     js_parseInt16 line = Num sz \<Longrightarrow> sz \<noteq> 0 \<Longrightarrow>
     chunk_loop L p =
       (case readBody L (start_chunk sz (consume_line rest n p)) of
          Inl e \<Rightarrow> Inl e
        | Inr p2 \<Rightarrow> (if num_truthy (remainingBodyBytes p2) then Inr p2 else chunk_loop L p2))"
  by (simp add: chunk_loop.simps[of L p])

text \<open>The cases of one turn of the chunk loop.\<close>

lemma chunk_turn:
  obtains (none) "take_line L (remaining p) = None"
  | (blank) rest n where "take_line L (remaining p) = Some ([], rest, n)"
  | (last) line rest n where "take_line L (remaining p) = Some (line, rest, n)" "line \<noteq> []" "last_chunk line"
  | (sized) line rest n sz where "take_line L (remaining p) = Some (line, rest, n)" "line \<noteq> []"
      "js_parseInt16 line = Num sz" "sz \<noteq> 0"
proof (cases "take_line L (remaining p)")
  case None
  then show ?thesis by (rule none)
next
  case (Some t)
  obtain line rest n where t: "take_line L (remaining p) = Some (line, rest, n)" using Some by (cases t) auto
  show ?thesis
  proof (cases "line = []")
    case True
    then show ?thesis using blank t by blast
  next
    case False
    show ?thesis
    proof (cases "last_chunk line")
      case True
      then show ?thesis using last t False by blast
    next
      case nl: False
      then obtain sz where "js_parseInt16 line = Num sz" "sz \<noteq> 0"
        by (cases "js_parseInt16 line") (auto simp: last_chunk_def)
      then show ?thesis using sized t False by blast
    qed
  qed
qed

text \<open>The part of \<open>onChunk\<close> under \<open>if(res.headersComplete)\<close>.\<close>

definition body_phase :: "tls_pkg \<Rightarrow> parser \<Rightarrow> js_error + parser" where
  "body_phase L p =
     bindR (if num_truthy (remainingBodyBytes p) then
              bindR (readBody L p) (\<lambda>p1.
                Inr (if \<not> num_truthy (remainingBodyBytes p1) \<and> \<not> isChunked p1
                     then update_res (\<lambda>r. r\<lparr>complete := True\<rparr>) p1 else p1))
            else Inr p)
       (\<lambda>p2. let p3 = (if header_text (res p2) (js ''content-length'') = Some (js ''0'')
                        then update_res (\<lambda>r. r\<lparr>complete := True\<rparr>) p2 else p2)
              in if isChunked p3 then chunk_loop L p3 else Inr p3)"

definition onChunk :: "tls_pkg \<Rightarrow> parser \<Rightarrow> bytes \<Rightarrow> js_error + parser" where
  "onChunk L p data =
     (let p0 = p\<lparr>remaining := concatenateUint8Arrays L [remaining p, data]\<rparr> in
      bindR (if headersComplete (res p0) then Inr p0 else header_loop L p0)
        (\<lambda>p1. if headersComplete (res p1) then body_phase L p1 else Inr p1))"

definition streamEnded :: "parser \<Rightarrow> js_error + parser" where
  "streamEnded p =
     (if \<not> headersComplete (res p) then
        Inl (PlainError ''stream ended before headers were complete'')
      else if remaining p \<noteq> [] then
        Inl (PlainError ''stream ended before remaining data arrived'')
      else if (case remainingBodyBytes p of NaN \<Rightarrow> False | Num n \<Rightarrow> 0 < n) then
        Inl (PlainError ''stream ended before all body bytes were received'')
      else Inr (update_res (\<lambda>r. r\<lparr>complete := True\<rparr>) p))"

text \<open>\<open>parseHttpResponse\<close> of \<open>src/providers/http/utils.ts\<close>\<close>

definition parseHttpResponse :: "tls_pkg \<Rightarrow> bytes \<Rightarrow> js_error + HttpResponse" where
  "parseHttpResponse L buff =
     bindR (onChunk L makeHttpResponseParser buff) (\<lambda>p. bindR (streamEnded p) (\<lambda>p'. Inr (res p')))"

subsection \<open>The request of a transcript\<close>

datatype header_value = HStr jsstring | HArr "jsstring list"

record HttpRequest =
  req_method :: jsstring
  req_url :: jsstring
  req_protocol :: jsstring
  req_headers :: "jsstring \<rightharpoonup> header_value"
  req_body :: "bytes option"

text \<open>
  The regular expression of the request line: a word, a space, a greedy run up to the last space
  before a line terminator, and the rest of the run.
\<close>

definition request_line_at :: "jsstring \<Rightarrow> (jsstring \<times> jsstring \<times> jsstring) option" where
  "request_line_at s =
     (let m = takeWhile is_word_char s;
          rest = dropWhile is_word_char s;
          run = takeWhile (\<lambda>c. \<not> is_line_term c) (tl rest);
          lastPart = takeWhile (\<lambda>c. c \<noteq> 32) (rev run)
      in if m \<noteq> [] \<and> rest \<noteq> [] \<and> hd rest = 32 \<and> 32 \<in> set run
         then Some (m, take (length run - length lastPart - 1) run, rev lastPart)
         else None)"

definition match_request_line :: "jsstring \<Rightarrow> (jsstring \<times> jsstring \<times> jsstring) option" where
  "match_request_line line =
     (case find_suffix (\<lambda>t. request_line_at t \<noteq> None) line of
        None \<Rightarrow> None
      | Some i \<Rightarrow> request_line_at (drop i line))"

definition request_header :: "jsstring \<Rightarrow> HttpRequest \<Rightarrow> HttpRequest" where
  "request_header line req =
     (let idx = js_indexOf line [58];
          keyIdx = (if idx = -1 then int (length line) - 1 else idx);
          key = js_trim (js_toLowerCase (js_slice line 0 keyIdx));
          value = js_trim (js_slice_from line (keyIdx + 1))
      in req\<lparr>req_headers := (req_headers req)(key \<mapsto>
           (case req_headers req key of
              Some (HStr old) \<Rightarrow> HArr [old, value]
            | Some (HArr olds) \<Rightarrow> HArr (olds @ [value])
            | None \<Rightarrow> HStr value))\<rparr>)"

function request_loop :: "tls_pkg \<Rightarrow> bytes \<Rightarrow> HttpRequest \<Rightarrow> js_error + HttpRequest \<times> bytes" where
  "request_loop L buf req =
     (case take_line L buf of
        None \<Rightarrow> Inr (req, buf)
      | Some (line, rest, n) \<Rightarrow>
          (if line = [] then Inr (req, rest)
           else if req_method req = [] then
             (case match_request_line line of
                None \<Rightarrow> Inl (JsTypeError ''method is undefined'')
              | Some (m, url, protocol) \<Rightarrow>
                  request_loop L rest
                    (req\<lparr>req_method := js_toLowerCase m, req_url := url, req_protocol := protocol\<rparr>))
           else request_loop L rest (request_header line req)))"
  by pat_completeness auto
termination
  by (relation "measure (\<lambda>(L, buf, req). length buf)") (auto dest: take_line_decreases)

declare request_loop.simps [simp del]

definition getHttpRequestDataFromTranscript :: "tls_pkg \<Rightarrow> bytes Transcript \<Rightarrow> js_error + HttpRequest" where
  "getHttpRequestDataFromTranscript L receipt =
     (let clientMsgs = filter (\<lambda>s. fst s = Client) receipt in
      case clientMsgs of
        [] \<Rightarrow> Inl (JsTypeError ''clientMsgs[0] is undefined'')
      | first # _ \<Rightarrow>
          (if js_get (snd first) 0 = Some REDACTION_CHAR_CODE
           then Inl (PlainError ''First client message request is redacted. Cannot parse'')
           else
             bindR (request_loop L (concatenateUint8Arrays L (map snd clientMsgs))
                      \<lparr>req_method = [], req_url = [], req_protocol = [],
                       req_headers = Map.empty, req_body = None\<rparr>)
               (\<lambda>(req, buf).
                 let req1 = (if buf = [] then req else req\<lparr>req_body := Some buf\<rparr>) in
                 if req_method req1 = [] then Inl (PlainError ''Client request is incomplete'')
                 else Inr req1)))"

end
