(* ===== verification/Http_Parser_Positions.thy ===== *)
theory Http_Parser_Positions
  imports Http_Parser
begin

text \<open>
  What the byte positions of a parsed response mean (\<open>src/utils/http-parser.ts\<close>): the chunk
  ranges that the parser records are the ranges of the response whose concatenation is the body,
  they come in order with a gap before each (the chunk header), and without chunked encoding the
  body is the response from \<open>bodyStartIndex\<close> on.
\<close>

definition chunk_bytes :: "bytes \<Rightarrow> ArraySlice \<Rightarrow> bytes" where
  "chunk_bytes input c = js_slice input (fromIndex c) (toIndex c)"

fun chunks_chain :: "int \<Rightarrow> ArraySlice list \<Rightarrow> bool" where
  "chunks_chain lo [] \<longleftrightarrow> True"
| "chunks_chain lo (c # cs) \<longleftrightarrow> lo < fromIndex c \<and> fromIndex c < toIndex c \<and> chunks_chain (toIndex c) cs"

definition last_to :: "int \<Rightarrow> ArraySlice list \<Rightarrow> int" where
  "last_to lo cs = (if cs = [] then lo else toIndex (last cs))"

lemma last_to_simps [simp]:
  "last_to lo [] = lo"
  "last_to lo (c # cs) = last_to (toIndex c) cs"
  "last_to lo (cs @ [c]) = toIndex c"
  by (auto simp: last_to_def)

lemma chunks_chain_snoc:
  "chunks_chain lo (cs @ [c]) \<longleftrightarrow> chunks_chain lo cs \<and> last_to lo cs < fromIndex c \<and> fromIndex c < toIndex c"
  by (induction cs arbitrary: lo) auto

text \<open>The parser stands at byte \<open>k\<close> of the input.\<close>

definition at_byte :: "bytes \<Rightarrow> nat \<Rightarrow> parser \<Rightarrow> bool" where
  "at_byte input k p \<longleftrightarrow>
     k \<le> length input \<and> currentByteIdx p = int k \<and> remaining p = drop k input"

lemma at_byte_consume:
  assumes L: "tls_bytes_spec L" and at: "at_byte input k p"
    and line: "take_line L (remaining p) = Some (line, rest, n)"
  shows "\<exists>m. n = int m \<and> 2 \<le> m \<and> at_byte input (k + m) (consume_line rest n p)"
proof -
  obtain raw where raw: "remaining p = raw @ CRLF @ rest" "n = int (length raw) + 2"
    using line by (auto simp: take_line_Some[OF L])
  let ?m = "length raw + 2"
  have "rest = drop ?m (remaining p)" using raw by simp
  then have "rest = drop (k + ?m) input" using at by (simp add: at_byte_def add.commute)
  moreover have "k + ?m \<le> length input"
  proof -
    have "length (remaining p) = length input - k" using at by (simp add: at_byte_def)
    then have "?m \<le> length input - k" using raw by simp
    then show ?thesis using at by (auto simp: at_byte_def)
  qed
  ultimately show ?thesis using at raw by (intro exI[of _ ?m]) (auto simp: at_byte_def)
qed

lemma at_byte_cong [simp]:
  "at_byte input k (status_line line p) \<longleftrightarrow> at_byte input k p"
  "at_byte input k (header_line line p) \<longleftrightarrow> at_byte input k p"
  "at_byte input k (update_res f p) \<longleftrightarrow> at_byte input k p"
  "at_byte input k (start_chunk n p) \<longleftrightarrow> at_byte input k p"
  "at_byte input k (end_of_headers p) \<longleftrightarrow> at_byte input k p"
  by (auto simp: at_byte_def status_line_def header_line_def start_chunk_def end_of_headers_def Let_def
      split: option.splits)

text \<open>Before the blank line nothing of the body is set.\<close>

definition before_body :: "parser \<Rightarrow> bool" where
  "before_body p \<longleftrightarrow> body (res p) = [] \<and> bodyStartIndex (res p) = None \<and> chunks (res p) = None
     \<and> \<not> isChunked p \<and> remainingBodyBytes p = Num 0 \<and> \<not> headersComplete (res p)"

text \<open>Just after it.\<close>

definition at_body :: "parser \<Rightarrow> bool" where
  "at_body p \<longleftrightarrow> body (res p) = [] \<and> bodyStartIndex (res p) = None \<and> headersComplete (res p)
     \<and> (if isChunked p then chunks (res p) = Some [] \<and> remainingBodyBytes p = Num 0
        else chunks (res p) = None)"

lemma at_body_end: "before_body p \<Longrightarrow> at_body (end_of_headers p)"
  by (auto simp: before_body_def at_body_def end_of_headers_def Let_def split: option.splits)

lemma before_body_cong [simp]:
  "before_body (status_line line p) \<longleftrightarrow> before_body p"
  "before_body (header_line line p) \<longleftrightarrow> before_body p"
  "before_body (consume_line rest n p) \<longleftrightarrow> before_body p"
  by (auto simp: before_body_def status_line_def header_line_def Let_def)

lemma header_loop_positions:
  assumes L: "tls_bytes_spec L"
  shows "header_loop L p = Inr p' \<Longrightarrow> at_byte input k p \<Longrightarrow> before_body p \<Longrightarrow>
     \<exists>k'. at_byte input k' p' \<and> (if headersComplete (res p') then at_body p' \<and> 0 < k' else before_body p')"
proof (induction p arbitrary: k rule: measure_induct_rule[where f = "\<lambda>p. length (remaining p)"])
  case (less p)
  show ?case
  proof (cases "take_line L (remaining p)")
    case None
    then have "p' = p" using less.prems(1) by (simp add: header_loop_None)
    then show ?thesis using less.prems by (auto simp: before_body_def)
  next
    case (Some t)
    then obtain line rest n where line: "take_line L (remaining p) = Some (line, rest, n)"
      by (cases t) auto
    let ?p1 = "consume_line rest n p"
    obtain m where m: "2 \<le> m" "at_byte input (k + m) ?p1"
      using at_byte_consume[OF L less.prems(2) line] by blast
    have before: "before_body ?p1" using less.prems(3) by simp
    have shorter: "length rest < length (remaining p)" by (rule take_line_decreases[OF line])
    note eq = less.prems(1)[unfolded header_loop_Some[OF line] Let_def]
    have rec: ?thesis if "header_loop L q = Inr p'" "at_byte input (k + m) q" "before_body q"
      "remaining q = rest" for q
      using less.IH[of q "k + m"] that shorter by simp
    show ?thesis
    proof (cases "num_truthy (statusCode (res ?p1))")
      case False
      then show ?thesis
        using rec[of "status_line line ?p1"] eq m(2) before by simp
    next
      case True
      consider "line = []" | "line \<noteq> []" "\<not> complete (res ?p1)" | "line \<noteq> []" "complete (res ?p1)"
        by blast
      then show ?thesis
      proof cases
        case 1
        then have "p' = end_of_headers ?p1" using eq True by simp
        then show ?thesis using m at_body_end[OF before]
          by (intro exI[of _ "k + m"]) (auto simp: at_body_def)
      next
        case 2
        then show ?thesis
          using rec[of "header_line line ?p1"] eq True m(2) before by simp
      next
        case 3
        then show ?thesis using eq True by simp
      qed
    qed
  qed
qed

subsection \<open>Chunks\<close>

definition sizes_ok :: "HttpResponse \<Rightarrow> bool" where
  "sizes_ok r \<longleftrightarrow> (\<forall>cs. chunks r = Some cs \<longrightarrow> list_all (\<lambda>c. fromIndex c \<le> toIndex c) cs)"

lemma readBody_frame:
  "readBody L p = Inr p' \<Longrightarrow> chunks (res p') = chunks (res p) \<and> headers (res p') = headers (res p)
     \<and> complete (res p') = complete (res p) \<and> isChunked p' = isChunked p
     \<and> headersComplete (res p') = headersComplete (res p) \<and> headerEndIdx (res p') = headerEndIdx (res p)"
  by (auto simp: readBody_def Let_def split: if_splits prod.splits)

lemma chunk_loop_grows:
  "chunk_loop L p = Inr p' \<Longrightarrow> chunks (res p) = Some cs \<Longrightarrow> \<exists>cs'. chunks (res p') = Some (cs @ cs')"
proof (induction p arbitrary: cs rule: measure_induct_rule[where f = "\<lambda>p. length (remaining p)"])
  case (less p)
  show ?case
  proof (cases rule: chunk_turn[of L p])
    case none
    then show ?thesis using less.prems by (simp add: chunk_loop_None)
  next
    case (blank rest n)
    then show ?thesis
      using less.IH[of "consume_line rest n p" cs] less.prems take_line_decreases[OF blank]
      by (simp add: chunk_loop_blank)
  next
    case (last line rest n)
    then show ?thesis
      using less.IH[of "set_complete (consume_line rest n p)" cs] less.prems
        take_line_decreases[OF last(1)]
      by (simp add: chunk_loop_last)
  next
    case (sized line rest n sz)
    let ?p1 = "consume_line rest n p"
    let ?c = "\<lparr>fromIndex = currentByteIdx ?p1, toIndex = currentByteIdx ?p1 + sz\<rparr>"
    obtain p2 where p2: "readBody L (start_chunk sz ?p1) = Inr p2"
      using less.prems(1) sized by (auto simp: chunk_loop_size split: sum.splits)
    have c2: "chunks (res p2) = Some (cs @ [?c])"
      using readBody_frame[OF p2] less.prems(2) by (simp add: start_chunk_def)
    have "length (remaining p2) < length (remaining p)"
      using readBody_remaining[OF p2] take_line_decreases[OF sized(1)] by simp
    then show ?thesis
      using less.IH[of p2, OF _ _ c2] less.prems(1) sized p2 c2
      by (auto simp: chunk_loop_size split: if_splits)
  qed
qed

text \<open>The state between chunks at byte \<open>k\<close>: every recorded chunk has been read in full.\<close>

definition between_chunks :: "bytes \<Rightarrow> nat \<Rightarrow> parser \<Rightarrow> bool" where
  "between_chunks input k p \<longleftrightarrow>
     (\<exists>cs. chunks (res p) = Some cs \<and> body (res p) = concat (map (chunk_bytes input) cs)
        \<and> chunks_chain 0 cs \<and> last_to 0 cs \<le> int k) \<and> isChunked p"

lemma read_chunk:
  assumes L: "tls_bytes_spec L" and at: "at_byte input k p" and bc: "between_chunks input j p"
    and gap: "last_to 0 (the (chunks (res p))) < int k" and sz: "0 < sz"
    and rd: "readBody L (start_chunk sz p) = Inr p'" and full: "\<not> num_truthy (remainingBodyBytes p')"
  shows "\<exists>k'. at_byte input k' p' \<and> between_chunks input k' p'"
proof -
  let ?s = "start_chunk sz p" and ?len = "length input - k"
  have len: "length (remaining p) = ?len" and cur: "currentByteIdx p = int k"
    and rem: "remaining p = drop k input" and k: "k \<le> length input"
    using at by (auto simp: at_byte_def)
  have p': "remainingBodyBytes p' = Num (sz - min sz (int ?len))"
    "currentByteIdx p' = int k + min sz (int ?len)"
    "remaining p' = js_slice_from (drop k input) (min sz (int ?len))"
    "body (res p') = body (res p) @ js_slice (drop k input) 0 (min sz (int ?len))"
    using rd sz len cur rem
    by (auto simp: readBody_def start_chunk_def Let_def tls_bytes_specD[OF L] split: if_splits)
  have le: "sz \<le> int ?len" using full p'(1) sz by (auto simp: min_def split: if_splits)
  let ?k' = "k + nat sz"
  let ?c = "\<lparr>fromIndex = int k, toIndex = int k + sz\<rparr>"
  obtain cs where cs: "chunks (res p) = Some cs" "body (res p) = concat (map (chunk_bytes input) cs)"
    "chunks_chain 0 cs" "last_to 0 cs < int k" and ch: "isChunked p"
    using bc gap by (auto simp: between_chunks_def)
  have at': "at_byte input ?k' p'"
    using p' le sz k by (auto simp: at_byte_def js_slices min_def add.commute)
  have c': "chunks (res p') = Some (cs @ [?c])" "isChunked p'"
    using readBody_frame[OF rd] cs ch cur by (simp_all add: start_chunk_def)
  have "chunk_bytes input ?c = js_slice (drop k input) 0 (min sz (int ?len))"
    using le sz by (simp add: chunk_bytes_def js_slices nat_add_distrib min_def)
  then have "body (res p') = concat (map (chunk_bytes input) (cs @ [?c]))" using p'(4) cs by simp
  moreover have "chunks_chain 0 (cs @ [?c])" using cs sz by (simp add: chunks_chain_snoc)
  ultimately have "between_chunks input ?k' p'" using c' sz by (auto simp: between_chunks_def)
  with at' show ?thesis by blast
qed

lemma chunk_loop_positions:
  assumes L: "tls_bytes_spec L"
  shows "chunk_loop L p = Inr p' \<Longrightarrow> at_byte input k p \<Longrightarrow> between_chunks input k p \<Longrightarrow>
     sizes_ok (res p') \<Longrightarrow>
     (\<exists>r > 0. remainingBodyBytes p' = Num r) \<or> (\<exists>k'. at_byte input k' p' \<and> between_chunks input k' p')"
proof (induction p arbitrary: k rule: measure_induct_rule[where f = "\<lambda>p. length (remaining p)"])
  case (less p)
  note at = less.prems(2) and bc = less.prems(3) and ok = less.prems(4)
  have rec: ?case if "take_line L (remaining p) = Some (line, rest, n)" "chunk_loop L q = Inr p'"
    "q = consume_line rest n p \<or> q = set_complete (consume_line rest n p)" for line rest n q
  proof -
    note line = that(1)
    obtain m where m: "at_byte input (k + m) (consume_line rest n p)"
      using at_byte_consume[OF L at line] by blast
    have "between_chunks input (k + m) q" "at_byte input (k + m) q" "remaining q = rest"
      using bc that(3) m by (auto simp: between_chunks_def at_byte_def)
    then show ?thesis
      using less.IH[of q "k + m"] that take_line_decreases[OF that(1)] ok by simp
  qed
  show ?case
  proof (cases rule: chunk_turn[of L p])
    case none
    then show ?thesis using less.prems by (auto simp: chunk_loop_None)
  next
    case (blank rest n)
    then show ?thesis using rec[OF blank] less.prems(1) by (simp add: chunk_loop_blank)
  next
    case (last line rest n)
    then show ?thesis using rec[OF last(1)] less.prems(1) by (simp add: chunk_loop_last)
  next
    case (sized line rest n sz)
    let ?p1 = "consume_line rest n p"
    obtain m where m: "2 \<le> m" "at_byte input (k + m) ?p1"
      using at_byte_consume[OF L at sized(1)] by blast
    have bc1: "between_chunks input (k + m) ?p1" using bc by (auto simp: between_chunks_def)
    obtain p2 where p2: "readBody L (start_chunk sz ?p1) = Inr p2"
      using less.prems(1) sized by (auto simp: chunk_loop_size split: sum.splits)
    obtain cs where cs: "chunks (res p) = Some cs" "last_to 0 cs \<le> int k"
      using bc by (auto simp: between_chunks_def)
    have c2: "chunks (res p2) = Some (cs @ [\<lparr>fromIndex = currentByteIdx ?p1, toIndex = currentByteIdx ?p1 + sz\<rparr>])"
      using readBody_frame[OF p2] cs by (simp add: start_chunk_def)
    have final: "p' = p2 \<and> num_truthy (remainingBodyBytes p2)
        \<or> chunk_loop L p2 = Inr p' \<and> \<not> num_truthy (remainingBodyBytes p2)"
      using less.prems(1) sized p2 by (auto simp: chunk_loop_size split: if_splits)
    then have "0 \<le> sz" using c2 chunk_loop_grows[of L p2 p', OF _ c2] ok by (fastforce simp: sizes_ok_def)
    then have pos: "0 < sz" using sized by simp
    show ?thesis
    proof (cases "num_truthy (remainingBodyBytes p2)")
      case True
      have "remainingBodyBytes p2 = Num (sz - min sz (int (length (remaining ?p1))))"
        using p2 pos by (auto simp: readBody_def start_chunk_def Let_def split: if_splits)
      then show ?thesis using True final by (auto simp: min_def split: if_splits)
    next
      case rbb: False
      then have loop: "chunk_loop L p2 = Inr p'" using final by simp
      have "last_to 0 (the (chunks (res ?p1))) < int (k + m)" using cs m by simp
      then obtain k' where k': "at_byte input k' p2" "between_chunks input k' p2"
        using read_chunk[OF L m(2) bc1 _ pos p2 rbb] by blast
      have "length (remaining p2) < length (remaining p)"
        using readBody_remaining[OF p2] take_line_decreases[OF sized(1)] by simp
      then show ?thesis using less.IH[OF _ loop k' ok] by simp
    qed
  qed
qed

subsection \<open>A parsed response\<close>

definition response_body_spec :: "bytes \<Rightarrow> HttpResponse \<Rightarrow> bool" where
  "response_body_spec input r \<longleftrightarrow>
     (case chunks r of
        Some cs \<Rightarrow> body r = concat (map (chunk_bytes input) cs)
                   \<and> chunks_chain 0 cs \<and> last_to 0 cs \<le> int (length input)
      | None \<Rightarrow>
          (case bodyStartIndex r of
             Some i \<Rightarrow> 0 < i \<and> i \<le> int (length input) \<and> body r = drop (nat i) input
           | None \<Rightarrow> body r = []))"

lemma read_plain:
  assumes L: "tls_bytes_spec L" and at: "at_byte input k p" and ab: "at_body p" and k: "0 < k"
    and nc: "\<not> isChunked p" and rd: "readBody L p = Inr p'" and fin: "remaining p' = []"
    and rbb: "num_truthy (remainingBodyBytes p)"
  shows "bodyStartIndex (res p') = Some (int k) \<and> body (res p') = drop k input"
proof -
  obtain n where n: "remainingBodyBytes p = Num n" using rbb by (cases "remainingBodyBytes p") auto
  have len: "length (remaining p) = length input - k" and cur: "currentByteIdx p = int k"
    and rem: "remaining p = drop k input"
    using at by (auto simp: at_byte_def)
  let ?b = "if n = -1 then int (length input - k) else min n (int (length input - k))"
  have p': "remaining p' = js_slice_from (drop k input) ?b"
    "body (res p') = js_slice (drop k input) 0 ?b" "bodyStartIndex (res p') = Some (int k)"
    using rd n len cur rem ab
    by (auto simp: readBody_def at_body_def Let_def tls_bytes_specD[OF L] split: if_splits)
  have "js_slice (drop k input) 0 ?b = drop k input"
  proof (cases "0 \<le> ?b")
    case True
    then have "drop (nat ?b) (drop k input) = []" using p'(1) fin by (simp add: js_slices del: drop_drop)
    then have "take (nat ?b) (drop k input) = drop k input"
      by (metis append_Nil2 append_take_drop_id)
    then show ?thesis using True by (simp only: js_slice_nonneg order_refl) simp
  next
    case False
    then have "drop k input = []"
      using p'(1) fin js_index_le[of "length (drop k input)" ?b]
      by (auto simp: js_slice_from_def js_index_def split: if_splits)
    then show ?thesis by (simp add: js_slice_def)
  qed
  then show ?thesis using p' by simp
qed

lemma parseHttpResponse_body:
  assumes L: "tls_bytes_spec L" and parse: "parseHttpResponse L input = Inr r" and ok: "sizes_ok r"
  shows "response_body_spec input r"
proof -
  let ?p0 = "makeHttpResponseParser\<lparr>remaining := input\<rparr>"
  obtain p2 p3 where on: "onChunk L makeHttpResponseParser input = Inr p2" and p3: "streamEnded p2 = Inr p3"
    and r: "r = res p3"
    using parse by (auto simp: parseHttpResponse_def bindR_Inr_iff)
  have p3': "r = (res p2)\<lparr>complete := True\<rparr>" and hc: "headersComplete (res p2)"
    and fin: "remaining p2 = []"
    and rbb2: "case remainingBodyBytes p2 of NaN \<Rightarrow> True | Num n \<Rightarrow> n \<le> 0"
    using p3 r by (auto simp: streamEnded_def split: if_splits jsnum.splits)
  have "concatenateUint8Arrays L [[], input] = input" by (simp add: tls_bytes_specD[OF L])
  then obtain p1 where p1: "header_loop L ?p0 = Inr p1" and
    p2: "(if headersComplete (res p1) then body_phase L p1 else Inr p1) = Inr p2"
    using on by (auto simp: onChunk_def makeHttpResponseParser_def bindR_Inr_iff)
  have "at_byte input 0 ?p0" and "before_body ?p0"
    by (simp_all add: at_byte_def before_body_def makeHttpResponseParser_def)
  then obtain k where k: "at_byte input k p1"
    "if headersComplete (res p1) then at_body p1 \<and> 0 < k else before_body p1"
    using header_loop_positions[OF L p1] by blast
  have hc1: "headersComplete (res p1)" using p2 hc by (auto split: if_splits)
  then have ab: "at_body p1" and kpos: "0 < k" and bp: "body_phase L p1 = Inr p2"
    using k p2 by simp_all
  show ?thesis
  proof (cases "isChunked p1")
    case True
    let ?q = "if header_text (res p1) (js ''content-length'') = Some (js ''0'') then set_complete p1 else p1"
    have loop: "chunk_loop L ?q = Inr p2"
      using bp True ab by (auto simp: body_phase_def at_body_def Let_def split: if_splits)
    have "at_byte input k ?q" "between_chunks input k ?q"
      using k(1) ab True by (auto simp: between_chunks_def at_body_def)
    moreover have "sizes_ok (res p2)" using ok p3' by (simp add: sizes_ok_def)
    moreover have "\<not> (\<exists>r > 0. remainingBodyBytes p2 = Num r)" using rbb2 by auto
    ultimately obtain k' where k': "at_byte input k' p2" "between_chunks input k' p2"
      using chunk_loop_positions[OF L loop] by blast
    then show ?thesis using p3' by (auto simp: response_body_spec_def between_chunks_def at_byte_def)
  next
    case False
    show ?thesis
    proof (cases "num_truthy (remainingBodyBytes p1)")
      case True
      then obtain q where q: "readBody L p1 = Inr q" and
        "remaining p2 = remaining q \<and> body (res p2) = body (res q) \<and> chunks (res p2) = chunks (res q)
           \<and> bodyStartIndex (res p2) = bodyStartIndex (res q)"
        using bp False readBody_frame[of L p1]
        by (auto simp: body_phase_def bindR_Inr_iff Let_def split: if_splits)
      then show ?thesis
        using read_plain[OF L k(1) ab kpos False q _ True] fin p3' readBody_frame[OF q] ab False kpos k(1)
        by (auto simp: response_body_spec_def at_body_def at_byte_def)
    next
      case falsy: False
      then have "body (res p2) = [] \<and> chunks (res p2) = None \<and> bodyStartIndex (res p2) = None"
        using bp False ab by (auto simp: body_phase_def at_body_def Let_def split: if_splits)
      then show ?thesis using p3' by (simp add: response_body_spec_def)
    qed
  qed
qed

subsection \<open>Properties\<close>

lemmas parser_eval = take_line_eval[OF tls_ref_spec] header_loop.simps text_decode_ascii ascii_bytes_def
  status_line_def match_status_line_def status_line_at_def js_def is_digit_def is_prefix_def
  is_line_term_def js_Number_def js_trim_def is_space_def digits_val_def digit_val_def
  end_of_headers_def header_text_def body_phase_def readBody_def js_slices streamEnded_def

text \<open>A small response, parsed.\<close>

definition example_response :: bytes where
  "example_response = ascii ''HTTP/1.1 404 N'' @ CRLF @ CRLF @ [97, 98]"

lemma example_parse:
  obtains r where "parseHttpResponse tls_ref example_response = Inr r" "body r = [97, 98]"
    "bodyStartIndex r = Some 18" "chunks r = None" "headers r = Map.empty"
proof -
  have "\<exists>r. parseHttpResponse tls_ref example_response = Inr r \<and> body r = [97, 98]
      \<and> bodyStartIndex r = Some 18 \<and> chunks r = None \<and> headers r = Map.empty"
    by (simp add: parseHttpResponse_def onChunk_def makeHttpResponseParser_def example_response_def
        ascii_def parser_eval)
  then show ?thesis using that by blast
qed

text \<open>C33: The positions of a parsed response are right: the ranges recorded in \<open>chunks\<close> are in order,
  disjoint, inside the response, and their bytes are the body; without chunked encoding the body
  is the response from \<open>bodyStartIndex\<close> on. (No chunk size is negative.)\<close>

theorem response_positions:
  assumes "tls_bytes_spec L" and "parseHttpResponse L input = Inr r" and "sizes_ok r"
  shows "response_body_spec input r"
  by (rule parseHttpResponse_body[OF assms])

theorem response_positions_witness:
  "\<exists>r. parseHttpResponse tls_ref example_response = Inr r \<and> body r = [97, 98]
     \<and> response_body_spec example_response r"
proof -
  obtain r where r: "parseHttpResponse tls_ref example_response = Inr r" "body r = [97, 98]" "chunks r = None"
    by (rule example_parse)
  then have "sizes_ok r" by (simp add: sizes_ok_def)
  with r show ?thesis using response_positions[OF tls_ref_spec r(1)] by blast
qed

end
