(* ===== verification/Http_Parser_Stream.thy ===== *)
theory Http_Parser_Stream
  imports Http_Parser_Positions
begin

text \<open>
  The response parser is a stream parser (\<open>src/utils/http-parser.ts\<close>): how the bytes of the
  response are cut into calls of \<open>onChunk\<close> does not change the outcome. The lemmas follow the
  parser: \<open>ext p b\<close> is the state \<open>p\<close> with more bytes waiting, and each phase run on \<open>ext p b\<close> is
  the phase run on \<open>p\<close>, continued on \<open>b\<close>.
\<close>

definition ext :: "parser \<Rightarrow> bytes \<Rightarrow> parser" where
  "ext p b = p\<lparr>remaining := remaining p @ b\<rparr>"

lemma ext_sel [simp]:
  "res (ext p b) = res p" "remainingBodyBytes (ext p b) = remainingBodyBytes p"
  "isChunked (ext p b) = isChunked p" "remaining (ext p b) = remaining p @ b"
  "currentByteIdx (ext p b) = currentByteIdx p"
  by (simp_all add: ext_def)

lemma ext_ops:
  "status_line line (ext p b) = ext (status_line line p) b"
  "header_line line (ext p b) = ext (header_line line p) b"
  "end_of_headers (ext p b) = ext (end_of_headers p) b"
  "start_chunk n (ext p b) = ext (start_chunk n p) b"
  "set_complete (ext p b) = ext (set_complete p) b"
  "consume_line (rest @ b) n (ext p b) = ext (consume_line rest n p) b"
  by (simp_all add: ext_def status_line_def header_line_def end_of_headers_def start_chunk_def Let_def
      split: option.split)

lemma ext_complete: "(ext p b)\<lparr>res := (res p)\<lparr>complete := c\<rparr>\<rparr> = ext (p\<lparr>res := (res p)\<lparr>complete := c\<rparr>\<rparr>) b"
  by (simp add: ext_def)

lemma ext_ext: "ext (ext p a) b = ext p (a @ b)"
  by (simp add: ext_def)

subsection \<open>The headers\<close>

lemma header_loop_ext:
  assumes L: "tls_bytes_spec L"
  shows "\<not> headersComplete (res p) \<Longrightarrow> header_loop L (ext p b) =
     bindR (header_loop L p) (\<lambda>p1. if headersComplete (res p1) then Inr (ext p1 b)
                                   else header_loop L (ext p1 b))"
proof (induction p rule: measure_induct_rule[where f = "\<lambda>p. length (remaining p)"])
  case (less p)
  show ?case
  proof (cases "take_line L (remaining p)")
    case None
    then show ?thesis using less.prems by (simp add: header_loop_None)
  next
    case (Some t)
    then obtain line rest n where line: "take_line L (remaining p) = Some (line, rest, n)"
      by (cases t) auto
    have line': "take_line L (remaining (ext p b)) = Some (line, rest @ b, n)"
      using take_line_append[OF L line] by simp
    have shorter: "length rest < length (remaining p)" by (rule take_line_decreases[OF line])
    let ?p1 = "consume_line rest n p"
    have hc: "\<not> headersComplete (res (status_line line ?p1))" "\<not> headersComplete (res (header_line line ?p1))"
      using less.prems by (simp_all add: status_line_def header_line_def Let_def)
    have "headersComplete (res (end_of_headers ?p1))"
      by (simp add: end_of_headers_def Let_def split: option.split)
    moreover have "consume_line (rest @ b) n (ext p b) = ext ?p1 b" by (simp add: ext_def)
    note step = header_loop_Some[OF line', unfolded this]
    ultimately show ?thesis
      using less.IH[of "status_line line ?p1"] less.IH[of "header_line line ?p1"] shorter hc
      unfolding step by (simp add: header_loop_Some[OF line] Let_def ext_ops)
  qed
qed

subsection \<open>Reading\<close>

lemma readBody_full:
  assumes L: "tls_bytes_spec L" and n: "remainingBodyBytes p = Num n" "0 < n" "n \<le> int (length (remaining p))"
    and rd: "readBody L (ext p b) = Inr q"
  shows "\<exists>q0. readBody L p = Inr q0 \<and> q = ext q0 b \<and> remainingBodyBytes q0 = Num 0
           \<and> currentByteIdx q0 = currentByteIdx p + n"
proof -
  have "min n (int (length (remaining p @ b))) = n" "min n (int (length (remaining p))) = n"
    using n by simp_all
  moreover have "js_slice (remaining p @ b) 0 n = js_slice (remaining p) 0 n"
    "js_slice_from (remaining p @ b) n = js_slice_from (remaining p) n @ b"
    using n by (simp_all add: js_slices)
  ultimately show ?thesis
    using n rd by (auto simp: readBody_def Let_def ext_def split: if_splits)
qed

lemma readBody_part:
  assumes L: "tls_bytes_spec L" and n: "remainingBodyBytes p = Num n"
    "n = -1 \<or> int (length (remaining p)) < n" and cur: "0 < currentByteIdx p"
    and rd: "readBody L (ext p b) = Inr q"
  shows "\<exists>q0. readBody L p = Inr q0 \<and> readBody L (ext q0 b) = Inr q
           \<and> num_truthy (remainingBodyBytes q0) \<and> remaining q0 = [] \<and> \<not> complete (res p)
           \<and> (num_truthy (remainingBodyBytes q) \<longrightarrow> remaining q = []) \<and> 0 < currentByteIdx q0
           \<and> (\<exists>m \<ge> -1. remainingBodyBytes q0 = Num m)"
proof -
  have slices: "js_slice_from xs (int (length xs)) = []" "js_slice xs 0 (int (length xs)) = xs" for xs :: bytes
    by (simp_all add: js_slices)
  have all: "js_slice_from (xs @ ys) (int (length xs) + int (length ys)) = []"
    "js_slice (xs @ ys) 0 (int (length xs) + int (length ys)) = xs @ ys" for xs ys :: bytes
    by (simp_all add: js_slices nat_add_distrib)
  show ?thesis
  proof (cases "n = -1")
    case True
    then show ?thesis
      using n rd cur by (auto simp: readBody_def Let_def ext_def slices all tls_bytes_specD[OF L] split: if_splits)
  next
    case False
    then have lt: "int (length (remaining p)) < n" using n by simp
    then have m: "min n (int (length (remaining p))) = int (length (remaining p))" by simp
    let ?r = "n - int (length (remaining p))"
    have m2: "min n (int (length (remaining p)) + int (length b))
        = int (length (remaining p)) + min ?r (int (length b))"
      by linarith
    have s2: "js_slice (remaining p @ b) 0 (int (length (remaining p)) + min ?r (int (length b)))
        = remaining p @ js_slice b 0 (min ?r (int (length b)))"
      "js_slice_from (remaining p @ b) (int (length (remaining p)) + min ?r (int (length b)))
        = js_slice_from b (min ?r (int (length b)))"
      using lt by (simp_all add: js_slices nat_add_distrib)
    have fin: "js_slice_from b (min ?r (int (length b))) = []" if "?r - min ?r (int (length b)) \<noteq> 0"
      using that by (auto simp: min_def slices split: if_splits)
    show ?thesis
      using False n lt rd cur fin
      by (auto simp: readBody_def Let_def ext_def m m2 s2 slices tls_bytes_specD[OF L]
          diff_diff_eq split: if_splits)
  qed
qed

subsection \<open>The chunk loop\<close>

lemma sizes_ok_prefix:
  "sizes_ok r \<Longrightarrow> chunks r = Some (cs @ cs') \<Longrightarrow> c \<in> set cs \<Longrightarrow> fromIndex c \<le> toIndex c"
  by (auto simp: sizes_ok_def list_all_iff)

lemma chunk_loop_empty: "remaining p = [] \<Longrightarrow> tls_bytes_spec L \<Longrightarrow> chunk_loop L p = Inr p"
  by (simp add: chunk_loop_None take_line_eval)

text \<open>A zero \<open>content-length\<close> makes the response complete at the start of every body phase.\<close>

definition zero_length :: "HttpResponse \<Rightarrow> bool" where
  "zero_length r \<longleftrightarrow> header_text r (js ''content-length'') = Some (js ''0'')"

definition chunking :: "parser \<Rightarrow> bool" where
  "chunking p \<longleftrightarrow> isChunked p \<and> headersComplete (res p) \<and> chunks (res p) \<noteq> None \<and> 0 < currentByteIdx p
     \<and> (zero_length (res p) \<longrightarrow> complete (res p))"

text \<open>What the body phase relies on.\<close>

definition body_ready :: "parser \<Rightarrow> bool" where
  "body_ready p \<longleftrightarrow> headersComplete (res p) \<and> (isChunked p \<longrightarrow> chunks (res p) \<noteq> None) \<and> 0 < currentByteIdx p
     \<and> (case remainingBodyBytes p of NaN \<Rightarrow> True | Num n \<Rightarrow> -1 \<le> n)
     \<and> (zero_length (res p) \<longrightarrow> complete (res p) \<or> \<not> num_truthy (remainingBodyBytes p))"

lemma zero_length_cong [simp]:
  "readBody L p = Inr q \<Longrightarrow> zero_length (res q) = zero_length (res p)"
  "zero_length (res (start_chunk n p)) = zero_length (res p)"
  "zero_length (r\<lparr>complete := c\<rparr>) = zero_length r"
  by (auto simp: zero_length_def header_text_def start_chunk_def dest: readBody_frame)

lemma set_complete_id: "complete (res p) \<Longrightarrow> set_complete p = p"
  by simp

text \<open>The body phase of a chunked response whose size bytes are all read.\<close>

lemma body_phase_chunking:
  assumes "chunking p" and "\<not> num_truthy (remainingBodyBytes p)"
  shows "body_phase L p = chunk_loop L p"
proof (cases "zero_length (res p)")
  case True
  then show ?thesis using assms
    by (simp add: body_phase_def chunking_def zero_length_def set_complete_id)
next
  case False
  then show ?thesis using assms by (simp add: body_phase_def chunking_def zero_length_def)
qed

lemma chunk_loop_ext:
  assumes L: "tls_bytes_spec L"
  shows "chunk_loop L (ext p b) = Inr p' \<Longrightarrow> chunking p \<Longrightarrow> \<not> num_truthy (remainingBodyBytes p)
     \<Longrightarrow> sizes_ok (res p') \<Longrightarrow>
     \<exists>q. chunk_loop L p = Inr q \<and> body_phase L (ext q b) = Inr p' \<and> body_ready q"
proof (induction p rule: measure_induct_rule[where f = "\<lambda>p. length (remaining p)"])
  case (less p)
  have chunking_ext: "chunking (ext q b) = chunking q" for q by (simp add: chunking_def)
  have rec: ?case if "take_line L (remaining p) = Some (line, rest, n)"
    "chunk_loop L p = chunk_loop L q" "chunk_loop L (ext q b) = Inr p'"
    "q = consume_line rest n p \<or> q = set_complete (consume_line rest n p)" for line rest n q
  proof -
    have "0 \<le> n" using that(1) by (auto simp: take_line_eval[OF L] split: option.splits)
    then have "chunking q" "\<not> num_truthy (remainingBodyBytes q)" "remaining q = rest"
      using that(4) less.prems(2,3) by (auto simp: chunking_def zero_length_def header_text_def)
    then show ?thesis
      using less.IH[of q] that(2,3) take_line_decreases[OF that(1)] less.prems(4) by simp
  qed
  show ?case
  proof (cases rule: chunk_turn[of L p])
    case none
    then have "chunk_loop L p = Inr p" by (rule chunk_loop_None)
    moreover have "body_phase L (ext p b) = Inr p'"
      using body_phase_chunking[of "ext p b" L] less.prems by (simp add: chunking_ext)
    moreover have "body_ready p"
      using less.prems(2,3) by (cases "remainingBodyBytes p") (auto simp: body_ready_def chunking_def)
    ultimately show ?thesis by blast
  next
    case (blank rest n)
    have "take_line L (remaining (ext p b)) = Some ([], rest @ b, n)"
      using take_line_append[OF L blank] by simp
    from chunk_loop_blank[OF this] have "chunk_loop L (ext p b) = chunk_loop L (ext (consume_line rest n p) b)"
      unfolding ext_ops .
    then show ?thesis using rec[OF blank] chunk_loop_blank[OF blank] less.prems(1) by simp
  next
    case (last line rest n)
    have "take_line L (remaining (ext p b)) = Some (line, rest @ b, n)"
      using take_line_append[OF L last(1)] by simp
    from chunk_loop_last[OF this last(2,3)]
    have "chunk_loop L (ext p b) = chunk_loop L (ext (set_complete (consume_line rest n p)) b)"
      unfolding ext_ops .
    then show ?thesis using rec[OF last(1)] chunk_loop_last[OF last] less.prems(1) by simp
  next
    case (sized line rest n sz)
    let ?s = "start_chunk sz (consume_line rest n p)"
    have line': "take_line L (remaining (ext p b)) = Some (line, rest @ b, n)"
      using take_line_append[OF L sized(1)] by simp
    have "start_chunk sz (consume_line (rest @ b) n (ext p b)) = ext ?s b"
      by (simp add: ext_def start_chunk_def)
    note big = chunk_loop_size[OF line' sized(2-4), unfolded this]
    note small = chunk_loop_size[OF sized(1-4)]
    obtain q where q: "readBody L (ext ?s b) = Inr q"
      using less.prems(1) big by (auto split: sum.splits)
    have n: "0 \<le> n" using sized(1) by (auto simp: take_line_eval[OF L] split: option.splits)
    obtain cs where cs: "chunks (res p) = Some cs" using less.prems(2) by (auto simp: chunking_def)
    let ?c = "\<lparr>fromIndex = currentByteIdx p + n, toIndex = currentByteIdx p + n + sz\<rparr>"
    have qc: "chunks (res q) = Some (cs @ [?c])"
      using readBody_frame[OF q] cs by (simp add: start_chunk_def)
    have fin: "p' = q \<and> num_truthy (remainingBodyBytes q)
        \<or> chunk_loop L q = Inr p' \<and> \<not> num_truthy (remainingBodyBytes q)"
      using less.prems(1) big q by (auto split: if_splits)
    then obtain cs' where "chunks (res p') = Some ((cs @ [?c]) @ cs')"
      using chunk_loop_grows[OF _ qc] qc by (metis append_Nil2)
    then have sz: "0 < sz" using sizes_ok_prefix[OF less.prems(4), of "cs @ [?c]" cs' ?c] sized(4) by simp
    have rbb: "remainingBodyBytes ?s = Num sz" by (simp add: start_chunk_def)
    have s: "isChunked ?s" "headersComplete (res ?s)" "chunks (res ?s) \<noteq> None" "0 < currentByteIdx ?s"
      "zero_length (res ?s) \<longrightarrow> complete (res ?s)"
      using less.prems(2) n by (auto simp: chunking_def start_chunk_def zero_length_def header_text_def)
    have nc: "\<not> complete (res ?s)" using q by (auto simp: readBody_def ext_def split: if_splits)
    have nz: "\<not> zero_length (res ?s)" using s(5) nc by simp
    have shorter: "length (remaining ?s) < length (remaining p)"
      using take_line_decreases[OF sized(1)] by simp
    show ?thesis
    proof (cases "sz \<le> int (length (remaining ?s))")
      case True
      obtain q0 where q0: "readBody L ?s = Inr q0" "q = ext q0 b" "remainingBodyBytes q0 = Num 0"
        "currentByteIdx q0 = currentByteIdx ?s + sz"
        using readBody_full[OF L rbb sz True q] by blast
      have "chunking q0"
        using readBody_frame[OF q0(1)] s sz q0 by (auto simp: chunking_def zero_length_def header_text_def)
      moreover have "length (remaining q0) < length (remaining p)"
        using readBody_remaining[OF q0(1)] shorter by simp
      ultimately show ?thesis
        using less.IH[of q0] fin q0 less.prems(4) small by simp
    next
      case False
      then obtain q0 where q0: "readBody L ?s = Inr q0" "readBody L (ext q0 b) = Inr q"
        "num_truthy (remainingBodyBytes q0)" "num_truthy (remainingBodyBytes q) \<longrightarrow> remaining q = []"
        "0 < currentByteIdx q0" "\<exists>m \<ge> -1. remainingBodyBytes q0 = Num m"
        using readBody_part[OF L rbb _ s(4) q] by auto
      have f: "isChunked q0" "headersComplete (res q0)" "chunks (res q0) \<noteq> None" "\<not> zero_length (res q0)"
        using readBody_frame[OF q0(1)] s nz by (auto simp: zero_length_def header_text_def)
      have "isChunked q" "\<not> zero_length (res q)"
        using readBody_frame[OF q0(2)] f by (auto simp: zero_length_def header_text_def)
      then have "body_phase L (ext q0 b) = chunk_loop L q"
        using q0(2,3) by (simp add: body_phase_def zero_length_def)
      also have "\<dots> = Inr p'" using fin q0(4) chunk_loop_empty[OF _ L] by auto
      finally show ?thesis using small q0 f by (auto simp: body_ready_def)
    qed
  qed
qed

subsection \<open>The body phase\<close>

lemma body_ready_frame:
  "readBody L p = Inr q \<Longrightarrow> isChunked q = isChunked p \<and> header_text (res q) k = header_text (res p) k
     \<and> chunks (res q) = chunks (res p) \<and> headersComplete (res q) = headersComplete (res p)"
  by (auto simp: header_text_def dest: readBody_frame)

lemma body_phase_ext:
  assumes L: "tls_bytes_spec L" and run: "body_phase L (ext p b) = Inr p'" and ready: "body_ready p"
    and ok: "sizes_ok (res p')"
  shows "\<exists>q. body_phase L p = Inr q \<and> body_phase L (ext q b) = Inr p' \<and> body_ready q"
proof (cases "num_truthy (remainingBodyBytes p)")
  case False
  let ?p = "if zero_length (res p) then set_complete p else p"
  have p: "body_phase L p = (if isChunked p then chunk_loop L ?p else Inr ?p)"
    using False by (simp add: body_phase_def zero_length_def)
  have pb: "body_phase L (ext p b) = (if isChunked p then chunk_loop L (ext ?p b) else Inr (ext ?p b))"
    using False by (simp add: body_phase_def zero_length_def ext_complete)
  show ?thesis
  proof (cases "isChunked p")
    case True
    then have "chunking ?p" using ready by (auto simp: body_ready_def chunking_def)
    then show ?thesis using chunk_loop_ext[OF L, of ?p b p'] run p pb True False ok by auto
  next
    case nc: False
    have "body_phase L (ext ?p b) = Inr p'"
      using nc False run pb by (simp add: body_phase_def zero_length_def[symmetric] set_complete_id)
    moreover have "body_ready ?p" using ready False by (auto simp: body_ready_def)
    ultimately show ?thesis using p nc by simp
  qed
next
  case True
  then obtain n where n: "remainingBodyBytes p = Num n" "n \<noteq> 0" "-1 \<le> n"
    using ready by (cases "remainingBodyBytes p") (auto simp: body_ready_def)
  have cur: "0 < currentByteIdx p" using ready by (simp add: body_ready_def)
  obtain q where q: "readBody L (ext p b) = Inr q"
    using run True by (auto simp: body_phase_def bindR_Inr_iff)
  have nz: "\<not> zero_length (res p)"
    using ready True q by (auto simp: body_ready_def readBody_def ext_def split: if_splits)
  show ?thesis
  proof (cases "n = -1 \<or> int (length (remaining p)) < n")
    case part: True
    obtain q0 where q0: "readBody L p = Inr q0" "readBody L (ext q0 b) = Inr q"
      "num_truthy (remainingBodyBytes q0)" "remaining q0 = []"
      "0 < currentByteIdx q0" "\<exists>m \<ge> -1. remainingBodyBytes q0 = Num m"
      using readBody_part[OF L n(1) part cur q] by blast
    note f = body_ready_frame[OF q0(1)]
    have nz0: "\<not> zero_length (res q0)" using nz f by (simp add: zero_length_def)
    have "body_phase L p = Inr q0"
      using True q0 nz0 chunk_loop_empty[OF q0(4) L] by (simp add: body_phase_def zero_length_def)
    moreover have "body_phase L (ext q0 b) = body_phase L (ext p b)"
      using True q q0 by (simp add: body_phase_def)
    moreover have "body_ready q0" using q0 f nz0 ready by (auto simp: body_ready_def)
    ultimately show ?thesis using run by auto
  next
    case full: False
    then obtain q0 where q0: "readBody L p = Inr q0" "q = ext q0 b" "remainingBodyBytes q0 = Num 0"
      "currentByteIdx q0 = currentByteIdx p + n"
      using readBody_full[OF L n(1) _ _ q] n by auto
    note f = body_ready_frame[OF q0(1)]
    have nz0: "\<not> zero_length (res q0)" using nz f by (simp add: zero_length_def)
    have ready0: "body_ready q0" using q0 f nz0 ready n full by (auto simp: body_ready_def)
    show ?thesis
    proof (cases "isChunked p")
      case ch: True
      then have "chunking q0" using f ready0 nz0 by (auto simp: body_ready_def chunking_def)
      moreover have "body_phase L p = chunk_loop L q0" "body_phase L (ext p b) = chunk_loop L (ext q0 b)"
        using True ch q q0 f nz0 by (simp_all add: body_phase_def zero_length_def)
      ultimately show ?thesis using chunk_loop_ext[OF L, of q0 b p'] run q0(3) ok by simp
    next
      case nc: False
      have "body_phase L p = Inr (set_complete q0)" "body_phase L (ext p b) = Inr (ext (set_complete q0) b)"
        using True nc q q0 f nz0 by (simp_all add: body_phase_def zero_length_def ext_complete header_text_def)
      moreover have "body_phase L (ext (set_complete q0) b) = Inr (ext (set_complete q0) b)"
        using q0 nc f nz0 by (simp add: body_phase_def zero_length_def header_text_def)
      moreover have "body_ready (set_complete q0)" using ready0 by (auto simp: body_ready_def)
      ultimately show ?thesis using run by auto
    qed
  qed
qed

subsection \<open>Feeding the response in pieces\<close>

text \<open>
  The lengths a server may send without breaking the parser: no negative chunk size, and no
  negative \<open>content-length\<close> other than the -1 the parser itself uses for an unknown length.
\<close>

definition content_length_ok :: "HttpResponse \<Rightarrow> bool" where
  "content_length_ok r \<longleftrightarrow>
     (case header_text r (js ''content-length'') of None \<Rightarrow> True
      | Some v \<Rightarrow> (case js_Number v of NaN \<Rightarrow> True | Num n \<Rightarrow> -1 \<le> n))"

definition lengths_ok :: "HttpResponse \<Rightarrow> bool" where
  "lengths_ok r \<longleftrightarrow> sizes_ok r
     \<and> content_length_ok r"

lemma chunk_loop_headers: "chunk_loop L p = Inr p' \<Longrightarrow> headers (res p') = headers (res p)"
proof (induction p rule: measure_induct_rule[where f = "\<lambda>p. length (remaining p)"])
  case (less p)
  show ?case
  proof (cases rule: chunk_turn[of L p])
    case none
    then show ?thesis using less.prems by (simp add: chunk_loop_None)
  next
    case (blank rest n)
    then show ?thesis
      using less.IH[of "consume_line rest n p"] less.prems take_line_decreases[OF blank]
      by (simp add: chunk_loop_blank)
  next
    case (last line rest n)
    then show ?thesis
      using less.IH[of "set_complete (consume_line rest n p)"] less.prems take_line_decreases[OF last(1)]
      by (simp add: chunk_loop_last)
  next
    case (sized line rest n sz)
    then obtain p2 where p2: "readBody L (start_chunk sz (consume_line rest n p)) = Inr p2"
      using less.prems by (auto simp: chunk_loop_size split: sum.splits)
    have "headers (res p2) = headers (res p)"
      using readBody_frame[OF p2] by (simp add: start_chunk_def)
    moreover have "length (remaining p2) < length (remaining p)"
      using readBody_remaining[OF p2] take_line_decreases[OF sized(1)] by simp
    ultimately show ?thesis
      using less.IH[of p2] less.prems p2 sized by (auto simp: chunk_loop_size split: if_splits)
  qed
qed

lemma body_phase_headers: "body_phase L p = Inr p' \<Longrightarrow> headers (res p') = headers (res p)"
proof -
  assume run: "body_phase L p = Inr p'"
  let ?f = "\<lambda>p1. if \<not> num_truthy (remainingBodyBytes p1) \<and> \<not> isChunked p1 then set_complete p1 else p1"
  let ?g = "\<lambda>p2. if zero_length (res p2) then set_complete p2 else p2"
  obtain p2 where a: "(if num_truthy (remainingBodyBytes p) then bindR (readBody L p) (\<lambda>p1. Inr (?f p1))
      else Inr p) = Inr p2" and b: "(if isChunked (?g p2) then chunk_loop L (?g p2) else Inr (?g p2)) = Inr p'"
    using run unfolding body_phase_def zero_length_def Let_def bindR_Inr_iff by blast
  have "headers (res p2) = headers (res p)"
    using a by (auto simp: bindR_Inr_iff split: if_splits dest: readBody_frame)
  moreover have "headers (res p') = headers (res (?g p2))"
    using b by (metis chunk_loop_headers sum.inject(2))
  ultimately show ?thesis by simp
qed

lemma header_loop_end:
  "header_loop L p = Inr p' \<Longrightarrow> \<not> headersComplete (res p) \<Longrightarrow> headersComplete (res p') \<Longrightarrow>
     \<exists>p0. p' = end_of_headers p0"
proof (induction p rule: measure_induct_rule[where f = "\<lambda>p. length (remaining p)"])
  case (less p)
  show ?case
  proof (cases "take_line L (remaining p)")
    case None
    then show ?thesis using less.prems by (simp add: header_loop_None)
  next
    case (Some t)
    then obtain line rest n where line: "take_line L (remaining p) = Some (line, rest, n)"
      by (cases t) auto
    let ?p1 = "consume_line rest n p"
    have shorter: "length rest < length (remaining p)" by (rule take_line_decreases[OF line])
    have hc: "\<not> headersComplete (res (status_line line ?p1))" "\<not> headersComplete (res (header_line line ?p1))"
      using less.prems(2) by (simp_all add: status_line_def header_line_def Let_def)
    show ?thesis
      using less.IH[of "status_line line ?p1"] less.IH[of "header_line line ?p1"] shorter hc
        less.prems(1)[unfolded header_loop_Some[OF line] Let_def] less.prems(3)
      by (fastforce split: if_splits)
  qed
qed

text \<open>The parser between two calls of \<open>onChunk\<close>.\<close>

definition stream_ok :: "parser \<Rightarrow> bool" where
  "stream_ok p \<longleftrightarrow> (if headersComplete (res p) then body_ready p else 0 \<le> currentByteIdx p \<and> before_body p)"

text \<open>\<open>onChunk\<close> after the data is appended to the buffer.\<close>

definition phases :: "tls_pkg \<Rightarrow> parser \<Rightarrow> js_error + parser" where
  "phases L p = bindR (if headersComplete (res p) then Inr p else header_loop L p)
     (\<lambda>p1. if headersComplete (res p1) then body_phase L p1 else Inr p1)"

lemma onChunk_phases: "tls_bytes_spec L \<Longrightarrow> onChunk L p d = phases L (ext p d)"
  by (simp add: onChunk_def phases_def ext_def Let_def tls_bytes_specD)

lemma header_loop_ready:
  assumes L: "tls_bytes_spec L" and run: "header_loop L p = Inr p'" and ok: "stream_ok p" "\<not> headersComplete (res p)"
    and len: "headersComplete (res p') \<Longrightarrow> content_length_ok (res p')"
  shows "stream_ok p'"
proof -
  let ?k = "nat (currentByteIdx p)"
  let ?input = "replicate ?k 0 @ remaining p"
  have "at_byte ?input ?k p" "before_body p" using ok by (simp_all add: stream_ok_def at_byte_def)
  from header_loop_positions[OF L run this]
  obtain k where k: "at_byte ?input k p'"
    "if headersComplete (res p') then at_body p' \<and> 0 < k else before_body p'" by blast
  show ?thesis
  proof (cases "headersComplete (res p')")
    case False
    then show ?thesis using k by (simp add: stream_ok_def at_byte_def)
  next
    case True
    then obtain p0 where p0: "p' = end_of_headers p0" using header_loop_end[OF run ok(2)] by blast
    have h: "header_text (res p') = header_text (res p0)"
      by (rule ext) (simp add: p0 end_of_headers_def header_text_def Let_def split: option.split)
    have "case remainingBodyBytes p' of NaN \<Rightarrow> True | Num n \<Rightarrow> -1 \<le> n"
      "zero_length (res p') \<longrightarrow> \<not> num_truthy (remainingBodyBytes p')"
    proof -
      show "case remainingBodyBytes p' of NaN \<Rightarrow> True | Num n \<Rightarrow> -1 \<le> n"
      proof (cases "isChunked p'")
        case True
        then show ?thesis using k \<open>headersComplete (res p')\<close> by (simp add: at_body_def)
      next
        case nc: False
        then show ?thesis using len[OF True] h
          by (auto simp: p0 content_length_ok_def end_of_headers_def Let_def header_text_def
              split: option.splits if_splits)
      qed
      show "zero_length (res p') \<longrightarrow> \<not> num_truthy (remainingBodyBytes p')"
      proof (cases "isChunked p'")
        case True
        then show ?thesis using k \<open>headersComplete (res p')\<close> by (simp add: at_body_def)
      next
        case nc: False
        have "js_Number (js ''0'') = Num 0" "js ''0'' \<noteq> []"
          by (simp_all add: js_def js_Number_def js_trim_def is_space_def is_digit_def is_prefix_def
              digits_val_def digit_val_def)
        then show ?thesis using nc h
          by (auto simp: p0 zero_length_def end_of_headers_def Let_def header_text_def
              split: option.splits if_splits)
      qed
    qed
    then have "body_ready p'" using k True by (auto simp: body_ready_def at_body_def at_byte_def)
    then show ?thesis using True by (simp add: stream_ok_def)
  qed
qed

lemma phases_ext:
  assumes L: "tls_bytes_spec L" and run: "phases L (ext p b) = Inr p'" and ok: "stream_ok p"
    and len: "lengths_ok (res p')"
  shows "\<exists>q. phases L p = Inr q \<and> phases L (ext q b) = Inr p' \<and> stream_ok q"
proof (cases "headersComplete (res p)")
  case True
  have sz: "sizes_ok (res p')" using len by (simp add: lengths_ok_def)
  have "body_phase L (ext p b) = Inr p'" "body_ready p"
    using run ok True by (simp_all add: phases_def stream_ok_def)
  from body_phase_ext[OF L this sz] obtain q where
    q: "body_phase L p = Inr q" "body_phase L (ext q b) = Inr p'" "body_ready q" by blast
  then have "headersComplete (res q)" by (simp add: body_ready_def)
  with q True show ?thesis by (simp add: phases_def stream_ok_def)
next
  case False
  then have whole: "bindR (header_loop L p) (\<lambda>p1. bindR (if headersComplete (res p1) then Inr (ext p1 b)
      else header_loop L (ext p1 b)) (\<lambda>p2. if headersComplete (res p2) then body_phase L p2 else Inr p2)) = Inr p'"
    using run header_loop_ext[OF L False, of b] by (cases "header_loop L p") (simp_all add: phases_def)
  then obtain p1 where p1: "header_loop L p = Inr p1" by (cases "header_loop L p") simp_all
  show ?thesis
  proof (cases "headersComplete (res p1)")
    case hc: True
    then have run1: "body_phase L (ext p1 b) = Inr p'" using whole p1 by simp
    have "content_length_ok (res p1)"
      using len body_phase_headers[OF run1] by (simp add: lengths_ok_def content_length_ok_def header_text_def)
    then have "body_ready p1" using header_loop_ready[OF L p1 ok False] hc by (simp add: stream_ok_def)
    moreover have "sizes_ok (res p')" using len by (simp add: lengths_ok_def)
    ultimately obtain q where q: "body_phase L p1 = Inr q" "body_phase L (ext q b) = Inr p'" "body_ready q"
      using body_phase_ext[OF L run1] by blast
    then have "headersComplete (res q)" by (simp add: body_ready_def)
    with q hc False p1 show ?thesis by (simp add: phases_def stream_ok_def)
  next
    case nh: False
    then have "stream_ok p1" using header_loop_ready[OF L p1 ok False] by simp
    moreover have "phases L p = Inr p1" using nh False p1 by (simp add: phases_def)
    moreover have "phases L (ext p1 b) = Inr p'" using whole p1 nh by (simp add: phases_def)
    ultimately show ?thesis by blast
  qed
qed

text \<open>The callers' loop: one call of \<open>onChunk\<close> for each piece of data that arrives.\<close>

fun feed :: "tls_pkg \<Rightarrow> parser \<Rightarrow> bytes list \<Rightarrow> js_error + parser" where
  "feed L p [] = Inr p"
| "feed L p (d # ds) = bindR (onChunk L p d) (\<lambda>q. feed L q ds)"

lemma feed_phases:
  assumes L: "tls_bytes_spec L" and len: "lengths_ok (res p')"
  shows "phases L (ext p (concat (d # ds))) = Inr p' \<Longrightarrow> stream_ok p \<Longrightarrow> feed L p (d # ds) = Inr p'"
proof (induction ds arbitrary: p d)
  case Nil
  then show ?case by (simp add: onChunk_phases[OF L])
next
  case (Cons d2 ds)
  have "phases L (ext (ext p d) (concat (d2 # ds))) = Inr p'" using Cons.prems(1) by (simp add: ext_ext)
  moreover have "stream_ok (ext p d)"
    using Cons.prems(2) by (auto simp: stream_ok_def body_ready_def before_body_def split: if_splits)
  ultimately obtain q where q: "phases L (ext p d) = Inr q" "phases L (ext q (concat (d2 # ds))) = Inr p'"
    "stream_ok q" using phases_ext[OF L _ _ len] by blast
  then show ?case using Cons.IH[OF q(2,3)] by (simp add: onChunk_phases[OF L])
qed

lemma stream_ok_init: "stream_ok makeHttpResponseParser"
  by (simp add: stream_ok_def before_body_def makeHttpResponseParser_def)

lemma feed_concat:
  assumes "tls_bytes_spec L" and "onChunk L makeHttpResponseParser (concat ds) = Inr p'"
    and "lengths_ok (res p')" and "ds \<noteq> []"
  shows "feed L makeHttpResponseParser ds = Inr p'"
  using assms feed_phases[OF assms(1,3) _ stream_ok_init]
  by (cases ds) (simp_all add: onChunk_phases)

subsection \<open>Properties\<close>

text \<open>C34: The parser is a stream parser: a response that parses as a whole, with no negative lengths,
  parses to the same result however it is cut into pieces.\<close>

theorem stream_equals_whole:
  assumes "tls_bytes_spec L" and "parseHttpResponse L (concat pieces) = Inr r"
    and "lengths_ok r" and "pieces \<noteq> []"
  shows "bindR (feed L makeHttpResponseParser pieces) (\<lambda>p. bindR (streamEnded p) (\<lambda>p'. Inr (res p'))) = Inr r"
proof -
  have cong: "lengths_ok (q\<lparr>complete := c\<rparr>) = lengths_ok q" for q c
    by (simp add: lengths_ok_def sizes_ok_def content_length_ok_def header_text_def)
  obtain p p' where p: "onChunk L makeHttpResponseParser (concat pieces) = Inr p" "streamEnded p = Inr p'" "r = res p'"
    using assms(2) by (auto simp: parseHttpResponse_def bindR_Inr_iff)
  have "lengths_ok (res p)"
    using assms(3) p(2,3) by (auto simp: streamEnded_def cong split: if_splits jsnum.splits)
  then show ?thesis using feed_concat[OF assms(1) p(1) _ assms(4)] p by simp
qed

theorem stream_equals_whole_witness:
  "\<exists>r. bindR (feed tls_ref makeHttpResponseParser [ascii ''HTTP/1.1 404 N'' @ [13], [10] @ CRLF @ [97], [], [98]])
     (\<lambda>p. bindR (streamEnded p) (\<lambda>p'. Inr (res p'))) = Inr r \<and> body r = [97, 98]"
proof -
  obtain r where r: "parseHttpResponse tls_ref example_response = Inr r" "body r = [97, 98]"
    "chunks r = None" "headers r = Map.empty" by (rule example_parse)
  have "lengths_ok r" using r by (simp add: lengths_ok_def sizes_ok_def content_length_ok_def header_text_def)
  moreover have whole: "concat [ascii ''HTTP/1.1 404 N'' @ [13], [10] @ CRLF @ [97], [], [98]] = example_response"
    by (simp add: example_response_def)
  ultimately show ?thesis
    using stream_equals_whole[OF tls_ref_spec r(1)[folded whole]] r(2) by (intro exI[of _ r]) simp
qed

end
