(* ===== verification/Http_Utils.thy ===== *)
theory Http_Utils
  imports Http_Parser_Stream
begin

text \<open>
  The helpers of the HTTP provider (\<open>src/providers/http/utils.ts\<close>): the ranges of elements found
  by XPath and JSON path, the conversion of a position in the body to a position in the response,
  the redactions of chunk headers, the comparison of a template with a redacted text, and the
  request and response of a client's transcript.

  The DOM (\<open>jsdom\<close>), JSON path (\<open>jsonpath-plus\<close>) and the script parser (\<open>esprima\<close>) are arguments
  that return what the code reads of their results: node locations, pointers, a syntax tree.
\<close>

subsection \<open>Elements by XPath\<close>

record JSONIndex =
  idx_start :: int
  idx_end :: int

text \<open>\<open>dom.nodeLocation(node)\<close>; the tags are there for an element with tags.\<close>

record node_location =
  startOffset :: int
  endOffset :: int
  startTag_end :: "int option"
  endTag_start :: "int option"

text \<open>\<open>xpath_nodes html xpath\<close>: the locations of the nodes of the snapshot, \<open>None\<close> where there is none.\<close>

type_synonym xpath_lib = "jsstring \<Rightarrow> jsstring \<Rightarrow> node_location option list"

definition node_index :: "bool \<Rightarrow> node_location option \<Rightarrow> js_error + JSONIndex" where
  "node_index contentsOnly loc =
     (case loc of
        None \<Rightarrow> Inl (PlainError ''Failed to find XPath node location'')
      | Some l \<Rightarrow>
          Inr (if contentsOnly
               then \<lparr>idx_start = (case startTag_end l of None \<Rightarrow> startOffset l | Some e \<Rightarrow> e),
                     idx_end = (case endTag_start l of None \<Rightarrow> endOffset l | Some s \<Rightarrow> s)\<rparr>
               else \<lparr>idx_start = startOffset l, idx_end = endOffset l\<rparr>))"

definition extractHTMLElementsIndexes ::
  "xpath_lib \<Rightarrow> jsstring \<Rightarrow> jsstring \<Rightarrow> bool \<Rightarrow> js_error + JSONIndex list" where
  "extractHTMLElementsIndexes xpath html expr contentsOnly =
     (let nodes = xpath html expr in
      if nodes = [] then Inl (PlainError ''Failed to find XPath'')
      else mapR (node_index contentsOnly) nodes)"

definition extractHTMLElementIndex ::
  "xpath_lib \<Rightarrow> jsstring \<Rightarrow> jsstring \<Rightarrow> bool \<Rightarrow> js_error + JSONIndex option" where
  "extractHTMLElementIndex xpath html expr contentsOnly =
     bindR (extractHTMLElementsIndexes xpath html expr contentsOnly) (\<lambda>is. Inr (js_get is 0))"

definition extractHTMLElement :: "xpath_lib \<Rightarrow> jsstring \<Rightarrow> jsstring \<Rightarrow> bool \<Rightarrow> js_error + jsstring" where
  "extractHTMLElement xpath html expr contentsOnly =
     bindR (extractHTMLElementIndex xpath html expr contentsOnly) (\<lambda>i.
       case i of
         None \<Rightarrow> Inl (JsTypeError ''undefined index'')
       | Some i \<Rightarrow> Inr (js_slice html (idx_start i) (idx_end i)))"

definition extractHTMLElements :: "xpath_lib \<Rightarrow> jsstring \<Rightarrow> jsstring \<Rightarrow> bool \<Rightarrow> js_error + jsstring list" where
  "extractHTMLElements xpath html expr contentsOnly =
     bindR (extractHTMLElementsIndexes xpath html expr contentsOnly) (\<lambda>is.
       Inr (map (\<lambda>i. js_slice html (idx_start i) (idx_end i)) is))"

lemma mapR_length: "mapR f xs = Inr ys \<Longrightarrow> length ys = length xs"
  by (induction xs arbitrary: ys) (auto simp: bindR_Inr_iff)

text \<open>A list of elements is never empty: the search either fails or has a first element.\<close>

lemma extractHTMLElementsIndexes_nonempty:
  "extractHTMLElementsIndexes xpath html expr c = Inr is \<Longrightarrow> is \<noteq> []"
  by (auto simp: extractHTMLElementsIndexes_def Let_def split: if_splits dest: mapR_length)

subsection \<open>Elements by JSON path\<close>

text \<open>
  The syntax tree: objects with properties (a literal key has a value; a spread is not a
  property), arrays with holes, anything else. Every node and property may have a range.
\<close>

type_synonym range = "(int \<times> int) option"

datatype expression =
    ObjectExpression range "property list"
  | ArrayExpression range "expression option list"
  | OtherExpression range
and property =
    Property (key_literal: "jsstring option") expression range
  | SpreadElement

fun expr_range :: "expression \<Rightarrow> range" where
  "expr_range (ObjectExpression r _) = r"
| "expr_range (ArrayExpression r _) = r"
| "expr_range (OtherExpression r) = r"

text \<open>The decimal text of an array index.\<close>

fun nat_to_js :: "nat \<Rightarrow> jsstring" where
  "nat_to_js n = (if n < 10 then [of_nat (48 + n)] else nat_to_js (n div 10) @ [of_nat (48 + n mod 10)])"

declare nat_to_js.simps [simp del]

definition local_path :: "jsstring \<Rightarrow> jsstring option \<Rightarrow> jsstring" where
  "local_path path key = (case key of None \<Rightarrow> path | Some k \<Rightarrow> path @ js ''/'' @ k)"

text \<open>\<open>traverse\<close>: the range of the first property or element whose path is one of the pointers.\<close>

fun traverse :: "expression \<Rightarrow> jsstring \<Rightarrow> jsstring list \<Rightarrow> (int \<times> int) option"
and traverse_props :: "property list \<Rightarrow> jsstring \<Rightarrow> jsstring list \<Rightarrow> (int \<times> int) option"
and traverse_elements :: "expression option list \<Rightarrow> nat \<Rightarrow> jsstring \<Rightarrow> jsstring list \<Rightarrow> (int \<times> int) option"
where
  "traverse (ObjectExpression _ ps) path pointers = traverse_props ps path pointers"
| "traverse (ArrayExpression _ es) path pointers = traverse_elements es 0 path pointers"
| "traverse (OtherExpression _) path pointers = None"
| "traverse_props [] path pointers = None"
| "traverse_props (SpreadElement # ps) path pointers = traverse_props ps path pointers"
| "traverse_props (Property key v r # ps) path pointers =
     (let localPath = local_path path key in
      if localPath \<in> set pointers \<and> r \<noteq> None then r
      else
        (case traverse v localPath pointers of
           Some found \<Rightarrow> Some found
         | None \<Rightarrow> traverse_props ps path pointers))"
| "traverse_elements [] i path pointers = None"
| "traverse_elements (None # es) i path pointers = traverse_elements es (Suc i) path pointers"
| "traverse_elements (Some e # es) i path pointers =
     (let localPath = path @ js ''/'' @ nat_to_js i in
      if localPath \<in> set pointers \<and> expr_range e \<noteq> None then expr_range e
      else
        (case traverse e localPath pointers of
           Some found \<Rightarrow> Some found
         | None \<Rightarrow> traverse_elements es (Suc i) path pointers))"

text \<open>The pointers found by JSON path, \<open>None\<close> when the result is falsy.\<close>

record json_path_lib =
  JSON_path :: "jsstring \<Rightarrow> json \<Rightarrow> jsstring list option"
  parse_tree :: "jsstring \<Rightarrow> js_error + expression"

definition is_container :: "expression \<Rightarrow> bool" where
  "is_container e = (case e of OtherExpression _ \<Rightarrow> False | _ \<Rightarrow> True)"

definition extractJSONValueIndexes ::
  "json_lib \<Rightarrow> json_path_lib \<Rightarrow> jsstring \<Rightarrow> jsstring \<Rightarrow> js_error + JSONIndex list" where
  "extractJSONValueIndexes J P json jsonPath =
     (case JSON_parse J json of
        None \<Rightarrow> Inl (JsSyntaxError ''JSON.parse'')
      | Some v \<Rightarrow>
          (case JSON_path P jsonPath v of
             None \<Rightarrow> Inl (PlainError ''jsonPath not found'')
           | Some pointers \<Rightarrow>
               bindR (parse_tree P (js ''('' @ json @ js '')'')) (\<lambda>tree.
                 if is_container tree then
                   Inr (List.map_filter (\<lambda>pointer.
                     map_option (\<lambda>(s, e). \<lparr>idx_start = s - 1, idx_end = e - 1\<rparr>) (traverse tree [] [pointer]))
                     pointers)
                 else Inl (PlainError ''jsonPath not found''))))"

definition extractJSONValueIndex ::
  "json_lib \<Rightarrow> json_path_lib \<Rightarrow> jsstring \<Rightarrow> jsstring \<Rightarrow> js_error + JSONIndex option" where
  "extractJSONValueIndex J P json jsonPath =
     bindR (extractJSONValueIndexes J P json jsonPath) (\<lambda>is. Inr (js_get is 0))"

text \<open>The paths of the tree with their ranges, in the order of the text.\<close>

fun paths :: "expression \<Rightarrow> jsstring \<Rightarrow> (jsstring \<times> range) list"
and prop_paths :: "property list \<Rightarrow> jsstring \<Rightarrow> (jsstring \<times> range) list"
and element_paths :: "expression option list \<Rightarrow> nat \<Rightarrow> jsstring \<Rightarrow> (jsstring \<times> range) list"
where
  "paths (ObjectExpression _ ps) path = prop_paths ps path"
| "paths (ArrayExpression _ es) path = element_paths es 0 path"
| "paths (OtherExpression _) path = []"
| "prop_paths [] path = []"
| "prop_paths (SpreadElement # ps) path = prop_paths ps path"
| "prop_paths (Property key v r # ps) path =
     (local_path path key, r) # paths v (local_path path key) @ prop_paths ps path"
| "element_paths [] i path = []"
| "element_paths (None # es) i path = element_paths es (Suc i) path"
| "element_paths (Some e # es) i path =
     (path @ js ''/'' @ nat_to_js i, expr_range e)
     # paths e (path @ js ''/'' @ nat_to_js i) @ element_paths es (Suc i) path"

definition first_match :: "jsstring list \<Rightarrow> (jsstring \<times> range) list \<Rightarrow> range" where
  "first_match pointers ps = Option.bind (List.find (\<lambda>(p, r). p \<in> set pointers \<and> r \<noteq> None) ps) snd"

lemma first_match_simps [simp]:
  "first_match pointers [] = None"
  "first_match pointers ((p, r) # ps) =
     (if p \<in> set pointers \<and> r \<noteq> None then r else first_match pointers ps)"
  "first_match pointers (ps @ qs) =
     (case first_match pointers ps of None \<Rightarrow> first_match pointers qs | Some x \<Rightarrow> Some x)"
proof -
  show "first_match pointers (ps @ qs) =
     (case first_match pointers ps of None \<Rightarrow> first_match pointers qs | Some x \<Rightarrow> Some x)"
    by (induction ps) (auto simp: first_match_def)
qed (auto simp: first_match_def)

lemma traverse_first_match:
  "traverse e path pointers = first_match pointers (paths e path)"
  "traverse_props ps path pointers = first_match pointers (prop_paths ps path)"
  "traverse_elements es i path pointers = first_match pointers (element_paths es i path)"
  by (induction e path pointers and ps path pointers and es i path pointers
      rule: traverse_traverse_props_traverse_elements.induct)
    (auto simp: Let_def split: option.splits)

subsection \<open>Headers\<close>

text \<open>\<open>Object.entries(input || {})\<close>: the headers in the order they were inserted.\<close>

definition buildHeaders :: "(jsstring \<times> jsstring) list \<Rightarrow> jsstring list" where
  "buildHeaders input = map (\<lambda>(key, value). key @ js '': '' @ value) input"

subsection \<open>Positions\<close>

fun chunk_position :: "int \<Rightarrow> int \<Rightarrow> ArraySlice list \<Rightarrow> js_error + int" where
  "chunk_position pos chunkBodyStart [] = Inl (PlainError ''position out of range'')"
| "chunk_position pos chunkBodyStart (chunk # cs) =
     (let chunkSize = toIndex chunk - fromIndex chunk in
      if chunkBodyStart \<le> pos \<and> pos \<le> chunkBodyStart + chunkSize
      then Inr (pos - chunkBodyStart + fromIndex chunk)
      else chunk_position pos (chunkBodyStart + chunkSize) cs)"

definition convertResponsePosToAbsolutePos :: "int \<Rightarrow> int \<Rightarrow> ArraySlice list option \<Rightarrow> js_error + int" where
  "convertResponsePosToAbsolutePos pos bodyStartIdx resChunks =
     (case resChunks of
        Some (c # cs) \<Rightarrow> chunk_position pos 0 (c # cs)
      | _ \<Rightarrow> Inr (bodyStartIdx + pos))"

fun chunk_gaps :: "int \<Rightarrow> int \<Rightarrow> ArraySlice list \<Rightarrow> ArraySlice list" where
  "chunk_gaps from to (previous # chunk # cs) =
     (if from < fromIndex chunk \<and> fromIndex chunk < to
      then [\<lparr>fromIndex = toIndex previous, toIndex = fromIndex chunk\<rparr>] else [])
     @ chunk_gaps from to (chunk # cs)"
| "chunk_gaps from to cs = []"

definition getRedactionsForChunkHeaders :: "int \<Rightarrow> int \<Rightarrow> ArraySlice list option \<Rightarrow> ArraySlice list" where
  "getRedactionsForChunkHeaders from to resChunks =
     (case resChunks of None \<Rightarrow> [] | Some cs \<Rightarrow> chunk_gaps from to cs)"

definition within :: "'a ArraySlice_scheme \<Rightarrow> int \<Rightarrow> bool" where
  "within s p \<longleftrightarrow> fromIndex s \<le> p \<and> p < toIndex s"

definition in_slices :: "'a ArraySlice_scheme list \<Rightarrow> int \<Rightarrow> bool" where
  "in_slices ss p \<longleftrightarrow> list_ex (\<lambda>s. within s p) ss"

lemma in_slices_simps [simp]:
  "in_slices [] p \<longleftrightarrow> False"
  "in_slices (s # ss) p \<longleftrightarrow> within s p \<or> in_slices ss p"
  "in_slices (xs @ ys) p \<longleftrightarrow> in_slices xs p \<or> in_slices ys p"
  by (auto simp: in_slices_def)

text \<open>The bytes of a range of the response that are left when the slices are cut out.\<close>

definition bytes_without :: "bytes \<Rightarrow> int \<Rightarrow> int \<Rightarrow> ArraySlice list \<Rightarrow> bytes" where
  "bytes_without input from to skipped =
     map (\<lambda>p. input ! nat p) (filter (\<lambda>p. \<not> in_slices skipped p) [from..to - 1])"

lemma upto_append: "lo \<le> m \<Longrightarrow> m \<le> hi \<Longrightarrow> [lo..m - 1] @ [m..hi - 1] = [lo..hi - (1::int)]"
  by (cases "m = hi") (simp_all add: upto_split1[of lo m "hi - 1"])

lemma chain_ge: "chunks_chain lo cs \<Longrightarrow> in_slices cs p \<Longrightarrow> lo < p"
  by (induction cs arbitrary: lo) (auto simp: within_def, force)

lemma last_to_ge: "chunks_chain lo cs \<Longrightarrow> lo \<le> last_to lo cs"
  by (induction cs arbitrary: lo) (auto, force)

lemma chain_pos: "chunks_chain lo cs \<Longrightarrow> c \<in> set cs \<Longrightarrow> fromIndex c < toIndex c"
  by (induction cs arbitrary: lo) auto

lemma chain_le: "chunks_chain lo cs \<Longrightarrow> in_slices cs p \<Longrightarrow> p < last_to lo cs"
  by (induction cs arbitrary: lo) (auto simp: within_def dest: last_to_ge)

lemma filter_first:
  assumes "chunks_chain lo (c # cs)" and "fromIndex c \<le> q" and "q \<le> toIndex c"
  shows "filter (in_slices (c # cs)) [lo..q - 1] = [fromIndex c..q - 1]"
proof -
  have "[lo..q - 1] = [lo..fromIndex c - 1] @ [fromIndex c..q - 1]"
    using assms by (subst upto_append) auto
  moreover have "\<not> in_slices cs p" if "p < toIndex c" for p
    using chain_ge[of "toIndex c" cs p] assms(1) that by auto
  ultimately show ?thesis using assms
    by (auto simp: filter_empty_conv filter_id_conv within_def)
qed

lemma filter_rest:
  assumes "chunks_chain lo (c # cs)" and "toIndex c \<le> q"
  shows "filter (in_slices (c # cs)) [lo..q - 1]
         = [fromIndex c..toIndex c - 1] @ filter (in_slices cs) [toIndex c..q - 1]"
proof -
  have "[lo..q - 1] = [lo..toIndex c - 1] @ [toIndex c..q - 1]"
    using assms by (subst upto_append) auto
  moreover have "filter (in_slices (c # cs)) [toIndex c..q - 1] = filter (in_slices cs) [toIndex c..q - 1]"
    by (rule filter_cong) (auto simp: within_def)
  ultimately show ?thesis using filter_first[OF assms(1), of "toIndex c"] assms(1) by simp
qed

text \<open>The chunks hold the body, position by position.\<close>

lemma chunk_bytes_upto:
  assumes "0 \<le> fromIndex c" and "fromIndex c \<le> toIndex c" and "toIndex c \<le> int (length input)"
  shows "chunk_bytes input c = map (\<lambda>p. input ! nat p) [fromIndex c..toIndex c - 1]"
  using assms
  by (intro nth_equalityI) (auto simp: chunk_bytes_def js_slices nat_add_distrib)

lemma body_positions:
  "chunks_chain lo cs \<Longrightarrow> 0 \<le> lo \<Longrightarrow> last_to lo cs \<le> int (length input) \<Longrightarrow>
     concat (map (chunk_bytes input) cs)
     = map (\<lambda>p. input ! nat p) (filter (in_slices cs) [lo..last_to lo cs - 1])"
proof (induction cs arbitrary: lo)
  case Nil
  then show ?case by simp
next
  case (Cons c cs)
  have le: "toIndex c \<le> last_to (toIndex c) cs" using Cons.prems(1) by (intro last_to_ge) simp
  have "chunk_bytes input c = map (\<lambda>p. input ! nat p) [fromIndex c..toIndex c - 1]"
    using Cons.prems le by (intro chunk_bytes_upto) auto
  then show ?case
    using Cons.IH[of "toIndex c"] Cons.prems filter_rest[OF Cons.prems(1) le] by (simp del: in_slices_simps)
qed

lemma chunk_position_range:
  "chunk_position pos k cs = Inr q \<Longrightarrow> chunks_chain lo cs \<Longrightarrow> lo < q \<and> q \<le> last_to lo cs"
proof (induction cs arbitrary: k lo)
  case (Cons c cs)
  have "toIndex c \<le> last_to (toIndex c) cs" using Cons.prems(2) by (intro last_to_ge) simp
  then show ?case using Cons by (fastforce simp: Let_def split: if_splits)
qed simp

text \<open>The position of a body byte has that many body bytes before it.\<close>

lemma chunk_position_count:
  "chunk_position pos k cs = Inr q \<Longrightarrow> chunks_chain lo cs \<Longrightarrow> k \<le> pos \<Longrightarrow>
     length (filter (in_slices cs) [lo..q - 1]) = nat (pos - k)"
proof (induction cs arbitrary: k lo)
  case (Cons c cs)
  let ?sz = "toIndex c - fromIndex c"
  show ?case
  proof (cases "pos \<le> k + ?sz")
    case True
    then have "q = pos - k + fromIndex c" using Cons.prems by (simp add: Let_def)
    then show ?thesis using filter_first[OF Cons.prems(2), of q] True Cons.prems by (simp del: in_slices_simps)
  next
    case False
    then have q: "chunk_position pos (k + ?sz) cs = Inr q" using Cons.prems by (simp add: Let_def)
    have "toIndex c < q" using chunk_position_range[OF q, of "toIndex c"] Cons.prems(2) by simp
    then show ?thesis
      using Cons.IH[OF q, of "toIndex c"] filter_rest[OF Cons.prems(2), of q] Cons.prems False
      by (simp del: in_slices_simps add: nat_add_distrib[symmetric])
  qed
qed simp

text \<open>Inside a reveal, what is not a chunk is a chunk header that is redacted, and the reverse.\<close>

lemma chunk_gaps_ge: "chunks_chain lo (c # cs) \<Longrightarrow> in_slices (chunk_gaps from to (c # cs)) p \<Longrightarrow> toIndex c \<le> p"
proof (induction cs arbitrary: c lo)
  case (Cons d cs)
  then show ?case by (fastforce simp: within_def split: if_splits)
qed simp

lemma chunk_gaps_outside:
  "chunks_chain lo cs \<Longrightarrow> in_slices (chunk_gaps from to cs) p \<Longrightarrow> \<not> in_slices cs p"
proof (induction "from" "to" cs arbitrary: lo rule: chunk_gaps.induct)
  case (1 "from" "to" b c cs)
  have chain: "chunks_chain (toIndex b) (c # cs)" using "1.prems"(1) by simp
  show ?case
  proof (cases "in_slices (chunk_gaps from to (c # cs)) p")
    case True
    then have "toIndex c \<le> p" using chunk_gaps_ge[OF chain] by simp
    then show ?thesis using "1.IH"[OF chain True] chain "1.prems" by (auto simp: within_def)
  next
    case False
    then have "toIndex b \<le> p" "p < fromIndex c"
      using "1.prems"(2) by (auto simp: within_def split: if_splits)
    then show ?thesis using chain_ge[of "toIndex c" cs p] chain by (auto simp: within_def)
  qed
qed simp_all

lemma chunk_gaps_cover:
  "chunks_chain lo cs \<Longrightarrow> cs \<noteq> [] \<Longrightarrow> fromIndex (hd cs) \<le> p \<Longrightarrow> from \<le> p \<Longrightarrow> p < to \<Longrightarrow>
   \<exists>c \<in> set cs. fromIndex c < to \<and> to \<le> toIndex c \<Longrightarrow> \<not> in_slices cs p \<Longrightarrow>
     in_slices (chunk_gaps from to cs) p"
proof (induction "from" "to" cs arbitrary: lo rule: chunk_gaps.induct)
  case (1 "from" "to" b c cs)
  have chain: "chunks_chain (toIndex b) (c # cs)" using "1.prems"(1) by simp
  have p: "toIndex b \<le> p" using "1.prems" by (auto simp: within_def)
  then have wit: "\<exists>d \<in> set (c # cs). fromIndex d < to \<and> to \<le> toIndex d" using "1.prems" by auto
  show ?case
  proof (cases "p < fromIndex c")
    case True
    have "fromIndex c < to"
    proof -
      obtain d where d: "d \<in> set (c # cs)" "fromIndex d < to" using wit by blast
      have "fromIndex c \<le> fromIndex d"
      proof (cases "d = c")
        case False
        then have "in_slices cs (fromIndex d)"
          using d chain_pos[OF chain, of d] by (auto simp: in_slices_def list_ex_iff within_def)
        then show ?thesis using chain_ge[of "toIndex c" cs "fromIndex d"] chain by auto
      qed simp
      then show ?thesis using d by simp
    qed
    then show ?thesis using True p "1.prems" by (auto simp: within_def)
  next
    case False
    then show ?thesis using "1.IH"[OF chain] wit "1.prems" by simp
  qed
qed (auto simp: within_def)

lemma chunk_position_to:
  "chunk_position pos k cs = Inr q \<Longrightarrow> k < pos \<Longrightarrow> \<exists>c \<in> set cs. fromIndex c < q \<and> q \<le> toIndex c"
proof (induction cs arbitrary: k)
  case (Cons c cs)
  show ?case
  proof (cases "pos \<le> k + (toIndex c - fromIndex c)")
    case True
    then show ?thesis using Cons.prems by (simp add: Let_def)
  next
    case False
    then show ?thesis using Cons.IH[of "k + (toIndex c - fromIndex c)"] Cons.prems by (auto simp: Let_def)
  qed
qed simp

lemma chunk_position_ge:
  "chunk_position pos k cs = Inr q \<Longrightarrow> chunks_chain lo cs \<Longrightarrow> fromIndex (hd cs) \<le> q"
proof (induction cs arbitrary: k)
  case (Cons c cs)
  show ?case
  proof (cases "k \<le> pos \<and> pos \<le> k + (toIndex c - fromIndex c)")
    case False
    then have "chunk_position pos (k + (toIndex c - fromIndex c)) cs = Inr q"
      using Cons.prems by (auto simp: Let_def split: if_splits)
    then have "toIndex c < q" using chunk_position_range[of _ _ cs q "toIndex c"] Cons.prems by simp
    then show ?thesis using Cons.prems by simp
  qed (use Cons.prems in \<open>auto simp: Let_def\<close>)
qed simp

lemma chunk_position_mono:
  "chunk_position a k cs = Inr p \<Longrightarrow> chunk_position b k cs = Inr q \<Longrightarrow> chunks_chain lo cs \<Longrightarrow> k \<le> a \<Longrightarrow> a \<le> b \<Longrightarrow> p \<le> q"
proof (induction cs arbitrary: k lo)
  case (Cons c cs)
  let ?sz = "toIndex c - fromIndex c"
  have chain: "chunks_chain (toIndex c) cs" using Cons.prems by simp
  consider "b \<le> k + ?sz" | "a \<le> k + ?sz" "k + ?sz < b" | "k + ?sz < a" by linarith
  then show ?case
  proof cases
    case 2
    then have "chunk_position b (k + ?sz) cs = Inr q" "p = a - k + fromIndex c"
      using Cons.prems by (auto simp: Let_def)
    then show ?thesis using chunk_position_range[OF _ chain] 2 by fastforce
  next
    case 3
    then show ?thesis using Cons.IH[OF _ _ chain, of "k + ?sz"] Cons.prems by (auto simp: Let_def)
  qed (use Cons.prems in \<open>auto simp: Let_def\<close>)
qed simp

lemma chunk_position_total:
  "chunks_chain lo cs \<Longrightarrow> cs \<noteq> [] \<Longrightarrow> k \<le> pos \<Longrightarrow>
   pos \<le> k + sum_list (map (\<lambda>c. toIndex c - fromIndex c) cs) \<Longrightarrow> is_ok (chunk_position pos k cs)"
proof (induction cs arbitrary: k lo)
  case (Cons c cs)
  let ?sz = "toIndex c - fromIndex c"
  show ?case
  proof (cases "pos \<le> k + ?sz")
    case False
    then have "cs \<noteq> []" using Cons.prems by auto
    then show ?thesis using Cons.IH[of "toIndex c" "k + ?sz"] Cons.prems False by (simp add: Let_def)
  qed (use Cons.prems in \<open>simp add: Let_def\<close>)
qed simp

lemma chunks_length:
  "chunks_chain lo cs \<Longrightarrow> 0 \<le> lo \<Longrightarrow> last_to lo cs \<le> int (length input) \<Longrightarrow>
     int (length (concat (map (chunk_bytes input) cs))) = sum_list (map (\<lambda>c. toIndex c - fromIndex c) cs)"
proof (induction cs arbitrary: lo)
  case (Cons c cs)
  have "toIndex c \<le> last_to (toIndex c) cs" using Cons.prems(1) by (intro last_to_ge) simp
  then have "chunk_bytes input c = map (\<lambda>p. input ! nat p) [fromIndex c..toIndex c - 1]"
    using Cons.prems by (intro chunk_bytes_upto) auto
  then show ?case using Cons.IH[of "toIndex c"] Cons.prems by simp
qed simp

lemma reveal_chunked:
  assumes chain: "chunks_chain 0 cs" "last_to 0 cs \<le> int (length input)"
    and ab: "0 \<le> a" "a < b" and "from": "chunk_position a 0 cs = Inr from" and to: "chunk_position b 0 cs = Inr to"
  shows "bytes_without input from to (chunk_gaps from to cs)
         = js_slice (concat (map (chunk_bytes input) cs)) a b"
proof -
  let ?P = "in_slices cs" and ?hi = "last_to 0 cs"
  let ?seg = "\<lambda>i j. filter ?P [i..j - 1]"
  have cs: "cs \<noteq> []" using "from" by (cases cs) auto
  have rng: "0 < from" "from \<le> to" "to \<le> ?hi"
    using chunk_position_range[OF "from" chain(1)] chunk_position_range[OF to chain(1)]
      chunk_position_mono[OF "from" to chain(1)] ab by auto
  have "filter (\<lambda>p. \<not> in_slices (chunk_gaps from to cs) p) [from..to - 1] = ?seg from to"
  proof (rule filter_cong)
    fix p assume "p \<in> set [from..to - 1]"
    then have p: "from \<le> p" "p < to" by auto
    have "fromIndex (hd cs) \<le> p" using chunk_position_ge[OF "from" chain(1)] p by simp
    moreover have "\<exists>c \<in> set cs. fromIndex c < to \<and> to \<le> toIndex c"
      using chunk_position_to[OF to] ab by simp
    ultimately show "(\<not> in_slices (chunk_gaps from to cs) p) = in_slices cs p"
      using chunk_gaps_cover[OF chain(1) cs _ p] chunk_gaps_outside[OF chain(1)] by blast
  qed simp
  then have lhs: "bytes_without input from to (chunk_gaps from to cs) = map (\<lambda>p. input ! nat p) (?seg from to)"
    by (simp add: bytes_without_def)
  have la: "length (?seg 0 from) = nat a" and lb: "length (?seg 0 to) = nat b"
    using chunk_position_count[OF "from" chain(1)] chunk_position_count[OF to chain(1)] ab by simp_all
  have s1: "?seg 0 to = ?seg 0 from @ ?seg from to"
    using upto_append[of 0 "from" to] rng by (metis filter_append less_le)
  have s2: "?seg 0 ?hi = ?seg 0 to @ ?seg to ?hi"
    using upto_append[of 0 to ?hi] rng by (metis filter_append less_le order_trans)
  have "length (?seg from to) = nat b - nat a" using s1 la lb by simp
  then have "?seg from to = take (nat b - nat a) (drop (nat a) (?seg 0 ?hi))"
    using s1 s2 la by simp
  then show ?thesis
    using lhs body_positions[OF chain(1) _ chain(2)] ab
    by (simp add: js_slices take_map drop_map)
qed

subsection \<open>Templates and redacted text\<close>

definition char_or_end :: "bytes \<Rightarrow> nat \<Rightarrow> int" where
  "char_or_end s i = (if i < length s then uint (s ! i) else -1)"

text \<open>
  The indices \<open>ts\<close> and \<open>rs\<close> of the source start at -1 and are read after an increment; here they
  are the next index to be read, that is one more.
\<close>

function skip_until_close :: "bytes \<Rightarrow> nat \<Rightarrow> int \<times> nat" where
  "skip_until_close t ts =
     (let ct = char_or_end t ts in
      if ct \<noteq> 125 \<and> ct \<noteq> -1 then skip_until_close t (ts + 1) else (ct, ts + 1))"
  by pat_completeness auto
termination
  by (relation "measure (\<lambda>(t, ts). length t - ts)") (auto simp: char_or_end_def split: if_splits)

function skip_redacted :: "bytes \<Rightarrow> nat \<Rightarrow> int \<times> nat" where
  "skip_redacted r rs =
     (let cr = char_or_end r rs in
      if cr = 42 then skip_redacted r (rs + 1) else (cr, rs + 1))"
  by pat_completeness auto
termination
  by (relation "measure (\<lambda>(r, rs). length r - rs)") (auto simp: char_or_end_def split: if_splits)

declare skip_until_close.simps [simp del] skip_redacted.simps [simp del]

lemma skip_until_close_ge: "skip_until_close t ts = (ct, ts') \<Longrightarrow> ts < ts'"
  by (induction t ts arbitrary: ct ts' rule: skip_until_close.induct)
    (subst (asm) (2) skip_until_close.simps, fastforce simp: Let_def split: if_splits)

function match_loop :: "bytes \<Rightarrow> bytes \<Rightarrow> nat \<Rightarrow> nat \<Rightarrow> bool" where
  "match_loop t r ts rs =
     (if ts \<le> length t \<and> rs \<le> length r then
        (let ct = char_or_end t ts; cr = char_or_end r rs in
         if ct = cr then match_loop t r (ts + 1) (rs + 1)
         else if ct = 123 \<and> cr = 42 then
           (if char_or_end t (ts + 1) \<noteq> 123 then False
            else
              (let (_, ts1) = skip_until_close t (ts + 2);
                   (ct2, ts2) = skip_until_close t ts1;
                   (cr2, rs2) = skip_redacted r (rs + 1)
               in if ct2 = -1 then False
                  else if cr2 = -1 then char_or_end t ts2 = -1
                  else match_loop t r ts2 (rs2 - 1)))
         else False)
      else ts = length t + 1 \<and> rs = length r + 1)"
  by pat_completeness auto
termination
  by (relation "measure (\<lambda>(t, r, ts, rs). length t + 1 - ts)")
    (auto dest!: skip_until_close_ge[OF sym])

declare match_loop.simps [simp del]

definition matchRedactedStrings :: "bytes \<Rightarrow> bytes option \<Rightarrow> bool" where
  "matchRedactedStrings templateString redactedString =
     (if templateString = [] \<and> redactedString = Some [] then True
      else
        (case redactedString of
           None \<Rightarrow> False
         | Some r \<Rightarrow> match_loop templateString r 0 0))"

text \<open>The same on lists.\<close>

fun after_close :: "bytes \<Rightarrow> bytes option" where
  "after_close [] = None"
| "after_close (c # cs) = (if c = 125 then Some cs else after_close cs)"

lemma after_close_Some: "after_close t = Some u \<longleftrightarrow> (\<exists>a. t = a @ 125 # u \<and> 125 \<notin> set a)"
proof (induction t)
  case (Cons c t)
  show ?case
  proof (cases "c = 125")
    case True
    then show ?thesis by (auto simp: Cons_eq_append_conv)
  next
    case False
    then show ?thesis using Cons by (auto simp: Cons_eq_append_conv)
  qed
qed simp

lemma after_close_shorter: "after_close t = Some u \<Longrightarrow> length u < length t"
  by (auto simp: after_close_Some)

function match_spec :: "bytes \<Rightarrow> bytes \<Rightarrow> bool" where
  "match_spec [] r \<longleftrightarrow> r = []"
| "match_spec (c # t) r \<longleftrightarrow>
     (case r of
        [] \<Rightarrow> False
      | d # r' \<Rightarrow>
          if c = d then match_spec t r'
          else if c = 123 \<and> d = 42 \<and> t \<noteq> [] \<and> hd t = 123 then
            (case Option.bind (after_close (tl t)) after_close of
               None \<Rightarrow> False
             | Some w \<Rightarrow> match_spec w (dropWhile (\<lambda>x. x = 42) r'))
          else False)"
  by pat_completeness auto
termination
  by (relation "measure (\<lambda>(t, r). length t)")
    (auto simp: bind_eq_Some_conv dest!: after_close_shorter)

lemma uint_char: "uint (c :: byte) \<noteq> -1" "uint c = 42 \<longleftrightarrow> c = 42" "uint c = 123 \<longleftrightarrow> c = 123"
  "uint c = 125 \<longleftrightarrow> c = 125" "uint c = uint d \<longleftrightarrow> c = d"
proof -
  show "uint c \<noteq> -1" using uint_ge_0[of c] by linarith
  have k: "uint c = n \<longleftrightarrow> c = word_of_int n" if "0 \<le> n" "n < 256" for n
  proof -
    have "uint (word_of_int n :: byte) = n" using that by (simp add: unsigned_of_int take_bit_int_eq_self)
    then show ?thesis by (metis word_of_int_uint)
  qed
  show "uint c = 42 \<longleftrightarrow> c = 42" "uint c = 123 \<longleftrightarrow> c = 123" "uint c = 125 \<longleftrightarrow> c = 125"
    using k[of 42] k[of 123] k[of 125] by simp_all
qed (simp add: word_uint_eq_iff)

lemma char_or_end_drop:
  "char_or_end s i = (case drop i s of [] \<Rightarrow> -1 | c # _ \<Rightarrow> uint c)"
  by (cases "i < length s") (simp_all add: char_or_end_def Cons_nth_drop_Suc[symmetric])

lemma skip_until_close_spec:
  "skip_until_close t ts =
     (case after_close (drop ts t) of
        None \<Rightarrow> (-1, Suc (max ts (length t)))
      | Some u \<Rightarrow> (125, length t - length u)) "
proof (induction t ts rule: skip_until_close.induct)
  case (1 t ts)
  show ?case
  proof (cases "ts < length t")
    case False
    then show ?thesis by (subst skip_until_close.simps) (simp add: char_or_end_def Let_def)
  next
    case True
    then have d: "drop ts t = t ! ts # drop (Suc ts) t" by (simp add: Cons_nth_drop_Suc)
    show ?thesis
    proof (cases "t ! ts = 125")
      case c: True
      then show ?thesis using True
        by (subst skip_until_close.simps) (simp add: char_or_end_def Let_def d)
    next
      case c: False
      then have "skip_until_close t ts = skip_until_close t (ts + 1)" using True
        by (subst skip_until_close.simps) (simp add: char_or_end_def Let_def uint_char)
      then show ?thesis using 1 c True by (simp add: char_or_end_def d uint_char max_def split: option.splits)
    qed
  qed
qed

lemma skip_redacted_spec:
  "skip_redacted r rs =
     (case dropWhile (\<lambda>x. x = 42) (drop rs r) of
        [] \<Rightarrow> (-1, Suc (max rs (length r)))
      | c # u \<Rightarrow> (uint c, length r - length u))"
proof (induction r rs rule: skip_redacted.induct)
  case (1 r rs)
  show ?case
  proof (cases "rs < length r")
    case False
    then show ?thesis by (subst skip_redacted.simps) (simp add: char_or_end_def Let_def)
  next
    case True
    then have d: "drop rs r = r ! rs # drop (Suc rs) r" by (simp add: Cons_nth_drop_Suc)
    show ?thesis
    proof (cases "r ! rs = 42")
      case c: False
      then show ?thesis using True
        by (subst skip_redacted.simps) (simp add: char_or_end_def Let_def d uint_char)
    next
      case c: True
      then have "skip_redacted r rs = skip_redacted r (rs + 1)" using True
        by (subst skip_redacted.simps) (simp add: char_or_end_def Let_def)
      then show ?thesis using 1 c True
        by (cases "dropWhile (\<lambda>x. x = 42) (drop (Suc rs) r)")
          (simp_all add: char_or_end_def d max_def del: dropWhile_eq_Nil_conv)
    qed
  qed
qed

lemma drop_suffix: "t = a @ u \<Longrightarrow> drop (length t - length u) t = u"
  by simp

lemma after_close_drop: "after_close (drop i t) = Some u \<Longrightarrow> drop (length t - length u) t = u"
proof -
  assume "after_close (drop i t) = Some u"
  then obtain a where "drop i t = a @ 125 # u" by (auto simp: after_close_Some)
  then have "t = (take i t @ a @ [125]) @ u" by (metis append.assoc append_Cons append_Nil append_take_drop_id)
  then show ?thesis by (rule drop_suffix)
qed

lemma dropWhile_drop: "dropWhile P (drop i r) = u \<Longrightarrow> drop (length r - length u) r = u"
proof -
  assume "dropWhile P (drop i r) = u"
  then have "r = (take i r @ takeWhile P (drop i r)) @ u"
    by (metis append.assoc append_take_drop_id takeWhile_dropWhile_id)
  then show ?thesis by (rule drop_suffix)
qed

lemma match_loop_end:
  "ts \<le> length t \<Longrightarrow> rs \<le> length r \<Longrightarrow> drop ts t = [] \<or> drop rs r = [] \<Longrightarrow>
     match_loop t r ts rs \<longleftrightarrow> drop ts t = [] \<and> drop rs r = []"
  by (subst match_loop.simps, subst match_loop.simps)
    (auto simp: char_or_end_def uint_char Let_def split: prod.splits)

lemma match_loop_spec:
  "ts \<le> length t \<Longrightarrow> rs \<le> length r \<Longrightarrow> match_loop t r ts rs = match_spec (drop ts t) (drop rs r)"
proof (induction t r ts rs rule: match_loop.induct)
  case (1 t r ts rs)
  show ?case
  proof (cases "drop ts t = [] \<or> drop rs r = []")
    case True
    have "match_spec (drop ts t) (drop rs r) \<longleftrightarrow> drop ts t = [] \<and> drop rs r = []"
      using True by (cases "drop ts t") auto
    then show ?thesis using match_loop_end[OF "1.prems" True] by simp
  next
    case False
    then have lt: "ts < length t" "rs < length r" using "1.prems" by auto
    then have d: "drop ts t = t ! ts # drop (Suc ts) t" "drop rs r = r ! rs # drop (Suc rs) r"
      by (simp_all add: Cons_nth_drop_Suc)
    have ch: "char_or_end t ts = uint (t ! ts)" "char_or_end r rs = uint (r ! rs)"
      using lt by (simp_all add: char_or_end_def)
    show ?thesis
    proof (cases "t ! ts = r ! rs")
      case True
      then have "match_loop t r ts rs = match_loop t r (ts + 1) (rs + 1)"
        using lt by (subst match_loop.simps) (simp add: ch)
      then show ?thesis using "1.IH"(1) lt True ch d by simp
    next
      case ne: False
      show ?thesis
      proof (cases "t ! ts = 123 \<and> r ! rs = 42 \<and> char_or_end t (ts + 1) = 123")
        case False
        then have "\<not> match_loop t r ts rs"
          using lt ne by (subst match_loop.simps) (auto simp: ch uint_char)
        moreover have "drop (Suc ts) t = [] \<or> hd (drop (Suc ts) t) \<noteq> 123 \<or> \<not> (t ! ts = 123 \<and> r ! rs = 42)"
          using False by (auto simp: char_or_end_drop uint_char split: list.splits)
        ultimately show ?thesis using ne d by auto
      next
        case open2: True
        then obtain t2 where t2: "drop (Suc ts) t = 123 # t2"
          by (auto simp: char_or_end_drop uint_char split: list.splits)
        then have t2': "drop (ts + 2) t = t2" by (metis add_2_eq_Suc' drop_Suc drop_drop list.sel(3) plus_1_eq_Suc tl_drop)
        obtain ct1 ts1 where s1: "skip_until_close t (ts + 2) = (ct1, ts1)" by fastforce
        obtain ct2 ts2 where s2: "skip_until_close t ts1 = (ct2, ts2)" by fastforce
        obtain cr2 rs2 where s3: "skip_redacted r (rs + 1) = (cr2, rs2)" by fastforce
        have step: "match_loop t r ts rs \<longleftrightarrow>
            (if ct2 = -1 then False else if cr2 = -1 then char_or_end t ts2 = -1 else match_loop t r ts2 (rs2 - 1))"
          using lt ne open2 s1 s2 s3 by (subst match_loop.simps) (simp add: ch uint_char)
        show ?thesis
        proof (cases "Option.bind (after_close t2) after_close")
          case None
          have "ct2 = -1"
          proof (cases "after_close t2")
            case None
            then have "ts1 > length t" using s1 t2' by (simp add: skip_until_close_spec) linarith
            then show ?thesis using s2 by (simp add: skip_until_close_spec)
          next
            case (Some u)
            then have "drop ts1 t = u"
              using s1 t2' after_close_drop[of "ts + 2" t u] by (simp add: skip_until_close_spec)
            then show ?thesis using s2 None Some by (simp add: skip_until_close_spec)
          qed
          then show ?thesis using step None t2 open2 d by simp
        next
          case (Some w)
          then obtain u where u: "after_close t2 = Some u" "after_close u = Some w"
            by (auto simp: bind_eq_Some_conv)
          have "drop ts1 t = u"
            using s1 t2' u(1) after_close_drop[of "ts + 2" t u] by (simp add: skip_until_close_spec)
          then have ts2: "ct2 = 125" "ts2 = length t - length w" "drop ts2 t = w"
            using s2 u(2) after_close_drop[of ts1 t w] by (simp_all add: skip_until_close_spec)
          let ?u = "dropWhile (\<lambda>x. x = 42) (drop (Suc rs) r)"
          have spec: "match_spec (drop ts t) (drop rs r) = match_spec w ?u"
            using ne open2 t2 d Some by simp
          show ?thesis
          proof (cases ?u)
            case Nil
            then have "cr2 = -1" using s3 by (simp add: skip_redacted_spec del: dropWhile_eq_Nil_conv)
            moreover have "match_spec w [] \<longleftrightarrow> w = []" by (cases w) simp_all
            ultimately show ?thesis using step ts2 spec Nil
              by (simp add: char_or_end_drop uint_char del: dropWhile_eq_Nil_conv split: list.split)
          next
            case (Cons c v)
            then have cr2: "cr2 = uint c" "rs2 = length r - length v"
              using s3 by (simp_all add: skip_redacted_spec)
            have dv: "drop (length r - length ?u) r = ?u" by (rule dropWhile_drop[OF refl])
            have "length ?u \<le> length r" by (metis diff_le_self le_trans length_drop length_dropWhile_le)
            then have "drop (rs2 - 1) r = ?u" "rs2 - 1 \<le> length r" using dv Cons cr2 by simp_all
            moreover have "ts2 \<le> length t" using ts2 by simp
            ultimately show ?thesis
              using step ts2 spec cr2 "1.IH"(2) lt ne open2 s1 s2 s3 by (simp add: ch uint_char)
          qed
        qed
      qed
    qed
  qed
qed

lemma matchRedactedStrings_spec:
  "matchRedactedStrings t (Some r) \<longleftrightarrow> match_spec t r" "\<not> matchRedactedStrings t None"
  by (auto simp: matchRedactedStrings_def match_loop_spec)

text \<open>
  What a match promises: the redacted text is the template with every placeholder
  \<open>{{...}}\<close> replaced by a run of stars.
\<close>

inductive fills :: "bytes \<Rightarrow> bytes \<Rightarrow> bool" where
  nothing: "fills [] []"
| literal: "fills t r \<Longrightarrow> fills (c # t) (c # r)"
| placeholder: "fills t r \<Longrightarrow> 125 \<notin> set a \<Longrightarrow> 125 \<notin> set b \<Longrightarrow> 0 < n \<Longrightarrow>
     fills (123 # 123 # a @ 125 # b @ 125 # t) (replicate n 42 @ r)"

inductive_cases fills_NilE: "fills [] r"
inductive_cases fills_ConsE: "fills (c # t) r"

lemma match_spec_fills: "match_spec t r \<Longrightarrow> fills t r"
proof (induction t r rule: match_spec.induct)
  case (1 r)
  then show ?case by (simp add: fills.nothing)
next
  case (2 c t r)
  then obtain d r' where r: "r = d # r'" by (cases r) auto
  show ?case
  proof (cases "c = d")
    case True
    then show ?thesis using 2 r by (simp add: fills.literal)
  next
    case False
    then have cd: "c = 123" "d = 42" "t \<noteq> []" "hd t = 123" using "2.prems" r by (auto split: if_splits)
    then obtain u w where u: "after_close (tl t) = Some u" "after_close u = Some w"
      using "2.prems" r False by (auto split: bind_splits option.splits)
    let ?v = "dropWhile (\<lambda>x. x = 42) r'"
    have "match_spec w ?v" using "2.prems" r False cd u by simp
    then have "fills w ?v" using "2.IH"(2)[OF r False] cd u by simp
    moreover obtain a where a: "tl t = a @ 125 # u" "125 \<notin> set a" using u(1) by (auto simp: after_close_Some)
    moreover obtain b where b: "u = b @ 125 # w" "125 \<notin> set b" using u(2) by (auto simp: after_close_Some)
    ultimately have f: "fills (123 # 123 # a @ 125 # b @ 125 # w)
        (replicate (Suc (length (takeWhile (\<lambda>x. x = 42) r'))) 42 @ ?v)"
      by (intro fills.placeholder) simp_all
    have "r' = takeWhile (\<lambda>x. x = 42) r' @ ?v" by simp
    also have "takeWhile (\<lambda>x. x = 42) r' = replicate (length (takeWhile (\<lambda>x. x = 42) r')) 42"
      by (rule replicate_length_same[symmetric]) (auto dest: set_takeWhileD)
    finally have "r = replicate (Suc (length (takeWhile (\<lambda>x. x = 42) r'))) 42 @ ?v" using r cd by simp
    moreover have "c # t = 123 # 123 # a @ 125 # b @ 125 # w" using a b cd by (cases t) auto
    ultimately show ?thesis using f by simp
  qed
qed

lemma match_spec_refl: "match_spec t t"
  by (induction t) simp_all

lemma match_spec_literal: "123 \<notin> set t \<or> 42 \<notin> set r \<Longrightarrow> match_spec t r \<longleftrightarrow> t = r"
proof (induction t r rule: match_spec.induct)
  case (2 c t r)
  then show ?case by (cases r) (auto split: if_splits)
qed auto

subsection \<open>Request and response of the client's transcript\<close>

definition generateRequstAndResponseFromTranscript ::
  "tls_pkg \<Rightarrow> CompleteTLSPacket Transcript \<Rightarrow> TLSProtocolVersion option \<Rightarrow> js_error + HttpRequest \<times> HttpResponse"
where
  "generateRequstAndResponseFromTranscript L transcript tlsVersion =
     (let packets = map (\<lambda>(s, m). (s, if tlsVersion = Some TLS1_3 then js_slice (pkt_plaintext m) 0 (-1)
                                       else pkt_plaintext m))
                      (filter (\<lambda>(s, m). \<not> (pkt_type m \<noteq> CiphertextPacket \<or> \<not> isApplicationData L m tlsVersion))
                         transcript)
      in bindR (getHttpRequestDataFromTranscript L packets) (\<lambda>req.
         bindR (parseHttpResponse L (concatenateUint8Arrays L
                  (filter (\<lambda>b. \<not> isFullyRedacted b) (map snd (filter (\<lambda>p. fst p = Server) packets))))) (\<lambda>r.
         Inr (req, r))))"

subsection \<open>Properties\<close>

text \<open>C31: A reveal covers exactly the element it is for. When positions \<open>a\<close> and \<open>b\<close> of the body are
  converted to positions of the response, the bytes between them, less the redacted chunk headers,
  are the bytes from \<open>a\<close> to \<open>b\<close> of the body; with chunks the conversion cannot fail inside the
  body.\<close>

theorem reveal_is_the_element:
  assumes "response_body_spec input r" and "0 \<le> a" and "a < b" and "b \<le> int (length (body r))"
    and "bodyStartIndex r = Some start \<or> chunks r \<noteq> None"
  shows "\<exists>from to. convertResponsePosToAbsolutePos a start (chunks r) = Inr from
     \<and> convertResponsePosToAbsolutePos b start (chunks r) = Inr to
     \<and> bytes_without input from to (getRedactionsForChunkHeaders from to (chunks r)) = js_slice (body r) a b"
proof (cases "chunks r")
  case None
  then have start: "bodyStartIndex r = Some start" using assms(5) by simp
  then have b: "0 < start" "start \<le> int (length input)" "body r = drop (nat start) input"
    using assms(1) None by (auto simp: response_body_spec_def)
  have "bytes_without input (start + a) (start + b) [] = js_slice (body r) a b"
    using assms(2-4) b
    by (intro nth_equalityI) (auto simp: bytes_without_def js_slices nat_add_distrib ac_simps)
  then show ?thesis using None
    by (simp add: convertResponsePosToAbsolutePos_def getRedactionsForChunkHeaders_def)
next
  case (Some cs)
  then have spec: "body r = concat (map (chunk_bytes input) cs)" "chunks_chain 0 cs"
    "last_to 0 cs \<le> int (length input)" using assms(1) by (auto simp: response_body_spec_def)
  have "cs \<noteq> []" using spec assms(2-4) by auto
  moreover have "int (length (body r)) = sum_list (map (\<lambda>c. toIndex c - fromIndex c) cs)"
    using chunks_length[OF spec(2) _ spec(3)] spec(1) by simp
  ultimately have "is_ok (chunk_position a 0 cs)" "is_ok (chunk_position b 0 cs)"
    using chunk_position_total[OF spec(2)] assms(2-4) by simp_all
  then obtain x y where xy: "chunk_position a 0 cs = Inr x" "chunk_position b 0 cs = Inr y"
    by (auto simp: is_ok_def split: sum.splits)
  have "bytes_without input x y (chunk_gaps x y cs) = js_slice (body r) a b"
    using reveal_chunked[OF spec(2,3) assms(2,3) xy] spec(1) by simp
  then show ?thesis using Some xy \<open>cs \<noteq> []\<close>
    by (cases cs) (simp_all add: convertResponsePosToAbsolutePos_def getRedactionsForChunkHeaders_def)
qed

text \<open>A response whose body \<open>abcd\<close> comes in two chunks.\<close>

definition chunked_input :: bytes where
  "chunked_input = ascii ''..'' @ ascii ''2'' @ CRLF @ [97, 98] @ CRLF @ ascii ''2'' @ CRLF @ [99, 100] @ CRLF"

definition chunked_response :: HttpResponse where
  "chunked_response = (HttpResponse.make (Num 200) None Map.empty [97, 98, 99, 100] True True (Some 0) (Some 5)
     (Some [\<lparr>fromIndex = 5, toIndex = 7\<rparr>, \<lparr>fromIndex = 12, toIndex = 14\<rparr>]) Map.empty 0)"

theorem reveal_is_the_element_witness:
  "convertResponsePosToAbsolutePos 1 5 (chunks chunked_response) = Inr 6
   \<and> convertResponsePosToAbsolutePos 3 5 (chunks chunked_response) = Inr 13
   \<and> bytes_without chunked_input 6 13 (getRedactionsForChunkHeaders 6 13 (chunks chunked_response)) = [98, 99]"
proof -
  have spec: "response_body_spec chunked_input chunked_response"
    by (simp add: response_body_spec_def chunked_response_def chunked_input_def HttpResponse.defs chunk_bytes_def
        ascii_def js_slices last_to_def)
  have "body chunked_response = [97, 98, 99, 100]" "chunks chunked_response =
      Some [\<lparr>fromIndex = 5, toIndex = 7\<rparr>, \<lparr>fromIndex = 12, toIndex = 14\<rparr>]"
    by (simp_all add: chunked_response_def HttpResponse.defs)
  then show ?thesis using reveal_is_the_element[OF spec, of 1 3 5]
    by (auto simp: convertResponsePosToAbsolutePos_def Let_def js_slices)
qed

text \<open>\<open>matchRedactedStrings\<close> accepts a redacted text only when it is the template with every
  placeholder replaced by a non-empty run of stars, and every other byte equal.\<close>

theorem template_match_sound:
  assumes "matchRedactedStrings templateString (Some redactedString)"
  shows "fills templateString redactedString"
  using assms by (simp add: matchRedactedStrings_spec match_spec_fills)

theorem template_match_sound_witness: "fills (ascii ''a={{b}}&c'') (ascii ''a=***&c'')"
proof (rule template_match_sound)
  show "matchRedactedStrings (ascii ''a={{b}}&c'') (Some (ascii ''a=***&c''))"
    by (simp add: matchRedactedStrings_spec ascii_def)
qed

text \<open>Without a placeholder in the template, or without a star in the text, a match is equality;
  a text that was not sent matches nothing.\<close>

theorem template_match_literal:
  assumes "123 \<notin> set templateString \<or> (\<forall>r. redactedString = Some r \<longrightarrow> 42 \<notin> set r)"
  shows "matchRedactedStrings templateString redactedString \<longleftrightarrow> redactedString = Some templateString"
  using assms match_spec_literal by (cases redactedString) (auto simp: matchRedactedStrings_spec)

theorem template_match_literal_witness:
  "\<not> matchRedactedStrings (ascii ''/login'') (Some (ascii ''/log**''))"
  using template_match_literal[of "ascii ''/login''" "Some (ascii ''/log**'')"] by (simp add: ascii_def)

text \<open>Two placeholders in a row match no text, whatever was redacted: the first one takes all
  the stars.\<close>

theorem adjacent_placeholders_never_match:
  "\<not> matchRedactedStrings (ascii ''{{a}}{{b}}'') (Some (replicate n 42))"
proof (cases n)
  case (Suc m)
  have "dropWhile (\<lambda>x. x = 42) (replicate m (42 :: byte)) = []" by simp
  then show ?thesis using Suc by (simp add: matchRedactedStrings_spec ascii_def)
qed (simp add: matchRedactedStrings_spec ascii_def)

text \<open>\<open>traverse\<close> finds the first node of the text, in the order of the source, whose built path is
  one of the pointers.\<close>

theorem traverse_finds_first:
  "traverse e path pointers = first_match pointers (paths e path)"
  by (rule traverse_first_match)

text \<open>A key that contains a slash is taken for a nested path: for the pointer \<open>/a/b\<close> the range of
  the member \<open>a/b\<close> is returned, not that of \<open>b\<close> inside \<open>a\<close>.\<close>

theorem slash_in_key_confuses_traverse:
  "traverse
     (ObjectExpression (Some (1, 24))
        [Property (Some (js ''a/b'')) (OtherExpression (Some (8, 9))) (Some (2, 9)),
         Property (Some (js ''a''))
           (ObjectExpression (Some (15, 22))
              [Property (Some (js ''b'')) (OtherExpression (Some (20, 21))) (Some (16, 21))])
           (Some (11, 22))])
     [] [js ''/a/b''] = Some (2, 9)"
  by (simp add: local_path_def js_def Let_def)

end
