(* ===== verification/Http_Templates.thy ===== *)
theory Http_Templates
  imports Http_Utils
begin

text \<open>
  Parameter substitution in the HTTP provider (\<open>src/providers/http/index.ts\<close>):
  \<open>substituteParamValues\<close> with its inner \<open>extractAndReplaceTemplateValues\<close>, \<open>getURL\<close> and
  \<open>getGeoLocation\<close>. The parameter types are those of \<open>src/types/providers.gen.ts\<close>.

  An object used as a dictionary is an association list in insertion order; keys that every
  object inherits (\<open>toString\<close> and its like) are not among the parameter names. \<open>new URL\<close> is an
  argument.
\<close>

subsection \<open>Parameters\<close>

type_synonym dict = "(jsstring \<times> jsstring) list"

text \<open>Assigning a member keeps the place of an existing key.\<close>

fun obj_set :: "jsstring \<Rightarrow> 'v \<Rightarrow> (jsstring \<times> 'v) list \<Rightarrow> (jsstring \<times> 'v) list" where
  "obj_set k v [] = [(k, v)]"
| "obj_set k v ((k', v') # kvs) = (if k = k' then (k, v) # kvs else (k', v') # obj_set k v kvs)"

lemma map_of_obj_set [simp]: "map_of (obj_set k v kvs) = (map_of kvs)(k \<mapsto> v)"
  by (induction kvs) auto

definition dict_get :: "dict option \<Rightarrow> jsstring \<Rightarrow> jsstring option" where
  "dict_get d k = (case d of None \<Rightarrow> None | Some kvs \<Rightarrow> map_of kvs k)"

datatype http_body = BodyString jsstring | BodyBytes bytes

record response_match =
  rm_value :: jsstring
  rm_type :: jsstring
  rm_invert :: bool

record response_redaction =
  rr_xPath :: "jsstring option"
  rr_jsonPath :: "jsstring option"
  rr_regex :: "jsstring option"
  rr_hash :: bool

record HttpProviderParameters =
  hp_url :: jsstring
  hp_method :: jsstring
  hp_geoLocation :: "jsstring option"
  hp_headers :: "dict option"
  hp_body :: "http_body option"
  hp_writeRedactionMode :: "jsstring option"
  hp_additionalClientOptions :: "(jsstring \<times> jsstring list) list option"
  hp_responseMatches :: "response_match list option"
  hp_responseRedactions :: "response_redaction list option"
  hp_paramValues :: "dict option"

record HttpProviderSecretParameters =
  sp_cookieStr :: "jsstring option"
  sp_authorisationHeader :: "jsstring option"
  sp_headers :: "dict option"
  sp_paramValues :: "dict option"

text \<open>A string that is \<open>undefined\<close> or empty is falsy.\<close>

definition truthy_str :: "jsstring option \<Rightarrow> bool" where
  "truthy_str s \<longleftrightarrow> s \<noteq> None \<and> s \<noteq> Some []"

lemma truthy_str_simps [simp]: "\<not> truthy_str None" "truthy_str (Some s) \<longleftrightarrow> s \<noteq> []"
  by (auto simp: truthy_str_def)

definition str_of :: "jsstring option \<Rightarrow> jsstring" where
  "str_of s = (case s of None \<Rightarrow> [] | Some x \<Rightarrow> x)"

record URL =
  url_protocol :: jsstring
  url_hostname :: jsstring
  url_port :: jsstring
  url_host :: jsstring
  url_pathname :: jsstring

type_synonym url_lib = "jsstring \<Rightarrow> URL option"

definition new_URL :: "url_lib \<Rightarrow> jsstring \<Rightarrow> js_error + URL" where
  "new_URL U s = (case U s of None \<Rightarrow> Inl (JsTypeError ''Invalid URL'') | Some u \<Rightarrow> Inr u)"

definition DEFAULT_HTTPS_PORT :: int where
  "DEFAULT_HTTPS_PORT = 443"

definition getHostHeaderString :: "URL \<Rightarrow> jsstring" where
  "getHostHeaderString u =
     (if url_port u \<noteq> [] \<and> js_Number (url_port u) \<noteq> Num DEFAULT_HTTPS_PORT
      then url_hostname u @ js '':'' @ url_port u else url_hostname u)"

subsection \<open>The template pattern\<close>

text \<open>\<open>/{{([^{}]+)}}/\<close> at the start of \<open>s\<close>: the name between the braces.\<close>

definition template_at :: "jsstring \<Rightarrow> jsstring option" where
  "template_at s =
     (let name = takeWhile (\<lambda>c. c \<noteq> 123 \<and> c \<noteq> 125) (drop 2 s) in
      if take 2 s = [123, 123] \<and> name \<noteq> [] \<and> take 2 (drop (2 + length name) s) = [125, 125]
      then Some name else None)"

definition template :: "jsstring \<Rightarrow> jsstring" where
  "template pn = [123, 123] @ pn @ [125, 125]"

lemma template_at_Some:
  assumes "template_at s = Some pn"
  shows "s = template pn @ drop (length pn + 4) s" and "pn \<noteq> []" and "123 \<notin> set pn" and "125 \<notin> set pn"
proof -
  have pn: "pn = takeWhile (\<lambda>c. c \<noteq> 123 \<and> c \<noteq> 125) (drop 2 s)" and s2: "take 2 s = [123, 123]"
    and e2: "take 2 (drop (2 + length pn) s) = [125, 125]" and ne: "pn \<noteq> []"
    using assms by (auto simp: template_at_def Let_def split: if_splits)
  have a: "s = [123, 123] @ drop 2 s" using append_take_drop_id[of 2 s] s2 by simp
  have b: "drop 2 s = pn @ drop (length pn + 2) s"
    using takeWhile_dropWhile_id[of "\<lambda>c. c \<noteq> 123 \<and> c \<noteq> 125" "drop 2 s"]
    by (simp add: pn[symmetric] dropWhile_eq_drop)
  have c: "drop (length pn + 2) s = [125, 125] @ drop (length pn + 4) s"
    using append_take_drop_id[of 2 "drop (length pn + 2) s"] e2 by (simp add: add.commute eval_nat_numeral)
  show "s = template pn @ drop (length pn + 4) s"
    by (subst a, subst b, subst c) (simp add: template_def)
  show "pn \<noteq> []" by (rule ne)
  show "123 \<notin> set pn" "125 \<notin> set pn" using pn by (auto dest: set_takeWhileD)
qed

text \<open>
  \<open>param.replace(paramsRegex, f)\<close>: the matches from left to right, \<open>f\<close> called with the offset of
  the match and its name; \<open>f\<close> updates its closure variables and may throw.
\<close>

function replace_templates ::
  "(nat \<Rightarrow> jsstring \<Rightarrow> 'st \<Rightarrow> js_error + jsstring \<times> 'st) \<Rightarrow> nat \<Rightarrow> jsstring \<Rightarrow> 'st \<Rightarrow> js_error + jsstring \<times> 'st"
where
  "replace_templates f offset s st =
     (case s of
        [] \<Rightarrow> Inr ([], st)
      | c # cs \<Rightarrow>
          (case template_at s of
             None \<Rightarrow> bindR (replace_templates f (offset + 1) cs st) (\<lambda>(out, st'). Inr (c # out, st'))
           | Some pn \<Rightarrow>
               bindR (f offset pn st) (\<lambda>(value, st1).
               bindR (replace_templates f (offset + length pn + 4) (drop (length pn + 4) s) st1)
                 (\<lambda>(out, st'). Inr (value @ out, st')))))"
  by pat_completeness auto
termination
  by (relation "measure (\<lambda>(f, offset, s, st). length s)") auto

declare replace_templates.simps [simp del]

text \<open>The names that \<open>paramsRegex.exec\<close> finds in a loop, in order, each once (a \<open>Set\<close>).\<close>

function template_names :: "jsstring \<Rightarrow> jsstring list" where
  "template_names s =
     (case s of
        [] \<Rightarrow> []
      | c # cs \<Rightarrow>
          (case template_at s of
             None \<Rightarrow> template_names cs
           | Some pn \<Rightarrow> pn # filter (\<lambda>q. q \<noteq> pn) (template_names (drop (length pn + 4) s))))"
  by pat_completeness auto
termination
  by (relation "measure length") auto

declare template_names.simps [simp del]

subsection \<open>extractAndReplaceTemplateValues\<close>

record hidden_part =
  hid_index :: int
  hid_length :: int

record ReplacedParams =
  newParam :: jsstring
  extractedValues :: "jsstring \<rightharpoonup> jsstring"
  hiddenParts :: "hidden_part list"

record replace_vars =
  rv_extracted :: "jsstring \<rightharpoonup> jsstring"
  rv_hidden :: "hidden_part list"
  rv_totalOffset :: int

definition replace_param ::
  "dict option \<Rightarrow> HttpProviderSecretParameters option \<Rightarrow> bool \<Rightarrow> nat \<Rightarrow> jsstring \<Rightarrow> replace_vars
   \<Rightarrow> js_error + jsstring \<times> replace_vars" where
  "replace_param paramValues secretParams ignoreMissingParams offset pn st =
     (let matchLength = int (length (template pn)) in
      case dict_get paramValues pn of
        Some v \<Rightarrow>
          Inr (v, st\<lparr>rv_extracted := (rv_extracted st)(pn \<mapsto> v),
                     rv_totalOffset := rv_totalOffset st + int (length v) - matchLength\<rparr>)
      | None \<Rightarrow>
          (case secretParams of
             Some sp \<Rightarrow>
               (case dict_get (sp_paramValues sp) pn of
                  Some v \<Rightarrow>
                    Inr (v, st\<lparr>rv_hidden := rv_hidden st @
                                 [\<lparr>hid_index = int offset + rv_totalOffset st, hid_length = int (length v)\<rparr>],
                               rv_totalOffset := rv_totalOffset st + int (length v) - matchLength\<rparr>)
                | None \<Rightarrow> Inl (PlainError ''value not found in paramValues and secret parameters paramValues''))
           | None \<Rightarrow>
               (if \<not> ignoreMissingParams then Inl (PlainError ''value not found in paramValues'')
                else Inr (template pn, st))))"

definition extractAndReplaceTemplateValues ::
  "dict option \<Rightarrow> HttpProviderSecretParameters option \<Rightarrow> bool \<Rightarrow> jsstring option
   \<Rightarrow> js_error + ReplacedParams option" where
  "extractAndReplaceTemplateValues paramValues secretParams ignoreMissingParams param =
     (case param of
        None \<Rightarrow> Inr None
      | Some s \<Rightarrow>
          if s = [] then Inr None
          else
            bindR (replace_templates (replace_param paramValues secretParams ignoreMissingParams) 0 s
                     \<lparr>rv_extracted = Map.empty, rv_hidden = [], rv_totalOffset = 0\<rparr>)
              (\<lambda>(out, st). Inr (Some \<lparr>newParam = out, extractedValues = rv_extracted st,
                                     hiddenParts = rv_hidden st\<rparr>)))"

text \<open>The hidden parts are where the secret values are: each range of the result is the value.\<close>

definition part_at :: "jsstring \<Rightarrow> hidden_part \<Rightarrow> jsstring" where
  "part_at s h = js_slice s (hid_index h) (hid_index h + hid_length h)"

text \<open>The result in segments: literal text and public values, and secret values (marked).\<close>

function segments :: "dict option \<Rightarrow> dict option \<Rightarrow> jsstring \<Rightarrow> (jsstring \<times> bool) list" where
  "segments pub sec s =
     (case s of
        [] \<Rightarrow> []
      | c # cs \<Rightarrow>
          (case template_at s of
             None \<Rightarrow> ([c], False) # segments pub sec cs
           | Some pn \<Rightarrow>
               (case dict_get pub pn of
                  Some v \<Rightarrow> (v, False)
                | None \<Rightarrow> (case dict_get sec pn of Some v \<Rightarrow> (v, True) | None \<Rightarrow> (template pn, False)))
               # segments pub sec (drop (length pn + 4) s)))"
  by pat_completeness auto
termination
  by (relation "measure (\<lambda>(pub, sec, s). length s)") auto

declare segments.simps [simp del]

fun secret_positions :: "int \<Rightarrow> (jsstring \<times> bool) list \<Rightarrow> hidden_part list" where
  "secret_positions off [] = []"
| "secret_positions off ((t, secret) # segs) =
     (if secret then [\<lparr>hid_index = off, hid_length = int (length t)\<rparr>] else [])
     @ secret_positions (off + int (length t)) segs"

definition secret_of :: "HttpProviderSecretParameters option \<Rightarrow> dict option" where
  "secret_of sp = (case sp of None \<Rightarrow> None | Some p \<Rightarrow> sp_paramValues p)"

lemma replace_templates_segments:
  "replace_templates (replace_param pub sp ign) offset s st = Inr (out, st') \<Longrightarrow>
     out = concat (map fst (segments pub (secret_of sp) s))
     \<and> rv_hidden st' = rv_hidden st
         @ secret_positions (int offset + rv_totalOffset st) (segments pub (secret_of sp) s)"
proof (induction s arbitrary: offset st out rule: measure_induct_rule[where f = length])
  case (less s)
  show ?case
  proof (cases s)
    case Nil
    then show ?thesis using less.prems by (simp add: replace_templates.simps segments.simps)
  next
    case (Cons c cs)
    show ?thesis
    proof (cases "template_at s")
      case None
      then obtain out1 where o1: "replace_templates (replace_param pub sp ign) (offset + 1) cs st = Inr (out1, st')"
        "out = c # out1"
        using less.prems Cons by (subst (asm) replace_templates.simps) (auto simp: bindR_Inr_iff)
      have "segments pub (secret_of sp) s = ([c], False) # segments pub (secret_of sp) cs"
        using None Cons by (subst segments.simps) simp
      then show ?thesis using less.IH[OF _ o1(1)] o1(2) Cons by (simp add: algebra_simps)
    next
      case (Some pn)
      let ?rest = "drop (length pn + 4) s"
      obtain v st1 out1 where f: "replace_param pub sp ign offset pn st = Inr (v, st1)"
        and o1: "replace_templates (replace_param pub sp ign) (offset + length pn + 4) ?rest st1 = Inr (out1, st')"
          "out = v @ out1"
        using less.prems Some Cons by (subst (asm) replace_templates.simps) (auto simp: bindR_Inr_iff)
      let ?sec = "dict_get pub pn = None \<and> dict_get (secret_of sp) pn \<noteq> None"
      have seg: "segments pub (secret_of sp) s = (v, ?sec) # segments pub (secret_of sp) ?rest"
        using Some Cons f
        by (subst segments.simps)
          (auto simp: replace_param_def Let_def secret_of_def dict_get_def split: option.splits if_splits)
      have off: "int (offset + length pn + 4) + rv_totalOffset st1 = int offset + rv_totalOffset st + int (length v)"
        and hid: "rv_hidden st1 = rv_hidden st @
          (if ?sec then [\<lparr>hid_index = int offset + rv_totalOffset st, hid_length = int (length v)\<rparr>] else [])"
        using f by (auto simp: replace_param_def Let_def template_def secret_of_def dict_get_def
            split: option.splits if_splits)
      have "length ?rest < length s" using Cons by simp
      from less.IH[OF this o1(1)] show ?thesis unfolding off using seg hid o1(2) by simp
    qed
  qed
qed

text \<open>A range of hidden parts holds a secret value.\<close>

lemma secret_positions_value:
  "h \<in> set (secret_positions (int (length pre)) segs) \<Longrightarrow>
     \<exists>t. (t, True) \<in> set segs \<and> part_at (pre @ concat (map fst segs) @ post) h = t"
proof (induction segs arbitrary: pre)
  case (Cons seg segs)
  obtain t b where seg: "seg = (t, b)" by (cases seg)
  have "h = \<lparr>hid_index = int (length pre), hid_length = int (length t)\<rparr> \<and> b
      \<or> h \<in> set (secret_positions (int (length (pre @ t))) segs)"
    using Cons.prems by (simp add: seg split: if_splits)
  then show ?case
  proof
    assume h: "h = \<lparr>hid_index = int (length pre), hid_length = int (length t)\<rparr> \<and> b"
    then have "part_at (pre @ concat (map fst (seg # segs)) @ post) h = t"
      by (simp add: part_at_def js_slices seg nat_add_distrib)
    then show ?thesis using h seg by auto
  next
    assume "h \<in> set (secret_positions (int (length (pre @ t))) segs)"
    from Cons.IH[OF this] show ?thesis using seg by auto
  qed
qed simp

lemma segments_secret:
  "(t, True) \<in> set (segments pub sec s) \<Longrightarrow> \<exists>pn. dict_get sec pn = Some t"
proof (induction s rule: measure_induct_rule[where f = length])
  case (less s)
  show ?case
  proof (cases s)
    case Nil
    then show ?thesis using less.prems by (simp add: segments.simps)
  next
    case (Cons c cs)
    show ?thesis
    proof (cases "template_at s")
      case None
      then have "(t, True) \<in> set (segments pub sec cs)"
        using less.prems Cons by (subst (asm) segments.simps) simp
      then show ?thesis using less.IH[of cs] Cons by simp
    next
      case (Some pn)
      then have "(t, True) = (case dict_get pub pn of Some v \<Rightarrow> (v, False)
           | None \<Rightarrow> (case dict_get sec pn of Some v \<Rightarrow> (v, True) | None \<Rightarrow> (template pn, False)))
         \<or> (t, True) \<in> set (segments pub sec (drop (length pn + 4) s))"
        using less.prems Cons by (subst (asm) segments.simps) auto
      then show ?thesis
        using less.IH[of "drop (length pn + 4) s"] Cons by (auto split: option.splits)
    qed
  qed
qed

subsection \<open>substituteParamValues\<close>

record SubstitutedParams =
  newParams :: HttpProviderParameters
  sub_extractedValues :: "jsstring \<rightharpoonup> jsstring"
  hiddenBodyParts :: "hidden_part list"
  hiddenURLParts :: "hidden_part list"

definition extracted_of :: "ReplacedParams option \<Rightarrow> jsstring \<rightharpoonup> jsstring" where
  "extracted_of r = (case r of None \<Rightarrow> Map.empty | Some rp \<Rightarrow> extractedValues rp)"

text \<open>\<open>r.regex = regexParams?.newParam\<close> under \<open>if(r.regex)\<close>: the strings of a response redaction.\<close>

definition substitute_opt ::
  "(jsstring option \<Rightarrow> js_error + ReplacedParams option) \<Rightarrow> jsstring option \<Rightarrow> js_error + jsstring option" where
  "substitute_opt extract s =
     (if truthy_str s then bindR (extract s) (\<lambda>r. Inr (map_option newParam r)) else Inr s)"

definition substitute_redaction ::
  "(jsstring option \<Rightarrow> js_error + ReplacedParams option) \<Rightarrow> response_redaction \<Rightarrow> js_error + response_redaction" where
  "substitute_redaction extract r =
     bindR (substitute_opt extract (rr_regex r)) (\<lambda>regex.
     bindR (substitute_opt extract (rr_xPath r)) (\<lambda>xPath.
     bindR (substitute_opt extract (rr_jsonPath r)) (\<lambda>jsonPath.
       Inr (r\<lparr>rr_regex := regex, rr_xPath := xPath, rr_jsonPath := jsonPath\<rparr>))))"

fun substitute_matches ::
  "(jsstring option \<Rightarrow> js_error + ReplacedParams option) \<Rightarrow> response_match list \<Rightarrow> (jsstring \<rightharpoonup> jsstring)
   \<Rightarrow> js_error + response_match list \<times> (jsstring \<rightharpoonup> jsstring)" where
  "substitute_matches extract [] extracted = Inr ([], extracted)"
| "substitute_matches extract (r # rs) extracted =
     (if rm_value r \<noteq> [] then
        bindR (extract (Some (rm_value r))) (\<lambda>m.
        bindR (substitute_matches extract rs (extracted ++ extracted_of m)) (\<lambda>(rs', ex).
          Inr (r\<lparr>rm_value := (case m of None \<Rightarrow> rm_value r | Some rp \<Rightarrow> newParam rp)\<rparr> # rs', ex)))
      else bindR (substitute_matches extract rs extracted) (\<lambda>(rs', ex). Inr (r # rs', ex)))"

text \<open>
  The clone by \<open>JSON.parse(JSON.stringify(params))\<close> turns a \<open>Uint8Array\<close> body into a plain object,
  which the text decoder rejects.
\<close>

definition body_text :: "http_body \<Rightarrow> js_error + jsstring" where
  "body_text b = (case b of BodyString s \<Rightarrow> Inr s | BodyBytes _ \<Rightarrow> Inl (JsTypeError ''invalid argument of decode''))"

definition substitute_url ::
  "url_lib \<Rightarrow> jsstring \<Rightarrow> ReplacedParams option \<Rightarrow> js_error + hidden_part list" where
  "substitute_url U method urlParams =
     (case urlParams of
        None \<Rightarrow> Inr []
      | Some rp \<Rightarrow>
          if hiddenParts rp = [] then Inr []
          else
            bindR (new_URL U (newParam rp)) (\<lambda>u.
              let offset = int (length (js ''https://'' @ getHostHeaderString u)) - int (length method) - 1
              in Inr (map (\<lambda>h. h\<lparr>hid_index := hid_index h - offset\<rparr>) (hiddenParts rp))))"

definition substituteParamValues ::
  "url_lib \<Rightarrow> HttpProviderParameters \<Rightarrow> HttpProviderSecretParameters option \<Rightarrow> bool
   \<Rightarrow> js_error + SubstitutedParams" where
  "substituteParamValues U params secretParams ignoreMissingParams =
     (let extract = extractAndReplaceTemplateValues (hp_paramValues params) secretParams in
      bindR (extract ignoreMissingParams (Some (hp_url params))) (\<lambda>urlParams.
      bindR (substitute_url U (hp_method params) urlParams) (\<lambda>urlParts.
      let url1 = (case urlParams of None \<Rightarrow> hp_url params | Some rp \<Rightarrow> newParam rp);
          ex1 = extracted_of urlParams in
      bindR (case hp_body params of
               None \<Rightarrow> Inr (None, ex1, [])
             | Some b \<Rightarrow>
                 if b = BodyString [] then Inr (Some b, ex1, [])
                 else
                   bindR (body_text b) (\<lambda>strBody.
                   bindR (extract ignoreMissingParams (Some strBody)) (\<lambda>r.
                     case r of
                       None \<Rightarrow> Inr (Some b, ex1, [])
                     | Some rp \<Rightarrow> Inr (Some (BodyString (newParam rp)), ex1 ++ extractedValues rp, hiddenParts rp))))
        (\<lambda>(body2, ex2, bodyParts).
      bindR (extract False (hp_geoLocation params)) (\<lambda>geo.
      let geo3 = (case geo of None \<Rightarrow> hp_geoLocation params | Some rp \<Rightarrow> Some (newParam rp));
          ex3 = ex2 ++ extracted_of geo in
      bindR (case hp_responseRedactions params of
               None \<Rightarrow> Inr None
             | Some rs \<Rightarrow> bindR (mapR (substitute_redaction (extract False)) rs) (\<lambda>rs'. Inr (Some rs')))
        (\<lambda>reds.
      bindR (case hp_responseMatches params of
               None \<Rightarrow> Inr (None, ex3)
             | Some ms \<Rightarrow>
                 bindR (substitute_matches (extract False) ms ex3) (\<lambda>(ms', ex). Inr (Some ms', ex)))
        (\<lambda>(matches, ex4).
      Inr \<lparr>newParams = params\<lparr>hp_url := url1, hp_body := body2, hp_geoLocation := geo3,
                               hp_responseRedactions := reds, hp_responseMatches := matches\<rparr>,
           sub_extractedValues = ex4, hiddenBodyParts = bodyParts, hiddenURLParts = urlParts\<rparr>)))))))"

subsection \<open>getURL and getGeoLocation\<close>

text \<open>
  \<open>replaceAll\<close> with a string pattern: every occurrence from left to right, the patterns of the
  replacement expanded (\<open>$$\<close>, \<open>$&\<close>, \<open>$`\<close> and \<open>$'\<close>).
\<close>

fun expand_replacement :: "jsstring \<Rightarrow> jsstring \<Rightarrow> jsstring \<Rightarrow> jsstring \<Rightarrow> jsstring" where
  "expand_replacement before matched after (a # b # cs) =
     (if a = 36 \<and> b = 36 then 36 # expand_replacement before matched after cs
      else if a = 36 \<and> b = 38 then matched @ expand_replacement before matched after cs
      else if a = 36 \<and> b = 96 then before @ expand_replacement before matched after cs
      else if a = 36 \<and> b = 39 then after @ expand_replacement before matched after cs
      else a # expand_replacement before matched after (b # cs))"
| "expand_replacement before matched after cs = cs"

lemma expand_replacement_plain: "36 \<notin> set v \<Longrightarrow> expand_replacement b m a v = v"
  by (induction b m a v rule: expand_replacement.induct) auto

function replace_all_from :: "jsstring \<Rightarrow> jsstring \<Rightarrow> jsstring \<Rightarrow> jsstring \<Rightarrow> jsstring" where
  "replace_all_from before s p v =
     (case s of
        [] \<Rightarrow> []
      | c # cs \<Rightarrow>
          (if p \<noteq> [] \<and> is_prefix p s then
             expand_replacement before p (drop (length p) s) v
             @ replace_all_from (before @ p) (drop (length p) s) p v
           else c # replace_all_from (before @ [c]) cs p v))"
  by pat_completeness auto
termination
  by (relation "measure (\<lambda>(before, s, p, v). length s)") auto

declare replace_all_from.simps [simp del]

definition js_replaceAll :: "jsstring \<Rightarrow> jsstring \<Rightarrow> jsstring \<Rightarrow> jsstring" where
  "js_replaceAll s p v = replace_all_from [] s p v"

fun replace_names :: "dict option \<Rightarrow> dict option \<Rightarrow> jsstring list \<Rightarrow> jsstring \<Rightarrow> js_error + jsstring" where
  "replace_names pub sec [] s = Inr s"
| "replace_names pub sec (pn # pns) s =
     (case dict_get pub pn of
        Some v \<Rightarrow> replace_names pub sec pns (js_replaceAll s (template pn) v)
      | None \<Rightarrow>
          (case dict_get sec pn of
             Some v \<Rightarrow> replace_names pub sec pns (js_replaceAll s (template pn) v)
           | None \<Rightarrow> Inl (PlainError ''parameter value not found in templateParams'')))"

definition getURL :: "HttpProviderParameters \<Rightarrow> HttpProviderSecretParameters option \<Rightarrow> js_error + jsstring" where
  "getURL v2Params secretParams =
     replace_names (hp_paramValues v2Params) (secret_of secretParams) (template_names (hp_url v2Params)) (hp_url v2Params)"

definition getHostPort ::
  "url_lib \<Rightarrow> HttpProviderParameters \<Rightarrow> HttpProviderSecretParameters option \<Rightarrow> js_error + jsstring" where
  "getHostPort U params secretParams =
     bindR (getURL params secretParams) (\<lambda>s.
     bindR (new_URL U s) (\<lambda>u.
       if url_host u = [] then Inl (PlainError ''url is incorrect'') else Inr (url_host u)))"

text \<open>
  \<open>/^[A-Za-z]{2}$/iu\<close>: with both flags two letters outside ASCII fold to \<open>s\<close> and \<open>k\<close>.
\<close>

definition geo_letter :: "16 word \<Rightarrow> bool" where
  "geo_letter c \<longleftrightarrow> (65 \<le> c \<and> c \<le> 90) \<or> (97 \<le> c \<and> c \<le> 122) \<or> c = 0x17F \<or> c = 0x212A"

definition getGeoLocation ::
  "HttpProviderParameters \<Rightarrow> HttpProviderSecretParameters option \<Rightarrow> js_error + jsstring option" where
  "getGeoLocation v2Params secretParams =
     (case hp_geoLocation v2Params of
        None \<Rightarrow> Inr None
      | Some geo0 \<Rightarrow>
          if geo0 = [] then Inr None
          else
            bindR (replace_names (hp_paramValues v2Params) (secret_of secretParams) (template_names geo0) geo0)
              (\<lambda>geo. if length geo = 2 \<and> list_all geo_letter geo then Inr (Some geo)
                     else Inl (PlainError ''Geolocation is invalid'')))"

subsection \<open>Properties\<close>

text \<open>The hidden parts reported for a parameter are where the secret values went: the text is the
  concatenation of the literal text, the public values and the secret values, the hidden parts are
  exactly the positions of the secret values in it, and so each of them holds a secret value.\<close>

theorem hidden_parts_are_the_secrets:
  assumes "extractAndReplaceTemplateValues pub sp ign (Some s) = Inr (Some rp)"
  shows "newParam rp = concat (map fst (segments pub (secret_of sp) s))
     \<and> hiddenParts rp = secret_positions 0 (segments pub (secret_of sp) s)
     \<and> (\<forall>h \<in> set (hiddenParts rp). \<exists>pn. dict_get (secret_of sp) pn = Some (part_at (newParam rp) h))"
proof -
  let ?segs = "segments pub (secret_of sp) s"
  have eq: "newParam rp = concat (map fst ?segs)" "hiddenParts rp = secret_positions 0 ?segs"
    using assms replace_templates_segments[of pub sp ign 0 s]
    by (auto simp: extractAndReplaceTemplateValues_def bindR_Inr_iff split: if_splits)
  moreover have "\<exists>pn. dict_get (secret_of sp) pn = Some (part_at (newParam rp) h)" if "h \<in> set (hiddenParts rp)" for h
    using secret_positions_value[of h "[]" ?segs "[]"] segments_secret[of _ pub "secret_of sp" s] that eq by auto
  ultimately show ?thesis by blast
qed

theorem hidden_parts_are_the_secrets_witness:
  "\<exists>rp. extractAndReplaceTemplateValues None
       (Some \<lparr>sp_cookieStr = None, sp_authorisationHeader = None, sp_headers = None,
             sp_paramValues = Some [(js ''t'', js ''abc'')]\<rparr>) False (Some (js ''x={{t}};'')) = Inr (Some rp)
     \<and> newParam rp = js ''x=abc;'' \<and> hiddenParts rp = [\<lparr>hid_index = 2, hid_length = 3\<rparr>]"
proof -
  let ?sp = "\<lparr>sp_cookieStr = None, sp_authorisationHeader = None, sp_headers = None,
             sp_paramValues = Some [(js ''t'', js ''abc'')]\<rparr>"
  obtain rp where rp: "extractAndReplaceTemplateValues None (Some ?sp) False (Some (js ''x={{t}};'')) = Inr (Some rp)"
    by (simp add: extractAndReplaceTemplateValues_def replace_templates.simps template_at_def Let_def js_def
        replace_param_def dict_get_def template_def)
  have "segments None (Some [(js ''t'', js ''abc'')]) (js ''x={{t}};'')
      = [(js ''x'', False), (js ''='', False), (js ''abc'', True), (js '';'', False)]"
    by (simp add: segments.simps template_at_def Let_def js_def dict_get_def)
  then show ?thesis
    using hidden_parts_are_the_secrets[OF rp] rp by (simp add: secret_of_def js_def)
qed

text \<open>A request body given as bytes cannot be used: the clone through JSON makes it a plain
  object and the substitution throws, whatever the bytes are.\<close>

theorem binary_body_rejected:
  "\<not> is_ok (substituteParamValues U (params\<lparr>hp_body := Some (BodyBytes bs)\<rparr>) sp ign)"
proof -
  have "substituteParamValues U (params\<lparr>hp_body := Some (BodyBytes bs)\<rparr>) sp ign \<noteq> Inr r" for r
    unfolding substituteParamValues_def Let_def by (auto simp: bindR_Inr_iff body_text_def)
  then show ?thesis by (simp add: is_ok_def split: sum.split)
qed

end
