(* ===== verification/Http_Provider.thy ===== *)
theory Http_Provider
  imports Http_Templates
begin

text \<open>
  The HTTP provider (\<open>src/providers/http/index.ts\<close>): \<open>createRequest\<close> and
  \<open>getResponseRedactions\<close>, which the client runs, and \<open>assertValidProviderReceipt\<close>, which the
  attestor runs on the redacted transcript.

  The packages the provider calls are the fields of \<open>http_env\<close>. The date check of the receipt
  only logs and is left out.
\<close>

text \<open>
  A match of \<open>makeRegex(pattern).exec(s)\<close>: where it is, \<open>lastIndex\<close> after it, the text, the groups
  by number and by name (\<open>None\<close> for a group that took no part, or for a pattern without names).
\<close>

record regex_match =
  m_index :: int
  m_lastIndex :: int
  m_text :: jsstring
  m_captures :: "jsstring option list"
  m_groups :: "(jsstring \<times> jsstring option) list option"

record http_env =
  env_tls :: tls_pkg
  env_url :: url_lib
  env_xpath :: xpath_lib
  env_json :: json_lib
  env_json_path :: json_path_lib
  env_regex :: "jsstring \<Rightarrow> jsstring \<Rightarrow> js_error + regex_match option"

subsection \<open>Versions, options\<close>

definition ATTESTOR_VERSION_2_0_1 :: int where
  "ATTESTOR_VERSION_2_0_1 = 4"

definition shouldRevealCrlf :: "int \<Rightarrow> bool" where
  "shouldRevealCrlf version \<longleftrightarrow> ATTESTOR_VERSION_2_0_1 \<le> version"

definition provider_geoLocation ::
  "HttpProviderParameters \<Rightarrow> HttpProviderSecretParameters option \<Rightarrow> js_error + jsstring option" where
  "provider_geoLocation params secretParams = getGeoLocation params secretParams"

definition additionalClientOptions :: "HttpProviderParameters \<Rightarrow> (jsstring \<times> jsstring list) list" where
  "additionalClientOptions params =
     foldl (\<lambda>opts (k, v). obj_set k v opts)
       [(js ''applicationLayerProtocols'', [js ''http/1.1''])]
       (case hp_additionalClientOptions params of None \<Rightarrow> [] | Some o' \<Rightarrow> o')"

subsection \<open>createRequest\<close>

definition is_user_agent :: "jsstring \<Rightarrow> bool" where
  "is_user_agent k \<longleftrightarrow> js_toLowerCase k = js ''user-agent''"

definition RECLAIM_USER_AGENT :: jsstring where
  "RECLAIM_USER_AGENT = js ''reclaim/0.0.1''"

definition secret_headers :: "HttpProviderSecretParameters \<Rightarrow> dict" where
  "secret_headers sp =
     (let h0 = (case sp_headers sp of None \<Rightarrow> [] | Some h \<Rightarrow> h);
          h1 = (if truthy_str (sp_cookieStr sp) then obj_set (js ''Cookie'') (the (sp_cookieStr sp)) h0 else h0)
      in if truthy_str (sp_authorisationHeader sp)
         then obj_set (js ''Authorization'') (the (sp_authorisationHeader sp)) h1 else h1)"

definition public_headers :: "HttpProviderParameters \<Rightarrow> dict \<Rightarrow> dict" where
  "public_headers params secHeaders =
     (let pub = (case hp_headers params of None \<Rightarrow> [] | Some h \<Rightarrow> h) in
      if list_ex is_user_agent (map fst pub) \<or> list_ex is_user_agent (map fst secHeaders) then pub
      else obj_set (js ''User-Agent'') RECLAIM_USER_AGENT pub)"

fun js_join :: "jsstring \<Rightarrow> jsstring list \<Rightarrow> jsstring" where
  "js_join sep [] = []"
| "js_join sep [x] = x"
| "js_join sep (x # y # xs) = x @ sep @ js_join sep (y # xs)"

definition search_params :: "jsstring \<Rightarrow> jsstring" where
  "search_params url = (if js_includes url (js ''?'')
     then (case js_get (js_split (js ''?'') url) 1 of None \<Rightarrow> [] | Some q \<Rightarrow> q) else [])"

definition query_suffix :: "jsstring \<Rightarrow> jsstring" where
  "query_suffix url = (if search_params url \<noteq> [] then js ''?'' @ search_params url else [])"

definition body_bytes :: "tls_pkg \<Rightarrow> http_body option \<Rightarrow> bytes" where
  "body_bytes L b =
     (case b of None \<Rightarrow> strToUint8Array L [] | Some (BodyString s) \<Rightarrow> strToUint8Array L s | Some (BodyBytes bs) \<Rightarrow> bs)"

abbreviation js_CRLF :: jsstring where
  "js_CRLF \<equiv> [13, 10]"

definition request_line :: "HttpProviderParameters \<Rightarrow> URL \<Rightarrow> jsstring" where
  "request_line params u =
     hp_method params @ js '' '' @ url_pathname u @ query_suffix (hp_url params) @ js '' HTTP/1.1''"

definition request_header_text ::
  "HttpProviderParameters \<Rightarrow> URL \<Rightarrow> nat \<Rightarrow> dict \<Rightarrow> dict \<Rightarrow> jsstring" where
  "request_header_text params u contentLength pubHeaders secHeaders =
     js_join js_CRLF
       ([request_line params u,
         js ''Host: '' @ getHostHeaderString u,
         js ''Content-Length: '' @ nat_to_js contentLength,
         js ''Connection: close'',
         js ''Accept-Encoding: identity'']
        @ buildHeaders pubHeaders @ buildHeaders secHeaders @ [js_CRLF])"

definition plain_range :: "int \<Rightarrow> int \<Rightarrow> ArraySlice" where
  "plain_range i j = \<lparr>fromIndex = i, toIndex = j\<rparr>"

record CreateRequestResult =
  cr_data :: bytes
  cr_redactions :: "ArraySlice list"

definition hidden_ranges :: "int \<Rightarrow> hidden_part list \<Rightarrow> ArraySlice list" where
  "hidden_ranges start parts =
     map (\<lambda>h. plain_range (start + hid_index h) (start + hid_index h + hid_length h))
       (filter (\<lambda>h. hid_length h \<noteq> 0) parts)"

definition createRequest ::
  "http_env \<Rightarrow> HttpProviderSecretParameters \<Rightarrow> HttpProviderParameters \<Rightarrow> js_error + CreateRequestResult" where
  "createRequest E secretParams params0 =
     (if \<not> truthy_str (sp_cookieStr secretParams) \<and> \<not> truthy_str (sp_authorisationHeader secretParams)
         \<and> sp_headers secretParams = None
      then Inl (PlainError ''auth parameters are not set'')
      else
        (let L = env_tls E;
             secHeaders = secret_headers secretParams;
             pubHeaders = public_headers params0 secHeaders in
         bindR (substituteParamValues (env_url E) params0 (Some secretParams) False) (\<lambda>sub.
         let params = newParams sub in
         bindR (new_URL (env_url E) (hp_url params)) (\<lambda>u.
         let body = body_bytes L (hp_body params);
             headerStr = strToUint8Array L (request_header_text params u (length body) pubHeaders secHeaders);
             data = concatenateUint8Arrays L [headerStr, body];
             secHeadersStr = js_join js_CRLF (buildHeaders secHeaders);
             tokenStartIndex = findIndexInUint8Array L data (strToUint8Array L secHeadersStr);
             redactions =
               [plain_range tokenStartIndex (tokenStartIndex + int (length secHeadersStr))]
               @ hidden_ranges (int (length headerStr)) (hiddenBodyParts sub)
               @ hidden_ranges 0 (hiddenURLParts sub)
         in Inr \<lparr>cr_data = data, cr_redactions = js_sort_on toIndex redactions\<rparr>))))"

text \<open>The caller's \<open>params.headers\<close> after the call: \<open>User-Agent\<close> is added to that very object.\<close>

definition caller_headers_after :: "HttpProviderSecretParameters \<Rightarrow> HttpProviderParameters \<Rightarrow> dict option" where
  "caller_headers_after secretParams params =
     (case hp_headers params of None \<Rightarrow> None | Some _ \<Rightarrow> Some (public_headers params (secret_headers secretParams)))"

subsection \<open>processRedactionRequest\<close>

type_synonym RedactionItem = "RedactedOrHashedArraySlice \<times> ArraySlice list"

definition getReveal ::
  "int \<Rightarrow> ArraySlice list option \<Rightarrow> int \<Rightarrow> int \<Rightarrow> bool \<Rightarrow> js_error + RedactedOrHashedArraySlice" where
  "getReveal bodyStartIdx resChunks startIdx len hash =
     bindR (convertResponsePosToAbsolutePos startIdx bodyStartIdx resChunks) (\<lambda>from.
     bindR (convertResponsePosToAbsolutePos (startIdx + len) bodyStartIdx resChunks) (\<lambda>to.
       Inr \<lparr>fromIndex = from, toIndex = to, oprf_hash = hash\<rparr>))"

definition addRedaction ::
  "int \<Rightarrow> ArraySlice list option \<Rightarrow> bool \<Rightarrow> int \<Rightarrow> int \<Rightarrow> js_error + RedactionItem list" where
  "addRedaction bodyStartIdx resChunks hash elementIdx elementLength =
     (if elementIdx < 0 \<or> elementLength = 0 then Inr []
      else bindR (getReveal bodyStartIdx resChunks elementIdx elementLength hash) (\<lambda>reveal.
        Inr [(reveal, getRedactionsForChunkHeaders (fromIndex reveal) (toIndex reveal) resChunks)]))"

text \<open>The three parts of a hashed match: before the group, the group, after it.\<close>

definition hashed_group ::
  "int \<Rightarrow> ArraySlice list option \<Rightarrow> jsstring \<Rightarrow> int \<Rightarrow> jsstring option \<Rightarrow> js_error + RedactionItem list" where
  "hashed_group bodyStartIdx resChunks fullStr elementIdx grp =
     (let grpIdx = js_indexOf fullStr (case grp of None \<Rightarrow> js ''undefined'' | Some g \<Rightarrow> g) in
      bindR (addRedaction bodyStartIdx resChunks False elementIdx grpIdx) (\<lambda>before.
      case grp of
        None \<Rightarrow> Inl (JsTypeError ''length of undefined'')
      | Some g \<Rightarrow>
          (let idx = elementIdx + grpIdx; len = int (length g) in
           bindR (getReveal bodyStartIdx resChunks idx len True) (\<lambda>reveal.
           if getRedactionsForChunkHeaders (fromIndex reveal) (toIndex reveal) resChunks \<noteq> []
           then Inl (PlainError ''Hash redactions cannot be performed across HTTP chunks'')
           else
             bindR (addRedaction bodyStartIdx resChunks False (idx + len)
                      (int (length (js_slice_from fullStr (grpIdx + len))))) (\<lambda>after.
               Inr (before @ [(reveal, [])] @ after))))))"

definition processRegexp ::
  "http_env \<Rightarrow> jsstring \<Rightarrow> response_redaction \<Rightarrow> int \<Rightarrow> ArraySlice list option \<Rightarrow> jsstring \<Rightarrow> int
   \<Rightarrow> js_error + RedactionItem list" where
  "processRegexp E bodyStr rs bodyStartIdx resChunks element elementIdx =
     bindR (env_regex E (str_of (rr_regex rs)) (if element = [] then bodyStr else element)) (\<lambda>match.
     case match of
       None \<Rightarrow> Inl (PlainError ''regexp does not match found element'')
     | Some m \<Rightarrow>
         if m_text m = [] then Inl (PlainError ''regexp does not match found element'')
         else
           (let idx = elementIdx + m_index m in
            if rr_hash rs \<and> (m_groups m = None \<or> length (the (m_groups m)) > 1)
            then Inl (PlainError ''Exactly one named capture group is needed per hashed redaction'')
            else if \<not> rr_hash rs \<or> m_groups m = None
            then addRedaction bodyStartIdx resChunks (rr_hash rs) idx (m_lastIndex m - m_index m)
            else hashed_group bodyStartIdx resChunks (m_text m) idx
                   (case the (m_groups m) of [] \<Rightarrow> None | (_, g) # _ \<Rightarrow> g)))"

definition concatR :: "('e + 'a list) list \<Rightarrow> 'e + 'a list" where
  "concatR ms = bindR (mapR id ms) (\<lambda>xss. Inr (concat xss))"

definition processJsonPath ::
  "http_env \<Rightarrow> jsstring \<Rightarrow> response_redaction \<Rightarrow> int \<Rightarrow> ArraySlice list option \<Rightarrow> jsstring \<Rightarrow> int
   \<Rightarrow> js_error + RedactionItem list" where
  "processJsonPath E bodyStr rs bodyStartIdx resChunks element eIndex =
     bindR (extractJSONValueIndexes (env_json E) (env_json_path E) element (str_of (rr_jsonPath rs)))
       (\<lambda>jsonPathIndexes. concatR (map (\<lambda>ji.
          if truthy_str (rr_regex rs)
          then processRegexp E bodyStr rs bodyStartIdx resChunks
                 (js_slice bodyStr (eIndex + idx_start ji) (eIndex + idx_end ji)) (eIndex + idx_start ji)
          else addRedaction bodyStartIdx resChunks (rr_hash rs) (eIndex + idx_start ji)
                 (idx_end ji - idx_start ji)) jsonPathIndexes))"

definition processRedactionRequest ::
  "http_env \<Rightarrow> jsstring \<Rightarrow> response_redaction \<Rightarrow> int \<Rightarrow> ArraySlice list option \<Rightarrow> js_error + RedactionItem list" where
  "processRedactionRequest E bodyStr rs bodyStartIdx resChunks =
     (if truthy_str (rr_xPath rs) then
        bindR (extractHTMLElementsIndexes (env_xpath E) bodyStr (str_of (rr_xPath rs))
                 (truthy_str (rr_jsonPath rs)))
          (\<lambda>indexes. concatR (map (\<lambda>i.
             let element = js_slice bodyStr (idx_start i) (idx_end i) in
             if truthy_str (rr_jsonPath rs)
             then processJsonPath E bodyStr rs bodyStartIdx resChunks element (idx_start i)
             else if truthy_str (rr_regex rs)
             then processRegexp E bodyStr rs bodyStartIdx resChunks element (idx_start i)
             else addRedaction bodyStartIdx resChunks (rr_hash rs) (idx_start i) (idx_end i - idx_start i)) indexes))
      else if truthy_str (rr_jsonPath rs)
      then processJsonPath E bodyStr rs bodyStartIdx resChunks bodyStr 0
      else if truthy_str (rr_regex rs)
      then processRegexp E bodyStr rs bodyStartIdx resChunks bodyStr 0
      else Inl (PlainError ''Expected either xPath, jsonPath or regex for redaction''))"

subsection \<open>getResponseRedactions\<close>

text \<open>\<open>((statusCode / 100) >> 0) !== 2\<close>: the quotient as a signed 32-bit integer.\<close>

definition status_class :: "jsnum \<Rightarrow> int" where
  "status_class c = (case c of NaN \<Rightarrow> 0 | Num n \<Rightarrow> (n div 100 + 2 ^ 31) mod 2 ^ 32 - 2 ^ 31)"

definition reveal_slice :: "ArraySlice \<Rightarrow> RedactedOrHashedArraySlice" where
  "reveal_slice s = plain_slice (fromIndex s) (toIndex s)"

text \<open>The part of the function that collects \<open>reveals\<close> and the redactions of chunk headers.\<close>

definition requested_items ::
  "http_env \<Rightarrow> HttpResponse \<Rightarrow> HttpProviderParameters \<Rightarrow> js_error + RedactionItem list" where
  "requested_items E r params =
     concatR (map (\<lambda>rs. processRedactionRequest E (binary_str (body r)) rs
                           (case bodyStartIndex r of None \<Rightarrow> 0 | Some i \<Rightarrow> i) (chunks r))
                (case hp_responseRedactions params of None \<Rightarrow> [] | Some rs \<Rightarrow> rs))"

definition fixed_reveals :: "HttpResponse \<Rightarrow> RedactedOrHashedArraySlice list" where
  "fixed_reveals r =
     [plain_slice 0 (case statusLineEndIndex r of None \<Rightarrow> 0 | Some i \<Rightarrow> i),
      plain_slice (headerEndIdx r) (headerEndIdx r + 4)]
     @ (case headerIndices r (js ''date'') of None \<Rightarrow> [] | Some s \<Rightarrow> [reveal_slice s])"

text \<open>The loop over the sorted reveals.\<close>

fun gap_redactions :: "int \<Rightarrow> RedactedOrHashedArraySlice list \<Rightarrow> int \<Rightarrow> RedactedOrHashedArraySlice list" where
  "gap_redactions currentIndex [] len = [plain_slice currentIndex len]"
| "gap_redactions currentIndex (r # rs) len =
     (if currentIndex < fromIndex r then [plain_slice currentIndex (fromIndex r)] else [])
     @ gap_redactions (toIndex r) rs len"

definition redactions_of_reveals ::
  "RedactedOrHashedArraySlice list \<Rightarrow> RedactedOrHashedArraySlice list \<Rightarrow> int \<Rightarrow> RedactedOrHashedArraySlice list" where
  "redactions_of_reveals reveals0 chunkReds len =
     (let reveals = js_sort_on toIndex reveals0 in
      js_sort_on toIndex
        (chunkReds
         @ (if length reveals > 1 then gap_redactions 0 reveals len else [])
         @ filter oprf_hash reveals))"

definition getResponseRedactions ::
  "http_env \<Rightarrow> bytes \<Rightarrow> HttpProviderParameters \<Rightarrow> int \<Rightarrow> js_error + RedactedOrHashedArraySlice list" where
  "getResponseRedactions E response rawParams version =
     bindR (parseHttpResponse (env_tls E) response) (\<lambda>r.
     if hp_responseRedactions rawParams = None \<or> hp_responseRedactions rawParams = Some [] then Inr []
     else if status_class (statusCode r) \<noteq> 2 then Inl (PlainError ''Expected status 2xx'')
     else
       bindR (substituteParamValues (env_url E) rawParams None True) (\<lambda>sub.
       if (case bodyStartIndex r of None \<Rightarrow> 0 | Some i \<Rightarrow> i) < 4
       then Inl (PlainError ''Failed to find response body'')
       else if shouldRevealCrlf version
         \<and> \<not> areUint8ArraysEqual (env_tls E) (js_slice response (headerEndIdx r) (headerEndIdx r + 4))
               (strToUint8Array (env_tls E) (js_CRLF @ js_CRLF))
       then Inl (PlainError ''Failed to find header/body separator'')
       else
         bindR (requested_items E r (newParams sub)) (\<lambda>items.
           Inr (redactions_of_reveals (fixed_reveals r @ map fst items)
                  (map reveal_slice (concat (map snd items))) (int (length response))))))"

lemma gap_redactions_cover:
  "sorted (map toIndex rs) \<Longrightarrow> cur \<le> p \<Longrightarrow> p < len \<Longrightarrow>
     in_slices (gap_redactions cur rs len) p \<or> in_slices rs p"
proof (induction cur rs len rule: gap_redactions.induct)
  case (1 cur len)
  then show ?case by (simp add: within_def)
next
  case (2 cur r rs len)
  show ?case
  proof (cases "toIndex r \<le> p")
    case True
    then show ?thesis using 2 by auto
  next
    case False
    then show ?thesis using 2 by (auto simp: within_def)
  qed
qed

lemma in_slices_sort [simp]: "in_slices (js_sort_on f xs) p = in_slices xs p"
  by (simp add: in_slices_def list_ex_iff)

text \<open>A byte that no redaction covers is in a reveal that is not hashed.\<close>

lemma redactions_cover:
  assumes "1 < length reveals" and "0 \<le> p" and "p < len"
    and "\<not> in_slices (redactions_of_reveals reveals chunkReds len) p"
  shows "\<exists>r \<in> set reveals. \<not> oprf_hash r \<and> within r p"
proof -
  let ?rs = "js_sort_on toIndex reveals"
  have n: "\<not> in_slices (gap_redactions 0 ?rs len) p" "\<not> in_slices (filter oprf_hash ?rs) p"
    using assms(1,4) by (simp_all add: redactions_of_reveals_def Let_def)
  have "in_slices reveals p" using gap_redactions_cover[of ?rs 0 p len] n(1) assms(2,3) by simp
  then obtain r where r: "r \<in> set reveals" "within r p" by (auto simp: in_slices_def list_ex_iff)
  then have "\<not> oprf_hash r" using n(2) by (auto simp: in_slices_def list_ex_iff)
  then show ?thesis using r by blast
qed

subsection \<open>assertValidProviderReceipt\<close>

definition OK_HTTP_HEADER :: jsstring where
  "OK_HTTP_HEADER = js ''HTTP/1.1 200''"

text \<open>The two patterns for the status line.\<close>

definition OK_REGEX :: jsstring where
  "OK_REGEX = js ''^HTTP'' @ [92] @ js ''/1.1 2'' @ [92] @ js ''d{2}''"

definition STATUS_REGEX :: jsstring where
  "STATUS_REGEX = js ''^HTTP'' @ [92] @ js ''/1.1 ('' @ [92] @ js ''d{3})''"

text \<open>\<open>concatArrays\<close>: the buffers copied one after the other into an array of the summed size.\<close>

fun merge_at :: "bytes \<Rightarrow> int \<Rightarrow> bytes list \<Rightarrow> js_error + bytes" where
  "merge_at merged lenDone [] = Inr merged"
| "merge_at merged lenDone (b # bs) =
     (case u8_set merged b lenDone of
        None \<Rightarrow> Inl (JsRangeError ''offset is out of bounds'')
      | Some merged' \<Rightarrow> merge_at merged' (lenDone + int (length b)) bs)"

definition concatArrays :: "bytes list \<Rightarrow> js_error + bytes" where
  "concatArrays bufs = merge_at (replicate (sum_list (map length bufs)) 0) 0 bufs"

lemma merge_at_concat:
  "merge_at (pre @ replicate (sum_list (map length bufs)) 0) (int (length pre)) bufs = Inr (pre @ concat bufs)"
proof (induction bufs arbitrary: pre)
  case (Cons b bs)
  have "u8_set (pre @ replicate (sum_list (map length (b # bs))) 0) b (int (length pre))
      = Some ((pre @ b) @ replicate (sum_list (map length bs)) 0)"
    by (simp add: u8_set_def replicate_add drop_replicate)
  then show ?case using Cons.IH[of "pre @ b"] by simp
qed simp

lemma concatArrays_concat: "concatArrays bufs = Inr (concat bufs)"
  using merge_at_concat[of "[]" bufs] by (simp add: concatArrays_def)

text \<open>\<open>res.replace(/(\*){3,}/g, '')\<close>: runs of three or more stars are removed.\<close>

function strip_stars :: "jsstring \<Rightarrow> jsstring" where
  "strip_stars s =
     (case s of
        [] \<Rightarrow> []
      | c # cs \<Rightarrow>
          (if c = 42 then
             (let run = takeWhile (\<lambda>x. x = 42) s; rest = dropWhile (\<lambda>x. x = 42) cs in
              (if length run \<ge> 3 then [] else run) @ strip_stars rest)
           else c # strip_stars cs))"
  by pat_completeness auto
termination
  by (relation "measure length") (auto simp: le_imp_less_Suc length_dropWhile_le)

declare strip_stars.simps [simp del]

definition expected_path :: "URL \<Rightarrow> jsstring \<Rightarrow> jsstring" where
  "expected_path u url =
     js_replaceAll (js_replaceAll (url_pathname u) (js ''%7B'') (js ''{'')) (js ''%7D'') (js ''}'')
     @ query_suffix url"

definition header_is :: "HttpRequest \<Rightarrow> jsstring \<Rightarrow> jsstring \<Rightarrow> bool" where
  "header_is req k v \<longleftrightarrow> req_headers req k = Some (HStr v)"

text \<open>\<open>indexOf(p, start)\<close>\<close>

definition js_indexOf_from :: "jsstring \<Rightarrow> jsstring \<Rightarrow> nat \<Rightarrow> int" where
  "js_indexOf_from s p start =
     (let i = js_indexOf (drop start s) p in if i = -1 then -1 else i + int (min start (length s)))"

definition status_error :: "http_env \<Rightarrow> jsstring \<Rightarrow> js_error + 'a" where
  "status_error E resStr =
     bindR (env_regex E STATUS_REGEX resStr) (\<lambda>m.
       case m of
         Some _ \<Rightarrow> Inl (PlainError ''Provider returned error'')
       | None \<Rightarrow> Inl (PlainError ''Response did not start with HTTP/1.1 2XX''))"

text \<open>The named groups of a match become parameters; a name may occur once.\<close>

fun add_groups ::
  "(jsstring \<times> jsstring option) list \<Rightarrow> (jsstring \<rightharpoonup> jsstring option) \<Rightarrow> js_error + (jsstring \<rightharpoonup> jsstring option)" where
  "add_groups [] extracted = Inr extracted"
| "add_groups ((paramName, v) # gs) extracted =
     (if extracted paramName \<noteq> None then Inl (PlainError ''Duplicate parameter'')
      else add_groups gs (extracted(paramName \<mapsto> v)))"

definition check_match ::
  "http_env \<Rightarrow> jsstring \<Rightarrow> response_match \<Rightarrow> (jsstring \<rightharpoonup> jsstring option) \<Rightarrow> js_error + (jsstring \<rightharpoonup> jsstring option)"
where
  "check_match E resStr rm extracted =
     (if rm_type rm = js ''regex'' then
        bindR (env_regex E (rm_value rm) resStr) (\<lambda>regexRes.
          if (regexRes \<noteq> None) = rm_invert rm then Inl (PlainError ''Invalid receipt. Regex'')
          else
            (case regexRes of
               None \<Rightarrow> Inr extracted
             | Some m \<Rightarrow> add_groups (case m_groups m of None \<Rightarrow> [] | Some g \<Rightarrow> g) extracted))
      else if rm_type rm = js ''contains'' then
        (if js_includes resStr (rm_value rm) = rm_invert rm then Inl (PlainError ''Invalid receipt. Response'')
         else Inr extracted)
      else Inl (PlainError ''Invalid response match type''))"

fun check_matches ::
  "http_env \<Rightarrow> jsstring \<Rightarrow> response_match list \<Rightarrow> (jsstring \<rightharpoonup> jsstring option) \<Rightarrow> js_error + (jsstring \<rightharpoonup> jsstring option)"
where
  "check_matches E resStr [] extracted = Inr extracted"
| "check_matches E resStr (rm # rms) extracted =
     bindR (check_match E resStr rm extracted) (check_matches E resStr rms)"

text \<open>The text of the response that the matches run on.\<close>

definition matched_text ::
  "http_env \<Rightarrow> int \<Rightarrow> bool \<Rightarrow> jsstring \<Rightarrow> js_error + jsstring" where
  "matched_text E version hasSecrets resStr =
     bindR (env_regex E OK_REGEX resStr) (\<lambda>ok.
     if ok = None then status_error E resStr
     else
       (let bodyStart = (if shouldRevealCrlf version
                         then js_indexOf_from resStr (js_CRLF @ js_CRLF) (length OK_HTTP_HEADER) + 4
                         else int (length OK_HTTP_HEADER))
        in if shouldRevealCrlf version \<and> bodyStart < 4 then Inl (PlainError ''Response body start not found'')
           else Inr (if hasSecrets then resStr else strip_stars (js_slice_from resStr bodyStart))))"

definition server_text :: "bytes Transcript \<Rightarrow> js_error + jsstring" where
  "server_text receipt =
     bindR (concatArrays (filter (\<lambda>b. \<not> isFullyRedacted b) (map snd (filter (\<lambda>s. fst s = Server) receipt))))
       (\<lambda>response. Inr (text_decode response))"

text \<open>
  \<open>secretParams\<close> is there when the client checks its own receipt; the attestor has none. The result
  is \<open>extractedParameters\<close>.
\<close>

definition assertValidProviderReceipt ::
  "http_env \<Rightarrow> bytes Transcript \<Rightarrow> HttpProviderParameters \<Rightarrow> HttpProviderSecretParameters option \<Rightarrow> int
   \<Rightarrow> js_error + (jsstring \<rightharpoonup> jsstring option)" where
  "assertValidProviderReceipt E receipt paramsAny secretParams version =
     (let L = env_tls E in
      bindR (substituteParamValues (env_url E) paramsAny secretParams (secretParams = None)) (\<lambda>sub.
      let params = newParams sub in
      bindR (getHttpRequestDataFromTranscript L receipt) (\<lambda>req.
      if req_method req \<noteq> js_toLowerCase (hp_method params) then Inl (PlainError ''Invalid method'')
      else
        bindR (new_URL (env_url E) (hp_url params)) (\<lambda>u.
        if url_protocol u \<noteq> js ''https:'' then Inl (PlainError ''Expected protocol: https'')
        else if \<not> matchRedactedStrings (strToUint8Array L (expected_path u (hp_url params)))
                    (Some (strToUint8Array L (req_url req)))
        then Inl (PlainError ''Expected path'')
        else if \<not> header_is req (js ''host'') (getHostHeaderString u) then Inl (PlainError ''Expected host'')
        else if \<not> header_is req (js ''connection'') (js ''close'')
        then Inl (PlainError ''Connection header must be close'')
        else
          bindR (server_text receipt) (\<lambda>resStr.
          bindR (matched_text E version (secretParams \<noteq> None) resStr) (\<lambda>matchText.
          let paramBody = body_bytes L (hp_body params) in
          if paramBody \<noteq> [] \<and> \<not> matchRedactedStrings paramBody (req_body req)
          then Inl (PlainError ''request body mismatch'')
          else check_matches E matchText (case hp_responseMatches params of None \<Rightarrow> [] | Some ms \<Rightarrow> ms)
                 (\<lambda>k. map_option Some (sub_extractedValues sub k))))))))"

subsection \<open>The secret headers in the request\<close>

lemma js_join_append:
  "xs \<noteq> [] \<Longrightarrow> ys \<noteq> [] \<Longrightarrow> js_join sep (xs @ ys) = js_join sep xs @ sep @ js_join sep ys"
proof (induction xs rule: induct_list012)
  case (2 x)
  then show ?case by (cases ys) auto
qed auto

text \<open>The secret headers stand between two line ends in the header text.\<close>

lemma header_text_secret:
  assumes "sec \<noteq> []"
  shows "\<exists>pre. request_header_text params u n pub sec = pre @ [13, 10] @ js_join js_CRLF (buildHeaders sec) @ [13, 10, 13, 10]"
proof -
  let ?head = "[request_line params u, js ''Host: '' @ getHostHeaderString u,
         js ''Content-Length: '' @ nat_to_js n, js ''Connection: close'', js ''Accept-Encoding: identity''] @ buildHeaders pub"
  have s: "buildHeaders sec \<noteq> []" using assms by (simp add: buildHeaders_def)
  have "request_header_text params u n pub sec = js_join js_CRLF (?head @ (buildHeaders sec @ [js_CRLF]))"
    by (simp add: request_header_text_def)
  also have "\<dots> = js_join js_CRLF ?head @ js_CRLF @ js_join js_CRLF (buildHeaders sec @ [js_CRLF])"
    by (rule js_join_append) simp_all
  also have "js_join js_CRLF (buildHeaders sec @ [js_CRLF]) = js_join js_CRLF (buildHeaders sec) @ js_CRLF @ js_CRLF"
    using js_join_append[OF s, of "[js_CRLF]"] by simp
  finally show ?thesis by (intro exI[of _ "js_join js_CRLF ?head"]) simp
qed

lemma encode_between_lines:
  "text_encode (pre @ [13, 10] @ s @ [13, 10, 13, 10]) =
     text_encode (pre @ [13, 10]) @ text_encode s @ text_encode [13, 10, 13, 10]"
proof -
  have "text_encode ((pre @ [13, 10]) @ (s @ [13, 10, 13, 10])) =
      text_encode (pre @ [13, 10]) @ text_encode (s @ [13, 10, 13, 10])"
    by (rule text_encode_append) simp
  moreover have "text_encode (s @ [13, 10, 13, 10]) = text_encode s @ text_encode [13, 10, 13, 10]"
    by (rule text_encode_append) simp
  ultimately show ?thesis by simp
qed

text \<open>\<open>secHeadersStr\<close>\<close>

definition secret_text :: "HttpProviderSecretParameters \<Rightarrow> jsstring" where
  "secret_text sp = js_join js_CRLF (buildHeaders (secret_headers sp))"

text \<open>The index found for the secret headers is an occurrence of their encoding.\<close>

lemma token_start:
  assumes L: "tls_bytes_spec (env_tls E)" and run: "createRequest E sp params = Inr r"
  shows "\<exists>sub pre post n. substituteParamValues (env_url E) params (Some sp) False = Inr sub
     \<and> cr_data r = pre @ text_encode (secret_text sp) @ post
     \<and> set (cr_redactions r) =
         insert (plain_range (int (length pre)) (int (length pre) + int (length (secret_text sp))))
           (set (hidden_ranges n (hiddenBodyParts sub)) \<union> set (hidden_ranges 0 (hiddenURLParts sub)))"
proof -
  let ?s = "js_join js_CRLF (buildHeaders (secret_headers sp))"
  have st: "secret_text sp = ?s" by (simp add: secret_text_def)
  let ?needle = "text_encode ?s"
  obtain sub u where run': "substituteParamValues (env_url E) params (Some sp) False = Inr sub"
    "new_URL (env_url E) (hp_url (newParams sub)) = Inr u"
    using run by (auto simp: createRequest_def Let_def bindR_Inr_iff split: if_splits)
  let ?body = "body_bytes (env_tls E) (hp_body (newParams sub))"
  let ?header = "request_header_text (newParams sub) u (length ?body) (public_headers params (secret_headers sp)) (secret_headers sp)"
  have data: "cr_data r = text_encode ?header @ ?body"
    and reds: "cr_redactions r = js_sort_on toIndex
       ([plain_range (findIndexInUint8Array (env_tls E) (cr_data r) ?needle)
          (findIndexInUint8Array (env_tls E) (cr_data r) ?needle + int (length ?s))]
        @ hidden_ranges (int (length (text_encode ?header))) (hiddenBodyParts sub)
        @ hidden_ranges 0 (hiddenURLParts sub))"
    using run run' by (auto simp: createRequest_def Let_def tls_bytes_specD[OF L] split: if_splits)
  have "\<exists>i < length (cr_data r). occurs_at (cr_data r) ?needle i"
  proof (cases "secret_headers sp")
    case Nil
    have "0 < length ?header" by (simp add: request_header_text_def)
    then have "0 < length (text_encode ?header)" using length_text_encode(1)[of ?header] by linarith
    then have "cr_data r \<noteq> []" using data by auto
    then show ?thesis using Nil by (intro exI[of _ 0]) (simp add: occurs_at_def text_encode_def buildHeaders_def)
  next
    case (Cons h hs)
    then have "secret_headers sp \<noteq> []" by simp
    from header_text_secret[OF this] obtain pre where "?header = pre @ [13, 10] @ ?s @ [13, 10, 13, 10]" by blast
    then have "cr_data r = text_encode (pre @ [13, 10]) @ ?needle @ text_encode [13, 10, 13, 10] @ ?body"
      using data encode_between_lines by simp
    moreover have "text_encode [13, 10, 13, 10] \<noteq> []" by (simp add: text_encode_def utf8_of_point_def)
    ultimately show ?thesis
      by (intro exI[of _ "length (text_encode (pre @ [13, 10]))"]) (simp add: occurs_at_def)
  qed
  then obtain i where i: "findIndexInUint8Array (env_tls E) (cr_data r) ?needle = int i"
    using findIndex_None[OF L] by (metis findIndex_cases)
  then have "i < length (cr_data r)" "occurs_at (cr_data r) ?needle i" using findIndex_Some[OF L] by auto
  then have "cr_data r = take i (cr_data r) @ ?needle @ drop (length ?needle) (drop i (cr_data r))"
    unfolding occurs_at_def by (metis append_take_drop_id)
  moreover have "int (length (take i (cr_data r))) = int i" using \<open>i < length (cr_data r)\<close> by simp
  ultimately show ?thesis using run' i unfolding reds set_sort st
    by (intro exI[of _ sub] exI[of _ "take i (cr_data r)"]
        exI[of _ "drop (length ?needle) (drop i (cr_data r))"] exI[of _ "int (length (text_encode ?header))"])
      (simp add: insert_is_Un[symmetric])
qed

lemma template_at_None: "123 \<notin> set s \<Longrightarrow> template_at s = None"
proof -
  assume "123 \<notin> set s"
  then have "take 2 s \<noteq> [123, 123]" by (metis in_set_takeD list.set_intros(1))
  then show ?thesis by (simp add: template_at_def)
qed

lemma replace_templates_plain: "123 \<notin> set s \<Longrightarrow> replace_templates f off s st = Inr (s, st)"
proof (induction s arbitrary: off)
  case (Cons c s)
  then show ?case using template_at_None[of "c # s"] by (subst replace_templates.simps) simp
qed (simp add: replace_templates.simps)

lemma extract_plain:
  "s \<noteq> [] \<Longrightarrow> 123 \<notin> set s \<Longrightarrow> extractAndReplaceTemplateValues pub sp ign (Some s) =
     Inr (Some \<lparr>newParam = s, extractedValues = Map.empty, hiddenParts = []\<rparr>)"
  by (simp add: extractAndReplaceTemplateValues_def replace_templates_plain)

subsection \<open>An example\<close>

definition example_url :: URL where
  "example_url = \<lparr>url_protocol = js ''https:'', url_hostname = js ''h'', url_port = [], url_host = js ''h'',
     url_pathname = js ''/a''\<rparr>"

definition example_env :: http_env where
  "example_env = \<lparr>env_tls = tls_ref, env_url = (\<lambda>_. Some example_url), env_xpath = (\<lambda>_ _. []),
     env_json = \<lparr>JSON_parse = \<lambda>_. None, JSON_stringify = \<lambda>_. []\<rparr>,
     env_json_path = \<lparr>JSON_path = \<lambda>_ _. None, parse_tree = \<lambda>_. Inl (JsSyntaxError [])\<rparr>,
     env_regex = (\<lambda>p s. Inr (Some \<lparr>m_index = 0, m_lastIndex = 1, m_text = take 1 s, m_captures = [], m_groups = None\<rparr>))\<rparr>"

definition example_params :: HttpProviderParameters where
  "example_params = \<lparr>hp_url = js ''https://h/a'', hp_method = js ''GET'', hp_geoLocation = None, hp_headers = None,
     hp_body = None, hp_writeRedactionMode = None, hp_additionalClientOptions = None,
     hp_responseMatches = Some [\<lparr>rm_value = js ''ok'', rm_type = js ''contains'', rm_invert = False\<rparr>],
     hp_responseRedactions = Some [\<lparr>rr_xPath = None, rr_jsonPath = None, rr_regex = Some (js ''o''), rr_hash = False\<rparr>],
     hp_paramValues = None\<rparr>"

definition example_secret :: "jsstring \<Rightarrow> HttpProviderSecretParameters" where
  "example_secret c = \<lparr>sp_cookieStr = Some c, sp_authorisationHeader = None, sp_headers = None, sp_paramValues = None\<rparr>"

lemma example_substitution:
  "substituteParamValues U example_params sp ign =
     Inr \<lparr>newParams = example_params, sub_extractedValues = Map.empty, hiddenBodyParts = [], hiddenURLParts = []\<rparr>"
proof -
  have e: "extractAndReplaceTemplateValues pub q i (Some (js ''https://h/a'')) =
      Inr (Some \<lparr>newParam = js ''https://h/a'', extractedValues = Map.empty, hiddenParts = []\<rparr>)"
    "extractAndReplaceTemplateValues pub q i (Some (js ''ok'')) =
      Inr (Some \<lparr>newParam = js ''ok'', extractedValues = Map.empty, hiddenParts = []\<rparr>)"
    "extractAndReplaceTemplateValues pub q i (Some (js ''o'')) =
      Inr (Some \<lparr>newParam = js ''o'', extractedValues = Map.empty, hiddenParts = []\<rparr>)" for pub q i
    by (rule extract_plain; simp add: js_def)+
  have n: "js ''ok'' \<noteq> []" "js ''o'' \<noteq> []" by (simp_all add: js_def)
  have g: "extractAndReplaceTemplateValues pub q i None = Inr None" for pub q i
    by (simp add: extractAndReplaceTemplateValues_def)
  show ?thesis
    by (simp add: substituteParamValues_def example_params_def e n g substitute_url_def extracted_of_def
        substitute_redaction_def substitute_opt_def Let_def)
qed

lemma example_request: "\<exists>r. createRequest example_env (example_secret (c # cs)) example_params = Inr r"
  by (simp add: createRequest_def example_secret_def example_substitution example_env_def new_URL_def Let_def)

lemma example_secret_text: "c \<noteq> [] \<Longrightarrow> secret_text (example_secret c) = js ''Cookie: '' @ c"
  by (simp add: secret_text_def secret_headers_def example_secret_def buildHeaders_def js_def)

definition ok_response :: bytes where
  "ok_response = ascii ''HTTP/1.1 200 N'' @ CRLF @ CRLF @ ascii ''ok''"

lemma ok_parse:
  obtains r where "parseHttpResponse tls_ref ok_response = Inr r" "body r = [111, 107]"
    "bodyStartIndex r = Some 18" "chunks r = None" "headerIndices r = Map.empty" "statusCode r = Num 200"
    "statusLineEndIndex r = Some 14" "headerEndIdx r = 14"
proof -
  have "\<exists>r. parseHttpResponse tls_ref ok_response = Inr r \<and> body r = [111, 107]
      \<and> bodyStartIndex r = Some 18 \<and> chunks r = None \<and> headerIndices r = Map.empty \<and> statusCode r = Num 200
      \<and> statusLineEndIndex r = Some 14 \<and> headerEndIdx r = 14"
    by (simp add: parseHttpResponse_def onChunk_def makeHttpResponseParser_def ok_response_def
        ascii_def parser_eval)
  then show ?thesis using that by blast
qed

text \<open>A receipt for it.\<close>

definition ok_request :: bytes where
  "ok_request = ascii ''GET /a HTTP/1.1'' @ CRLF @ ascii ''Host: h'' @ CRLF @ ascii ''Connection: close'' @ CRLF @ CRLF"

definition ok_receipt :: "bytes Transcript" where
  "ok_receipt = [(Client, ok_request), (Server, ok_response)]"

lemma ok_request_parsed:
  "\<exists>req. getHttpRequestDataFromTranscript tls_ref ok_receipt = Inr req \<and> req_method req = js ''get''
     \<and> req_url req = js ''/a'' \<and> req_headers req = [js ''host'' \<mapsto> HStr (js ''h''), js ''connection'' \<mapsto> HStr (js ''close'')]"
  by (simp add: getHttpRequestDataFromTranscript_def ok_receipt_def ok_request_def ascii_def request_loop.simps
      take_line_eval[OF tls_ref_spec] text_decode_ascii ascii_bytes_def js_get_def REDACTION_CHAR_CODE_def
      match_request_line_def request_line_at_def js_def is_word_char_def is_digit_def is_line_term_def
      request_header_def js_indexOf_def is_prefix_def js_slices js_trim_def js_toLowerCase_def lower_char_def is_space_def)


subsection \<open>Properties\<close>

text \<open>When the secret headers are ASCII, one redaction of the request covers exactly their text.\<close>

theorem secret_headers_redacted:
  assumes "tls_bytes_spec (env_tls E)" and "createRequest E sp params = Inr r" and "ascii_string (secret_text sp)"
  shows "\<exists>s \<in> set (cr_redactions r). 0 \<le> fromIndex s
     \<and> js_slice (cr_data r) (fromIndex s) (toIndex s) = text_encode (secret_text sp)"
proof -
  obtain sub pre post n where t: "cr_data r = pre @ text_encode (secret_text sp) @ post"
    "plain_range (int (length pre)) (int (length pre) + int (length (secret_text sp))) \<in> set (cr_redactions r)"
    using token_start[OF assms(1,2)] by blast
  have "length (text_encode (secret_text sp)) = length (secret_text sp)"
    using text_encode_ascii[OF assms(3)] by simp
  then show ?thesis using t
    by (intro bexI[OF _ t(2)]) (simp add: plain_range_def js_slices nat_add_distrib)
qed

theorem secret_headers_redacted_witness:
  "\<exists>r. \<exists>s \<in> set (cr_redactions r). createRequest example_env (example_secret (js ''k'')) example_params = Inr r
     \<and> js_slice (cr_data r) (fromIndex s) (toIndex s) = text_encode (js ''Cookie: k'')"
proof -
  have k: "js ''k'' = 107 # []" by (simp add: js_def)
  obtain r where r: "createRequest example_env (example_secret (js ''k'')) example_params = Inr r"
    unfolding k using example_request by blast
  have t: "secret_text (example_secret (js ''k'')) = js ''Cookie: k''"
    by (simp add: example_secret_text k) (simp add: js_def)
  have "tls_bytes_spec (env_tls example_env)" by (simp add: example_env_def tls_ref_spec)
  from secret_headers_redacted[OF this r] t show ?thesis
    using r by (auto simp: ascii_string_def js_def)
qed

text \<open>When they are not ASCII the redaction is too short: its length is the number of UTF-16 units,
  the text sent is longer, and the rest of it stays readable in the redacted request.\<close>

theorem non_ascii_secret_exposed:
  assumes "tls_bytes_spec (env_tls E)" and "createRequest E sp params = Inr r" and "\<not> ascii_string (secret_text sp)"
    and "substituteParamValues (env_url E) params (Some sp) False = Inr sub"
    and "hiddenBodyParts sub = []" and "hiddenURLParts sub = []"
  shows "\<exists>pre post. cr_data r = pre @ text_encode (secret_text sp) @ post
     \<and> length (secret_text sp) < length (text_encode (secret_text sp))
     \<and> (\<forall>i. length (secret_text sp) \<le> i \<and> i < length (text_encode (secret_text sp)) \<longrightarrow>
          redactSlices (cr_data r) (cr_redactions r) ! (length pre + i) = text_encode (secret_text sp) ! i)"
proof -
  obtain pre post n where t: "cr_data r = pre @ text_encode (secret_text sp) @ post"
    "set (cr_redactions r) = {plain_range (int (length pre)) (int (length pre) + int (length (secret_text sp)))}"
    using token_start[OF assms(1,2)] assms(4-6) by (auto simp: hidden_ranges_def)
  have "redactSlices (cr_data r) (cr_redactions r) ! (length pre + i) = text_encode (secret_text sp) ! i"
    if "length (secret_text sp) \<le> i" "i < length (text_encode (secret_text sp))" for i
  proof -
    have "length pre + i < length (cr_data r)" using t(1) that by simp
    then show ?thesis using t that by (simp add: redactSlices_nth plain_range_def nth_append)
  qed
  then show ?thesis using t(1) length_text_encode(2)[OF assms(3)] by blast
qed

theorem non_ascii_secret_exposed_witness:
  "\<exists>r pre post. createRequest example_env (example_secret [233]) example_params = Inr r
     \<and> cr_data r = pre @ text_encode (js ''Cookie: '' @ [233]) @ post
     \<and> redactSlices (cr_data r) (cr_redactions r) ! (length pre + 9) = 0xA9"
proof -
  obtain r where r: "createRequest example_env (example_secret [233]) example_params = Inr r"
    using example_request by blast
  have t: "secret_text (example_secret [233]) = js ''Cookie: '' @ [233]" by (simp add: example_secret_text)
  have enc: "text_encode (js ''Cookie: '' @ [233]) = ascii ''Cookie: '' @ [0xC3, 0xA9]"
    by (simp add: text_encode_def js_def ascii_def utf8_of_point_def)
  have "tls_bytes_spec (env_tls example_env)" by (simp add: example_env_def tls_ref_spec)
  moreover have "\<not> ascii_string (js ''Cookie: '' @ [233])" by (simp add: ascii_string_def js_def)
  ultimately obtain pre post where "cr_data r = pre @ text_encode (js ''Cookie: '' @ [233]) @ post"
    "\<forall>i. length (js ''Cookie: '' @ [233 :: 16 word]) \<le> i \<and> i < length (text_encode (js ''Cookie: '' @ [233])) \<longrightarrow>
      redactSlices (cr_data r) (cr_redactions r) ! (length pre + i) = text_encode (js ''Cookie: '' @ [233]) ! i"
    using non_ascii_secret_exposed[OF _ r _ example_substitution] unfolding t by fastforce
  then show ?thesis using r enc by (intro exI[of _ r] exI[of _ pre] exI[of _ post]) (simp add: ascii_def js_def)
qed


text \<open>C30: The client reveals only what was asked for: a byte of the response that no redaction covers
  belongs to the status line, the header separator, the \<open>Date\<close> header, or to an item requested by
  \<open>responseRedactions\<close> that is not to be hashed.\<close>

theorem only_requested_bytes_revealed:
  assumes "getResponseRedactions E response params version = Inr reds"
    and "hp_responseRedactions params = Some (rr # rrs)"
    and "0 \<le> p" and "p < int (length response)" and "\<not> in_slices reds p"
  shows "\<exists>r sub items. parseHttpResponse (env_tls E) response = Inr r
     \<and> substituteParamValues (env_url E) params None True = Inr sub
     \<and> requested_items E r (newParams sub) = Inr items
     \<and> (\<exists>reveal \<in> set (fixed_reveals r @ map fst items). \<not> oprf_hash reveal \<and> within reveal p)"
proof -
  obtain r sub items where r: "parseHttpResponse (env_tls E) response = Inr r"
    "substituteParamValues (env_url E) params None True = Inr sub"
    "requested_items E r (newParams sub) = Inr items"
    and reds: "reds = redactions_of_reveals (fixed_reveals r @ map fst items)
                  (map reveal_slice (concat (map snd items))) (int (length response))"
    using assms(1,2) by (auto simp: getResponseRedactions_def bindR_Inr_iff split: if_splits)
  have "1 < length (fixed_reveals r @ map fst items)" by (simp add: fixed_reveals_def)
  from redactions_cover[OF this assms(3,4)] assms(5) show ?thesis
    unfolding reds using r by blast
qed

theorem only_requested_bytes_revealed_witness:
  "\<exists>reds r. getResponseRedactions example_env ok_response example_params 4 = Inr reds
     \<and> \<not> in_slices reds 18 \<and> in_slices reds 19
     \<and> (\<exists>reveal \<in> set (fixed_reveals r @ [plain_slice 18 19]). \<not> oprf_hash reveal \<and> within reveal 18)"
proof -
  obtain r where r: "parseHttpResponse tls_ref ok_response = Inr r" "body r = [111, 107]"
    "bodyStartIndex r = Some 18" "chunks r = None" "headerIndices r = Map.empty" "statusCode r = Num 200"
    "statusLineEndIndex r = Some 14" "headerEndIdx r = 14" by (rule ok_parse)
  have items: "requested_items example_env r example_params = Inr [(plain_slice 18 19, [])]"
    using r by (simp add: requested_items_def example_params_def example_env_def concatR_def processRedactionRequest_def
        processRegexp_def addRedaction_def getReveal_def convertResponsePosToAbsolutePos_def
        getRedactionsForChunkHeaders_def binary_str_def js_def plain_slice_def)
  have sep: "js_slice ok_response 14 18 = text_encode (js_CRLF @ js_CRLF)"
    by (simp add: ok_response_def ascii_def js_slices text_encode_def utf8_of_point_def)
  have hr: "hp_responseRedactions example_params =
      Some [\<lparr>rr_xPath = None, rr_jsonPath = None, rr_regex = Some (js ''o''), rr_hash = False\<rparr>]"
    by (simp add: example_params_def)
  have "fixed_reveals r = [plain_slice 0 14, plain_slice 14 18]" using r by (simp add: fixed_reveals_def)
  moreover have "length ok_response = 20" by (simp add: ok_response_def ascii_def)
  ultimately have g: "redactions_of_reveals (fixed_reveals r @ [plain_slice 18 19]) [] (int (length ok_response))
      = [plain_slice 19 20]"
    by (simp add: redactions_of_reveals_def)
  have "env_tls example_env = tls_ref" by (simp add: example_env_def)
  then have reds: "getResponseRedactions example_env ok_response example_params 4 = Inr [plain_slice 19 20]"
    using r items sep g hr
    by (simp add: getResponseRedactions_def example_substitution status_class_def shouldRevealCrlf_def)
  have out: "\<not> in_slices [plain_slice 19 20] 18" by (simp add: within_def)
  have "18 < int (length ok_response)" by (simp add: ok_response_def ascii_def)
  have "0 \<le> (18 :: int)" by simp
  from only_requested_bytes_revealed[OF reds hr this \<open>18 < int (length ok_response)\<close> out]
  obtain r' sub items' where "parseHttpResponse (env_tls example_env) ok_response = Inr r'"
    "substituteParamValues (env_url example_env) example_params None True = Inr sub"
    "requested_items example_env r' (newParams sub) = Inr items'"
    "\<exists>reveal \<in> set (fixed_reveals r' @ map fst items'). \<not> oprf_hash reveal \<and> within reveal 18"
    by blast
  then have "\<exists>reveal \<in> set (fixed_reveals r @ [plain_slice 18 19]). \<not> oprf_hash reveal \<and> within reveal 18"
    using r items \<open>env_tls example_env = tls_ref\<close> by (auto simp: example_substitution)
  with reds show ?thesis by (intro exI[of _ "[plain_slice 19 20]"] exI[of _ r]) (simp add: within_def)
qed

text \<open>The example receipt passes the check of the example parameters, and of any that differ in the
  redactions of the response only.\<close>

lemma ok_receipt_supported:
  assumes sub: "substituteParamValues (env_url example_env) p sp (sp = None) =
      Inr \<lparr>newParams = p, sub_extractedValues = Map.empty, hiddenBodyParts = [], hiddenURLParts = []\<rparr>"
    and p: "p = example_params\<lparr>hp_responseRedactions := reds\<rparr>"
    and mt: "matched_text example_env v (sp \<noteq> None) (text_decode ok_response) = Inr txt" "js_includes txt (js ''ok'')"
  shows "assertValidProviderReceipt example_env ok_receipt p sp v = Inr Map.empty"
proof -
  obtain req where req: "getHttpRequestDataFromTranscript tls_ref ok_receipt = Inr req" "req_method req = js ''get''"
    "req_url req = js ''/a''" "req_headers req = [js ''host'' \<mapsto> HStr (js ''h''), js ''connection'' \<mapsto> HStr (js ''close'')]"
    using ok_request_parsed by blast
  have env: "env_tls example_env = tls_ref" "env_url example_env = (\<lambda>_. Some example_url)"
    by (simp_all add: example_env_def)
  have url: "url_protocol example_url = js ''https:''" "getHostHeaderString example_url = js ''h''"
    by (simp_all add: example_url_def getHostHeaderString_def)
  have fields: "hp_method p = js ''GET''" "hp_body p = None"
    "hp_responseMatches p = Some [\<lparr>rm_value = js ''ok'', rm_type = js ''contains'', rm_invert = False\<rparr>]"
    by (simp_all add: p example_params_def)
  have path: "expected_path example_url (hp_url p) = js ''/a''"
    by (simp add: p expected_path_def example_url_def example_params_def js_replaceAll_def replace_all_from.simps
        is_prefix_def query_suffix_def search_params_def js_includes_def js_def)
  have st: "server_text ok_receipt = Inr (text_decode ok_response)"
    by (simp add: server_text_def ok_receipt_def concatArrays_concat isFullyRedacted_def ok_response_def ascii_def
        REDACTION_CHAR_CODE_def)
  have low: "js ''get'' = js_toLowerCase (js ''GET'')" by (simp add: js_def js_toLowerCase_def lower_char_def)
  have hd: "header_is req (js ''host'') (js ''h'')" "header_is req (js ''connection'') (js ''close'')"
    using req(4) by (simp_all add: header_is_def js_def)
  have "js ''contains'' \<noteq> js ''regex''" by (simp add: js_def)
  then show ?thesis
    using req url path fields st mt low hd sub
    by (simp add: assertValidProviderReceipt_def env new_URL_def Let_def
        matchRedactedStrings_spec match_spec_refl body_bytes_def text_encode_def check_match_def)
qed

lemma ok_response_text: "text_decode ok_response = js ''HTTP/1.1 200 N'' @ js_CRLF @ js_CRLF @ js ''ok''"
  by (simp add: ok_response_def ascii_def js_def text_decode_ascii ascii_bytes_def)

lemma ok_receipt_accepted: "assertValidProviderReceipt example_env ok_receipt example_params None 3 = Inr Map.empty"
proof (rule ok_receipt_supported)
  show "matched_text example_env 3 (None \<noteq> None) (text_decode ok_response) = Inr (js '' N'' @ js_CRLF @ js_CRLF @ js ''ok'')"
    by (simp add: ok_response_text matched_text_def example_env_def shouldRevealCrlf_def ATTESTOR_VERSION_2_0_1_def OK_HTTP_HEADER_def
        js_def js_slices strip_stars.simps)
  show "js_includes (js '' N'' @ js_CRLF @ js_CRLF @ js ''ok'') (js ''ok'')"
    by (simp add: js_includes_def js_def is_prefix_def)
  show "example_params = example_params\<lparr>hp_responseRedactions := hp_responseRedactions example_params\<rparr>" by simp
qed (rule example_substitution)



end
