(* ===== verification/Signing.thy ===== *)
theory Signing
  imports Attestor_Error
begin

text \<open>
  Signatures and authentication: the ETH signature provider (\<open>src/utils/signatures/\<close>), the
  attestor's own key (\<open>signAsAttestor\<close>, \<open>getAttestorAddress\<close> of \<open>src/server/utils/generics.ts\<close>) and
  authentication requests (\<open>src/utils/auth.ts\<close>).

  The package \<open>ethers\<close> is the record \<open>eth_pkg\<close>; what the code relies on is \<open>eth_correct\<close>: the
  address recovered from a signature is the signer's. Environment variables and the clock are
  arguments.
\<close>

record eth_pkg =
  computePublicKey :: "jsstring \<Rightarrow> bytes"
  computeAddress :: "bytes \<Rightarrow> jsstring"
  signMessage :: "jsstring \<Rightarrow> bytes \<Rightarrow> bytes"
  verifyMessage :: "bytes \<Rightarrow> bytes \<Rightarrow> js_error + jsstring"
  arrayify :: "jsstring \<Rightarrow> js_error + bytes"

definition eth_correct :: "eth_pkg \<Rightarrow> jsstring \<Rightarrow> bool" where
  "eth_correct E k \<longleftrightarrow>
     (\<forall>data. \<exists>a. verifyMessage E data (signMessage E k data) = Inr a
        \<and> js_toLowerCase a = js_toLowerCase (computeAddress E (computePublicKey E k)))"

subsection \<open>The ETH provider\<close>

definition getPublicKey :: "eth_pkg \<Rightarrow> jsstring \<Rightarrow> bytes" where
  "getPublicKey E privateKey = computePublicKey E privateKey"

definition getAddress :: "eth_pkg \<Rightarrow> bytes \<Rightarrow> jsstring" where
  "getAddress E publicKey = js_toLowerCase (computeAddress E publicKey)"

definition sign_data :: "eth_pkg \<Rightarrow> bytes \<Rightarrow> jsstring \<Rightarrow> js_error + bytes" where
  "sign_data E data privateKey =
     (if privateKey = [] then Inl (PlainError ''Private key missing'') else Inr (signMessage E privateKey data))"

definition verify_signature :: "eth_pkg \<Rightarrow> bytes \<Rightarrow> bytes \<Rightarrow> jsstring \<Rightarrow> js_error + bool" where
  "verify_signature E data signature address =
     bindR (verifyMessage E data signature) (\<lambda>signerAddress.
       Inr (js_toLowerCase signerAddress = js_toLowerCase address))"

text \<open>The table \<open>SIGNATURES\<close> has one entry; a lookup that misses is \<open>undefined\<close>.\<close>

datatype ServiceSignatureType =
    SERVICE_SIGNATURE_TYPE_UNKNOWN
  | SERVICE_SIGNATURE_TYPE_ETH
  | SERVICE_SIGNATURE_TYPE_UNRECOGNIZED

definition SIGNATURES :: "eth_pkg \<Rightarrow> ServiceSignatureType \<Rightarrow> eth_pkg option" where
  "SIGNATURES E t = (if t = SERVICE_SIGNATURE_TYPE_ETH then Some E else None)"

definition SelectedServiceSignatureType :: ServiceSignatureType where
  "SelectedServiceSignatureType = SERVICE_SIGNATURE_TYPE_ETH"

definition signature_scheme :: "eth_pkg \<Rightarrow> ServiceSignatureType \<Rightarrow> js_error + eth_pkg" where
  "signature_scheme E t =
     (case SIGNATURES E t of None \<Rightarrow> Inl (JsTypeError ''undefined signature scheme'') | Some S \<Rightarrow> Inr S)"

lemma js_toLowerCase_idem [simp]: "js_toLowerCase (js_toLowerCase s) = js_toLowerCase s"
proof -
  have "lower_char (lower_char c) = lower_char c" for c
    by (simp add: lower_char_def word_le_nat_alt unat_word_ariths)
  then show ?thesis by (simp add: js_toLowerCase_def)
qed

lemma signed_data_verifies:
  assumes "eth_correct E k" and "sign_data E d k = Inr s"
  shows "verify_signature E d s (getAddress E (getPublicKey E k)) = Inr True"
proof -
  obtain a where "verifyMessage E d (signMessage E k d) = Inr a"
    "js_toLowerCase a = js_toLowerCase (computeAddress E (computePublicKey E k))"
    using assms(1) unfolding eth_correct_def by blast
  then show ?thesis using assms(2)
    by (simp add: verify_signature_def sign_data_def getAddress_def getPublicKey_def split: if_splits)
qed

subsection \<open>The attestor's key\<close>

definition signAsAttestor :: "eth_pkg \<Rightarrow> jsstring \<Rightarrow> bytes \<Rightarrow> ServiceSignatureType \<Rightarrow> js_error + bytes" where
  "signAsAttestor E PRIVATE_KEY data scheme =
     bindR (signature_scheme E scheme) (\<lambda>S. sign_data S data PRIVATE_KEY)"

definition getAttestorAddress :: "eth_pkg \<Rightarrow> jsstring \<Rightarrow> ServiceSignatureType \<Rightarrow> js_error + jsstring" where
  "getAttestorAddress E PRIVATE_KEY scheme =
     bindR (signature_scheme E scheme) (\<lambda>S. Inr (getAddress S (getPublicKey S PRIVATE_KEY)))"

subsection \<open>Authentication requests\<close>

record AuthenticatedUserData =
  ud_id :: jsstring
  createdAt :: int
  expiresAt :: int
  hostWhitelist :: "jsstring list"

record AuthenticationRequest =
  auth_data :: "AuthenticatedUserData option"
  auth_signature :: bytes

text \<open>
  \<open>AUTHENTICATION_PUBLIC_KEY\<close>, the clock in seconds and the encoding of the user data are arguments.
  An empty variable counts as not set.
\<close>

definition auth_failed :: "message \<Rightarrow> js_error" where
  "auth_failed m = throwAttestor ERROR_AUTHENTICATION_FAILED m"

definition assertValidAuthRequest ::
  "eth_pkg \<Rightarrow> (AuthenticatedUserData \<Rightarrow> bytes) \<Rightarrow> jsstring option \<Rightarrow> int \<Rightarrow> AuthenticationRequest option
   \<Rightarrow> ServiceSignatureType \<Rightarrow> js_error + unit" where
  "assertValidAuthRequest E encode publicKeyEnv now request signatureType =
     (let publicKey = (case publicKeyEnv of None \<Rightarrow> [] | Some k \<Rightarrow> k) in
      case request of
        None \<Rightarrow> if publicKey \<noteq> [] then Inl (auth_failed ''User must be authenticated'') else Inr ()
      | Some r \<Rightarrow>
          if publicKey = [] then Inl (throwBadRequest ''The attestor is not configured for authentication'')
          else
            (case auth_data r of
               None \<Rightarrow> Inl (auth_failed ''Missing data in auth request'')
             | Some d \<Rightarrow>
                 if expiresAt d < now then Inl (auth_failed ''Authentication request has expired'')
                 else
                   bindR (signature_scheme E signatureType) (\<lambda>S.
                   bindR (arrayify E publicKey) (\<lambda>pk.
                   bindR (verify_signature S (encode d) (auth_signature r) (getAddress S pk)) (\<lambda>verified.
                     if verified then Inr () else Inl (auth_failed ''Signature verification failed''))))))"

definition DEFAULT_AUTH_EXPIRY_S :: int where
  "DEFAULT_AUTH_EXPIRY_S = 15 * 60"

text \<open>The \<open>Partial<AuthenticatedUserData>\<close> spread over the defaults; \<open>None\<close> is an absent member.\<close>

record PartialUserData =
  p_id :: "jsstring option"
  p_createdAt :: "int option"
  p_expiresAt :: "int option"
  p_hostWhitelist :: "jsstring list option"

definition or_default :: "'a option \<Rightarrow> 'a \<Rightarrow> 'a" where
  "or_default x d = (case x of None \<Rightarrow> d | Some v \<Rightarrow> v)"

definition createAuthRequest ::
  "eth_pkg \<Rightarrow> (AuthenticatedUserData \<Rightarrow> bytes) \<Rightarrow> int \<Rightarrow> PartialUserData \<Rightarrow> jsstring \<Rightarrow> js_error + AuthenticationRequest" where
  "createAuthRequest E encode now p privateKey =
     (let data = \<lparr>ud_id = or_default (p_id p) [], createdAt = or_default (p_createdAt p) now,
                  expiresAt = or_default (p_expiresAt p) (now + DEFAULT_AUTH_EXPIRY_S),
                  hostWhitelist = or_default (p_hostWhitelist p) []\<rparr>
      in bindR (sign_data E (encode data) privateKey) (\<lambda>signature.
           Inr \<lparr>auth_data = Some data, auth_signature = signature\<rparr>))"

lemma accepted_auth:
  "assertValidAuthRequest E encode pk now (Some r) t = Inr () \<longleftrightarrow>
     (\<exists>k d S a. pk = Some k \<and> k \<noteq> [] \<and> auth_data r = Some d \<and> now \<le> expiresAt d \<and> SIGNATURES E t = Some S
        \<and> arrayify E k = Inr a \<and> verify_signature S (encode d) (auth_signature r) (getAddress S a) = Inr True)"
  by (auto simp: assertValidAuthRequest_def auth_failed_def signature_scheme_def bindR_Inr_iff Let_def
      split: option.splits if_splits)

text \<open>\<open>assertValidAuthRequest\<close> accepts in two cases only: no request at an attestor that has no
  authentication key, or, with a key, a request whose data has not expired and is signed by that key
  under a known scheme.\<close>

theorem auth_request_accepted_iff:
  "assertValidAuthRequest E encode pk now r t = Inr () \<longleftrightarrow>
     (case r of
        None \<Rightarrow> pk = None \<or> pk = Some []
      | Some q \<Rightarrow> \<exists>k d a. pk = Some k \<and> k \<noteq> [] \<and> auth_data q = Some d \<and> now \<le> expiresAt d
          \<and> t = SERVICE_SIGNATURE_TYPE_ETH \<and> arrayify E k = Inr a
          \<and> verify_signature E (encode d) (auth_signature q) (getAddress E a) = Inr True)"
proof (cases r)
  case None
  then show ?thesis by (auto simp: assertValidAuthRequest_def auth_failed_def Let_def split: option.splits)
next
  case (Some q)
  then show ?thesis by (auto simp: accepted_auth SIGNATURES_def)
qed

text \<open>A request made by \<open>createAuthRequest\<close> is accepted by \<open>assertValidAuthRequest\<close> at an attestor
  configured with the public key of the signer, until the moment it expires and not after it.\<close>

theorem auth_request_roundtrip:
  assumes "eth_correct E key" and "createAuthRequest E encode t0 p key = Inr r"
    and "pk \<noteq> []" and "arrayify E pk = Inr (getPublicKey E key)"
  shows "assertValidAuthRequest E encode (Some pk) now (Some r) SelectedServiceSignatureType = Inr ()
    \<longleftrightarrow> now \<le> or_default (p_expiresAt p) (t0 + DEFAULT_AUTH_EXPIRY_S)"
proof -
  obtain d where r: "auth_data r = Some d" "expiresAt d = or_default (p_expiresAt p) (t0 + DEFAULT_AUTH_EXPIRY_S)"
    "sign_data E (encode d) key = Inr (auth_signature r)"
    using assms(2) by (auto simp: createAuthRequest_def Let_def bindR_Inr_iff)
  then show ?thesis using signed_data_verifies[OF assms(1) r(3)] assms(3,4)
    by (simp add: accepted_auth SIGNATURES_def SelectedServiceSignatureType_def)
qed

text \<open>A toy signature scheme: keys are their own addresses and a signature is the key before the data.\<close>

definition eth_ref :: eth_pkg where
  "eth_ref = \<lparr>computePublicKey = text_encode, computeAddress = text_decode,
     signMessage = (\<lambda>k d. of_nat (length k) # text_encode k @ d),
     verifyMessage = (\<lambda>d s. case s of
         [] \<Rightarrow> Inl (PlainError ''invalid signature'')
       | n # s' \<Rightarrow> if drop (unat n) s' = d then Inr (text_decode (take (unat n) s')) else Inr []),
     arrayify = (\<lambda>k. Inr (text_encode k))\<rparr>"

lemma eth_ref_correct: "eth_correct eth_ref (js ''k'')"
  by (simp add: eth_correct_def eth_ref_def js_def text_encode_ascii ascii_string_def text_decode_ascii ascii_bytes_def)

theorem auth_request_roundtrip_witness:
  "\<exists>r. createAuthRequest eth_ref (\<lambda>d. text_encode (ud_id d)) 100 \<lparr>p_id = Some (js ''u''), p_createdAt = None,
        p_expiresAt = None, p_hostWhitelist = None\<rparr> (js ''k'') = Inr r
     \<and> assertValidAuthRequest eth_ref (\<lambda>d. text_encode (ud_id d)) (Some (js ''k'')) 1000 (Some r) SERVICE_SIGNATURE_TYPE_ETH = Inr ()
     \<and> assertValidAuthRequest eth_ref (\<lambda>d. text_encode (ud_id d)) (Some (js ''k'')) 1001 (Some r) SERVICE_SIGNATURE_TYPE_ETH \<noteq> Inr ()"
proof -
  let ?p = "\<lparr>p_id = Some (js ''u''), p_createdAt = None, p_expiresAt = None, p_hostWhitelist = None\<rparr>"
  have k: "js ''k'' \<noteq> []" "arrayify eth_ref (js ''k'') = Inr (getPublicKey eth_ref (js ''k''))"
    by (simp_all add: js_def eth_ref_def getPublicKey_def)
  obtain r where r: "createAuthRequest eth_ref (\<lambda>d. text_encode (ud_id d)) 100 ?p (js ''k'') = Inr r"
    using k by (auto simp: createAuthRequest_def sign_data_def Let_def)
  show ?thesis
    using r auth_request_roundtrip[OF eth_ref_correct r k, of 1000] auth_request_roundtrip[OF eth_ref_correct r k, of 1001]
    by (intro exI[of _ r]) (simp add: or_default_def DEFAULT_AUTH_EXPIRY_S_def SelectedServiceSignatureType_def)
qed

end
