(* ===== verification/Zk.thy ===== *)
theory Zk
  imports Redactions
begin

text \<open>
  Zero-knowledge reveals (\<open>src/utils/zk.ts\<close>): cutting a packet into chunks to prove
  (\<open>addPacketToProve\<close>, the state of \<open>makeZkProofGenerator\<close>), generating the proofs, and
  \<open>verifyZkPacket\<close>, by which the attestor rebuilds the redacted plaintext from proofs.

  The package \<open>@reclaimprotocol/zk-symmetric-crypto\<close> is the record \<open>zk_lib\<close>: its sizes, its
  prover and its verifier. Proofs are verified and generated concurrently; the order in which
  they complete is an argument.
\<close>

record zk_proof_input =
  zi_key :: bytes
  zi_ciphertext :: bytes
  zi_iv :: bytes
  zi_offsetBytes :: int
  zi_toprf :: "TOPRFProofParams option"

record zk_verify_input =
  vi_algorithm :: EncryptionAlgorithm
  vi_proofData :: bytes
  vi_plaintext :: bytes
  vi_ciphertext :: bytes
  vi_iv :: bytes
  vi_offsetBytes :: int
  vi_toprf :: "TOPRFProofParams option"

record zk_lib =
  ZK_chunkSize :: "EncryptionAlgorithm \<Rightarrow> int"
  ZK_bitsPerWord :: "EncryptionAlgorithm \<Rightarrow> int"
  getBlockSizeBytes :: "EncryptionAlgorithm \<Rightarrow> int"
  generateIV :: "bytes \<Rightarrow> int \<Rightarrow> bytes"
  generateProof :: "EncryptionAlgorithm \<Rightarrow> zk_proof_input \<Rightarrow> js_error + bytes \<times> bytes"
  verifyProof :: "zk_verify_input \<Rightarrow> js_error + unit"

text \<open>The chunk size of the circuit in bytes.\<close>

definition getChunkSizeBytes :: "zk_lib \<Rightarrow> EncryptionAlgorithm \<Rightarrow> int" where
  "getChunkSizeBytes Z alg = ZK_chunkSize Z alg * ZK_bitsPerWord Z alg div 8"

text \<open>A proof as it is sent. \<open>proofJson\<close> is the older form of \<open>proofData\<close>.\<close>

record ZKProof =
  proofJson :: jsstring
  proofData :: bytes
  zp_toprf :: "TOPRFProofParams option"
  decryptedRedactedCiphertext :: bytes
  zp_redactedPlaintext :: bytes
  startIdx :: int

record ZKProofToGenerate =
  gen_startIdx :: int
  gen_redactedPlaintext :: bytes
  gen_key :: bytes
  gen_ciphertext :: bytes
  gen_iv :: bytes
  gen_toprf :: "TOPRFProofParams option"

record ZKPacketToProve =
  pp_algorithm :: EncryptionAlgorithm
  proofsToGenerate :: "ZKProofToGenerate list"
  pp_iv :: bytes

record proof_generator =
  packetsToProve :: "ZKPacketToProve list"
  zkProofsToGen :: nat

subsection \<open>Cutting a packet\<close>

text \<open>Ciphertext bytes are starred where the plaintext is: what the circuit decrypts.\<close>

definition redact_ciphertext :: "bytes \<Rightarrow> bytes \<Rightarrow> bytes" where
  "redact_ciphertext plaintextChunk ciphertextChunk =
     map (\<lambda>i. if js_get plaintextChunk (int i) = Some REDACTION_CHAR_CODE then REDACTION_CHAR_CODE
              else ciphertextChunk ! i) [0..<length ciphertextChunk]"

definition getProofGenerationParamsForSlice ::
  "bytes \<Rightarrow> bytes \<Rightarrow> bytes \<Rightarrow> bytes \<Rightarrow> ArraySlice \<Rightarrow> TOPRFProofParams option \<Rightarrow> ZKProofToGenerate option" where
  "getProofGenerationParamsForSlice key iv ciphertext redactedPlaintext sl toprf =
     (let ciphertextChunk = js_slice ciphertext (fromIndex sl) (toIndex sl);
          plaintextChunk = js_slice redactedPlaintext (fromIndex sl) (toIndex sl)
      in if isFullyRedacted plaintextChunk then None
         else Some \<lparr>gen_startIdx = fromIndex sl, gen_redactedPlaintext = plaintextChunk, gen_key = key,
                    gen_ciphertext = redact_ciphertext plaintextChunk ciphertextChunk, gen_iv = iv,
                    gen_toprf = toprf\<rparr>)"

text \<open>The slices of the loop \<open>for(i = fromIndex; i < toIndex; i += chunkSizeBytes)\<close>; a chunk size is positive.\<close>

function chunk_slices :: "int \<Rightarrow> int \<Rightarrow> int \<Rightarrow> ArraySlice list" where
  "chunk_slices cs from to =
     (if from < to \<and> 0 < cs then \<lparr>fromIndex = from, toIndex = min (from + cs) to\<rparr> # chunk_slices cs (from + cs) to
      else [])"
  by pat_completeness auto
termination
  by (relation "measure (\<lambda>(cs, from, to). nat (to - from))") auto

declare chunk_slices.simps [simp del]

record packet_state =
  slicesDone :: "ArraySlice list"
  gens :: "ZKProofToGenerate list"

definition addProofsToGenerate ::
  "int \<Rightarrow> bytes \<Rightarrow> bytes \<Rightarrow> bytes \<Rightarrow> bytes \<Rightarrow> ArraySlice \<Rightarrow> TOPRFProofParams option \<Rightarrow> packet_state \<Rightarrow> packet_state" where
  "addProofsToGenerate chunkSizeBytes key iv ciphertext redactedPlaintext sl toprf st =
     (let slices = chunk_slices chunkSizeBytes (fromIndex sl) (toIndex sl) in
      st\<lparr>slicesDone := slicesDone st @ slices,
         gens := gens st @ List.map_filter
           (\<lambda>s. getProofGenerationParamsForSlice key iv ciphertext redactedPlaintext s toprf) slices\<rparr>)"

definition overlaps :: "ArraySlice \<Rightarrow> ArraySlice \<Rightarrow> bool" where
  "overlaps a b \<longleftrightarrow> fromIndex a < toIndex b \<and> fromIndex b < toIndex a"

text \<open>\<open>getIdealOffsetForToprfBlock\<close>, with \<open>Math.floor\<close> and \<open>Math.ceil\<close> of the quotients.\<close>

definition getIdealOffsetForToprfBlock :: "zk_lib \<Rightarrow> EncryptionAlgorithm \<Rightarrow> TOPRFProofParams \<Rightarrow> js_error + int" where
  "getIdealOffsetForToprfBlock Z alg toprf =
     (if dataLocation toprf = None then Inl no_location
      else let chunkSizeBytes = getChunkSizeBytes Z alg;
          offsetChunks = loc_fromIndex toprf div chunkSizeBytes;
          endOffsetChunks = (loc_fromIndex toprf + loc_length toprf) div chunkSizeBytes
      in if endOffsetChunks = offsetChunks then Inr (offsetChunks * chunkSizeBytes)
         else
           (let blockSizeBytes = getBlockSizeBytes Z alg;
                offsetBytes = loc_fromIndex toprf div blockSizeBytes * blockSizeBytes;
                endOffsetBytes = - ((- (loc_fromIndex toprf + loc_length toprf)) div blockSizeBytes)
            in if endOffsetBytes - offsetBytes > chunkSizeBytes
               then Inl (throwAttestor ERROR_BAD_REQUEST ''OPRF data cannot fit into a single chunk'')
               else Inr offsetBytes))"

text \<open>One pass of the loop over the TOPRF claims.\<close>

definition addToprf ::
  "zk_lib \<Rightarrow> EncryptionAlgorithm \<Rightarrow> bytes \<Rightarrow> bytes \<Rightarrow> bytes \<Rightarrow> bytes \<Rightarrow> packet_state \<Rightarrow> TOPRFProofParams
   \<Rightarrow> js_error + packet_state" where
  "addToprf Z alg key iv ciphertext redactedPlaintext st toprf =
     (if dataLocation toprf = None then Inl no_location
      else if loc_fromIndex toprf + loc_length toprf > int (length ciphertext)
      then Inl (throwAttestor ERROR_TOPRF_OUT_OF_BOUNDS ''OPRF data spread across multiple chunks'')
      else
        bindR (getIdealOffsetForToprfBlock Z alg toprf) (\<lambda>from.
        let sl = \<lparr>fromIndex = from, toIndex = min (from + getChunkSizeBytes Z alg) (int (length ciphertext))\<rparr> in
        if list_ex (overlaps sl) (slicesDone st)
        then Inl (throwAttestor ERROR_BAD_REQUEST ''Single chunk has multiple OPRFs'')
        else Inr (addProofsToGenerate (getChunkSizeBytes Z alg) key iv ciphertext redactedPlaintext sl
                    (Some (toprf\<lparr>dataLocation := map_option (\<lambda>d. d\<lparr>ds_fromIndex := ds_fromIndex d - from\<rparr>) (dataLocation toprf)\<rparr>)) st)))"

fun foldR :: "('s \<Rightarrow> 'a \<Rightarrow> 'e + 's) \<Rightarrow> 's \<Rightarrow> 'a list \<Rightarrow> 'e + 's" where
  "foldR f s [] = Inr s"
| "foldR f s (x # xs) = bindR (f s x) (\<lambda>s'. foldR f s' xs)"

text \<open>The sections between the slices already done.\<close>

fun fill_gaps ::
  "(ArraySlice \<Rightarrow> packet_state \<Rightarrow> packet_state) \<Rightarrow> int \<Rightarrow> ArraySlice list \<Rightarrow> int \<Rightarrow> packet_state \<Rightarrow> packet_state" where
  "fill_gaps add from [] len st = (if from < len then add \<lparr>fromIndex = from, toIndex = len\<rparr> st else st)"
| "fill_gaps add from (d # ds) len st =
     fill_gaps add (toIndex d) ds len
       (if from < fromIndex d then add \<lparr>fromIndex = from, toIndex = fromIndex d\<rparr> st else st)"

definition addPacketToProve ::
  "tls_pkg \<Rightarrow> zk_lib \<Rightarrow> jsstring \<Rightarrow> CompleteTLSPacket \<Rightarrow> bytes \<Rightarrow> TOPRFProofParams list \<Rightarrow> proof_generator
   \<Rightarrow> js_error + proof_generator" where
  "addPacketToProve L Z cipherSuite packet redactedPlaintext claims g =
     (if pkt_type packet = PlaintextPacket then Inl (PlainError ''Cannot generate proof for plaintext'')
      else
        bindR (getZkAlgorithmForCipherSuite cipherSuite) (\<lambda>alg.
        bindR (getPureCiphertext L (pkt_ciphertext packet) cipherSuite) (\<lambda>ciphertext.
        let key = pkt_encKey packet; iv = pkt_iv packet in
        bindR (foldR (addToprf Z alg key iv ciphertext redactedPlaintext) \<lparr>slicesDone = [], gens = []\<rparr> claims) (\<lambda>st.
        let st' = fill_gaps
              (\<lambda>sl. addProofsToGenerate (getChunkSizeBytes Z alg) key iv ciphertext redactedPlaintext sl None)
              0 (js_sort_on fromIndex (slicesDone st)) (int (length ciphertext)) st
        in Inr (g\<lparr>packetsToProve := packetsToProve g
                    @ [\<lparr>pp_algorithm = alg, proofsToGenerate = js_sort_on gen_startIdx (gens st'), pp_iv = pkt_fixedIv packet\<rparr>],
                 zkProofsToGen := zkProofsToGen g + length (gens st')\<rparr>)))))"

definition getTotalChunksToProve :: "proof_generator \<Rightarrow> nat" where
  "getTotalChunksToProve g = zkProofsToGen g"

text \<open>The proof of one chunk. The prover returns the proof and the plaintext it decrypted.\<close>

definition generateProofForChunk ::
  "zk_lib \<Rightarrow> EncryptionAlgorithm \<Rightarrow> ZKProofToGenerate \<Rightarrow> js_error + ZKProof" where
  "generateProofForChunk Z alg p =
     bindR (generateProof Z alg \<lparr>zi_key = gen_key p, zi_ciphertext = gen_ciphertext p, zi_iv = gen_iv p,
              zi_offsetBytes = gen_startIdx p, zi_toprf = gen_toprf p\<rparr>)
       (\<lambda>(data, plaintext). Inr \<lparr>proofJson = [], proofData = data, zp_toprf = gen_toprf p,
          decryptedRedactedCiphertext = plaintext, zp_redactedPlaintext = gen_redactedPlaintext p,
          startIdx = gen_startIdx p\<rparr>)"

text \<open>
  \<open>generateProofs\<close>: the lists passed to the packets' \<open>onGeneratedProofs\<close>, in the order of
  completion; a packet without proofs gets no call (\<open>None\<close>).
\<close>

definition generateProofs ::
  "zk_lib \<Rightarrow> (ZKProofToGenerate list \<Rightarrow> ZKProofToGenerate list) \<Rightarrow> proof_generator
   \<Rightarrow> js_error + proof_generator \<times> ZKProof list option list" where
  "generateProofs Z completion g =
     (if packetsToProve g = [] then Inr (g, [])
      else
        bindR (mapR (\<lambda>p. bindR (mapR (generateProofForChunk Z (pp_algorithm p)) (completion (proofsToGenerate p)))
                           (\<lambda>proofs. Inr (if proofsToGenerate p = [] then None else Some proofs)))
                 (packetsToProve g))
          (\<lambda>calls. Inr (g\<lparr>packetsToProve := [], zkProofsToGen := 0\<rparr>, calls)))"

subsection \<open>Verification\<close>

text \<open>\<open>comparePlaintext\<close>: the TOPRF range is starred before the comparison.\<close>

definition comparePlaintext :: "ZKProof \<Rightarrow> bytes" where
  "comparePlaintext p =
     (case zp_toprf p of
        None \<Rightarrow> zp_redactedPlaintext p
      | Some t \<Rightarrow> redactSlice (zp_redactedPlaintext p)
                    \<lparr>fromIndex = loc_fromIndex t, toIndex = loc_fromIndex t + loc_length t\<rparr>)"

definition nullifier_text :: "(bytes \<Rightarrow> jsstring) \<Rightarrow> TOPRFProofParams \<Rightarrow> jsstring" where
  "nullifier_text b64 t = binaryHashToStr b64 (nullifier t) (loc_length t)"

definition toprf_text_ok :: "(bytes \<Rightarrow> jsstring) \<Rightarrow> ZKProof \<Rightarrow> TOPRFProofParams \<Rightarrow> bool" where
  "toprf_text_ok b64 p t \<longleftrightarrow>
     (let txtHash = js_slice (zp_redactedPlaintext p) (loc_fromIndex t) (loc_fromIndex t + loc_length t) in
      text_decode txtHash = js_slice (nullifier_text b64 t) 0 (int (length txtHash)))"

text \<open>What is handed to the verifier of the package for one proof.\<close>

definition verify_input ::
  "tls_pkg \<Rightarrow> zk_lib \<Rightarrow> EncryptionAlgorithm \<Rightarrow> bytes \<Rightarrow> bytes \<Rightarrow> bytes \<Rightarrow> int \<Rightarrow> ZKProof \<Rightarrow> zk_verify_input" where
  "verify_input L Z alg ciphertext recordIV iv recordNumber p =
     (let chunk = js_slice ciphertext (startIdx p) (startIdx p + int (length (zp_redactedPlaintext p)));
          nonce0 = concatenateUint8Arrays L [iv, recordIV];
          nonce = (if recordIV = [] then generateIV Z nonce0 recordNumber else nonce0)
      in \<lparr>vi_algorithm = alg,
          vi_proofData = (if proofData p \<noteq> [] then proofData p else strToUint8Array L (proofJson p)),
          vi_plaintext = decryptedRedactedCiphertext p,
          vi_ciphertext = redact_ciphertext (zp_redactedPlaintext p) chunk,
          vi_iv = nonce, vi_offsetBytes = startIdx p, vi_toprf = zp_toprf p\<rparr>)"

definition verifyProofPacket ::
  "tls_pkg \<Rightarrow> (bytes \<Rightarrow> jsstring) \<Rightarrow> zk_lib \<Rightarrow> EncryptionAlgorithm \<Rightarrow> bytes \<Rightarrow> bytes \<Rightarrow> bytes \<Rightarrow> int
   \<Rightarrow> bytes \<Rightarrow> ZKProof \<Rightarrow> js_error + bytes" where
  "verifyProofPacket L b64 Z alg ciphertext recordIV iv recordNumber realRedactedPlaintext p =
     (if (case zp_toprf p of None \<Rightarrow> False | Some t \<Rightarrow> dataLocation t = None) then Inl no_location
      else if (case zp_toprf p of None \<Rightarrow> False | Some t \<Rightarrow> \<not> toprf_text_ok b64 p t)
      then Inl (PlainError ''OPRF nullifier not congruent'')
      else if \<not> isRedactionCongruent (comparePlaintext p) (decryptedRedactedCiphertext p)
      then Inl (PlainError ''redacted ciphertext not congruent'')
      else
        bindR (verifyProof Z (verify_input L Z alg ciphertext recordIV iv recordNumber p)) (\<lambda>_.
          case u8_set realRedactedPlaintext (zp_redactedPlaintext p) (startIdx p) of
            None \<Rightarrow> Inl (JsRangeError ''offset is out of bounds'')
          | Some out \<Rightarrow> Inr out))"

definition verifyZkPacket ::
  "tls_pkg \<Rightarrow> (bytes \<Rightarrow> jsstring) \<Rightarrow> zk_lib \<Rightarrow> (ZKProof list \<Rightarrow> ZKProof list) \<Rightarrow> jsstring \<Rightarrow> bytes
   \<Rightarrow> ZKProof list \<Rightarrow> bytes \<Rightarrow> int \<Rightarrow> js_error + bytes" where
  "verifyZkPacket L b64 Z completion cipherSuite content proofs iv recordNumber =
     bindR (getZkAlgorithmForCipherSuite cipherSuite) (\<lambda>alg.
     bindR (getRecordIV L content cipherSuite) (\<lambda>recordIV.
     bindR (getPureCiphertext L content cipherSuite) (\<lambda>ciphertext.
       foldR (verifyProofPacket L b64 Z alg ciphertext recordIV iv recordNumber)
         (replicate (length ciphertext) REDACTION_CHAR_CODE) (completion proofs))))"

subsection \<open>Engines\<close>

datatype ZKEngine = Snarkjs | Gnark | OtherEngine

datatype ZKProofEngine = ZK_ENGINE_SNARKJS | ZK_ENGINE_GNARK | ZK_ENGINE_UNRECOGNIZED

definition getEngineString :: "ZKProofEngine \<Rightarrow> js_error + ZKEngine" where
  "getEngineString e =
     (case e of ZK_ENGINE_GNARK \<Rightarrow> Inr Gnark | ZK_ENGINE_SNARKJS \<Rightarrow> Inr Snarkjs
      | _ \<Rightarrow> Inl (PlainError ''Unknown ZK engine''))"

definition getEngineProto :: "ZKEngine \<Rightarrow> js_error + ZKProofEngine" where
  "getEngineProto e =
     (case e of Gnark \<Rightarrow> Inr ZK_ENGINE_GNARK | Snarkjs \<Rightarrow> Inr ZK_ENGINE_SNARKJS
      | _ \<Rightarrow> Inl (PlainError ''Unknown ZK engine''))"

subsection \<open>What verification establishes\<close>

definition proof_range :: "ZKProof \<Rightarrow> nat \<Rightarrow> bool" where
  "proof_range p k \<longleftrightarrow> startIdx p \<le> int k \<and> int k < startIdx p + int (length (zp_redactedPlaintext p))"

definition proof_byte :: "ZKProof \<Rightarrow> nat \<Rightarrow> byte" where
  "proof_byte p k = zp_redactedPlaintext p ! (k - nat (startIdx p))"

text \<open>A byte of a proof is backed: by the plaintext the proof is about, or by the nullifier.\<close>

definition backed :: "(bytes \<Rightarrow> jsstring) \<Rightarrow> ZKProof \<Rightarrow> nat \<Rightarrow> bool" where
  "backed b64 p i \<longleftrightarrow>
     js_get (decryptedRedactedCiphertext p) (int i) = Some (zp_redactedPlaintext p ! i)
     \<or> (\<exists>t. zp_toprf p = Some t \<and> loc_fromIndex t \<le> int i \<and> int i < loc_fromIndex t + loc_length t
          \<and> toprf_text_ok b64 p t)"

lemma comparePlaintext_length [simp]: "length (comparePlaintext p) = length (zp_redactedPlaintext p)"
  by (simp add: comparePlaintext_def split: option.split)

lemma verifyProofPacket_backed:
  assumes "verifyProofPacket L b64 Z alg ct rIV iv n out0 p = Inr out"
    and "i < length (zp_redactedPlaintext p)" and "zp_redactedPlaintext p ! i \<noteq> REDACTION_CHAR_CODE"
  shows "backed b64 p i"
proof -
  have cong: "isRedactionCongruent (comparePlaintext p) (decryptedRedactedCiphertext p)"
    and tok: "\<And>t. zp_toprf p = Some t \<Longrightarrow> toprf_text_ok b64 p t"
    using assms(1) by (auto simp: verifyProofPacket_def split: if_splits option.splits)
  have c: "comparePlaintext p ! i = REDACTION_CHAR_CODE
      \<or> js_get (decryptedRedactedCiphertext p) (int i) = Some (comparePlaintext p ! i)"
    using cong assms(2) by (auto simp: isRedactionCongruent_iff js_get_def)
  show ?thesis
  proof (cases "comparePlaintext p ! i = zp_redactedPlaintext p ! i")
    case True
    then show ?thesis using c assms(3) by (simp add: backed_def)
  next
    case False
    then obtain t where t: "zp_toprf p = Some t" by (cases "zp_toprf p") (auto simp: comparePlaintext_def)
    then have "loc_fromIndex t \<le> int i" "int i < loc_fromIndex t + loc_length t"
      using False assms(2) by (auto simp: comparePlaintext_def redactSlice_nth split: if_splits)
    then show ?thesis using tok[OF t] t by (auto simp: backed_def)
  qed
qed

lemma verifyProofPacket_set:
  "verifyProofPacket L b64 Z alg ct rIV iv n out0 p = Inr out \<Longrightarrow>
     u8_set out0 (zp_redactedPlaintext p) (startIdx p) = Some out
     \<and> verifyProof Z (verify_input L Z alg ct rIV iv n p) = Inr ()"
  by (auto simp: verifyProofPacket_def bindR_Inr_iff split: if_splits option.splits)

lemma u8_set_byte:
  assumes "u8_set out0 (zp_redactedPlaintext p) (startIdx p) = Some out" and "k < length out0"
  shows "out ! k = (if proof_range p k then proof_byte p k else out0 ! k)"
proof -
  have "0 \<le> startIdx p" using assms(1) by (simp add: u8_set_def split: if_splits)
  then have "proof_range p k \<longleftrightarrow> nat (startIdx p) \<le> k \<and> k < nat (startIdx p) + length (zp_redactedPlaintext p)"
    by (auto simp: proof_range_def)
  then show ?thesis using u8_set_nth[OF assms] by (simp add: proof_byte_def)
qed

lemma foldR_verify:
  assumes "foldR (verifyProofPacket L b64 Z alg ct rIV iv n) out0 ps = Inr out"
  shows "length out = length out0
    \<and> (\<forall>p \<in> set ps. verifyProof Z (verify_input L Z alg ct rIV iv n p) = Inr ())
    \<and> (\<forall>k < length out0. out ! k = out0 ! k
         \<or> (\<exists>p \<in> set ps. proof_range p k \<and> out ! k = proof_byte p k
              \<and> (out ! k \<noteq> REDACTION_CHAR_CODE \<longrightarrow> backed b64 p (k - nat (startIdx p)))))"
  using assms
proof (induction ps arbitrary: out0)
  case Nil
  then show ?case by simp
next
  case (Cons p ps)
  obtain out1 where out1: "verifyProofPacket L b64 Z alg ct rIV iv n out0 p = Inr out1"
    "foldR (verifyProofPacket L b64 Z alg ct rIV iv n) out1 ps = Inr out"
    using Cons.prems by (auto simp: bindR_Inr_iff)
  note set1 = verifyProofPacket_set[OF out1(1)]
  have len: "length out1 = length out0" using set1 by (auto dest: u8_set_length)
  note ih = Cons.IH[OF out1(2)]
  show ?case
  proof (intro conjI allI impI ballI)
    show "length out = length out0" using ih len by simp
    show "verifyProof Z (verify_input L Z alg ct rIV iv n q) = Inr ()" if "q \<in> set (p # ps)" for q
      using ih set1 that by auto
    fix k assume k: "k < length out0"
    show "out ! k = out0 ! k
         \<or> (\<exists>q \<in> set (p # ps). proof_range q k \<and> out ! k = proof_byte q k
              \<and> (out ! k \<noteq> REDACTION_CHAR_CODE \<longrightarrow> backed b64 q (k - nat (startIdx q))))"
    proof (cases "out ! k = out1 ! k")
      case True
      have o1: "out1 ! k = (if proof_range p k then proof_byte p k else out0 ! k)"
        using u8_set_byte[OF conjunct1[OF set1] k] .
      show ?thesis
      proof (cases "proof_range p k")
        case r: True
        have "k - nat (startIdx p) < length (zp_redactedPlaintext p)"
          using r set1 by (auto simp: proof_range_def u8_set_def split: if_splits)
        then have "backed b64 p (k - nat (startIdx p))" if "proof_byte p k \<noteq> REDACTION_CHAR_CODE"
          using verifyProofPacket_backed[OF out1(1)] that by (simp add: proof_byte_def)
        then show ?thesis using r True o1 by auto
      qed (use True o1 in simp)
    next
      case False
      then show ?thesis using ih k len by auto
    qed
  qed
qed

subsection \<open>What generation produces\<close>

lemma chunk_slices_mem:
  "s \<in> set (chunk_slices cs a b) \<Longrightarrow> a \<le> fromIndex s \<and> fromIndex s < toIndex s \<and> toIndex s \<le> b"
proof (induction cs a b rule: chunk_slices.induct)
  case (1 cs a b)
  note mem = 1(2)[unfolded chunk_slices.simps[of cs a b]]
  show ?case
  proof (cases "a < b \<and> 0 < cs")
    case True
    then show ?thesis using mem 1(1)[OF True] by auto
  qed (use mem in auto)
qed

lemma chunk_slices_cover:
  "0 < cs \<Longrightarrow> a \<le> k \<Longrightarrow> k < b \<Longrightarrow> \<exists>s \<in> set (chunk_slices cs a b). fromIndex s \<le> k \<and> k < toIndex s"
proof (induction cs a b rule: chunk_slices.induct)
  case (1 cs a b)
  show ?case
  proof (cases "k < a + cs")
    case True
    then show ?thesis using 1(2-4) by (subst chunk_slices.simps) auto
  next
    case False
    then show ?thesis using 1(1)[OF _ 1(2) _ 1(4)] 1(2-4) by (subst chunk_slices.simps) auto
  qed
qed

text \<open>A proof is good for a plaintext when it carries that plaintext's bytes and verifies.\<close>

definition good_proof :: "tls_pkg \<Rightarrow> zk_lib \<Rightarrow> EncryptionAlgorithm \<Rightarrow> bytes \<Rightarrow> bytes \<Rightarrow> bytes \<Rightarrow> int \<Rightarrow> bytes \<Rightarrow> ZKProof \<Rightarrow> bool" where
  "good_proof L Z alg ct rIV iv n red p \<longleftrightarrow>
     zp_toprf p = None \<and> isRedactionCongruent (zp_redactedPlaintext p) (decryptedRedactedCiphertext p)
     \<and> verifyProof Z (verify_input L Z alg ct rIV iv n p) = Inr ()
     \<and> 0 \<le> startIdx p \<and> nat (startIdx p) + length (zp_redactedPlaintext p) \<le> length red
     \<and> (\<forall>k < length (zp_redactedPlaintext p). zp_redactedPlaintext p ! k = red ! (nat (startIdx p) + k))"

lemma good_proof_byte: "good_proof L Z alg ct rIV iv n red p \<Longrightarrow> proof_range p k \<Longrightarrow> proof_byte p k = red ! k"
  by (auto simp: good_proof_def proof_range_def proof_byte_def)

lemma good_proofs_accepted:
  assumes "\<forall>p \<in> set ps. good_proof L Z alg ct rIV iv n red p" and "length out0 = length red"
  shows "\<exists>out. foldR (verifyProofPacket L b64 Z alg ct rIV iv n) out0 ps = Inr out \<and> length out = length red
    \<and> (\<forall>k < length red. out ! k = (if \<exists>p \<in> set ps. proof_range p k then red ! k else out0 ! k))"
  using assms
proof (induction ps arbitrary: out0)
  case Nil
  then show ?case by simp
next
  case (Cons p ps)
  have g: "good_proof L Z alg ct rIV iv n red p" using Cons.prems by simp
  obtain out1 where set1: "u8_set out0 (zp_redactedPlaintext p) (startIdx p) = Some out1"
    using g Cons.prems(2) by (auto simp: u8_set_def good_proof_def)
  have step: "verifyProofPacket L b64 Z alg ct rIV iv n out0 p = Inr out1"
    using g set1 by (simp add: verifyProofPacket_def good_proof_def comparePlaintext_def)
  have len1: "length out1 = length red" using set1 Cons.prems(2) by (auto dest: u8_set_length)
  obtain out where out: "foldR (verifyProofPacket L b64 Z alg ct rIV iv n) out1 ps = Inr out" "length out = length red"
    "\<forall>k < length red. out ! k = (if \<exists>p \<in> set ps. proof_range p k then red ! k else out1 ! k)"
    using Cons.IH[OF _ len1] Cons.prems(1) by auto
  have "out1 ! k = (if proof_range p k then red ! k else out0 ! k)" if "k < length red" for k
    using u8_set_byte[OF set1] good_proof_byte[OF g] that Cons.prems(2) by simp
  then show ?case using step out by auto
qed

text \<open>
  The prover and the verifier of the package, for one key and nonce: a proof that was made is
  accepted, and the plaintext it is about is the ciphertext given, added to the key stream.
\<close>

definition zk_correct :: "zk_lib \<Rightarrow> EncryptionAlgorithm \<Rightarrow> bytes \<Rightarrow> bytes \<Rightarrow> (int \<Rightarrow> byte) \<Rightarrow> bool" where
  "zk_correct Z alg key nonce stream \<longleftrightarrow>
     (\<forall>ct off data pt.
        generateProof Z alg \<lparr>zi_key = key, zi_ciphertext = ct, zi_iv = nonce, zi_offsetBytes = off, zi_toprf = None\<rparr>
          = Inr (data, pt) \<longrightarrow>
        data \<noteq> [] \<and> length pt = length ct \<and> (\<forall>i < length ct. pt ! i = xor (ct ! i) (stream (off + int i)))
        \<and> verifyProof Z \<lparr>vi_algorithm = alg, vi_proofData = data, vi_plaintext = pt, vi_ciphertext = ct,
            vi_iv = nonce, vi_offsetBytes = off, vi_toprf = None\<rparr> = Inr ())"

definition nonce_of :: "tls_pkg \<Rightarrow> zk_lib \<Rightarrow> bytes \<Rightarrow> bytes \<Rightarrow> int \<Rightarrow> bytes" where
  "nonce_of L Z iv rIV n =
     (if rIV = [] then generateIV Z (concatenateUint8Arrays L [iv, rIV]) n else concatenateUint8Arrays L [iv, rIV])"

lemma generated_proof_good:
  assumes zk: "zk_correct Z alg key (nonce_of L Z iv rIV n) stream"
    and red: "\<forall>k < length ct. red ! k = REDACTION_CHAR_CODE \<or> red ! k = xor (ct ! k) (stream (int k))"
    and len: "length red = length ct"
    and sl: "0 \<le> fromIndex s" "fromIndex s < toIndex s" "toIndex s \<le> int (length ct)"
    and gen: "getProofGenerationParamsForSlice key (nonce_of L Z iv rIV n) ct red s None = Some g"
    and made: "generateProofForChunk Z alg g = Inr p"
  shows "good_proof L Z alg ct rIV iv n red p \<and> startIdx p = fromIndex s
    \<and> length (zp_redactedPlaintext p) = nat (toIndex s - fromIndex s)"
proof -
  let ?c = "js_slice ct (fromIndex s) (toIndex s)" and ?r = "js_slice red (fromIndex s) (toIndex s)"
  have g: "g = \<lparr>gen_startIdx = fromIndex s, gen_redactedPlaintext = ?r, gen_key = key,
      gen_ciphertext = redact_ciphertext ?r ?c, gen_iv = nonce_of L Z iv rIV n, gen_toprf = None\<rparr>"
    using gen by (auto simp: getProofGenerationParamsForSlice_def Let_def split: if_splits)
  obtain data pt where made': "generateProof Z alg \<lparr>zi_key = key, zi_ciphertext = redact_ciphertext ?r ?c,
        zi_iv = nonce_of L Z iv rIV n, zi_offsetBytes = fromIndex s, zi_toprf = None\<rparr> = Inr (data, pt)"
      "p = \<lparr>proofJson = [], proofData = data, zp_toprf = None, decryptedRedactedCiphertext = pt,
            zp_redactedPlaintext = ?r, startIdx = fromIndex s\<rparr>"
    using made by (auto simp: generateProofForChunk_def g bindR_Inr_iff)
  have zk': "data \<noteq> []" "length pt = length ?c"
      "\<forall>i < length ?c. pt ! i = xor (redact_ciphertext ?r ?c ! i) (stream (fromIndex s + int i))"
      "verifyProof Z \<lparr>vi_algorithm = alg, vi_proofData = data, vi_plaintext = pt,
         vi_ciphertext = redact_ciphertext ?r ?c, vi_iv = nonce_of L Z iv rIV n, vi_offsetBytes = fromIndex s,
         vi_toprf = None\<rparr> = Inr ()"
    using zk made'(1) by (auto simp: zk_correct_def redact_ciphertext_def)
  have lr: "length ?r = nat (toIndex s - fromIndex s)" "length ?c = nat (toIndex s - fromIndex s)"
    using sl len by (auto simp: js_slice_def js_index_def)
  have nth: "?r ! i = red ! (nat (fromIndex s) + i)" "?c ! i = ct ! (nat (fromIndex s) + i)" if "i < length ?r" for i
    using that sl len lr by (auto simp: js_slice_def js_index_def)
  have cong: "isRedactionCongruent ?r pt"
    unfolding isRedactionCongruent_iff
  proof (intro allI impI)
    fix i assume i: "i < length ?r"
    then have k: "nat (fromIndex s) + i < length ct" using lr sl by linarith
    show "?r ! i = REDACTION_CHAR_CODE \<or> i < length pt \<and> ?r ! i = pt ! i"
    proof (cases "?r ! i = REDACTION_CHAR_CODE")
      case False
      then have "redact_ciphertext ?r ?c ! i = ?c ! i"
        using i lr by (auto simp: redact_ciphertext_def js_get_def)
      moreover have "?r ! i = xor (?c ! i) (stream (fromIndex s + int i))"
        using red k False nth[OF i] sl(1) by (auto simp: add.commute)
      ultimately show ?thesis using zk'(2,3) i lr by auto
    qed simp
  qed
  have ver: "verifyProof Z (verify_input L Z alg ct rIV iv n p) = Inr ()"
    using zk'(1,4) lr sl by (simp add: verify_input_def made'(2) Let_def nonce_of_def)
  show ?thesis
    unfolding good_proof_def
    using cong ver sl len lr nth by (auto simp: made'(2))
qed

lemma mapR_mem:
  "mapR f xs = Inr ys \<Longrightarrow> y \<in> set ys \<longleftrightarrow> (\<exists>x \<in> set xs. f x = Inr y)"
proof (induction xs arbitrary: ys)
  case (Cons x xs)
  then show ?case by (auto simp: bindR_Inr_iff)
qed simp

lemma mapR_total: "mapR f xs = Inr ys \<Longrightarrow> x \<in> set xs \<Longrightarrow> \<exists>y. f x = Inr y"
  by (induction xs arbitrary: ys) (auto simp: bindR_Inr_iff)

lemma fully_redacted_slice_nth:
  assumes "isFullyRedacted (js_slice xs a b)" and "0 \<le> a" and "a \<le> int k" and "int k < b" and "b \<le> int (length xs)"
  shows "xs ! k = REDACTION_CHAR_CODE"
proof -
  have "js_slice xs a b ! (k - nat a) = xs ! k" "k - nat a < length (js_slice xs a b)"
    using assms by (auto simp: js_slice_def js_index_def)
  then show ?thesis using assms(1) nth_mem by (fastforce simp: isFullyRedacted_iff)
qed

lemma addPacketToProve_no_claims:
  assumes "addPacketToProve L Z cs pkt red [] g = Inr g1" and "getZkAlgorithmForCipherSuite cs = Inr alg"
    and "getPureCiphertext L (pkt_ciphertext pkt) cs = Inr ct"
  shows "\<exists>pgs. packetsToProve g1 = packetsToProve g
      @ [\<lparr>pp_algorithm = alg, proofsToGenerate = pgs, pp_iv = pkt_fixedIv pkt\<rparr>]
    \<and> set pgs = {x. \<exists>s \<in> set (chunk_slices (getChunkSizeBytes Z alg) 0 (int (length ct))).
          getProofGenerationParamsForSlice (pkt_encKey pkt) (pkt_iv pkt) ct red s None = Some x}"
proof -
  let ?sl = "chunk_slices (getChunkSizeBytes Z alg) 0 (int (length ct))"
  have no: "chunk_slices (getChunkSizeBytes Z alg) 0 0 = []" by (simp add: chunk_slices.simps)
  have "packetsToProve g1 = packetsToProve g
      @ [\<lparr>pp_algorithm = alg, proofsToGenerate = js_sort_on gen_startIdx (List.map_filter
            (\<lambda>s. getProofGenerationParamsForSlice (pkt_encKey pkt) (pkt_iv pkt) ct red s None) ?sl),
          pp_iv = pkt_fixedIv pkt\<rparr>]"
    using assms no
    by (cases "ct = []") (auto simp: addPacketToProve_def Let_def addProofsToGenerate_def split: if_splits)
  moreover have "set (List.map_filter h xs) = {x. \<exists>s \<in> set xs. h s = Some x}" for h :: "ArraySlice \<Rightarrow> ZKProofToGenerate option" and xs
    by (induction xs) (auto simp: List.map_filter_simps split: option.splits)
  ultimately show ?thesis by (intro exI conjI) auto
qed

text \<open>The proofs made for the slices of a packet are accepted, in any order, and give back the redaction.\<close>

lemma made_proofs_accepted:
  assumes pgs: "set pgs = {x. \<exists>s \<in> set (chunk_slices (getChunkSizeBytes Z alg) 0 (int (length ct))).
          getProofGenerationParamsForSlice key nonce ct red s None = Some x}"
    and made: "mapR (generateProofForChunk Z alg) (made_order pgs) = Inr made"
    and order: "\<forall>gs. set (made_order gs) = set gs" "set (check_order made) = set made"
    and suite: "getZkAlgorithmForCipherSuite cs = Inr alg" "0 < getChunkSizeBytes Z alg"
      "getPureCiphertext L content cs = Inr ct" "getRecordIV L content cs = Inr rIV"
    and zk: "zk_correct Z alg key nonce stream" "nonce = nonce_of L Z iv rIV n"
    and red: "length red = length ct" "\<forall>k < length ct. red ! k = REDACTION_CHAR_CODE \<or> red ! k = xor (ct ! k) (stream (int k))"
  shows "verifyZkPacket L b64 Z check_order cs content made iv n = Inr red"
proof -
  let ?sl = "chunk_slices (getChunkSizeBytes Z alg) 0 (int (length ct))"
  let ?gen = "\<lambda>s. getProofGenerationParamsForSlice key nonce ct red s None"
  have mem: "p \<in> set made \<longleftrightarrow> (\<exists>s \<in> set ?sl. \<exists>g. ?gen s = Some g \<and> generateProofForChunk Z alg g = Inr p)" for p
    using mapR_mem[OF made] order pgs by auto
  have total: "\<exists>p. generateProofForChunk Z alg g = Inr p" if "g \<in> set pgs" for g
    using made that order mapR_total by metis
  have good: "good_proof L Z alg ct rIV iv n red p \<and> startIdx p = fromIndex s
      \<and> length (zp_redactedPlaintext p) = nat (toIndex s - fromIndex s)"
    if "s \<in> set ?sl" "?gen s = Some g" "generateProofForChunk Z alg g = Inr p" for s g p
    using chunk_slices_mem[OF that(1)] that zk red
    by (intro generated_proof_good[of Z alg key L iv rIV n stream ct red s g p]) auto
  have "\<forall>p \<in> set (check_order made). good_proof L Z alg ct rIV iv n red p"
    using order mem good by auto
  from good_proofs_accepted[OF this, of "replicate (length ct) REDACTION_CHAR_CODE" b64]
  obtain out where out: "foldR (verifyProofPacket L b64 Z alg ct rIV iv n) (replicate (length ct) REDACTION_CHAR_CODE)
      (check_order made) = Inr out" "length out = length red"
    "\<forall>k < length red. out ! k = (if \<exists>p \<in> set made. proof_range p k then red ! k else REDACTION_CHAR_CODE)"
    using order red by auto
  have "out ! k = red ! k" if k: "k < length red" for k
  proof (cases "\<exists>p \<in> set made. proof_range p k")
    case False
    obtain s where s: "s \<in> set ?sl" "fromIndex s \<le> int k" "int k < toIndex s"
      using chunk_slices_cover[OF suite(2), of 0 "int k" "int (length ct)"] k red by auto
    have "?gen s = None"
    proof (rule ccontr)
      assume "?gen s \<noteq> None"
      then obtain g where g: "?gen s = Some g" by auto
      then obtain p where p: "generateProofForChunk Z alg g = Inr p" using total pgs s(1) by auto
      then have "proof_range p k" using good[OF s(1) g p] s by (auto simp: proof_range_def)
      then show False using False mem s(1) g p by auto
    qed
    then have "isFullyRedacted (js_slice red (fromIndex s) (toIndex s))"
      by (simp add: getProofGenerationParamsForSlice_def Let_def split: if_splits)
    then have "red ! k = REDACTION_CHAR_CODE"
      using chunk_slices_mem[OF s(1)] s k red by (intro fully_redacted_slice_nth[of red _ _ k]) auto
    then show ?thesis using out(3) k False by auto
  qed (use out(3) k in auto)
  then have "out = red" using out(2) by (simp add: nth_equalityI)
  then show ?thesis using suite out(1) by (simp add: verifyZkPacket_def)
qed

text \<open>A prover for the cipher with the zero key stream, and a packet of six bytes.\<close>

definition zk_ref :: zk_lib where
  "zk_ref = \<lparr>ZK_chunkSize = (\<lambda>_. 1), ZK_bitsPerWord = (\<lambda>_. 32), getBlockSizeBytes = (\<lambda>_. 4), generateIV = (\<lambda>iv _. iv),
     generateProof = (\<lambda>_ i. Inr ([1], zi_ciphertext i)),
     verifyProof = (\<lambda>v. if vi_plaintext v = vi_ciphertext v then Inr () else Inl (PlainError ''bad proof''))\<rparr>"

definition ref_suite :: jsstring where
  "ref_suite = js ''CHACHA20''"

definition ref_packet :: CompleteTLSPacket where
  "ref_packet = \<lparr>pkt_type = CiphertextPacket, contentType = None, pkt_data = [], pkt_plaintext = [],
     pkt_ciphertext = [72, 105, 33, 1, 2, 3] @ replicate 16 0, pkt_iv = replicate 12 7, pkt_fixedIv = replicate 12 7,
     pkt_recordNumber = 1, pkt_encKey = [9]\<rparr>"

definition ref_gen :: ZKProofToGenerate where
  "ref_gen = \<lparr>gen_startIdx = 0, gen_redactedPlaintext = [72, 105, 33, 42], gen_key = [9],
     gen_ciphertext = [72, 105, 33, 42], gen_iv = replicate 12 7, gen_toprf = None\<rparr>"

definition ref_proof :: ZKProof where
  "ref_proof = \<lparr>proofJson = [], proofData = [1], zp_toprf = None, decryptedRedactedCiphertext = [72, 105, 33, 42],
     zp_redactedPlaintext = [72, 105, 33, 42], startIdx = 0\<rparr>"

lemma ref_suite_alg: "getZkAlgorithmForCipherSuite ref_suite = Inr Chacha20"
  by (simp add: getZkAlgorithmForCipherSuite_def ref_suite_def js_includes_def js_def is_prefix_def)

lemma ref_cipher:
  "getPureCiphertext tls_ref (pkt_ciphertext ref_packet) ref_suite = Inr [72, 105, 33, 1, 2, 3]"
  "getRecordIV tls_ref (pkt_ciphertext ref_packet) ref_suite = Inr []"
proof -
  have "fixedIvLength tls_ref ref_suite = 12"
    by (simp add: tls_ref_def ref_suite_def js_includes_def js_def is_prefix_def)
  then show "getPureCiphertext tls_ref (pkt_ciphertext ref_packet) ref_suite = Inr [72, 105, 33, 1, 2, 3]"
    "getRecordIV tls_ref (pkt_ciphertext ref_packet) ref_suite = Inr []"
    by (simp_all add: getPureCiphertext_def getRecordIV_def ref_suite_alg ref_packet_def js_slice_def js_slice_from_def js_index_def)
qed

lemma ref_chunk: "getChunkSizeBytes zk_ref a = 4"
  by (simp add: getChunkSizeBytes_def zk_ref_def)

lemma ref_slices: "chunk_slices 4 0 6 = [\<lparr>fromIndex = 0, toIndex = 4\<rparr>, \<lparr>fromIndex = 4, toIndex = 6\<rparr>]"
  by (simp add: chunk_slices.simps)

lemma ref_proof_accepted:
  "verifyProofPacket tls_ref b64 zk_ref Chacha20 [72, 105, 33, 1, 2, 3] [] iv n [42, 42, 42, 42, 42, 42] ref_proof
     = Inr [72, 105, 33, 42, 42, 42]"
  by (simp add: verifyProofPacket_def verify_input_def Let_def ref_proof_def comparePlaintext_def isRedactionCongruent_def
    js_get_def zk_ref_def redact_ciphertext_def js_slice_def js_index_def u8_set_def REDACTION_CHAR_CODE_def upt_rec eval_nat_numeral)

text \<open>C28: Soundness of \<open>verifyZkPacket\<close>: if it returns a plaintext, this has the length of the
  ciphertext, every proof was accepted by the verifier for the ciphertext the attestor saw, and
  each byte that is not a star was put there by one of the proofs: it is either the byte of the
  decrypted plaintext the proof is about or lies in the range of a TOPRF claim whose nullifier the
  text spells.\<close>

theorem verifyZkPacket_sound:
  assumes "verifyZkPacket L b64 Z completion cs content proofs iv n = Inr out"
    and "set (completion proofs) = set proofs"
  shows "\<exists>alg ct rIV. getZkAlgorithmForCipherSuite cs = Inr alg \<and> getPureCiphertext L content cs = Inr ct
    \<and> getRecordIV L content cs = Inr rIV \<and> length out = length ct
    \<and> (\<forall>p \<in> set proofs. verifyProof Z (verify_input L Z alg ct rIV iv n p) = Inr ())
    \<and> (\<forall>k < length out. out ! k \<noteq> REDACTION_CHAR_CODE \<longrightarrow>
         (\<exists>p \<in> set proofs. proof_range p k \<and> out ! k = proof_byte p k
            \<and> backed b64 p (k - nat (startIdx p))))"
proof -
  obtain alg ct rIV where r: "getZkAlgorithmForCipherSuite cs = Inr alg" "getPureCiphertext L content cs = Inr ct"
    "getRecordIV L content cs = Inr rIV" and f: "foldR (verifyProofPacket L b64 Z alg ct rIV iv n)
         (replicate (length ct) REDACTION_CHAR_CODE) (completion proofs) = Inr out"
    using assms(1) by (auto simp: verifyZkPacket_def bindR_Inr_iff)
  show ?thesis using r foldR_verify[OF f] assms(2) by fastforce
qed

theorem verifyZkPacket_sound_witness:
  "(72 :: byte) \<noteq> 42 \<and> proof_range ref_proof 0 \<and> backed (\<lambda>_. []) ref_proof 0"
proof -
  have "verifyZkPacket tls_ref (\<lambda>_. []) zk_ref (\<lambda>ps. ps) ref_suite (pkt_ciphertext ref_packet) [ref_proof] (replicate 12 7) 1
      = Inr [72, 105, 33, 42, 42, 42]"
    by (simp add: verifyZkPacket_def ref_suite_alg ref_cipher ref_proof_accepted REDACTION_CHAR_CODE_def)
  from verifyZkPacket_sound[OF this refl] show ?thesis
    by (force simp: ref_proof_def REDACTION_CHAR_CODE_def)
qed

text \<open>C29: Completeness: the proofs that \<open>makeZkProofGenerator\<close> makes for a packet without TOPRF
  claims are accepted by \<open>verifyZkPacket\<close>, which returns exactly the redacted plaintext they were
  made for, whatever the order in which proofs are made and checked, if the prover and the verifier
  of the package are correct and the nonce the attestor computes is the packet's IV.\<close>

theorem zk_proofs_roundtrip:
  assumes "addPacketToProve L Z cs pkt red [] \<lparr>packetsToProve = [], zkProofsToGen = 0\<rparr> = Inr g1"
    and "generateProofs Z made_order g1 = Inr (g2, [call])"
    and "\<forall>gs. set (made_order gs) = set gs"
    and "set (check_order (case call of None \<Rightarrow> [] | Some ps \<Rightarrow> ps)) = set (case call of None \<Rightarrow> [] | Some ps \<Rightarrow> ps)"
    and "getZkAlgorithmForCipherSuite cs = Inr alg" and "0 < getChunkSizeBytes Z alg"
    and "getPureCiphertext L (pkt_ciphertext pkt) cs = Inr ct" and "getRecordIV L (pkt_ciphertext pkt) cs = Inr rIV"
    and "zk_correct Z alg (pkt_encKey pkt) (pkt_iv pkt) stream" and "pkt_iv pkt = nonce_of L Z iv rIV n"
    and "length red = length ct"
    and "\<forall>k < length ct. red ! k = REDACTION_CHAR_CODE \<or> red ! k = xor (ct ! k) (stream (int k))"
  shows "verifyZkPacket L b64 Z check_order cs (pkt_ciphertext pkt) (case call of None \<Rightarrow> [] | Some ps \<Rightarrow> ps) iv n = Inr red"
proof -
  obtain pgs where pgs: "packetsToProve g1 = [\<lparr>pp_algorithm = alg, proofsToGenerate = pgs, pp_iv = pkt_fixedIv pkt\<rparr>]"
    "set pgs = {x. \<exists>s \<in> set (chunk_slices (getChunkSizeBytes Z alg) 0 (int (length ct))).
        getProofGenerationParamsForSlice (pkt_encKey pkt) (pkt_iv pkt) ct red s None = Some x}"
    using addPacketToProve_no_claims[OF assms(1,5,7)] by auto
  obtain made where made: "mapR (generateProofForChunk Z alg) (made_order pgs) = Inr made"
    "call = (if pgs = [] then None else Some made)"
    using assms(2) pgs(1) by (auto simp: generateProofs_def bindR_Inr_iff split: if_splits)
  have "made_order [] = []" using assms(3)[rule_format, of "[]"] by simp
  then have ps: "(case call of None \<Rightarrow> [] | Some ps \<Rightarrow> ps) = made" using made by (auto split: if_splits)
  show ?thesis unfolding ps
    by (rule made_proofs_accepted[OF pgs(2) made(1) assms(3) _ assms(5-12)]) (use assms(4) ps in simp)
qed

theorem zk_proofs_roundtrip_witness:
  "verifyZkPacket tls_ref (\<lambda>_. []) zk_ref rev ref_suite (pkt_ciphertext ref_packet) [ref_proof] (replicate 12 7) 1
     = Inr [72, 105, 33, 42, 42, 42]"
proof -
  let ?g1 = "\<lparr>packetsToProve = [\<lparr>pp_algorithm = Chacha20, proofsToGenerate = [ref_gen], pp_iv = replicate 12 7\<rparr>],
      zkProofsToGen = 1\<rparr>"
  have "getProofGenerationParamsForSlice [9] (replicate 12 7) [72, 105, 33, 1, 2, 3] [72, 105, 33, 42, 42, 42]
      \<lparr>fromIndex = 0, toIndex = 4\<rparr> None = Some ref_gen"
    "getProofGenerationParamsForSlice [9] (replicate 12 7) [72, 105, 33, 1, 2, 3] [72, 105, 33, 42, 42, 42]
      \<lparr>fromIndex = 4, toIndex = 6\<rparr> None = None"
    by (simp_all add: getProofGenerationParamsForSlice_def Let_def isFullyRedacted_def redact_ciphertext_def
      js_get_def js_slice_def js_index_def REDACTION_CHAR_CODE_def ref_gen_def upt_rec)
  then have gens: "List.map_filter (\<lambda>s. getProofGenerationParamsForSlice [9] (replicate 12 7) [72, 105, 33, 1, 2, 3]
      [72, 105, 33, 42, 42, 42] s None) (chunk_slices 4 0 6) = [ref_gen]"
    by (simp add: ref_slices List.map_filter_simps)
  have 1: "addPacketToProve tls_ref zk_ref ref_suite ref_packet [72, 105, 33, 42, 42, 42] []
      \<lparr>packetsToProve = [], zkProofsToGen = 0\<rparr> = Inr ?g1"
    using gens by (simp add: addPacketToProve_def ref_suite_alg ref_cipher addProofsToGenerate_def ref_chunk Let_def)
      (simp add: ref_packet_def)
  have 2: "generateProofs zk_ref rev ?g1 = Inr (\<lparr>packetsToProve = [], zkProofsToGen = 0\<rparr>, [Some [ref_proof]])"
    by (simp add: generateProofs_def generateProofForChunk_def zk_ref_def ref_gen_def ref_proof_def)
  have 3: "zk_correct zk_ref Chacha20 (pkt_encKey ref_packet) (pkt_iv ref_packet) (\<lambda>_. 0)"
    by (simp add: zk_correct_def zk_ref_def)
  have 4: "pkt_iv ref_packet = nonce_of tls_ref zk_ref (replicate 12 7) [] 1"
    by (simp add: nonce_of_def zk_ref_def ref_packet_def)
  show ?thesis
    using zk_proofs_roundtrip[OF 1 2 _ _ ref_suite_alg _ ref_cipher 3 4, of rev "(\<lambda>_. [])"]
    by (simp add: ref_chunk REDACTION_CHAR_CODE_def less_Suc_eq eval_nat_numeral) 
qed

lemma block_fit:
  fixes b c f l :: int
  assumes "2 \<le> b" and "b \<le> c" and "0 \<le> f" and "l \<le> c"
  shows "- ((- (f + l)) div b) - f div b * b \<le> c"
proof -
  define q e where "q = f div b" and "e = - ((- (f + l)) div b)"
  have f: "f = b * q + f mod b" by (simp add: q_def)
  have r: "f mod b < b" "0 \<le> q" using assms by (simp_all add: q_def pos_imp_zdiv_nonneg_iff)
  have "- (f + l) = b * (- e) + (- (f + l)) mod b" by (simp add: e_def)
  moreover have "(- (f + l)) mod b < b" using assms by simp
  ultimately have ceil: "b * (e - 1) < f + l" by (simp add: algebra_simps)
  have "e - q \<le> c"
  proof (rule ccontr)
    assume "\<not> e - q \<le> c"
    then have "b * c \<le> b * (e - 1 - q)" using assms by (intro mult_left_mono) auto
    also have "\<dots> < f mod b + l" using ceil f by (simp add: algebra_simps)
    finally have "b * c < b + c - 1" using r assms by linarith
    moreover have "0 \<le> (b - 1) * (c - 1)" using assms by simp
    ultimately show False by (simp add: algebra_simps)
  qed
  moreover have "q \<le> q * b" using r assms by (simp add: mult_le_cancel_left1)
  ultimately show ?thesis by (simp add: q_def e_def)
qed

text \<open>C35: The check that OPRF data fits into a single chunk compares a number of blocks with a
  number of bytes and never rejects data that is no longer than a chunk: data that starts in the last
  block of a chunk and leaves the chunk of the circuit that starts at its block is let through.\<close>

theorem toprf_fit_check_never_fires:
  assumes "2 \<le> getBlockSizeBytes Z alg" and "getBlockSizeBytes Z alg \<le> getChunkSizeBytes Z alg"
    and "dataLocation t \<noteq> None" and "0 \<le> loc_fromIndex t" and "loc_length t \<le> getChunkSizeBytes Z alg"
  shows "\<exists>off. getIdealOffsetForToprfBlock Z alg t = Inr off"
proof -
  let ?b = "getBlockSizeBytes Z alg" and ?c = "getChunkSizeBytes Z alg"
  define f where "f = loc_fromIndex t"
  define l where "l = loc_length t"
  have "- ((- (f + l)) div ?b) - f div ?b * ?b \<le> ?c"
    using assms by (intro block_fit) (auto simp: f_def l_def)
  then show ?thesis using assms(3) by (simp add: getIdealOffsetForToprfBlock_def Let_def f_def l_def)
qed

theorem toprf_fit_check_never_fires_witness:
  "\<exists>off. getIdealOffsetForToprfBlock (zk_ref\<lparr>ZK_chunkSize := \<lambda>_. 16, getBlockSizeBytes := \<lambda>_. 64\<rparr>) Chacha20
      \<lparr>dataLocation = Some \<lparr>ds_fromIndex = 60, ds_length = 10\<rparr>, nullifier = [], responses = [], mask = [], toprf_plaintext = []\<rparr> = Inr off
    \<and> off + 64 < 60 + 10"
  using toprf_fit_check_never_fires[of "zk_ref\<lparr>ZK_chunkSize := \<lambda>_. 16, getBlockSizeBytes := \<lambda>_. 64\<rparr>" Chacha20
    "\<lparr>dataLocation = Some \<lparr>ds_fromIndex = 60, ds_length = 10\<rparr>, nullifier = [], responses = [], mask = [], toprf_plaintext = []\<rparr>"]
  by (simp add: getChunkSizeBytes_def zk_ref_def getIdealOffsetForToprfBlock_def loc_fromIndex_def loc_length_def)

end
