(* ===== verification/Messages.thy ===== *)
theory Messages
  imports Signing Http_Utils Zk
begin

text \<open>
  The messages of \<open>src/proto/api.ts\<close> that the claim and tunnel handlers exchange. Their wire codec
  (generated, on top of \<open>protobufjs\<close>) is the record \<open>proto_lib\<close> of encoders. A numeric enum value
  outside the enum is its \<open>UNRECOGNIZED\<close>/\<open>UNKNOWN\<close> constructor.
\<close>

datatype TranscriptMessageSenderType = SENDER_UNKNOWN | SENDER_CLIENT | SENDER_SERVER | SENDER_UNRECOGNIZED

record CreateTunnelRequest =
  ct_id :: int
  ct_host :: jsstring
  ct_port :: int
  ct_geoLocation :: jsstring

record MessageRevealDirect =
  md_key :: bytes
  md_iv :: bytes
  md_recordNumber :: int

record MessageReveal =
  directReveal :: "MessageRevealDirect option"
  zkReveal :: "ZKProof list option"

record TranscriptMessage =
  tm_sender :: TranscriptMessageSenderType
  tm_message :: bytes
  tm_reveal :: "MessageReveal option"

text \<open>\<open>ClaimInfo\<close>, extended to the data of a claim request and to a claim.\<close>

record ClaimInfo =
  ci_provider :: jsstring
  ci_parameters :: jsstring
  ci_context :: jsstring

record ClaimRequestData = ClaimInfo +
  cd_owner :: jsstring
  cd_timestampS :: int

record ProviderClaimData = ClaimRequestData +
  pc_identifier :: jsstring
  pc_epoch :: int

record ClaimTunnelRequest =
  cq_request :: "CreateTunnelRequest option"
  cq_data :: "ClaimRequestData option"
  cq_transcript :: "TranscriptMessage list"
  cq_requestSignature :: "bytes option"
  cq_zkEngine :: ZKProofEngine
  cq_fixedServerIV :: bytes
  cq_fixedClientIV :: bytes

text \<open>\<open>sig_result\<close> is \<open>None\<close> where a caller checks a claim without the result signature.\<close>

record ResponseSignatures =
  sig_attestorAddress :: jsstring
  sig_claim :: bytes
  sig_result :: "bytes option"

record ClaimTunnelResponse =
  cs_request :: "ClaimTunnelRequest option"
  cs_claim :: "ProviderClaimData option"
  cs_error :: "ErrorData option"
  cs_signatures :: "ResponseSignatures option"

text \<open>The requests and answers of the chain handlers.\<close>

record RequestClaimOnAvsRequest =
  ra_chainId :: int
  ra_jsonCreateClaimRequest :: jsstring
  ra_requestSignature :: bytes

record RequestClaimOnAvsResponse =
  rr_txHash :: jsstring
  rr_taskIndex :: int
  rr_jsonTask :: jsstring

record CompleteClaimOnAvsRequest =
  ca_chainId :: int
  ca_taskIndex :: int
  ca_completedTaskJson :: jsstring

record CompleteClaimOnAvsResponse =
  cr_txHash :: jsstring
  cr_taskCompletedObjectJson :: jsstring

record CreateTaskOnMechainResponse =
  mt_taskId :: int
  mt_requiredAttestors :: int
  mt_hosts :: "jsstring list"

record InitRequest =
  clientVersion :: int
  signatureType :: ServiceSignatureType
  im_auth :: "AuthenticationRequest option"

record proto_lib =
  encode_ClaimTunnelRequest :: "ClaimTunnelRequest \<Rightarrow> bytes"
  encode_ClaimTunnelResponse :: "ClaimTunnelResponse \<Rightarrow> bytes"
  encode_AuthenticatedUserData :: "AuthenticatedUserData \<Rightarrow> bytes"

end
