(* ===== verification/Claims.thy ===== *)
theory Claims
  imports Messages
begin

text \<open>
  Claims (\<open>src/utils/claims.ts\<close>): the string an attestor signs for a claim, the identifier of a
  claim, the hash of provider parameters and the client's check of the attestor's signatures.

  Keccak-256 and the package \<open>canonicalize\<close> are arguments (\<open>claim_lib\<close>), \<open>JSON.parse\<close> is the
  \<open>json_lib\<close> of the errors. A function that assigns to a member of its argument returns the changed
  argument too.
\<close>

record claim_lib =
  keccak256 :: "bytes \<Rightarrow> jsstring"
  canonicalize :: "json \<Rightarrow> jsstring option"
  cl_json :: json_lib

subsection \<open>Numbers in decimal\<close>

definition int_to_js :: "int \<Rightarrow> jsstring" where
  "int_to_js i = (if i < 0 then js ''-'' @ nat_to_js (nat (- i)) else nat_to_js (nat i))"

lemma digit_word: "d < 10 \<Longrightarrow> is_digit (of_nat (48 + d)) \<and> unat (of_nat (48 + d) :: 16 word) = 48 + d"
proof -
  assume d: "d < 10"
  then have u: "unat (of_nat (48 + d) :: 16 word) = 48 + d" by (subst unat_of_nat) simp
  with d show ?thesis unfolding is_digit_def word_le_nat_alt by simp
qed

lemma nat_to_js_digits: "list_all is_digit (nat_to_js n)"
proof (induction n rule: nat_to_js.induct)
  case (1 n)
  then show ?case
    using digit_word[of n] digit_word[of "n mod 10"] by (subst nat_to_js.simps) simp
qed

lemma nat_to_js_val: "digits_val 10 (nat_to_js n) = n"
proof (induction n rule: nat_to_js.induct)
  case (1 n)
  have v: "(case digit_val (of_nat (48 + d)) of None \<Rightarrow> 0 | Some d \<Rightarrow> d) = d" if "d < 10" for d
    using digit_word[OF that] by (simp add: digit_val_def)
  show ?case
  proof (cases "n < 10")
    case True
    then show ?thesis using v[OF True] by (subst nat_to_js.simps) (simp add: digits_val_def)
  next
    case False
    have "digits_val 10 (nat_to_js (n div 10) @ [of_nat (48 + n mod 10)]) = n div 10 * 10 + n mod 10"
      using 1[OF False] v[of "n mod 10"] by (simp add: digits_val_def)
    then show ?thesis using False by (subst nat_to_js.simps) simp
  qed
qed

lemma nat_to_js_inj: "nat_to_js m = nat_to_js n \<Longrightarrow> m = n"
  by (metis nat_to_js_val)

lemma int_to_js_chars: "c \<in> set (int_to_js i) \<Longrightarrow> is_digit c \<or> c = 45"
  using nat_to_js_digits by (auto simp: int_to_js_def list_all_iff js_def split: if_splits)

lemma int_to_js_inj: "int_to_js i = int_to_js j \<Longrightarrow> i = j"
proof -
  have minus: "45 \<notin> set (nat_to_js n)" for n
    using nat_to_js_digits[of n] by (auto simp: list_all_iff is_digit_def)
  assume "int_to_js i = int_to_js j"
  then show ?thesis
    using minus[of "nat i"] minus[of "nat j"]
    by (auto simp: int_to_js_def js_def dest: nat_to_js_inj split: if_splits)
      (metis list.set_intros(1))+
qed

lemma newline_not_in_int: "10 \<notin> set (int_to_js i)"
  using int_to_js_chars[of 10 i] by (auto simp: is_digit_def)

subsection \<open>Canonical JSON\<close>

definition json_falsy :: "json \<Rightarrow> bool" where
  "json_falsy j \<longleftrightarrow> j = JNull \<or> j = JBool False \<or> j = JNum 0 \<or> j = JStr []"

definition canonicalStringify :: "claim_lib \<Rightarrow> json option \<Rightarrow> jsstring" where
  "canonicalStringify C params =
     (case params of
        None \<Rightarrow> []
      | Some j \<Rightarrow> if json_falsy j then [] else (case canonicalize C j of None \<Rightarrow> [] | Some s \<Rightarrow> s))"

definition json_member :: "json \<Rightarrow> jsstring \<Rightarrow> json option" where
  "json_member j k = (case j of JObj ms \<Rightarrow> map_of ms k | _ \<Rightarrow> None)"

text \<open>Members that are \<open>undefined\<close> are left out by \<open>canonicalize\<close>.\<close>

definition hashProviderParams :: "claim_lib \<Rightarrow> json \<Rightarrow> jsstring" where
  "hashProviderParams C params =
     (let filteredParams = JObj (List.map_filter (\<lambda>k. map_option (Pair k) (json_member params k))
            [js ''url'', js ''method'', js ''body'', js ''responseMatches'', js ''responseRedactions''])
      in js_toLowerCase (keccak256 C (text_encode (canonicalStringify C (Some filteredParams)))))"

subsection \<open>Identifier and signed data\<close>

definition identifier_text :: "'a ClaimInfo_scheme \<Rightarrow> jsstring" where
  "identifier_text ci = ci_provider ci @ [10] @ ci_parameters ci @ [10] @ ci_context ci"

definition getIdentifierFromClaimInfo ::
  "claim_lib \<Rightarrow> 'a ClaimInfo_scheme \<Rightarrow> js_error + 'a ClaimInfo_scheme \<times> jsstring" where
  "getIdentifierFromClaimInfo C ci =
     bindR (if ci_context ci = [] then Inr ci
            else (case JSON_parse (cl_json C) (ci_context ci) of
                    None \<Rightarrow> Inl (PlainError ''unable to parse non-empty context. Must be JSON'')
                  | Some ctx \<Rightarrow> Inr (ci\<lparr>ci_context := canonicalStringify C (Some ctx)\<rparr>)))
       (\<lambda>ci'. Inr (ci', js_toLowerCase (keccak256 C (text_encode (identifier_text ci')))))"

text \<open>The four lines; the identifier is taken from the claim, not recomputed.\<close>

definition sign_data_lines :: "jsstring \<Rightarrow> jsstring \<Rightarrow> int \<Rightarrow> int \<Rightarrow> jsstring" where
  "sign_data_lines identifier own timestampS epoch =
     identifier @ [10] @ js_toLowerCase own @ [10] @ int_to_js timestampS @ [10] @ int_to_js epoch"

definition createSignDataForClaim :: "'a ProviderClaimData_scheme \<Rightarrow> jsstring" where
  "createSignDataForClaim c = sign_data_lines (pc_identifier c) (cd_owner c) (cd_timestampS c) (pc_epoch c)"

text \<open>The other branch: a claim given by its info instead of its identifier.\<close>

definition createSignDataForClaimInfo ::
  "claim_lib \<Rightarrow> 'a ClaimInfo_scheme \<Rightarrow> jsstring \<Rightarrow> int \<Rightarrow> int \<Rightarrow> js_error + 'a ClaimInfo_scheme \<times> jsstring" where
  "createSignDataForClaimInfo C ci own timestampS epoch =
     bindR (getIdentifierFromClaimInfo C ci) (\<lambda>(ci', i). Inr (ci', sign_data_lines i own timestampS epoch))"

subsection \<open>Checking the signatures of a response\<close>

definition assertValidClaimSignatures ::
  "eth_pkg \<Rightarrow> proto_lib \<Rightarrow> ClaimTunnelResponse \<Rightarrow> InitRequest \<Rightarrow> js_error + unit" where
  "assertValidClaimSignatures E P r metadata =
     (case cs_signatures r of
        None \<Rightarrow> Inl (PlainError ''No signatures provided'')
      | Some s \<Rightarrow>
          bindR (signature_scheme E (signatureType metadata)) (\<lambda>S.
          bindR (case sig_result s of
                   None \<Rightarrow> Inr True
                 | Some resultSignature \<Rightarrow>
                     verify_signature S (encode_ClaimTunnelResponse P (r\<lparr>cs_signatures := None\<rparr>)) resultSignature
                       (sig_attestorAddress s)) (\<lambda>verified.
          if \<not> verified then Inl (PlainError ''Invalid result signature'')
          else
            (case cs_claim r of
               None \<Rightarrow> Inr ()
             | Some c \<Rightarrow>
                 bindR (verify_signature S (text_encode (createSignDataForClaim c)) (sig_claim s) (sig_attestorAddress s))
                   (\<lambda>verifiedClaim.
                      if verifiedClaim then Inr () else Inl (PlainError ''Invalid claim signature''))))))"

lemma split_newline:
  "10 \<notin> set a \<Longrightarrow> 10 \<notin> set b \<Longrightarrow> a @ (10 :: 16 word) # x = b @ 10 # y \<longleftrightarrow> a = b \<and> x = y"
proof (induction a arbitrary: b)
  case Nil
  then show ?case by (cases b) auto
next
  case (Cons c a)
  then show ?case by (cases b) auto
qed

lemma split_newline_last:
  assumes "10 \<notin> set a" and "10 \<notin> set b"
  shows "x @ (10 :: 16 word) # a = y @ 10 # b \<longleftrightarrow> x = y \<and> a = b"
proof -
  have "x @ 10 # a = y @ 10 # b \<longleftrightarrow> rev a @ 10 # rev x = rev b @ 10 # rev y"
    by (metis append.assoc append_Cons append_Nil rev.simps(2) rev_append rev_rev_ident)
  then show ?thesis using split_newline[of "rev a" "rev b" "rev x" "rev y"] assms by auto
qed

text \<open>The string an attestor signs determines the claim's identifier, the owner up to case, the
  timestamp and the epoch, whatever the owner's text is (it may hold line feeds), as long as the
  identifier, a hash in hexadecimal, has none.\<close>

theorem sign_data_injective:
  assumes "createSignDataForClaim c = createSignDataForClaim d"
    and "10 \<notin> set (pc_identifier c)" and "10 \<notin> set (pc_identifier d)"
  shows "pc_identifier c = pc_identifier d \<and> js_toLowerCase (cd_owner c) = js_toLowerCase (cd_owner d)
    \<and> cd_timestampS c = cd_timestampS d \<and> pc_epoch c = pc_epoch d"
proof -
  have 1: "pc_identifier c = pc_identifier d"
    and 2: "(js_toLowerCase (cd_owner c) @ [10] @ int_to_js (cd_timestampS c)) @ 10 # int_to_js (pc_epoch c)
        = (js_toLowerCase (cd_owner d) @ [10] @ int_to_js (cd_timestampS d)) @ 10 # int_to_js (pc_epoch d)"
    using assms split_newline[OF assms(2,3)] by (auto simp: createSignDataForClaim_def sign_data_lines_def)
  note last = split_newline_last[OF newline_not_in_int newline_not_in_int]
  have 3: "js_toLowerCase (cd_owner c) @ 10 # int_to_js (cd_timestampS c) = js_toLowerCase (cd_owner d) @ 10 # int_to_js (cd_timestampS d)"
    and 4: "int_to_js (pc_epoch c) = int_to_js (pc_epoch d)"
    using 2[unfolded last] by simp_all
  show ?thesis using 1 3[unfolded last] 4 by (simp add: int_to_js_inj)
qed

definition example_claim :: ProviderClaimData where
  "example_claim = \<lparr>ci_provider = js ''http'', ci_parameters = js ''{}'', ci_context = [], cd_owner = js ''0xAB'',
     cd_timestampS = 1700000000, pc_identifier = js ''0x1f'', pc_epoch = 1\<rparr>"

theorem sign_data_injective_witness:
  "createSignDataForClaim example_claim = createSignDataForClaim (example_claim\<lparr>cd_owner := js ''0xab''\<rparr>)
   \<and> js_toLowerCase (js ''0xAB'') = js_toLowerCase (js ''0xab'')"
proof -
  have "createSignDataForClaim example_claim = createSignDataForClaim (example_claim\<lparr>cd_owner := js ''0xab''\<rparr>)"
    by (simp add: createSignDataForClaim_def sign_data_lines_def example_claim_def js_def js_toLowerCase_def lower_char_def)
  then show ?thesis
    using sign_data_injective[of example_claim "example_claim\<lparr>cd_owner := js ''0xab''\<rparr>"]
    by (simp add: example_claim_def js_def)
qed

text \<open>The client's check of a response passes exactly when there are signatures under a known
  scheme, the result signature, if given, covers the response without its signatures, and the claim
  signature covers the claim, if there is one.\<close>

theorem claim_signatures_accepted_iff:
  "assertValidClaimSignatures E P r metadata = Inr () \<longleftrightarrow>
     (case cs_signatures r of
        None \<Rightarrow> False
      | Some s \<Rightarrow> signatureType metadata = SERVICE_SIGNATURE_TYPE_ETH
          \<and> (case sig_result s of None \<Rightarrow> True
             | Some rs \<Rightarrow> verify_signature E (encode_ClaimTunnelResponse P (r\<lparr>cs_signatures := None\<rparr>)) rs
                 (sig_attestorAddress s) = Inr True)
          \<and> (case cs_claim r of None \<Rightarrow> True
             | Some c \<Rightarrow> verify_signature E (text_encode (createSignDataForClaim c)) (sig_claim s)
                 (sig_attestorAddress s) = Inr True))"
  by (auto simp: assertValidClaimSignatures_def signature_scheme_def SIGNATURES_def bindR_Inr_iff
      split: option.splits if_splits)

text \<open>Without the result signature the check does not cover what is claimed: a response whose
  provider, parameters and context were exchanged, under the same identifier, is judged the same,
  since the identifier is never compared with them.\<close>

theorem claim_signature_ignores_parameters:
  "assertValidClaimSignatures E P
     \<lparr>cs_request = q, cs_claim = Some (c\<lparr>ci_provider := prov, ci_parameters := params, ci_context := ctx\<rparr>),
      cs_error = e, cs_signatures = Some \<lparr>sig_attestorAddress = a, sig_claim = s, sig_result = None\<rparr>\<rparr> metadata
   = assertValidClaimSignatures E P
     \<lparr>cs_request = q, cs_claim = Some c, cs_error = e,
      cs_signatures = Some \<lparr>sig_attestorAddress = a, sig_claim = s, sig_result = None\<rparr>\<rparr> metadata"
  by (simp add: assertValidClaimSignatures_def createSignDataForClaim_def)

text \<open>The text hashed to the identifier of a claim determines provider, parameters and canonical
  context when provider and parameters have no line feed, so two different claims share an identifier
  only by a collision of the hash.\<close>

theorem identifier_text_injective:
  assumes "getIdentifierFromClaimInfo C c = Inr (c', i)" and "getIdentifierFromClaimInfo C d = Inr (d', i)"
    and "\<forall>ch \<in> {ci_provider c, ci_parameters c, ci_provider d, ci_parameters d}. 10 \<notin> set ch"
    and "js_toLowerCase (keccak256 C (text_encode (identifier_text c'))) = js_toLowerCase (keccak256 C (text_encode (identifier_text d')))
      \<longrightarrow> identifier_text c' = identifier_text d'"
  shows "ci_provider c = ci_provider d \<and> ci_parameters c = ci_parameters d \<and> ci_context c' = ci_context d'"
proof -
  have c: "ci_provider c' = ci_provider c" "ci_parameters c' = ci_parameters c"
      "i = js_toLowerCase (keccak256 C (text_encode (identifier_text c')))"
    using assms(1) by (auto simp: getIdentifierFromClaimInfo_def bindR_Inr_iff split: if_splits option.splits)
  have d: "ci_provider d' = ci_provider d" "ci_parameters d' = ci_parameters d"
      "i = js_toLowerCase (keccak256 C (text_encode (identifier_text d')))"
    using assms(2) by (auto simp: getIdentifierFromClaimInfo_def bindR_Inr_iff split: if_splits option.splits)
  have "identifier_text c' = identifier_text d'" using assms(4) c(3) d(3) by simp
  then show ?thesis using c d assms(3) by (simp add: identifier_text_def split_newline)
qed

theorem identifier_text_injective_witness:
  "\<exists>C i. getIdentifierFromClaimInfo C example_claim = Inr (example_claim, i)
     \<and> (\<forall>p. getIdentifierFromClaimInfo C (example_claim\<lparr>ci_parameters := p, ci_provider := js ''x''\<rparr>)
           \<noteq> Inr (example_claim\<lparr>ci_parameters := p, ci_provider := js ''x''\<rparr>, i) \<or> p \<noteq> js ''{}'')"
proof -
  let ?C = "\<lparr>keccak256 = text_decode, canonicalize = \<lambda>_. None, cl_json = \<lparr>JSON_parse = \<lambda>_. None, JSON_stringify = \<lambda>_. []\<rparr>\<rparr>"
  let ?d = "example_claim\<lparr>ci_parameters := js ''{}'', ci_provider := js ''x''\<rparr>"
  let ?i = "js_toLowerCase (text_decode (text_encode (identifier_text example_claim)))"
  have id: "getIdentifierFromClaimInfo ?C example_claim = Inr (example_claim, ?i)"
    by (simp add: getIdentifierFromClaimInfo_def example_claim_def)
  have "getIdentifierFromClaimInfo ?C ?d \<noteq> Inr (?d, ?i)"
  proof
    assume d: "getIdentifierFromClaimInfo ?C ?d = Inr (?d, ?i)"
    have "js ''http'' = js ''x''"
      using identifier_text_injective[OF id d]
      by (simp add: example_claim_def js_def identifier_text_def js_toLowerCase_def lower_char_def
        text_encode_ascii ascii_string_def text_decode_ascii ascii_bytes_def)
    then show False by (simp add: js_def)
  qed
  then show ?thesis using id by (intro exI[of _ ?C] exI[of _ ?i]) auto
qed

end
