(* ===== verification/Handshake.thy ===== *)
theory Handshake
  imports Messages
begin

text \<open>
  The handshake as the attestor reads it from a revealed transcript
  (\<open>src/server/utils/process-handshake.ts\<close>, with \<open>decryptDirect\<close> of \<open>src/utils/generics.ts\<close>):
  \<open>readPacket\<close> reassembles handshake messages from records and decrypts them, \<open>handle_packet\<close> is the
  \<open>switch\<close> on the message type, \<open>handshake_loop\<close> the loop.

  The package \<open>@reclaimprotocol/tls\<close> is the record \<open>hs_pkg\<close>: its constants, its parsers and its
  verification of signatures and certificate chains. Certificates and keys are opaque bytes.
\<close>

record client_hello =
  ch_random :: bytes
  ch_serverName :: "jsstring option"

record server_hello =
  sh_cipherSuite :: jsstring
  sh_version :: TLSProtocolVersion
  sh_random :: bytes

record key_share =
  ks_publicKeyType :: jsstring
  ks_publicKey :: bytes
  ks_signature :: bytes
  ks_algorithm :: jsstring

record cert_signature =
  vs_signature :: bytes
  vs_algorithm :: jsstring
  vs_publicKey :: bytes
  vs_data :: bytes

record hs_pkg =
  hs_tls :: tls_pkg
  RT_CLIENT_HELLO :: byte
  RT_SERVER_HELLO :: byte
  RT_CERTIFICATE :: byte
  RT_CERTIFICATE_VERIFY :: byte
  RT_SERVER_KEY_SHARE :: byte
  RT_FINISHED :: byte
  parseClientHello :: "bytes \<Rightarrow> js_error + client_hello"
  parseServerHello :: "bytes \<Rightarrow> js_error + server_hello"
  parseCertificates :: "bytes \<Rightarrow> TLSProtocolVersion option \<Rightarrow> js_error + bytes list"
  cert_publicKey :: "bytes \<Rightarrow> bytes"
  parseServerCertificateVerify :: "bytes \<Rightarrow> js_error + bytes \<times> jsstring"
  getSignatureDataTls13 :: "bytes list \<Rightarrow> jsstring option \<Rightarrow> js_error + bytes"
  getSignatureDataTls12 :: "bytes option \<Rightarrow> bytes option \<Rightarrow> jsstring \<Rightarrow> bytes \<Rightarrow> js_error + bytes"
  processServerKeyShare :: "bytes \<Rightarrow> js_error + key_share"
  verifyCertificateSignature :: "cert_signature \<Rightarrow> js_error + unit"
  verifyCertificateChain :: "bytes list \<Rightarrow> jsstring option \<Rightarrow> js_error + unit"
  suite_cipher :: "jsstring \<Rightarrow> js_error + jsstring"
  importKey :: "jsstring \<Rightarrow> bytes \<Rightarrow> js_error + bytes"
  decryptWrappedRecord :: "bytes \<Rightarrow> bytes \<Rightarrow> bytes \<Rightarrow> bytes \<Rightarrow> int \<Rightarrow> TLSProtocolVersion \<Rightarrow> jsstring \<Rightarrow> js_error + bytes"

definition decryptDirect ::
  "hs_pkg \<Rightarrow> MessageRevealDirect \<Rightarrow> jsstring \<Rightarrow> bytes \<Rightarrow> TLSProtocolVersion \<Rightarrow> bytes \<Rightarrow> js_error + bytes" where
  "decryptDirect H reveal cipherSuite recHeader serverTlsVersion content =
     bindR (suite_cipher H cipherSuite) (\<lambda>cipher.
     bindR (importKey H cipher (md_key reveal)) (\<lambda>importedKey.
       decryptWrappedRecord H content (md_iv reveal) importedKey recHeader (md_recordNumber reveal) serverTlsVersion cipherSuite))"

subsection \<open>Records\<close>

definition getWithoutHeader :: "bytes \<Rightarrow> bytes" where
  "getWithoutHeader message = js_slice_from message 5"

text \<open>\<open>DataView\<close> accesses throw outside the view; big-endian.\<close>

definition getUint8 :: "bytes \<Rightarrow> nat \<Rightarrow> js_error + nat" where
  "getUint8 data off =
     (if off < length data then Inr (unat (data ! off)) else Inl (JsRangeError ''Offset is outside the bounds of the DataView''))"

definition getUint16 :: "bytes \<Rightarrow> nat \<Rightarrow> js_error + nat" where
  "getUint16 data off =
     (if off + 1 < length data then Inr (unat (data ! off) * 256 + unat (data ! (off + 1)))
      else Inl (JsRangeError ''Offset is outside the bounds of the DataView''))"

definition readWithLength :: "bytes \<Rightarrow> nat \<Rightarrow> js_error + bytes option" where
  "readWithLength data lengthBytes =
     bindR (if lengthBytes = 1 then getUint8 data 0 else getUint16 data (if lengthBytes = 3 then 1 else 0))
       (\<lambda>len. if length data < lengthBytes + len then Inr None
              else Inr (Some (js_slice data (int lengthBytes) (int lengthBytes + int len))))"

definition RECORD_LENGTH_BYTES :: nat where
  "RECORD_LENGTH_BYTES = 3"

subsection \<open>State\<close>

record handshake_state =
  currentPacketIdx :: nat
  readPacketIdx :: nat
  handshakeData :: bytes
  handshakeRawMessages :: "bytes list"
  certificates :: "bytes list"
  hs_cipherSuite :: "jsstring option"
  hs_tlsVersion :: "TLSProtocolVersion option"
  serverRandom :: "bytes option"
  clientRandom :: "bytes option"
  serverFinishedIdx :: int
  clientFinishedIdx :: int
  certVerified :: bool
  hs_hostname :: "jsstring option"
  clientChangeCipherSpecMsgIdx :: int
  serverChangeCipherSpecMsgIdx :: int

definition init_handshake :: handshake_state where
  "init_handshake = \<lparr>currentPacketIdx = 0, readPacketIdx = 0, handshakeData = [], handshakeRawMessages = [],
     certificates = [], hs_cipherSuite = None, hs_tlsVersion = None, serverRandom = None, clientRandom = None,
     serverFinishedIdx = -1, clientFinishedIdx = -1, certVerified = False, hs_hostname = None,
     clientChangeCipherSpecMsgIdx = -1, serverChangeCipherSpecMsgIdx = -1\<rparr>"

subsection \<open>readPacket\<close>

text \<open>Whether a record is encrypted: wrapped, or sent after the sender's change of cipher.\<close>

definition is_encrypted :: "hs_pkg \<Rightarrow> handshake_state \<Rightarrow> TranscriptMessage \<Rightarrow> bool" where
  "is_encrypted H st m \<longleftrightarrow>
     js_get (tm_message m) 0 = Some (PT_WRAPPED_RECORD (hs_tls H))
     \<or> (serverChangeCipherSpecMsgIdx st > 0 \<and> tm_sender m = SENDER_SERVER)
     \<or> (clientChangeCipherSpecMsgIdx st > 0 \<and> tm_sender m = SENDER_CLIENT)"

definition record_data :: "hs_pkg \<Rightarrow> handshake_state \<Rightarrow> TranscriptMessage \<Rightarrow> js_error + bytes" where
  "record_data H st m =
     (let content = getWithoutHeader (tm_message m) in
      if is_encrypted H st m then
        (case (hs_tlsVersion st, hs_cipherSuite st) of
           (Some v, Some suite) \<Rightarrow>
             if suite = [] then Inl (PlainError ''Could not find cipherSuite to use'')
             else
               (case Option.bind (tm_reveal m) directReveal of
                  None \<Rightarrow> Inl (PlainError ''no direct reveal for handshake packet'')
                | Some reveal \<Rightarrow>
                    bindR (decryptDirect H reveal suite (js_slice (tm_message m) 0 5) v content) (\<lambda>plaintext.
                      Inr (if v = TLS1_3 then js_slice plaintext 0 (-1) else plaintext)))
         | _ \<Rightarrow> Inl (PlainError ''Could not find cipherSuite to use''))
      else Inr content)"

definition is_change_cipher :: "hs_pkg \<Rightarrow> TranscriptMessage \<Rightarrow> bool" where
  "is_change_cipher H m \<longleftrightarrow> js_get (tm_message m) 0 = Some (PT_CHANGE_CIPHER_SPEC (hs_tls H))"

definition change_cipher :: "TranscriptMessage \<Rightarrow> handshake_state \<Rightarrow> handshake_state" where
  "change_cipher m st =
     (let st' = (if tm_sender m = SENDER_CLIENT
                 then st\<lparr>clientChangeCipherSpecMsgIdx := int (currentPacketIdx st)\<rparr>
                 else st\<lparr>serverChangeCipherSpecMsgIdx := int (currentPacketIdx st)\<rparr>)
      in st'\<lparr>currentPacketIdx := currentPacketIdx st + 1\<rparr>)"

text \<open>The first message in the reassembled bytes, if it is there in full.\<close>

definition first_message :: "bytes \<Rightarrow> js_error + (byte \<times> bytes) option" where
  "first_message d =
     bindR (readWithLength (js_slice_from d 1) RECORD_LENGTH_BYTES) (\<lambda>c.
       Inr (case c of None \<Rightarrow> None | Some content \<Rightarrow> map_option (\<lambda>t. (t, content)) (js_get d 0)))"

definition take_message :: "bytes \<Rightarrow> handshake_state \<Rightarrow> handshake_state" where
  "take_message content st =
     (let totalLength = int (1 + RECORD_LENGTH_BYTES + length content);
          rest = js_slice_from (handshakeData st) totalLength
      in st\<lparr>handshakeRawMessages := handshakeRawMessages st @ [js_slice (handshakeData st) 0 totalLength],
            handshakeData := rest,
            currentPacketIdx := (if rest = [] then currentPacketIdx st + 1 else currentPacketIdx st)\<rparr>)"

text \<open>The bytes to read a message from: those left over, with the record's when they are none or too few.\<close>

definition load_data :: "hs_pkg \<Rightarrow> bool \<Rightarrow> TranscriptMessage \<Rightarrow> handshake_state \<Rightarrow> js_error + handshake_state" where
  "load_data H getMoreData m st =
     (if handshakeData st = [] \<or> getMoreData then
        bindR (record_data H st m) (\<lambda>newHandshakeData.
          Inr (st\<lparr>handshakeData := concatenateUint8Arrays (hs_tls H) [handshakeData st, newHandshakeData]\<rparr>))
      else Inr st)"

lemma load_data_Inr: "load_data H b m st = Inr st' \<Longrightarrow> \<exists>d. st' = st\<lparr>handshakeData := d\<rparr>"
  by (cases st) (auto simp: load_data_def bindR_Inr_iff split: if_splits)

lemma load_data_keeps: "load_data H b m st = Inr st' \<Longrightarrow> currentPacketIdx st' = currentPacketIdx st"
  by (auto dest: load_data_Inr)

function readPacket ::
  "hs_pkg \<Rightarrow> TranscriptMessage list \<Rightarrow> bool \<Rightarrow> handshake_state \<Rightarrow> js_error + handshake_state \<times> (byte \<times> bytes) option" where
  "readPacket H receipt getMoreData st =
     (if length receipt \<le> currentPacketIdx st then Inr (st, None)
      else if certVerified st \<and> 0 < serverFinishedIdx st \<and> 0 < clientFinishedIdx st then Inr (st, None)
      else
        (let st1 = st\<lparr>readPacketIdx := currentPacketIdx st\<rparr>;
             m = receipt ! currentPacketIdx st
         in if (handshakeData st = [] \<or> getMoreData) \<and> is_change_cipher H m
            then readPacket H receipt False (change_cipher m st1)
            else
              (case load_data H getMoreData m st1 of
                 Inl e \<Rightarrow> Inl e
               | Inr st2 \<Rightarrow>
                   (case first_message (handshakeData st2) of
                      Inl e \<Rightarrow> Inl e
                    | Inr None \<Rightarrow> readPacket H receipt True (st2\<lparr>currentPacketIdx := currentPacketIdx st2 + 1\<rparr>)
                    | Inr (Some (t, content)) \<Rightarrow> Inr (take_message content st2, Some (t, content))))))"
  by pat_completeness auto
termination
  by (relation "measure (\<lambda>(H, receipt, more, st). length receipt - currentPacketIdx st)")
    (auto simp: change_cipher_def Let_def dest: load_data_keeps)

declare readPacket.simps [simp del]

subsection \<open>The switch on the message type\<close>

definition verified_chain ::
  "hs_pkg \<Rightarrow> cert_signature \<Rightarrow> handshake_state \<Rightarrow> js_error + handshake_state" where
  "verified_chain H s st =
     bindR (verifyCertificateSignature H s) (\<lambda>_.
     bindR (verifyCertificateChain H (certificates st) (hs_hostname st)) (\<lambda>_.
       Inr (st\<lparr>certVerified := True\<rparr>)))"

definition handle_packet ::
  "hs_pkg \<Rightarrow> TranscriptMessage list \<Rightarrow> byte \<Rightarrow> bytes \<Rightarrow> handshake_state \<Rightarrow> js_error + handshake_state" where
  "handle_packet H receipt t content st =
     (if t = RT_CLIENT_HELLO H then
        bindR (parseClientHello H (handshakeRawMessages st ! 0)) (\<lambda>hello.
          case ch_serverName hello of
            None \<Rightarrow> Inl (PlainError ''client hello has no SNI'')
          | Some h \<Rightarrow>
              if h = [] then Inl (PlainError ''client hello has no SNI'')
              else Inr (st\<lparr>clientRandom := Some (ch_random hello), hs_hostname := Some h\<rparr>))
      else if t = RT_SERVER_HELLO H then
        bindR (parseServerHello H content) (\<lambda>hello.
          Inr (st\<lparr>hs_cipherSuite := Some (sh_cipherSuite hello), hs_tlsVersion := Some (sh_version hello),
                  serverRandom := Some (sh_random hello)\<rparr>))
      else if t = RT_CERTIFICATE H then
        bindR (parseCertificates H content (hs_tlsVersion st)) (\<lambda>cs.
          Inr (st\<lparr>certificates := certificates st @ cs\<rparr>))
      else if t = RT_CERTIFICATE_VERIFY H then
        bindR (parseServerCertificateVerify H content) (\<lambda>(sig, alg).
          case certificates st of
            [] \<Rightarrow> Inl (PlainError ''No provider certificates received'')
          | c # cs \<Rightarrow>
              bindR (getSignatureDataTls13 H (butlast (handshakeRawMessages st)) (hs_cipherSuite st)) (\<lambda>data.
                verified_chain H \<lparr>vs_signature = sig, vs_algorithm = alg, vs_publicKey = cert_publicKey H c, vs_data = data\<rparr> st))
      else if t = RT_SERVER_KEY_SHARE H then
        (case certificates st of
           [] \<Rightarrow> Inl (PlainError ''No provider certificates received'')
         | c # cs \<Rightarrow>
             bindR (processServerKeyShare H content) (\<lambda>ks.
             bindR (getSignatureDataTls12 H (clientRandom st) (serverRandom st) (ks_publicKeyType ks) (ks_publicKey ks)) (\<lambda>data.
               verified_chain H \<lparr>vs_signature = ks_signature ks, vs_algorithm = ks_algorithm ks,
                 vs_publicKey = cert_publicKey H c, vs_data = data\<rparr> st)))
      else if t = RT_FINISHED H then
        Inr (if tm_sender (receipt ! readPacketIdx st) = SENDER_CLIENT
             then st\<lparr>clientFinishedIdx := int (readPacketIdx st)\<rparr>
             else st\<lparr>serverFinishedIdx := int (readPacketIdx st)\<rparr>)
      else Inr st)"

subsection \<open>The loop\<close>

lemma first_message_nonempty: "first_message d = Inr (Some x) \<Longrightarrow> d \<noteq> []"
  by (auto simp: first_message_def bindR_Inr_iff js_get_def split: option.splits)

lemma take_message_fields [simp]:
  "handshakeData (take_message c st) = drop (4 + length c) (handshakeData st)"
  "currentPacketIdx (take_message c st) =
     (if drop (4 + length c) (handshakeData st) = [] then currentPacketIdx st + 1 else currentPacketIdx st)"
  "certVerified (take_message c st) = certVerified st"
  "certificates (take_message c st) = certificates st"
  "hs_hostname (take_message c st) = hs_hostname st"
  by (simp_all add: take_message_def Let_def RECORD_LENGTH_BYTES_def js_slices nat_add_distrib)

lemma change_cipher_fields [simp]:
  "handshakeData (change_cipher m st) = handshakeData st"
  "currentPacketIdx (change_cipher m st) = currentPacketIdx st + 1"
  "certVerified (change_cipher m st) = certVerified st"
  "certificates (change_cipher m st) = certificates st"
  "hs_hostname (change_cipher m st) = hs_hostname st"
  "handshakeRawMessages (change_cipher m st) = handshakeRawMessages st"
  by (simp_all add: change_cipher_def Let_def)

lemma readPacket_cases:
  assumes "readPacket H r b st = Inr (st', x)"
  obtains (stop) "x = None" "st' = st"
  | (change) m where "currentPacketIdx st < length r"
      "readPacket H r False (change_cipher m (st\<lparr>readPacketIdx := currentPacketIdx st\<rparr>)) = Inr (st', x)"
  | (more) d where "currentPacketIdx st < length r"
      "readPacket H r True (st\<lparr>readPacketIdx := currentPacketIdx st, handshakeData := d,
         currentPacketIdx := currentPacketIdx st + 1\<rparr>) = Inr (st', x)"
  | (message) d t c where "x = Some (t, c)" "currentPacketIdx st < length r" "d \<noteq> []"
      "handshakeData st \<noteq> [] \<and> \<not> b \<longrightarrow> d = handshakeData st"
      "st' = take_message c (st\<lparr>readPacketIdx := currentPacketIdx st, handshakeData := d\<rparr>)"
proof -
  let ?st1 = "st\<lparr>readPacketIdx := currentPacketIdx st\<rparr>" and ?m = "r ! currentPacketIdx st"
  note step = assms[unfolded readPacket.simps[of H r b st] Let_def]
  show thesis
  proof (cases "length r \<le> currentPacketIdx st \<or> (certVerified st \<and> 0 < serverFinishedIdx st \<and> 0 < clientFinishedIdx st)")
    case True
    then show thesis using step stop by (auto split: if_splits)
  next
    case go: False
    then have idx: "currentPacketIdx st < length r" by simp
    show thesis
    proof (cases "(handshakeData st = [] \<or> b) \<and> is_change_cipher H ?m")
      case True
      then show thesis using step go idx by (intro change[of ?m]) auto
    next
      case nochange: False
      show thesis
      proof (cases "load_data H b ?m ?st1")
        case (Inr st2)
        then obtain d where d: "st2 = ?st1\<lparr>handshakeData := d\<rparr>" using load_data_Inr by blast
        have same: "handshakeData st \<noteq> [] \<and> \<not> b \<longrightarrow> d = handshakeData st"
          using Inr d by (cases st) (auto simp: load_data_def)
        show thesis
        proof (cases "first_message d")
          case (Inr y)
          show thesis
          proof (cases y)
            case None
            then show thesis
              using step go nochange idx d Inr \<open>load_data H b ?m ?st1 = Inr st2\<close> by (intro more[of d]) auto
          next
            case (Some tc)
            then show thesis
              using step go nochange idx d Inr same first_message_nonempty[of d tc] \<open>load_data H b ?m ?st1 = Inr st2\<close>
              by (intro message[of "fst tc" "snd tc" d]) (auto split: prod.splits)
          qed
        qed (use step go nochange d Inr in auto)
      qed (use step go nochange in auto)
    qed
  qed
qed

lemma readPacket_progress:
  "readPacket H r b st = Inr (st', Some x) \<Longrightarrow>
     currentPacketIdx st < length r
     \<and> (currentPacketIdx st < currentPacketIdx st'
        \<or> (currentPacketIdx st' = currentPacketIdx st \<and> handshakeData st' \<noteq> []
           \<and> (b \<or> handshakeData st = [] \<or> length (handshakeData st') < length (handshakeData st))))"
proof (induction "length r - currentPacketIdx st" arbitrary: b st rule: less_induct)
  case less
  from less.prems show ?case
  proof (cases rule: readPacket_cases)
    case (change m)
    have "length r - currentPacketIdx (change_cipher m (st\<lparr>readPacketIdx := currentPacketIdx st\<rparr>)) < length r - currentPacketIdx st"
      using change(1) by simp
    from less.hyps[OF this change(2)] show ?thesis using change(1) by auto
  next
    case (more d)
    have "length r - currentPacketIdx (st\<lparr>readPacketIdx := currentPacketIdx st, handshakeData := d,
        currentPacketIdx := currentPacketIdx st + 1\<rparr>) < length r - currentPacketIdx st"
      using more(1) by simp
    from less.hyps[OF this more(2)] show ?thesis using more(1) by auto
  next
    case (message d t c)
    then show ?thesis by auto
  qed simp
qed

function handshake_loop :: "hs_pkg \<Rightarrow> TranscriptMessage list \<Rightarrow> handshake_state \<Rightarrow> js_error + handshake_state" where
  "handshake_loop H receipt st =
     (case readPacket H receipt False st of
        Inl e \<Rightarrow> Inl e
      | Inr (st1, None) \<Rightarrow> Inr st1
      | Inr (st1, Some (t, content)) \<Rightarrow>
          (case handle_packet H receipt t content st1 of
             Inl e \<Rightarrow> Inl e
           | Inr st2 \<Rightarrow> handshake_loop H receipt st2))"
  by pat_completeness auto

lemma handle_packet_fields:
  "handle_packet H r t c st = Inr st' \<Longrightarrow>
     currentPacketIdx st' = currentPacketIdx st \<and> handshakeData st' = handshakeData st
     \<and> handshakeRawMessages st' = handshakeRawMessages st"
  by (cases "certificates st")
    (auto simp: handle_packet_def verified_chain_def bindR_Inr_iff split: if_splits option.splits)

termination handshake_loop
  by (relation "measures [\<lambda>(H, r, st). length r - currentPacketIdx st,
      \<lambda>(H, r, st). if handshakeData st = [] then 1 else 0, \<lambda>(H, r, st). length (handshakeData st)]")
    (auto dest!: readPacket_progress handle_packet_fields)

declare handshake_loop.simps [simp del]

record handshake_result =
  hr_tlsVersion :: "TLSProtocolVersion option"
  hr_cipherSuite :: "jsstring option"
  hr_hostname :: "jsstring option"
  nextMsgIndex :: int

definition processHandshake :: "hs_pkg \<Rightarrow> TranscriptMessage list \<Rightarrow> js_error + handshake_result" where
  "processHandshake H receipt =
     bindR (handshake_loop H receipt init_handshake) (\<lambda>st.
       if \<not> certVerified st then Inl (PlainError ''No provider certificates received'')
       else if hs_tlsVersion st = Some TLS1_3 \<and> serverFinishedIdx st < 0
       then Inl (PlainError ''server finished message not found'')
       else if hs_tlsVersion st = Some TLS1_2
               \<and> (serverChangeCipherSpecMsgIdx st < 0 \<or> clientChangeCipherSpecMsgIdx st < 0)
       then Inl (PlainError ''change cipher spec message not found'')
       else Inr \<lparr>hr_tlsVersion = hs_tlsVersion st, hr_cipherSuite = hs_cipherSuite st, hr_hostname = hs_hostname st,
                 nextMsgIndex = max (serverFinishedIdx st) (clientFinishedIdx st) + 1\<rparr>)"

subsection \<open>Framing of handshake messages\<close>

definition frame24 :: "byte \<Rightarrow> bytes \<Rightarrow> bytes" where
  "frame24 t c = t # of_nat (length c div 65536) # of_nat (length c div 256 mod 256) # of_nat (length c mod 256) # c"

lemma first_message_cut:
  assumes "unat b1 * 256 + unat b0 = n" and "n \<le> length bd"
  shows "first_message (t # b2 # b1 # b0 # bd) = Inr (Some (t, take n bd))"
proof -
  have "getUint16 (b2 # b1 # b0 # bd) 1 = Inr n" using assms(1) by (simp add: getUint16_def)
  moreover have "js_slice (b2 # b1 # b0 # bd) 3 (3 + int n) = take n bd"
    by (simp add: js_slices nat_add_distrib eval_nat_numeral)
  ultimately show ?thesis
    using assms(2) by (simp add: first_message_def readWithLength_def RECORD_LENGTH_BYTES_def js_slices js_get_def)
qed

text \<open>The length of a handshake message is read as 16 of its 24 bits: a correctly framed message
  comes back as its first \<open>length mod 65536\<close> bytes, so as itself exactly when it is shorter than 64 KiB.\<close>

theorem framed_message_length_mod_65536:
  assumes "length c < 2 ^ 24"
  shows "first_message (frame24 t c @ rest) = Inr (Some (t, take (length c mod 65536) c))"
proof -
  let ?b1 = "of_nat (length c div 256 mod 256) :: byte" and ?b0 = "of_nat (length c mod 256) :: byte"
  have "unat ?b1 = length c div 256 mod 256" "unat ?b0 = length c mod 256"
    by (simp_all add: unat_of_nat)
  moreover have "length c div 256 mod 256 * 256 + length c mod 256 = length c mod 65536"
    using mod_mult2_eq[of "length c" 256 256] by simp
  ultimately have n: "unat ?b1 * 256 + unat ?b0 = length c mod 65536" by simp
  have "length c mod 65536 \<le> length c" by simp
  then show ?thesis
    using first_message_cut[OF n, of "c @ rest" t "of_nat (length c div 65536)"]
    by (simp add: frame24_def)
qed

theorem framed_message_length_mod_65536_witness:
  "first_message (frame24 11 [1, 2, 3] @ [7]) = Inr (Some (11, [1, 2, 3]))
   \<and> first_message (frame24 11 (replicate 65537 5)) = Inr (Some (11, [5]))"
proof -
  have "first_message (frame24 11 (replicate 65537 5) @ []) = Inr (Some (11, take (65537 mod 65536) (replicate 65537 5)))"
    using framed_message_length_mod_65536[of "replicate 65537 5" 11 "[]"] by (simp only: length_replicate) simp
  moreover have "take (65537 mod 65536) (replicate 65537 (5 :: byte)) = [5]"
    by (simp only: take_replicate) simp
  ultimately show ?thesis using framed_message_length_mod_65536[of "[1, 2, 3]" 11 "[7]"] by (simp only: append_Nil2) simp
qed

text \<open>Handshake bytes that stop inside the four bytes of a message header are not waited for: reading
  them throws a range error, unlike a message cut off after its header.\<close>

theorem split_message_header_throws:
  assumes "length d < 4"
  shows "\<exists>e. first_message d = Inl (JsRangeError e)"
  using assms by (auto simp: first_message_def readWithLength_def RECORD_LENGTH_BYTES_def getUint16_def js_slices)

theorem split_message_header_throws_witness:
  "(\<exists>e. first_message [11, 0, 0] = Inl (JsRangeError e)) \<and> first_message [11, 0, 0, 2, 9] = Inr None"
  using split_message_header_throws[of "[11, 0, 0]"]
  by (simp add: first_message_def readWithLength_def RECORD_LENGTH_BYTES_def getUint16_def js_slices)

subsection \<open>The certificate chain\<close>

definition chain_checked :: "hs_pkg \<Rightarrow> jsstring option \<Rightarrow> bool" where
  "chain_checked H host \<longleftrightarrow>
     (\<exists>cert certs s. verifyCertificateChain H (cert # certs) host = Inr () \<and> verifyCertificateSignature H s = Inr ()
        \<and> vs_publicKey s = cert_publicKey H cert)"

definition hs_inv :: "hs_pkg \<Rightarrow> handshake_state \<Rightarrow> bool" where
  "hs_inv H st \<longleftrightarrow>
     (certVerified st \<longrightarrow> chain_checked H None \<or> chain_checked H (hs_hostname st))
     \<and> (\<forall>h. hs_hostname st = Some h \<longrightarrow> h \<noteq> [] \<and> handshakeRawMessages st \<noteq> []
          \<and> (\<exists>hello. parseClientHello H (handshakeRawMessages st ! 0) = Inr hello \<and> ch_serverName hello = Some h))"

lemma take_message_raw: "\<exists>x. handshakeRawMessages (take_message c st) = handshakeRawMessages st @ [x]"
  by (simp add: take_message_def Let_def)

lemma readPacket_same:
  "readPacket H r b st = Inr (st', x) \<Longrightarrow>
     certVerified st' = certVerified st \<and> certificates st' = certificates st \<and> hs_hostname st' = hs_hostname st
     \<and> (\<exists>zs. handshakeRawMessages st' = handshakeRawMessages st @ zs \<and> (x \<noteq> None \<longrightarrow> zs \<noteq> []))"
proof (induction "length r - currentPacketIdx st" arbitrary: b st rule: less_induct)
  case less
  from less.prems show ?case
  proof (cases rule: readPacket_cases)
    case (change m)
    show ?thesis using less.hyps[OF _ change(2)] change(1) by simp
  next
    case (more d)
    show ?thesis using less.hyps[OF _ more(2)] more(1) by simp
  next
    case (message d t c)
    then show ?thesis using take_message_raw[of c "st\<lparr>readPacketIdx := currentPacketIdx st, handshakeData := d\<rparr>"] by auto
  qed simp
qed

lemma readPacket_inv:
  assumes "readPacket H r b st = Inr (st', x)" and "hs_inv H st"
  shows "hs_inv H st' \<and> (x \<noteq> None \<longrightarrow> handshakeRawMessages st' \<noteq> [])"
proof -
  obtain zs where "certVerified st' = certVerified st" "hs_hostname st' = hs_hostname st"
    "handshakeRawMessages st' = handshakeRawMessages st @ zs" "x \<noteq> None \<longrightarrow> zs \<noteq> []"
    using readPacket_same[OF assms(1)] by auto
  then show ?thesis using assms(2) by (auto simp: hs_inv_def nth_append)
qed

lemma verified_chain_checked:
  "verified_chain H s st = Inr st' \<Longrightarrow> certificates st = c # cs \<Longrightarrow> vs_publicKey s = cert_publicKey H c \<Longrightarrow>
     st' = st\<lparr>certVerified := True\<rparr> \<and> chain_checked H (hs_hostname st)"
  by (fastforce simp: verified_chain_def bindR_Inr_iff chain_checked_def)

lemma handle_packet_chain:
  assumes "handle_packet H r t c st = Inr st'" and "certificates st = cert # certs"
    and "t \<noteq> RT_CLIENT_HELLO H" and "t \<noteq> RT_SERVER_HELLO H"
    and "t = RT_CERTIFICATE_VERIFY H \<or> t = RT_SERVER_KEY_SHARE H" and "t \<noteq> RT_CERTIFICATE H"
  shows "\<exists>s. verified_chain H s st = Inr st' \<and> vs_publicKey s = cert_publicKey H cert"
proof (cases "t = RT_CERTIFICATE_VERIFY H")
  case True
  then obtain sig alg data where "verified_chain H \<lparr>vs_signature = sig, vs_algorithm = alg,
      vs_publicKey = cert_publicKey H cert, vs_data = data\<rparr> st = Inr st'"
    using assms(1-4,6) by (simp add: handle_packet_def bindR_Inr_iff) blast
  then show ?thesis by fastforce
next
  case False
  then have "\<exists>(ks :: key_share) data. verified_chain H \<lparr>vs_signature = ks_signature ks, vs_algorithm = ks_algorithm ks,
      vs_publicKey = cert_publicKey H cert, vs_data = data\<rparr> st = Inr st'"
    using assms by (auto simp: handle_packet_def bindR_Inr_iff)
  then show ?thesis by fastforce
qed

lemma handle_packet_other:
  assumes "handle_packet H r t c st = Inr st'" and "t \<noteq> RT_CLIENT_HELLO H" and "t \<noteq> RT_SERVER_HELLO H"
    and "t = RT_CERTIFICATE H \<or> (t \<noteq> RT_CERTIFICATE_VERIFY H \<and> t \<noteq> RT_SERVER_KEY_SHARE H)"
  shows "certVerified st' = certVerified st \<and> hs_hostname st' = hs_hostname st"
proof (cases "t = RT_CERTIFICATE H")
  case True
  then show ?thesis using assms(1-3) by (auto simp: handle_packet_def bindR_Inr_iff)
next
  case False
  then show ?thesis using assms by (cases "t = RT_FINISHED H") (auto simp: handle_packet_def split: if_splits)
qed

lemma handle_packet_inv:
  assumes "handle_packet H r t c st = Inr st'" and "hs_inv H st" and "handshakeRawMessages st \<noteq> []"
  shows "hs_inv H st'"
proof -
  have same: "hs_inv H st'" if "certVerified st' = certVerified st" "hs_hostname st' = hs_hostname st"
      "handshakeRawMessages st' = handshakeRawMessages st"
    using that assms(2) by (simp add: hs_inv_def)
  have chain: "hs_inv H st'" if "st' = st\<lparr>certVerified := True\<rparr>" "chain_checked H (hs_hostname st)"
    using that assms(2) by (simp add: hs_inv_def)
  consider (hello) "t = RT_CLIENT_HELLO H" | (server) "t \<noteq> RT_CLIENT_HELLO H" "t = RT_SERVER_HELLO H"
    | (rest) "t \<noteq> RT_CLIENT_HELLO H" "t \<noteq> RT_SERVER_HELLO H" by blast
  then show ?thesis
  proof cases
    case hello
    then obtain ch h where h: "parseClientHello H (handshakeRawMessages st ! 0) = Inr ch" "ch_serverName ch = Some h" "h \<noteq> []"
      "st' = st\<lparr>clientRandom := Some (ch_random ch), hs_hostname := Some h\<rparr>"
      using assms(1) by (auto simp: handle_packet_def bindR_Inr_iff split: option.splits if_splits)
    then have "hs_hostname st = None \<or> hs_hostname st = Some h"
      using assms(2) by (cases "hs_hostname st") (auto simp: hs_inv_def)
    moreover have "certVerified st \<longrightarrow> chain_checked H None \<or> chain_checked H (hs_hostname st)"
      using assms(2) by (simp add: hs_inv_def)
    ultimately show ?thesis using h assms(3) by (elim disjE) (simp_all add: hs_inv_def)
  next
    case server
    then show ?thesis using assms(1) same by (auto simp: handle_packet_def bindR_Inr_iff)
  next
    case rest
    show ?thesis
    proof (cases "t = RT_CERTIFICATE H \<or> (t \<noteq> RT_CERTIFICATE_VERIFY H \<and> t \<noteq> RT_SERVER_KEY_SHARE H)")
      case True
      then show ?thesis using handle_packet_other[OF assms(1) rest] same handle_packet_fields[OF assms(1)] by simp
    next
      case t: False
      show ?thesis
      proof (cases "certificates st")
        case Nil
        then have "handle_packet H r t c st = Inr st' \<longrightarrow> False"
          using rest t by (cases "t = RT_CERTIFICATE_VERIFY H") (auto simp: handle_packet_def bindR_Inr_iff split_beta)
        then show ?thesis using assms(1) by simp
      next
        case (Cons cert certs)
        obtain s where "verified_chain H s st = Inr st'" "vs_publicKey s = cert_publicKey H cert"
          using handle_packet_chain[OF assms(1) Cons rest] t by blast
        then show ?thesis using verified_chain_checked[OF _ Cons] chain by blast
      qed
    qed
  qed
qed

lemma handshake_loop_inv: "handshake_loop H r st = Inr st' \<Longrightarrow> hs_inv H st \<Longrightarrow> hs_inv H st'"
proof (induction H r st rule: handshake_loop.induct)
  case (1 H r st)
  show ?case
  proof (cases "readPacket H r False st")
    case (Inr p)
    obtain st1 x where p: "p = (st1, x)" by (cases p)
    show ?thesis
    proof (cases x)
      case None
      then show ?thesis using 1(2,3) Inr p readPacket_inv[of H r False st st1 x]
        by (subst (asm) handshake_loop.simps) simp
    next
      case (Some tc)
      obtain t c where tc: "tc = (t, c)" by (cases tc)
      have rd: "readPacket H r False st = Inr (st1, Some (t, c))" using Inr p Some tc by simp
      obtain st2 where st2: "handle_packet H r t c st1 = Inr st2" "handshake_loop H r st2 = Inr st'"
        using 1(2) rd by (subst (asm) handshake_loop.simps) (auto split: sum.splits)
      have "hs_inv H st2" using handle_packet_inv[OF st2(1)] readPacket_inv[OF rd 1(3)] by simp
      then show ?thesis using 1(1)[OF rd refl refl refl st2] by simp
    qed
  qed (use 1(2) in \<open>subst (asm) handshake_loop.simps, simp\<close>)
qed

lemma handshake_verified:
  assumes "processHandshake H receipt = Inr r" and "\<forall>cs. verifyCertificateChain H cs None \<noteq> Inr ()"
  shows "\<exists>host cert certs s. hr_hostname r = Some host \<and> host \<noteq> []
    \<and> verifyCertificateChain H (cert # certs) (Some host) = Inr ()
    \<and> verifyCertificateSignature H s = Inr () \<and> vs_publicKey s = cert_publicKey H cert"
proof -
  obtain st where st: "handshake_loop H receipt init_handshake = Inr st" "certVerified st" "hr_hostname r = hs_hostname st"
    using assms(1) by (auto simp: processHandshake_def bindR_Inr_iff split: if_splits)
  have "hs_inv H init_handshake" by (simp add: hs_inv_def init_handshake_def)
  then have inv: "hs_inv H st" by (rule handshake_loop_inv[OF st(1)])
  have "\<not> chain_checked H None" using assms(2) by (simp add: chain_checked_def)
  then have ch: "chain_checked H (hs_hostname st)" using inv st(2) by (simp add: hs_inv_def)
  then obtain h where h: "hs_hostname st = Some h" using \<open>\<not> chain_checked H None\<close> by (cases "hs_hostname st") auto
  then have "h \<noteq> []" using inv by (simp add: hs_inv_def)
  then show ?thesis using ch h st(3) unfolding chain_checked_def by auto
qed


subsection \<open>Examples\<close>

text \<open>A TLS 1.2 handshake for the host \<open>h\<close> with a package that accepts one certificate for it.\<close>

definition hs_ref :: hs_pkg where
  "hs_ref = \<lparr>hs_tls = tls_ref, RT_CLIENT_HELLO = 1, RT_SERVER_HELLO = 2, RT_CERTIFICATE = 11, RT_CERTIFICATE_VERIFY = 15,
     RT_SERVER_KEY_SHARE = 12, RT_FINISHED = 20,
     parseClientHello = (\<lambda>m. Inr \<lparr>ch_random = [], ch_serverName = Some (map ucast (drop 4 m))\<rparr>),
     parseServerHello = (\<lambda>_. Inr \<lparr>sh_cipherSuite = js ''S'', sh_version = TLS1_2, sh_random = []\<rparr>),
     parseCertificates = (\<lambda>c _. Inr [c]), cert_publicKey = (\<lambda>c. c),
     parseServerCertificateVerify = (\<lambda>c. Inr (c, [])), getSignatureDataTls13 = (\<lambda>_ _. Inr []),
     getSignatureDataTls12 = (\<lambda>_ _ _ _. Inr []),
     processServerKeyShare = (\<lambda>c. Inr \<lparr>ks_publicKeyType = [], ks_publicKey = [], ks_signature = c, ks_algorithm = []\<rparr>),
     verifyCertificateSignature = (\<lambda>s. if vs_publicKey s = [9] then Inr () else Inl (PlainError ''bad signature'')),
     verifyCertificateChain = (\<lambda>cs h. if cs = [[9]] \<and> h = Some [104] then Inr () else Inl (PlainError ''bad chain'')),
     suite_cipher = (\<lambda>s. Inr s), importKey = (\<lambda>_ k. Inr k), decryptWrappedRecord = (\<lambda>c _ _ _ _ _ _. Inr c)\<rparr>"

definition ref_record :: "TranscriptMessageSenderType \<Rightarrow> byte \<Rightarrow> bytes \<Rightarrow> TranscriptMessage" where
  "ref_record s t c = \<lparr>tm_sender = s, tm_message = [t, 3, 3, 0, of_nat (length c)] @ c, tm_reveal = None\<rparr>"

definition ref_receipt :: "TranscriptMessage list" where
  "ref_receipt = [ref_record SENDER_CLIENT 22 [1, 0, 0, 1, 104], ref_record SENDER_SERVER 22 [2, 0, 0, 0],
     ref_record SENDER_SERVER 22 [11, 0, 0, 1, 9], ref_record SENDER_SERVER 22 [12, 0, 0, 0],
     ref_record SENDER_CLIENT 20 [1], ref_record SENDER_SERVER 20 [1]]"

lemmas hs_eval = readPacket.simps handshake_loop.simps handle_packet_def verified_chain_def load_data_def record_data_def
  is_encrypted_def is_change_cipher_def change_cipher_def take_message_def first_message_def readWithLength_def getUint16_def
  getWithoutHeader_def RECORD_LENGTH_BYTES_def js_get_def js_slice_def js_slice_from_def js_index_def
  ref_record_def init_handshake_def Let_def


text \<open>A change of cipher record between two fragments of a handshake message loses the message: without
  it the message is read, with it the reader skips the second fragment and reports the end.\<close>

theorem change_cipher_between_fragments_loses_message:
  "let part1 = ref_record SENDER_SERVER 22 [11, 0, 0, 3, 7]; part2 = ref_record SENDER_SERVER 22 [8, 9];
       ccs = ref_record SENDER_CLIENT 20 [1]
   in map_sum id snd (readPacket hs_ref [part1, part2] False init_handshake) = Inr (Some (11, [7, 8, 9]))
      \<and> map_sum id snd (readPacket hs_ref [part1, ccs, part2] False init_handshake) = Inr None"
  by (simp add: hs_ref_def tls_ref_def hs_eval)

end
