(* ===== verification/Claim_Request.thy ===== *)
theory Claim_Request
  imports Http_Provider Claims Handshake "HOL-Library.List_Lexorder"
begin

text \<open>
  The attestor's checks of a claim request (\<open>src/server/utils/assert-valid-claim-request.ts\<close>, with
  \<open>niceParseJsonObject\<close> of \<open>src/server/utils/generics.ts\<close> and \<open>assertValidateProviderParams\<close> of
  \<open>src/utils/validation.ts\<close>): the request signature, the transcript against the tunnel's, the
  decryption of the revealed packets and the provider's check.

  The record \<open>claim_env\<close> gathers the packages: the schema validator (\<open>ajv\<close>) is \<open>ce_validate\<close>, and
  \<open>ce_params\<close> reads validated JSON as the typed parameters.
\<close>

record claim_env =
  ce_http :: http_env
  ce_hs :: hs_pkg
  ce_zk :: "ZKEngine \<Rightarrow> zk_lib"
  ce_b64 :: "bytes \<Rightarrow> jsstring"
  ce_completion :: "ZKProof list \<Rightarrow> ZKProof list"
  ce_claim :: claim_lib
  ce_eth :: eth_pkg
  ce_proto :: proto_lib
  ce_validate :: "json \<Rightarrow> bool"
  ce_params :: "json \<Rightarrow> HttpProviderParameters"

abbreviation ce_tls :: "claim_env \<Rightarrow> tls_pkg" where
  "ce_tls E \<equiv> hs_tls (ce_hs E)"

subsection \<open>The transcript of the client against the tunnel's\<close>

definition sent_by :: "TranscriptMessageSenderType \<Rightarrow> TranscriptMessage list \<Rightarrow> bytes list" where
  "sent_by s ms = map tm_message (filter (\<lambda>m. tm_sender m = s) ms)"

definition tunnel_sent_by :: "sender \<Rightarrow> bytes Transcript \<Rightarrow> bytes list" where
  "tunnel_sent_by s ms = map snd (filter (\<lambda>m. fst m = s) ms)"

definition assertTranscriptsMatch :: "tls_pkg \<Rightarrow> TranscriptMessage list \<Rightarrow> bytes Transcript \<Rightarrow> js_error + unit" where
  "assertTranscriptsMatch L clientTranscript tunnelTranscript =
     (let clientSends = concatenateUint8Arrays L (sent_by SENDER_CLIENT clientTranscript);
          tunnelSends = concatenateUint8Arrays L (tunnel_sent_by Client tunnelTranscript)
      in if \<not> areUint8ArraysEqual L clientSends tunnelSends
         then Inl (throwBadRequest ''Outgoing messages from client do not match the tunnel transcript'')
         else
           (let clientRecvs = concatenateUint8Arrays L (sent_by SENDER_SERVER clientTranscript);
                tunnelRecvs = js_slice (concatenateUint8Arrays L (tunnel_sent_by Server tunnelTranscript)) 0
                                (int (length clientRecvs))
            in if \<not> areUint8ArraysEqual L clientRecvs tunnelRecvs
               then Inl (throwBadRequest ''Incoming messages from server do not match the tunnel transcript'')
               else Inr ()))"

subsection \<open>Decrypting the revealed packets\<close>

record IDecryptedTranscript =
  it_transcript :: "IDecryptedTranscriptMessage list"
  it_hostname :: "jsstring option"
  it_tlsVersion :: "TLSProtocolVersion option"

record decrypt_state =
  clientRecordNumber :: int
  serverRecordNumber :: int
  decryptedTranscript :: "IDecryptedTranscriptMessage list"

text \<open>The plaintext of a packet with its \<open>redacted\<close> flag. The handshake sets version and cipher suite together.\<close>

definition zk_plaintext ::
  "claim_env \<Rightarrow> ZKEngine \<Rightarrow> jsstring option \<Rightarrow> bytes \<Rightarrow> int \<Rightarrow> bytes \<Rightarrow> ZKProof list \<Rightarrow> js_error + bytes \<times> bool" where
  "zk_plaintext E zkEngine cipherSuite iv recordNumber content proofs =
     (if proofs = [] then Inr (content, True)
      else (case cipherSuite of
              None \<Rightarrow> Inl (JsTypeError ''no cipher suite'')
            | Some suite \<Rightarrow>
                bindR (verifyZkPacket (ce_tls E) (ce_b64 E) (ce_zk E zkEngine) (ce_completion E) suite content proofs iv recordNumber)
                  (\<lambda>p. Inr (p, False))))"

definition packet_plaintext ::
  "claim_env \<Rightarrow> ZKEngine \<Rightarrow> TLSProtocolVersion option \<Rightarrow> jsstring option \<Rightarrow> bytes \<Rightarrow> int \<Rightarrow> TranscriptMessage
   \<Rightarrow> js_error + bytes \<times> bool" where
  "packet_plaintext E zkEngine tlsVersion cipherSuite iv recordNumber m =
     (let content = getWithoutHeader (tm_message m);
          direct = Option.bind (tm_reveal m) directReveal;
          proofs = (case Option.bind (tm_reveal m) zkReveal of None \<Rightarrow> [] | Some ps \<Rightarrow> ps)
      in case direct of
           Some d \<Rightarrow>
             if md_key d \<noteq> [] then
               (case (tlsVersion, cipherSuite) of
                  (Some v, Some suite) \<Rightarrow>
                    bindR (decryptDirect (ce_hs E) d suite (js_slice (tm_message m) 0 5) v content) (\<lambda>p. Inr (p, False))
                | _ \<Rightarrow> Inl (JsTypeError ''no cipher suite''))
             else zk_plaintext E zkEngine cipherSuite iv recordNumber content proofs
         | None \<Rightarrow> zk_plaintext E zkEngine cipherSuite iv recordNumber content proofs)"

definition getDecryptedMessage ::
  "claim_env \<Rightarrow> ZKEngine \<Rightarrow> TLSProtocolVersion option \<Rightarrow> jsstring option \<Rightarrow> bytes \<Rightarrow> bytes
   \<Rightarrow> TranscriptMessage \<Rightarrow> decrypt_state \<Rightarrow> js_error + decrypt_state" where
  "getDecryptedMessage E zkEngine tlsVersion cipherSuite serverIV clientIV m st =
     (let isServer = (tm_sender m = SENDER_SERVER);
          st1 = (if isServer then st\<lparr>serverRecordNumber := serverRecordNumber st + 1\<rparr>
                 else st\<lparr>clientRecordNumber := clientRecordNumber st + 1\<rparr>)
      in case packet_plaintext E zkEngine tlsVersion cipherSuite (if isServer then serverIV else clientIV)
                (if isServer then serverRecordNumber st1 else clientRecordNumber st1) m of
           Inl e \<Rightarrow> Inl (throwAttestor ERROR_INVALID_CLAIM ''error in handling packet'')
         | Inr (plaintext, red) \<Rightarrow>
             Inr (st1\<lparr>decryptedTranscript := decryptedTranscript st1 @
               [\<lparr>dm_sender = (if tm_sender m = SENDER_CLIENT then Client else Server), redacted = red,
                 dm_message = plaintext, plaintextLength = length plaintext,
                 recordHeader = js_slice (tm_message m) 0 5\<rparr>]\<rparr>))"

definition decryptTranscript ::
  "claim_env \<Rightarrow> TranscriptMessage list \<Rightarrow> ZKEngine \<Rightarrow> bytes \<Rightarrow> bytes \<Rightarrow> js_error + IDecryptedTranscript" where
  "decryptTranscript E transcript zkEngine serverIV clientIV =
     bindR (processHandshake (ce_hs E) transcript) (\<lambda>h.
     let start = (if hr_tlsVersion h = Some TLS1_3 then -1 else 0) in
     bindR (foldR (\<lambda>st m. getDecryptedMessage E zkEngine (hr_tlsVersion h) (hr_cipherSuite h) serverIV clientIV m st)
              \<lparr>clientRecordNumber = start, serverRecordNumber = start, decryptedTranscript = []\<rparr>
              (js_slice_from transcript (nextMsgIndex h))) (\<lambda>st.
       Inr \<lparr>it_transcript = decryptedTranscript st, it_hostname = hr_hostname h, it_tlsVersion = hr_tlsVersion h\<rparr>))"

subsection \<open>The provider's check\<close>

definition niceParseJsonObject :: "json_lib \<Rightarrow> jsstring \<Rightarrow> js_error + json" where
  "niceParseJsonObject J data =
     (if data = [] then Inr (JObj [])
      else (case JSON_parse J data of None \<Rightarrow> Inl (throwBadRequest ''Invalid JSON'') | Some j \<Rightarrow> Inr j))"

text \<open>\<open>providers\<close> has one entry. \<open>assertValidateProviderParams\<close> compiles its schema.\<close>

definition known_provider :: "jsstring \<Rightarrow> bool" where
  "known_provider name \<longleftrightarrow> name = js ''http''"

definition assertValidateProviderParams :: "claim_env \<Rightarrow> jsstring \<Rightarrow> json \<Rightarrow> js_error + unit" where
  "assertValidateProviderParams E name params =
     (if \<not> known_provider name then Inl (throwBadRequest ''Invalid provider name'')
      else if \<not> ce_validate E params then Inl (throwBadRequest ''Params validation failed'')
      else Inr ())"

text \<open>Setting a member: of an array it leaves no trace in JSON, of a primitive or null it throws.\<close>

fun set_member :: "jsstring \<Rightarrow> json \<Rightarrow> (jsstring \<times> json) list \<Rightarrow> (jsstring \<times> json) list" where
  "set_member k v [] = [(k, v)]"
| "set_member k v ((k', v') # ms) = (if k' = k then (k, v) # ms else (k', v') # set_member k v ms)"

definition json_set :: "jsstring \<Rightarrow> json \<Rightarrow> json \<Rightarrow> js_error + json" where
  "json_set k v j =
     (case j of JObj ms \<Rightarrow> Inr (JObj (set_member k v ms)) | JArr xs \<Rightarrow> Inr (JArr xs)
      | _ \<Rightarrow> Inl (JsTypeError ''Cannot create property''))"

text \<open>Extracted parameters as JSON; a member that is \<open>undefined\<close> is not serialised.\<close>

definition extracted_json :: "(jsstring \<rightharpoonup> jsstring option) \<Rightarrow> json" where
  "extracted_json ex =
     JObj (List.map_filter (\<lambda>k. case ex k of Some (Some v) \<Rightarrow> Some (k, JStr v) | _ \<Rightarrow> None)
             (sorted_list_of_set (dom ex)))"

definition claim_context :: "claim_env \<Rightarrow> json \<Rightarrow> json \<Rightarrow> (jsstring \<rightharpoonup> jsstring option) \<Rightarrow> js_error + jsstring" where
  "claim_context E params ctx ex =
     bindR (json_set (js ''providerHash'') (JStr (hashProviderParams (ce_claim E) params)) ctx) (\<lambda>ctx1.
     bindR (if ex = Map.empty then Inr ctx1 else json_set (js ''extractedParameters'') (extracted_json ex) ctx1) (\<lambda>ctx2.
       Inr (canonicalStringify (ce_claim E) (Some ctx2))))"

definition assertValidProviderTranscript ::
  "claim_env \<Rightarrow> bytes Transcript \<Rightarrow> 'a ClaimInfo_scheme \<Rightarrow> int \<Rightarrow> js_error + 'a ClaimInfo_scheme" where
  "assertValidProviderTranscript E applData info version =
     (if \<not> known_provider (ci_provider info)
      then Inl (throwAttestor ERROR_INVALID_CLAIM ''Unsupported provider'')
      else
        bindR (niceParseJsonObject (cl_json (ce_claim E)) (ci_parameters info)) (\<lambda>params.
        bindR (niceParseJsonObject (cl_json (ce_claim E)) (ci_context info)) (\<lambda>ctx.
        bindR (assertValidateProviderParams E (ci_provider info) params) (\<lambda>_.
        bindR (assertValidProviderReceipt (ce_http E) applData (ce_params E params) None version) (\<lambda>ex.
        bindR (claim_context E params ctx ex) (\<lambda>context'.
          Inr (info\<lparr>ci_context := context'\<rparr>)))))))"

subsection \<open>The whole check\<close>

definition appl_data :: "claim_env \<Rightarrow> IDecryptedTranscript \<Rightarrow> bytes Transcript" where
  "appl_data E r = extractApplicationDataFromTranscript (ce_tls E) REDACTION_CHAR_CODE
     (case it_tlsVersion r of None \<Rightarrow> TLS1_2 | Some v \<Rightarrow> v) (it_transcript r)"

definition claim_engine :: "ZKProofEngine \<Rightarrow> ZKEngine" where
  "claim_engine e = (if e = ZK_ENGINE_GNARK then Gnark else Snarkjs)"

definition assertValidClaimRequest ::
  "claim_env \<Rightarrow> ClaimTunnelRequest \<Rightarrow> InitRequest \<Rightarrow> js_error + ClaimRequestData" where
  "assertValidClaimRequest E request metadata =
     (case cq_data request of
        None \<Rightarrow> Inl (throwAttestor ERROR_INVALID_CLAIM ''No info provided on claim request'')
      | Some d \<Rightarrow>
          if cq_requestSignature request = None \<or> cq_requestSignature request = Some []
          then Inl (throwAttestor ERROR_INVALID_CLAIM ''No signature provided on claim request'')
          else
            (let signature = the (cq_requestSignature request);
                 serialisedReq = encode_ClaimTunnelRequest (ce_proto E) (request\<lparr>cq_requestSignature := None\<rparr>)
             in bindR (signature_scheme (ce_eth E) (signatureType metadata)) (\<lambda>S.
                bindR (verify_signature S serialisedReq signature (cd_owner d)) (\<lambda>verified.
                if \<not> verified then Inl (throwAttestor ERROR_INVALID_CLAIM ''Invalid signature on claim request'')
                else
                  bindR (decryptTranscript E (cq_transcript request) (claim_engine (cq_zkEngine request))
                           (cq_fixedServerIV request) (cq_fixedClientIV request)) (\<lambda>receipt.
                  if it_hostname receipt \<noteq> map_option ct_host (cq_request request)
                  then Inl (PlainError ''Expected server name'')
                  else assertValidProviderTranscript E (appl_data E receipt) d (clientVersion metadata))))))"

subsection \<open>Properties\<close>

lemma transcripts_agree:
  assumes "tls_bytes_spec L"
  shows "assertTranscriptsMatch L ct tt = Inr () \<longleftrightarrow>
     concat (sent_by SENDER_CLIENT ct) = concat (tunnel_sent_by Client tt)
     \<and> is_prefix (concat (sent_by SENDER_SERVER ct)) (concat (tunnel_sent_by Server tt))"
  using assms by (auto simp: assertTranscriptsMatch_def Let_def tls_bytes_spec_def is_prefix_def js_slices)

text \<open>The transcripts match exactly when client and tunnel agree on all bytes sent, however they are cut
  into messages and interleaved, and the bytes the client says it received are the first bytes the
  tunnel received.\<close>

theorem transcripts_match_iff:
  assumes "tls_bytes_spec L"
  shows "assertTranscriptsMatch L ct tt = Inr () \<longleftrightarrow>
     concat (sent_by SENDER_CLIENT ct) = concat (tunnel_sent_by Client tt)
     \<and> is_prefix (concat (sent_by SENDER_SERVER ct)) (concat (tunnel_sent_by Server tt))"
  by (rule transcripts_agree[OF assms])

theorem transcripts_match_iff_witness:
  "assertTranscriptsMatch tls_ref
     [ref_record SENDER_CLIENT 22 [1], ref_record SENDER_SERVER 22 [2]]
     [(Server, [22, 3, 3, 0, 1]), (Client, [22, 3, 3, 0, 1, 1]), (Server, [2, 99])] = Inr ()"
  unfolding transcripts_match_iff[OF tls_ref_spec]
  by (simp add: sent_by_def tunnel_sent_by_def ref_record_def is_prefix_def)

text \<open>C12: A message whose sender is neither client nor server is not compared with the tunnel's
  transcript, yet it is decrypted with the key the client supplies and taken as a message of the
  server: a client can put bytes of its choice into the server's answer.\<close>

theorem unknown_sender_forges_server_message:
  assumes "tm_sender m = SENDER_UNKNOWN" and "tm_reveal m = Some \<lparr>directReveal = Some d, zkReveal = None\<rparr>"
    and "md_key d \<noteq> []"
    and "decryptDirect (ce_hs E) d suite (js_slice (tm_message m) 0 5) v (getWithoutHeader (tm_message m)) = Inr forged"
  shows "assertTranscriptsMatch L (ct @ [m]) tt = assertTranscriptsMatch L ct tt
    \<and> (\<exists>st'. getDecryptedMessage E zk (Some v) (Some suite) sIV cIV m st = Inr st'
         \<and> decryptedTranscript st' = decryptedTranscript st @
             [\<lparr>dm_sender = Server, redacted = False, dm_message = forged, plaintextLength = length forged,
               recordHeader = js_slice (tm_message m) 0 5\<rparr>])"
  using assms
  by (simp add: assertTranscriptsMatch_def sent_by_def getDecryptedMessage_def packet_plaintext_def Let_def)

definition ref_claim_env :: claim_env where
  "ref_claim_env = \<lparr>ce_http = example_env, ce_hs = hs_ref, ce_zk = (\<lambda>_. zk_ref), ce_b64 = (\<lambda>_. []), ce_completion = id,
     ce_claim = \<lparr>keccak256 = text_decode, canonicalize = \<lambda>_. Some [123, 125],
        cl_json = \<lparr>JSON_parse = \<lambda>s. Some (JObj (if s = [123, 125] then [(js ''providerHash'', JNull)] else [])),
          JSON_stringify = \<lambda>_. []\<rparr>\<rparr>,
     ce_eth = eth_ref,
     ce_proto = \<lparr>encode_ClaimTunnelRequest = \<lambda>r. of_nat (length (cq_transcript r)) # cq_fixedServerIV r,
        encode_ClaimTunnelResponse = \<lambda>r. (case cs_claim r of None \<Rightarrow> [] | Some c \<Rightarrow> text_encode (pc_identifier c)),
        encode_AuthenticatedUserData = \<lambda>d. text_encode (ud_id d)\<rparr>,
     ce_validate = \<lambda>_. True, ce_params = \<lambda>_. example_params\<rparr>"

text \<open>The witness: the tunnel saw no server bytes at all, and the server is made to say \<open>1, 2, 3\<close>.\<close>

theorem unknown_sender_forges_server_message_witness:
  "let m = \<lparr>tm_sender = SENDER_UNKNOWN, tm_message = [23, 3, 3, 0, 3, 1, 2, 3],
        tm_reveal = Some \<lparr>directReveal = Some \<lparr>md_key = [7], md_iv = [], md_recordNumber = 0\<rparr>, zkReveal = None\<rparr>\<rparr>
   in assertTranscriptsMatch tls_ref [m] [] = Inr ()
      \<and> (\<exists>st'. getDecryptedMessage ref_claim_env Snarkjs (Some TLS1_2) (Some (js ''S'')) [] [] m
            \<lparr>clientRecordNumber = 0, serverRecordNumber = 0, decryptedTranscript = []\<rparr> = Inr st'
          \<and> map (\<lambda>d. (dm_sender d, dm_message d)) (decryptedTranscript st') = [(Server, [1, 2, 3])])"
proof -
  let ?d = "\<lparr>md_key = [7], md_iv = [], md_recordNumber = 0\<rparr>"
  let ?m = "\<lparr>tm_sender = SENDER_UNKNOWN, tm_message = [23, 3, 3, 0, 3, 1, 2, 3],
        tm_reveal = Some \<lparr>directReveal = Some ?d, zkReveal = None\<rparr>\<rparr>"
  have "decryptDirect (ce_hs ref_claim_env) ?d (js ''S'') (js_slice (tm_message ?m) 0 5) TLS1_2 (getWithoutHeader (tm_message ?m))
      = Inr [1, 2, 3]"
    by (simp add: ref_claim_env_def hs_ref_def decryptDirect_def getWithoutHeader_def js_slices)
  note forged = unknown_sender_forges_server_message[OF _ _ _ this, of tls_ref "[]" "[]" Snarkjs "[]" "[]"
    "\<lparr>clientRecordNumber = 0, serverRecordNumber = 0, decryptedTranscript = []\<rparr>"]
  have "assertTranscriptsMatch tls_ref [] [] = Inr ()"
    by (simp add: transcripts_agree[OF tls_ref_spec] assertTranscriptsMatch_def sent_by_def tunnel_sent_by_def js_slices)
  then show ?thesis using forged by (auto simp: Let_def)
qed

definition from_server :: "TranscriptMessage \<Rightarrow> bool" where
  "from_server m \<longleftrightarrow> tm_sender m = SENDER_SERVER"

definition record_number :: "int \<Rightarrow> TranscriptMessage list \<Rightarrow> nat \<Rightarrow> int" where
  "record_number start ms i =
     start + 1 + int (length (filter (\<lambda>m. from_server m = from_server (ms ! i)) (take i ms)))"

text \<open>What the loop has done after a list of messages, for counters that started at \<open>start\<close>.\<close>

definition decrypted_upto ::
  "claim_env \<Rightarrow> ZKEngine \<Rightarrow> TLSProtocolVersion option \<Rightarrow> jsstring option \<Rightarrow> bytes \<Rightarrow> bytes \<Rightarrow> int
   \<Rightarrow> TranscriptMessage list \<Rightarrow> decrypt_state \<Rightarrow> bool" where
  "decrypted_upto E zk v suite sIV cIV start ms st \<longleftrightarrow>
     serverRecordNumber st = start + int (length (filter from_server ms))
     \<and> clientRecordNumber st = start + int (length (filter (\<lambda>m. \<not> from_server m) ms))
     \<and> length (decryptedTranscript st) = length ms
     \<and> (\<forall>i < length ms.
          packet_plaintext E zk v suite (if from_server (ms ! i) then sIV else cIV) (record_number start ms i) (ms ! i)
            = Inr (dm_message (decryptedTranscript st ! i), redacted (decryptedTranscript st ! i))
          \<and> dm_sender (decryptedTranscript st ! i) = (if tm_sender (ms ! i) = SENDER_CLIENT then Client else Server))"

lemma decrypted_step:
  assumes "decrypted_upto E zk v suite sIV cIV start ms st"
    and "getDecryptedMessage E zk v suite sIV cIV m st = Inr st'"
  shows "decrypted_upto E zk v suite sIV cIV start (ms @ [m]) st'"
proof -
  have rn: "record_number start (ms @ [m]) i = record_number start ms i" if "i < length ms" for i
    using that by (simp add: record_number_def nth_append)
  have rl: "record_number start (ms @ [m]) (length ms) =
      (if from_server m then serverRecordNumber st + 1 else clientRecordNumber st + 1)"
    using assms(1) by (auto simp: record_number_def decrypted_upto_def)
  obtain p red where p: "packet_plaintext E zk v suite (if from_server m then sIV else cIV)
        (record_number start (ms @ [m]) (length ms)) m = Inr (p, red)"
    and st': "decryptedTranscript st' = decryptedTranscript st @
        [\<lparr>dm_sender = (if tm_sender m = SENDER_CLIENT then Client else Server), redacted = red, dm_message = p,
          plaintextLength = length p, recordHeader = js_slice (tm_message m) 0 5\<rparr>]"
      "serverRecordNumber st' = (if from_server m then serverRecordNumber st + 1 else serverRecordNumber st)"
      "clientRecordNumber st' = (if from_server m then clientRecordNumber st else clientRecordNumber st + 1)"
    using assms(2) unfolding rl
    by (auto simp: getDecryptedMessage_def from_server_def Let_def split: sum.splits if_splits)
  show ?thesis
    using assms(1) p st' rn unfolding decrypted_upto_def
    by (auto simp: nth_append less_Suc_eq)
qed

lemma decrypted_fold:
  "decrypted_upto E zk v suite sIV cIV start ms st \<Longrightarrow>
   foldR (\<lambda>st m. getDecryptedMessage E zk v suite sIV cIV m st) st ns = Inr st' \<Longrightarrow>
   decrypted_upto E zk v suite sIV cIV start (ms @ ns) st'"
proof (induction ns arbitrary: ms st)
  case (Cons n ns)
  then obtain st1 where "getDecryptedMessage E zk v suite sIV cIV n st = Inr st1"
    "foldR (\<lambda>st m. getDecryptedMessage E zk v suite sIV cIV m st) st1 ns = Inr st'"
    by (auto simp: bindR_Inr_iff)
  then show ?case using Cons.IH[OF decrypted_step[OF Cons.prems(1)]] by simp
qed simp

text \<open>The decrypted transcript has one message for each message after the handshake, in order; each is
  decrypted or verified under its own direction's IV and under the record number that counts the
  earlier messages of that direction, starting at 0 in TLS 1.3 and at 1 in TLS 1.2.\<close>

theorem decrypted_messages_counted:
  assumes "decryptTranscript E transcript zk sIV cIV = Inr r"
  shows "\<exists>h. processHandshake (ce_hs E) transcript = Inr h \<and> it_hostname r = hr_hostname h
    \<and> (let ms = js_slice_from transcript (nextMsgIndex h); start = (if hr_tlsVersion h = Some TLS1_3 then -1 else 0)
       in length (it_transcript r) = length ms
          \<and> (\<forall>i < length ms.
               packet_plaintext E zk (hr_tlsVersion h) (hr_cipherSuite h) (if from_server (ms ! i) then sIV else cIV)
                 (record_number start ms i) (ms ! i)
               = Inr (dm_message (it_transcript r ! i), redacted (it_transcript r ! i))
             \<and> dm_sender (it_transcript r ! i) = (if tm_sender (ms ! i) = SENDER_CLIENT then Client else Server)))"
proof -
  obtain h st where h: "processHandshake (ce_hs E) transcript = Inr h" "it_hostname r = hr_hostname h"
    "it_transcript r = decryptedTranscript st"
    and f: "foldR (\<lambda>st m. getDecryptedMessage E zk (hr_tlsVersion h) (hr_cipherSuite h) sIV cIV m st)
        \<lparr>clientRecordNumber = (if hr_tlsVersion h = Some TLS1_3 then -1 else 0),
         serverRecordNumber = (if hr_tlsVersion h = Some TLS1_3 then -1 else 0), decryptedTranscript = []\<rparr>
        (js_slice_from transcript (nextMsgIndex h)) = Inr st"
    using assms by (auto simp: decryptTranscript_def Let_def bindR_Inr_iff)
  have "decrypted_upto E zk (hr_tlsVersion h) (hr_cipherSuite h) sIV cIV (if hr_tlsVersion h = Some TLS1_3 then -1 else 0)
      ([] @ js_slice_from transcript (nextMsgIndex h)) st"
    by (rule decrypted_fold[OF _ f]) (simp add: decrypted_upto_def)
  then show ?thesis using h unfolding decrypted_upto_def Let_def by (intro exI[of _ h]) simp
qed

lemma claim_request_checked:
  assumes "assertValidClaimRequest E request metadata = Inr c"
    and "\<forall>cs. verifyCertificateChain (ce_hs E) cs None \<noteq> Inr ()"
  shows "\<exists>d sig receipt host cert certs params ex.
     cq_data request = Some d \<and> cq_requestSignature request = Some sig
     \<and> verify_signature (ce_eth E) (encode_ClaimTunnelRequest (ce_proto E) (request\<lparr>cq_requestSignature := None\<rparr>)) sig
         (cd_owner d) = Inr True
     \<and> decryptTranscript E (cq_transcript request) (claim_engine (cq_zkEngine request))
         (cq_fixedServerIV request) (cq_fixedClientIV request) = Inr receipt
     \<and> map_option ct_host (cq_request request) = Some host
     \<and> verifyCertificateChain (ce_hs E) (cert # certs) (Some host) = Inr ()
     \<and> known_provider (ci_provider d) \<and> niceParseJsonObject (cl_json (ce_claim E)) (ci_parameters d) = Inr params
     \<and> ce_validate E params
     \<and> assertValidProviderReceipt (ce_http E) (appl_data E receipt) (ce_params E params) None (clientVersion metadata) = Inr ex
     \<and> c = d\<lparr>ci_context := ci_context c\<rparr>"
proof -
  obtain d sig where d: "cq_data request = Some d" "cq_requestSignature request = Some sig"
    using assms(1) by (auto simp: assertValidClaimRequest_def split: option.splits if_splits)
  have S: "signature_scheme (ce_eth E) (signatureType metadata) = Inr S \<Longrightarrow> S = ce_eth E" for S
    by (auto simp: signature_scheme_def SIGNATURES_def split: if_splits)
  obtain receipt where run:
    "verify_signature (ce_eth E) (encode_ClaimTunnelRequest (ce_proto E) (request\<lparr>cq_requestSignature := None\<rparr>)) sig
         (cd_owner d) = Inr True"
    "decryptTranscript E (cq_transcript request) (claim_engine (cq_zkEngine request))
         (cq_fixedServerIV request) (cq_fixedClientIV request) = Inr receipt"
    "it_hostname receipt = map_option ct_host (cq_request request)"
    "assertValidProviderTranscript E (appl_data E receipt) d (clientVersion metadata) = Inr c"
    using assms(1) d S by (auto simp: assertValidClaimRequest_def bindR_Inr_iff Let_def split: if_splits)
  obtain h where h: "processHandshake (ce_hs E) (cq_transcript request) = Inr h" "it_hostname receipt = hr_hostname h"
    using run(2) by (auto simp: decryptTranscript_def bindR_Inr_iff Let_def)
  obtain host cert certs where host: "hr_hostname h = Some host"
    "verifyCertificateChain (ce_hs E) (cert # certs) (Some host) = Inr ()"
    using handshake_verified[OF h(1) assms(2)] by blast
  obtain params ctx ex context' where prov: "known_provider (ci_provider d)"
    "niceParseJsonObject (cl_json (ce_claim E)) (ci_parameters d) = Inr params" "ce_validate E params"
    "assertValidProviderReceipt (ce_http E) (appl_data E receipt) (ce_params E params) None (clientVersion metadata) = Inr ex"
    "c = d\<lparr>ci_context := context'\<rparr>"
    using run(4) by (auto simp: assertValidProviderTranscript_def assertValidateProviderParams_def bindR_Inr_iff split: if_splits)
  show ?thesis using d run host h(2) prov
    by (intro exI[of _ d] exI[of _ sig] exI[of _ receipt] exI[of _ host] exI[of _ cert] exI[of _ certs] exI[of _ params] exI[of _ ex])
      simp
qed

text \<open>C13: The main theorem on claim requests. If \<open>assertValidClaimRequest\<close> returns a claim, then the
  request was signed by the owner named in it, the handshake in its transcript carries a certificate
  chain verified for the host of the tunnel request, the provider is known, its parameters are valid,
  the provider accepted the application data decrypted from the transcript, and the claim returned
  differs from the data of the request in its context only.\<close>

theorem accepted_claim_request:
  assumes "assertValidClaimRequest E request metadata = Inr c"
    and "\<forall>cs. verifyCertificateChain (ce_hs E) cs None \<noteq> Inr ()"
  shows "\<exists>d sig receipt host cert certs params ex.
     cq_data request = Some d \<and> cq_requestSignature request = Some sig
     \<and> verify_signature (ce_eth E) (encode_ClaimTunnelRequest (ce_proto E) (request\<lparr>cq_requestSignature := None\<rparr>)) sig
         (cd_owner d) = Inr True
     \<and> decryptTranscript E (cq_transcript request) (claim_engine (cq_zkEngine request))
         (cq_fixedServerIV request) (cq_fixedClientIV request) = Inr receipt
     \<and> map_option ct_host (cq_request request) = Some host
     \<and> verifyCertificateChain (ce_hs E) (cert # certs) (Some host) = Inr ()
     \<and> known_provider (ci_provider d) \<and> niceParseJsonObject (cl_json (ce_claim E)) (ci_parameters d) = Inr params
     \<and> ce_validate E params
     \<and> assertValidProviderReceipt (ce_http E) (appl_data E receipt) (ce_params E params) None (clientVersion metadata) = Inr ex
     \<and> c = d\<lparr>ci_context := ci_context c\<rparr>"
  by (rule claim_request_checked[OF assms])

text \<open>A whole session for the example receipt: the handshake, then request and response, all revealed.\<close>

definition ref_sealed :: "TranscriptMessageSenderType \<Rightarrow> byte \<Rightarrow> bytes \<Rightarrow> TranscriptMessage" where
  "ref_sealed s t c = \<lparr>tm_sender = s, tm_message = [t, 3, 3, 0, of_nat (length c)] @ c,
     tm_reveal = Some \<lparr>directReveal = Some \<lparr>md_key = [7], md_iv = [], md_recordNumber = 0\<rparr>, zkReveal = None\<rparr>\<rparr>"

definition ref_finished :: "TranscriptMessage list" where
  "ref_finished = [ref_sealed SENDER_CLIENT 22 [20, 0, 0, 0], ref_sealed SENDER_SERVER 22 [20, 0, 0, 0]]"

definition ref_session :: "TranscriptMessage list" where
  "ref_session = ref_receipt @ ref_finished
     @ [ref_sealed SENDER_CLIENT 23 ok_request, ref_sealed SENDER_SERVER 23 ok_response]"

definition ref_request :: ClaimTunnelRequest where
  "ref_request = \<lparr>cq_request = Some \<lparr>ct_id = 1, ct_host = js ''h'', ct_port = 443, ct_geoLocation = []\<rparr>,
     cq_data = Some \<lparr>ci_provider = js ''http'', ci_parameters = js ''{}'', ci_context = [], cd_owner = js ''k'',
        cd_timestampS = 1700000000\<rparr>,
     cq_transcript = ref_session, cq_requestSignature = Some (1 # 107 # of_nat (length ref_session) # []),
     cq_zkEngine = ZK_ENGINE_GNARK, cq_fixedServerIV = [], cq_fixedClientIV = []\<rparr>"

definition ref_init :: InitRequest where
  "ref_init = \<lparr>clientVersion = 3, signatureType = SERVICE_SIGNATURE_TYPE_ETH, im_auth = None\<rparr>"

lemma ref_handshake:
  "processHandshake hs_ref ref_session = Inr \<lparr>hr_tlsVersion = Some TLS1_2, hr_cipherSuite = Some (js ''S''),
      hr_hostname = Some [104], nextMsgIndex = 8\<rparr>"
  by (simp add: processHandshake_def ref_session_def ref_receipt_def ref_finished_def ref_sealed_def hs_ref_def tls_ref_def
    decryptDirect_def js_def hs_eval)

lemma ref_decrypted:
  "decryptTranscript ref_claim_env ref_session e [] [] = Inr \<lparr>it_transcript =
     [\<lparr>dm_sender = Client, redacted = False, dm_message = ok_request, plaintextLength = length ok_request,
        recordHeader = [23, 3, 3, 0, of_nat (length ok_request)]\<rparr>,
      \<lparr>dm_sender = Server, redacted = False, dm_message = ok_response, plaintextLength = length ok_response,
        recordHeader = [23, 3, 3, 0, of_nat (length ok_response)]\<rparr>],
     it_hostname = Some [104], it_tlsVersion = Some TLS1_2\<rparr>"
proof -
  have s: "js_slice_from ref_session 8 = [ref_sealed SENDER_CLIENT 23 ok_request, ref_sealed SENDER_SERVER 23 ok_response]"
    by (simp add: ref_session_def ref_receipt_def ref_finished_def js_slices)
  have m: "getWithoutHeader (tm_message (ref_sealed x t c)) = c" "js_slice (tm_message (ref_sealed x t c)) 0 5 = [t, 3, 3, 0, of_nat (length c)]"
    "tm_sender (ref_sealed x t c) = x"
    "tm_reveal (ref_sealed x t c) = Some \<lparr>directReveal = Some \<lparr>md_key = [7], md_iv = [], md_recordNumber = 0\<rparr>, zkReveal = None\<rparr>" for x t c
    by (simp_all add: getWithoutHeader_def ref_sealed_def js_slices)
  have d: "decryptDirect hs_ref k su r v c = Inr c" for k su r v c
    by (simp add: decryptDirect_def hs_ref_def)
  have e: "ce_hs ref_claim_env = hs_ref" by (simp add: ref_claim_env_def)
  show ?thesis
    by (simp add: decryptTranscript_def e ref_handshake s getDecryptedMessage_def packet_plaintext_def m d)
qed

theorem decrypted_messages_counted_witness:
  "packet_plaintext ref_claim_env Gnark (Some TLS1_2) (Some (js ''S'')) []
     (record_number 0 (js_slice_from ref_session 8) 1) (js_slice_from ref_session 8 ! 1) = Inr (ok_response, False)"
proof -
  have n: "length (js_slice_from ref_session 8) = 2"
    by (simp add: ref_session_def ref_receipt_def ref_finished_def js_slices)
  have e: "ce_hs ref_claim_env = hs_ref" by (simp add: ref_claim_env_def)
  obtain h where h: "processHandshake hs_ref ref_session = Inr h"
    and all: "let ms = js_slice_from ref_session (nextMsgIndex h); start = (if hr_tlsVersion h = Some TLS1_3 then -1 else 0)
       in \<forall>i < length ms. packet_plaintext ref_claim_env Gnark (hr_tlsVersion h) (hr_cipherSuite h) []
           (record_number start ms i) (ms ! i) = Inr ([ok_request, ok_response] ! i, False)"
    using decrypted_messages_counted[OF ref_decrypted] unfolding e Let_def
    by (fastforce simp: less_Suc_eq nth_Cons')
  have "h = \<lparr>hr_tlsVersion = Some TLS1_2, hr_cipherSuite = Some (js ''S''), hr_hostname = Some [104], nextMsgIndex = 8\<rparr>"
    using h ref_handshake by simp
  then show ?thesis using all n by (simp add: Let_def)
qed

lemma ref_appl_data:
  "appl_data ref_claim_env \<lparr>it_transcript =
     [\<lparr>dm_sender = Client, redacted = False, dm_message = ok_request, plaintextLength = n1, recordHeader = [23, 3, 3, 0, l1]\<rparr>,
      \<lparr>dm_sender = Server, redacted = False, dm_message = ok_response, plaintextLength = n2, recordHeader = [23, 3, 3, 0, l2]\<rparr>],
     it_hostname = h, it_tlsVersion = Some TLS1_2\<rparr> = ok_receipt"
  by (simp add: appl_data_def application_data_of_def ok_receipt_def js_get_def ref_claim_env_def hs_ref_def tls_ref_def)

lemma ref_request_accepted:
  "assertValidClaimRequest ref_claim_env ref_request ref_init =
     Inr \<lparr>ci_provider = js ''http'', ci_parameters = js ''{}'', ci_context = [123, 125], cd_owner = js ''k'',
        cd_timestampS = 1700000000\<rparr>"
proof -
  have sig: "verify_signature (ce_eth ref_claim_env) (encode_ClaimTunnelRequest (ce_proto ref_claim_env) (ref_request\<lparr>cq_requestSignature := None\<rparr>))
      (1 # 107 # of_nat (length ref_session) # []) (js ''k'') = Inr True"
    by (simp add: verify_signature_def ref_claim_env_def eth_ref_def ref_request_def js_def text_decode_ascii ascii_bytes_def)
  have dec: "decryptTranscript ref_claim_env (cq_transcript ref_request) e [] [] = decryptTranscript ref_claim_env ref_session e [] []" for e
    by (simp add: ref_request_def)
  have http: "ce_http ref_claim_env = example_env" "ce_params ref_claim_env p = example_params" for p
    by (simp_all add: ref_claim_env_def)
  have nice: "niceParseJsonObject (cl_json (ce_claim ref_claim_env)) [] = Inr (JObj [])"
    "\<exists>p. niceParseJsonObject (cl_json (ce_claim ref_claim_env)) (js ''{}'') = Inr p"
    by (simp_all add: niceParseJsonObject_def ref_claim_env_def)
  have ctx: "claim_context ref_claim_env p (JObj []) Map.empty = Inr [123, 125]" for p
    by (simp add: claim_context_def json_set_def canonicalStringify_def json_falsy_def ref_claim_env_def)
  have "assertValidProviderTranscript ref_claim_env ok_receipt d 3 = Inr (d\<lparr>ci_context := [123, 125]\<rparr>)"
    if "ci_provider d = js ''http''" "ci_parameters d = js ''{}''" "ci_context d = []" for d :: ClaimRequestData
    using that nice by (auto simp: assertValidProviderTranscript_def known_provider_def http ok_receipt_accepted ctx
      assertValidateProviderParams_def) (simp add: ref_claim_env_def)
  then show ?thesis
    using sig by (simp add: assertValidClaimRequest_def ref_decrypted dec[unfolded ref_request_def] ref_appl_data signature_scheme_def SIGNATURES_def
      ref_init_def ref_request_def js_def)
qed

theorem accepted_claim_request_witness:
  "\<exists>d receipt ex cert certs. cq_data ref_request = Some d
     \<and> decryptTranscript ref_claim_env ref_session Gnark [] [] = Inr receipt
     \<and> assertValidProviderReceipt example_env (appl_data ref_claim_env receipt) example_params None 3 = Inr ex
     \<and> verifyCertificateChain hs_ref (cert # certs) (Some (js ''h'')) = Inr ()"
proof -
  have "\<forall>cs. verifyCertificateChain (ce_hs ref_claim_env) cs None \<noteq> Inr ()"
    by (simp add: ref_claim_env_def hs_ref_def)
  note ok = accepted_claim_request[OF ref_request_accepted this]
  have env: "ce_hs ref_claim_env = hs_ref" "ce_http ref_claim_env = example_env" "ce_params ref_claim_env p = example_params" for p
    by (simp_all add: ref_claim_env_def)
  have req: "cq_transcript ref_request = ref_session" "cq_zkEngine ref_request = ZK_ENGINE_GNARK" "cq_fixedServerIV ref_request = []"
    "cq_fixedClientIV ref_request = []" "clientVersion ref_init = 3" "map_option ct_host (cq_request ref_request) = Some (js ''h'')"
    by (simp_all add: ref_request_def ref_init_def)
  show ?thesis using ok unfolding env req claim_engine_def by (simp only: option.inject if_True refl) blast
qed

end
