(* ===== verification/Reveal_Packets.thy ===== *)
theory Reveal_Packets
  imports Client_Writes Claim_Request
begin

text \<open>
  \<open>preparePacketsForReveal\<close> (\<open>src/utils/prepare-packets.ts\<close>): the transcript of the tunnel becomes the
  transcript of the claim request, each record with what reveals it.

  The callbacks of \<open>Promise.all\<close> run up to their first \<open>await\<close> one after the other, which is all of
  what they do to shared data, so the loop is a fold; it stops at the first exception. A ZK reveal is
  filled up in place with the rest of the record's plaintext before its proofs are made. The proofs
  arrive through callbacks after all records were added.
\<close>

record prepare_state =
  prep_transcript :: "TranscriptMessage list"
  prep_reveals :: "MessageRevealInfo list"
  prep_generator :: proof_generator
  prep_callbacks :: "nat list"

definition transcript_message :: "sender \<Rightarrow> CompleteTLSPacket \<Rightarrow> MessageReveal option \<Rightarrow> TranscriptMessage" where
  "transcript_message s p reveal =
     \<lparr>tm_sender = (if s = Client then SENDER_CLIENT else SENDER_SERVER), tm_message = pkt_data p, tm_reveal = reveal\<rparr>"

definition direct_reveal :: "CompleteTLSPacket \<Rightarrow> MessageReveal" where
  "direct_reveal p = \<lparr>directReveal = Some \<lparr>md_key = pkt_encKey p, md_iv = pkt_fixedIv p, md_recordNumber = pkt_recordNumber p\<rparr>,
     zkReveal = None\<rparr>"

definition fill_up :: "tls_pkg \<Rightarrow> CompleteTLSPacket \<Rightarrow> bytes \<Rightarrow> bytes" where
  "fill_up L p red = concatenateUint8Arrays L [red, js_slice_from (pkt_plaintext p) (int (length red))]"

definition prepare_packet ::
  "tls_pkg \<Rightarrow> zk_lib \<Rightarrow> jsstring \<Rightarrow> (nat \<rightharpoonup> nat) \<Rightarrow> prepare_state \<Rightarrow> nat \<times> sender \<times> CompleteTLSPacket
   \<Rightarrow> js_error + prepare_state" where
  "prepare_packet L Z cipherSuite rm st = (\<lambda>(i, s, p).
     let push = (\<lambda>reveal. st\<lparr>prep_transcript := prep_transcript st @ [transcript_message s p reveal]\<rparr>) in
     case rm i of
       None \<Rightarrow> Inr (push None)
     | Some r \<Rightarrow>
         (case js_get (prep_reveals st) (int r) of
            None \<Rightarrow> Inr (push None)
          | Some reveal \<Rightarrow>
              if pkt_type p = PlaintextPacket then Inr (push None)
              else
                (case reveal of
                   CompleteReveal \<Rightarrow> Inr (push (Some (direct_reveal p)))
                 | ZkReveal red claims \<Rightarrow>
                     (let red' = fill_up L p red in
                      bindR (addPacketToProve L Z cipherSuite p red' claims (prep_generator st)) (\<lambda>g.
                        Inr ((push None)\<lparr>prep_reveals := (prep_reveals st)[r := ZkReveal red' claims], prep_generator := g,
                               prep_callbacks := prep_callbacks st @ [length (prep_transcript st)]\<rparr>)))))) "

definition set_zk_reveal :: "nat \<times> ZKProof list option \<Rightarrow> TranscriptMessage list \<Rightarrow> TranscriptMessage list" where
  "set_zk_reveal = (\<lambda>(i, call) ms. case call of
       None \<Rightarrow> ms
     | Some proofs \<Rightarrow> ms[i := (ms ! i)\<lparr>tm_reveal := Some \<lparr>directReveal = None, zkReveal = Some proofs\<rparr>\<rparr>])"

definition preparePacketsForReveal ::
  "tls_pkg \<Rightarrow> zk_lib \<Rightarrow> (ZKProofToGenerate list \<Rightarrow> ZKProofToGenerate list) \<Rightarrow> jsstring
   \<Rightarrow> CompleteTLSPacket Transcript \<Rightarrow> (nat \<rightharpoonup> nat) \<Rightarrow> MessageRevealInfo list \<Rightarrow> js_error + TranscriptMessage list" where
  "preparePacketsForReveal L Z completion cipherSuite tlsTranscript rm rs =
     bindR (foldR (prepare_packet L Z cipherSuite rm)
              \<lparr>prep_transcript = [], prep_reveals = rs, prep_generator = \<lparr>packetsToProve = [], zkProofsToGen = 0\<rparr>,
               prep_callbacks = []\<rparr>
              (enumerate 0 tlsTranscript)) (\<lambda>st.
     bindR (generateProofs Z completion (prep_generator st)) (\<lambda>(_, calls).
       Inr (fold set_zk_reveal (zip (prep_callbacks st) calls) (prep_transcript st))))"

subsection \<open>The fold over the records\<close>

definition reveal_at :: "(nat \<rightharpoonup> nat) \<Rightarrow> MessageRevealInfo list \<Rightarrow> nat \<Rightarrow> MessageRevealInfo option" where
  "reveal_at rm rs i = Option.bind (rm i) (\<lambda>r. js_get rs (int r))"

text \<open>How the record at an index is revealed: the records that get a key, and those that get proofs.\<close>

definition gets_key :: "(nat \<rightharpoonup> nat) \<Rightarrow> MessageRevealInfo list \<Rightarrow> nat \<times> sender \<times> CompleteTLSPacket \<Rightarrow> bool" where
  "gets_key rm rs = (\<lambda>(i, s, p). pkt_type p = CiphertextPacket \<and> reveal_at rm rs i = Some CompleteReveal)"

definition gets_proofs :: "(nat \<rightharpoonup> nat) \<Rightarrow> MessageRevealInfo list \<Rightarrow> nat \<times> sender \<times> CompleteTLSPacket \<Rightarrow> bool" where
  "gets_proofs rm rs = (\<lambda>(i, s, p). pkt_type p = CiphertextPacket \<and> (\<exists>red ts. reveal_at rm rs i = Some (ZkReveal red ts)))"

definition same_kinds :: "MessageRevealInfo list \<Rightarrow> MessageRevealInfo list \<Rightarrow> bool" where
  "same_kinds rs rs' \<longleftrightarrow> length rs' = length rs \<and> (\<forall>r < length rs. rs' ! r = CompleteReveal \<longleftrightarrow> rs ! r = CompleteReveal)"

lemma foldR_append: "foldR f s (xs @ ys) = bindR (foldR f s xs) (\<lambda>s'. foldR f s' ys)"
  by (induction xs arbitrary: s) (auto simp: bindR_def split: sum.splits)

definition prepared_upto :: "(nat \<rightharpoonup> nat) \<Rightarrow> MessageRevealInfo list \<Rightarrow> (nat \<times> sender \<times> CompleteTLSPacket) list \<Rightarrow> prepare_state \<Rightarrow> bool" where
  "prepared_upto rm rs xs st \<longleftrightarrow>
     prep_transcript st = map (\<lambda>x. transcript_message (fst (snd x)) (snd (snd x))
        (if gets_key rm rs x then Some (direct_reveal (snd (snd x))) else None)) xs
     \<and> same_kinds rs (prep_reveals st)
     \<and> prep_callbacks st = filter (\<lambda>k. gets_proofs rm rs (xs ! k)) [0..<length xs]
     \<and> length (packetsToProve (prep_generator st)) = length (prep_callbacks st)"

lemma addPacketToProve_one:
  "addPacketToProve L Z cs p red ts g = Inr g' \<Longrightarrow>
     length (packetsToProve g') = Suc (length (packetsToProve g)) \<and> pkt_type p = CiphertextPacket"
  by (cases "pkt_type p") (auto simp: addPacketToProve_def bindR_Inr_iff Let_def)

lemma prepared_step:
  assumes inv: "prepared_upto rm rs xs st" and step: "prepare_packet L Z cs rm st (i, s, p) = Inr st'"
  shows "prepared_upto rm rs (xs @ [(i, s, p)]) st'"
proof -
  have len: "length (prep_reveals st) = length rs"
    and kinds: "\<And>r. r < length rs \<Longrightarrow> prep_reveals st ! r = CompleteReveal \<longleftrightarrow> rs ! r = CompleteReveal"
    using inv by (auto simp: prepared_upto_def same_kinds_def)
  have cb: "filter (\<lambda>k. gets_proofs rm rs ((xs @ [(i, s, p)]) ! k)) [0..<length (xs @ [(i, s, p)])] =
      filter (\<lambda>k. gets_proofs rm rs (xs ! k)) [0..<length xs] @ (if gets_proofs rm rs (i, s, p) then [length xs] else [])"
    by (auto simp: nth_append intro!: filter_cong)
  have tl: "length (prep_transcript st) = length xs" using inv by (simp add: prepared_upto_def)
  note base = inv[unfolded prepared_upto_def]
  show ?thesis
  proof (cases "reveal_at rm rs i = None \<or> pkt_type p = PlaintextPacket")
    case True
    then have "st' = st\<lparr>prep_transcript := prep_transcript st @ [transcript_message s p None]\<rparr>"
      using step len by (auto simp: prepare_packet_def reveal_at_def js_get_def Let_def split: option.splits if_splits)
    moreover have "\<not> gets_key rm rs (i, s, p)" "\<not> gets_proofs rm rs (i, s, p)"
      using True by (auto simp: gets_key_def gets_proofs_def)
    ultimately show ?thesis unfolding prepared_upto_def cb using base by simp
  next
    case False
    then obtain r where r: "rm i = Some r" "r < length rs"
      by (auto simp: reveal_at_def js_get_def split: if_splits Option.bind_splits)
    have c: "pkt_type p = CiphertextPacket" using False by (cases "pkt_type p") auto
    have at: "reveal_at rm rs i = Some (rs ! r)" using r by (simp add: reveal_at_def js_get_def)
    show ?thesis
    proof (cases "rs ! r = CompleteReveal")
      case True
      then have "st' = st\<lparr>prep_transcript := prep_transcript st @ [transcript_message s p (Some (direct_reveal p))]\<rparr>"
        using step len r c kinds[OF r(2)] by (simp add: prepare_packet_def js_get_def)
      moreover have "gets_key rm rs (i, s, p)" "\<not> gets_proofs rm rs (i, s, p)"
        using True at c by (auto simp: gets_key_def gets_proofs_def)
      ultimately show ?thesis unfolding prepared_upto_def cb using base by simp
    next
      case no: False
      then obtain red ts where zk: "prep_reveals st ! r = ZkReveal red ts"
        using kinds[OF r(2)] by (cases "prep_reveals st ! r") auto
      obtain g where g: "addPacketToProve L Z cs p (fill_up L p red) ts (prep_generator st) = Inr g"
        and st': "st' = st\<lparr>prep_transcript := prep_transcript st @ [transcript_message s p None],
            prep_reveals := (prep_reveals st)[r := ZkReveal (fill_up L p red) ts], prep_generator := g,
            prep_callbacks := prep_callbacks st @ [length (prep_transcript st)]\<rparr>"
        using step len r c zk by (auto simp: prepare_packet_def js_get_def Let_def bindR_Inr_iff)
      have "\<not> gets_key rm rs (i, s, p)" "gets_proofs rm rs (i, s, p)"
        using no at c by (cases "rs ! r"; auto simp: gets_key_def gets_proofs_def)+
      moreover have "same_kinds rs (prep_reveals st')"
        using base no r(2) len unfolding st' by (auto simp: same_kinds_def nth_list_update)
      ultimately show ?thesis unfolding prepared_upto_def cb using base addPacketToProve_one[OF g]
        by (simp add: st' tl)
    qed
  qed
qed

lemma prepared_fold:
  "prepared_upto rm rs xs st \<Longrightarrow> foldR (prepare_packet L Z cs rm) st ys = Inr st' \<Longrightarrow> prepared_upto rm rs (xs @ ys) st'"
proof (induction ys arbitrary: xs st)
  case (Cons y ys)
  then obtain st1 where "prepare_packet L Z cs rm st y = Inr st1" "foldR (prepare_packet L Z cs rm) st1 ys = Inr st'"
    by (auto simp: bindR_Inr_iff)
  then show ?case using Cons.IH[of "xs @ [y]" st1] prepared_step[OF Cons.prems(1)] by (cases y) auto
qed simp

lemma bindR_assoc': "bindR (bindR m f) g = bindR m (\<lambda>x. bindR (f x) g)"
  by (cases m) (auto simp: bindR_def)

text \<open>What one step does to the store, the generator and the callbacks.\<close>

lemma step_effect:
  assumes "prepare_packet L Z cs rm st (i, s, p) = Inr st'"
  shows "(\<forall>r. rm i \<noteq> Some r \<longrightarrow> prep_reveals st' ! r = prep_reveals st ! r)
    \<and> (\<exists>es. packetsToProve (prep_generator st') = packetsToProve (prep_generator st) @ es)
    \<and> (\<exists>cs'. prep_callbacks st' = prep_callbacks st @ cs')"
proof -
  have grows: "\<exists>es. packetsToProve g' = packetsToProve g @ es"
    if "addPacketToProve L Z cs p red ts g = Inr g'" for red ts g g'
    using that by (auto simp: addPacketToProve_def bindR_Inr_iff Let_def split: if_splits)
  show ?thesis
    using assms grows
    by (auto simp: prepare_packet_def Let_def bindR_Inr_iff nth_list_update
        split: option.splits if_splits MessageRevealInfo.splits)
qed

lemma fold_effect:
  "foldR (prepare_packet L Z cs rm) st xs = Inr st' \<Longrightarrow>
     (\<forall>r. (\<forall>x \<in> set xs. rm (fst x) \<noteq> Some r) \<longrightarrow> prep_reveals st' ! r = prep_reveals st ! r)
     \<and> (\<exists>es. packetsToProve (prep_generator st') = packetsToProve (prep_generator st) @ es)
     \<and> (\<exists>cs'. prep_callbacks st' = prep_callbacks st @ cs')"
proof (induction xs arbitrary: st)
  case (Cons x xs)
  obtain i s p where x: "x = (i, s, p)" by (cases x)
  obtain st1 where r: "prepare_packet L Z cs rm st (i, s, p) = Inr st1" "foldR (prepare_packet L Z cs rm) st1 xs = Inr st'"
    using Cons.prems x by (auto simp: bindR_Inr_iff)
  show ?case using step_effect[OF r(1)] Cons.IH[OF r(2)] x by (metis append.assoc fst_conv list.set_intros)
qed simp

lemma fold_set_zk_reveal:
  "distinct (map fst zs) \<Longrightarrow> (\<forall>z \<in> set zs. fst z < length ms) \<Longrightarrow>
     length (fold set_zk_reveal zs ms) = length ms
     \<and> (\<forall>i < length ms. fold set_zk_reveal zs ms ! i =
          (case map_of zs i of
             Some (Some proofs) \<Rightarrow> (ms ! i)\<lparr>tm_reveal := Some \<lparr>directReveal = None, zkReveal = Some proofs\<rparr>\<rparr>
           | _ \<Rightarrow> ms ! i))"
proof (induction zs arbitrary: ms)
  case (Cons z zs)
  obtain j call where z: "z = (j, call)" by (cases z)
  have len: "length (set_zk_reveal z ms) = length ms" by (auto simp: set_zk_reveal_def z split: option.splits)
  have none: "map_of zs j = None" using Cons.prems(1) z by (auto simp: map_of_eq_None_iff)
  show ?case
    using Cons.IH[of "set_zk_reveal z ms"] Cons.prems len none
    by (auto simp: z set_zk_reveal_def nth_list_update split: option.splits)
qed simp

text \<open>The state after the fold and the lists of proofs.\<close>

lemma prepared_state:
  assumes "preparePacketsForReveal L Z completion cs tr rm rs = Inr ms"
  obtains st calls where
    "foldR (prepare_packet L Z cs rm)
       \<lparr>prep_transcript = [], prep_reveals = rs, prep_generator = \<lparr>packetsToProve = [], zkProofsToGen = 0\<rparr>, prep_callbacks = []\<rparr>
       (enumerate 0 tr) = Inr st"
    "prepared_upto rm rs (enumerate 0 tr) st"
    "mapR (\<lambda>p. bindR (mapR (generateProofForChunk Z (pp_algorithm p)) (completion (proofsToGenerate p)))
                           (\<lambda>proofs. Inr (if proofsToGenerate p = [] then None else Some proofs)))
                 (packetsToProve (prep_generator st)) = Inr calls"
    "length calls = length (prep_callbacks st)"
    "ms = fold set_zk_reveal (zip (prep_callbacks st) calls) (prep_transcript st)"
proof -
  obtain st calls g where st: "foldR (prepare_packet L Z cs rm)
       \<lparr>prep_transcript = [], prep_reveals = rs, prep_generator = \<lparr>packetsToProve = [], zkProofsToGen = 0\<rparr>, prep_callbacks = []\<rparr>
       (enumerate 0 tr) = Inr st" "generateProofs Z completion (prep_generator st) = Inr (g, calls)"
    "ms = fold set_zk_reveal (zip (prep_callbacks st) calls) (prep_transcript st)"
    using assms by (auto simp: preparePacketsForReveal_def bindR_Inr_iff)
  have "prepared_upto rm rs [] \<lparr>prep_transcript = [], prep_reveals = rs,
      prep_generator = \<lparr>packetsToProve = [], zkProofsToGen = 0\<rparr>, prep_callbacks = []\<rparr>"
    by (simp add: prepared_upto_def same_kinds_def)
  from prepared_fold[OF this st(1)] have inv: "prepared_upto rm rs (enumerate 0 tr) st" by simp
  have calls: "mapR (\<lambda>p. bindR (mapR (generateProofForChunk Z (pp_algorithm p)) (completion (proofsToGenerate p)))
                           (\<lambda>proofs. Inr (if proofsToGenerate p = [] then None else Some proofs)))
                 (packetsToProve (prep_generator st)) = Inr calls"
    using st(2) by (auto simp: generateProofs_def bindR_Inr_iff split: if_splits)
  have "length calls = length (prep_callbacks st)"
    using mapR_length[OF calls] inv by (simp add: prepared_upto_def)
  then show ?thesis using that st(1,3) inv calls by blast
qed

lemma callbacks_ok:
  assumes "prepared_upto rm rs (enumerate 0 tr) st"
  shows "distinct (prep_callbacks st) \<and> (\<forall>k \<in> set (prep_callbacks st). k < length tr)
    \<and> (\<forall>i < length tr. i \<in> set (prep_callbacks st) \<longleftrightarrow> gets_proofs rm rs (i, tr ! i))"
  using assms by (auto simp: prepared_upto_def nth_enumerate_eq)

text \<open>The prepared message at each index.\<close>

lemma prepared_message:
  assumes "preparePacketsForReveal L Z completion cs tr rm rs = Inr ms"
  shows "length ms = length tr
    \<and> (\<forall>i < length tr. \<exists>reveal. ms ! i = transcript_message (fst (tr ! i)) (snd (tr ! i)) reveal
         \<and> (if gets_key rm rs (i, tr ! i) then reveal = Some (direct_reveal (snd (tr ! i)))
            else if gets_proofs rm rs (i, tr ! i)
            then reveal = None \<or> (\<exists>proofs. reveal = Some \<lparr>directReveal = None, zkReveal = Some proofs\<rparr>)
            else reveal = None))"
proof -
  from assms obtain st calls where st: "prepared_upto rm rs (enumerate 0 tr) st" "length calls = length (prep_callbacks st)"
    "ms = fold set_zk_reveal (zip (prep_callbacks st) calls) (prep_transcript st)"
    by (rule prepared_state)
  let ?zs = "zip (prep_callbacks st) calls"
  have tr: "prep_transcript st = map (\<lambda>x. transcript_message (fst (snd x)) (snd (snd x))
        (if gets_key rm rs x then Some (direct_reveal (snd (snd x))) else None)) (enumerate 0 tr)"
    using st(1) by (simp add: prepared_upto_def)
  have fst: "map fst ?zs = prep_callbacks st" using st(2) by simp
  have lt: "\<forall>z \<in> set ?zs. fst z < length (prep_transcript st)"
    using callbacks_ok[OF st(1)] by (auto simp: tr dest: set_zip_leftD)
  note nth = fold_set_zk_reveal[of ?zs "prep_transcript st", unfolded fst, OF conjunct1[OF callbacks_ok[OF st(1)]] lt]
  have dom: "map_of ?zs i \<noteq> None \<longleftrightarrow> i \<in> set (prep_callbacks st)" for i
    using map_of_zip_is_None[OF st(2)[symmetric], of i] by auto
  have excl: "\<not> (gets_key rm rs x \<and> gets_proofs rm rs x)" for x by (auto simp: gets_key_def gets_proofs_def)
  have "\<exists>reveal. ms ! i = transcript_message (fst (tr ! i)) (snd (tr ! i)) reveal
         \<and> (if gets_key rm rs (i, tr ! i) then reveal = Some (direct_reveal (snd (tr ! i)))
            else if gets_proofs rm rs (i, tr ! i)
            then reveal = None \<or> (\<exists>proofs. reveal = Some \<lparr>directReveal = None, zkReveal = Some proofs\<rparr>)
            else reveal = None)" if i: "i < length tr" for i
  proof -
    have base: "prep_transcript st ! i = transcript_message (fst (tr ! i)) (snd (tr ! i))
        (if gets_key rm rs (i, tr ! i) then Some (direct_reveal (snd (tr ! i))) else None)"
      using i by (simp add: tr nth_enumerate_eq)
    have at: "ms ! i = (case map_of ?zs i of
        Some (Some proofs) \<Rightarrow> (prep_transcript st ! i)\<lparr>tm_reveal := Some \<lparr>directReveal = None, zkReveal = Some proofs\<rparr>\<rparr>
      | _ \<Rightarrow> prep_transcript st ! i)" using nth i st(3) by (simp add: tr)
    have zk: "map_of ?zs i \<noteq> None \<longleftrightarrow> gets_proofs rm rs (i, tr ! i)"
      using dom[of i] callbacks_ok[OF st(1)] i by blast
    show ?thesis
    proof (cases "gets_proofs rm rs (i, tr ! i)")
      case True
      then obtain call where call: "map_of ?zs i = Some call" using zk by blast
      have "\<not> gets_key rm rs (i, tr ! i)" using True excl by blast
      then show ?thesis using True call at base by (cases call) (simp_all add: transcript_message_def)
    next
      case False
      then have "map_of ?zs i = None" using zk by blast
      then show ?thesis using False at base by simp
    qed
  qed
  then show ?thesis using nth st(3) by (simp add: tr)
qed

lemma mapR_nth: "mapR f xs = Inr ys \<Longrightarrow> i < length xs \<Longrightarrow> f (xs ! i) = Inr (ys ! i)"
proof (induction xs arbitrary: ys i)
  case (Cons x xs)
  then show ?case by (cases i) (auto simp: bindR_Inr_iff)
qed simp

lemma enumerate_split:
  "i < length xs \<Longrightarrow> enumerate 0 xs = enumerate 0 (take i xs) @ (i, xs ! i) # enumerate (Suc i) (drop (Suc i) xs)"
  by (intro nth_equalityI) (auto simp: nth_append nth_enumerate_eq nth_Cons' min_def)

text \<open>A record with a reveal object of its own gets the proofs of its filled-up redaction.\<close>

lemma prepared_proofs:
  assumes prep: "preparePacketsForReveal L Z completion cs tr rm rs = Inr ms"
    and i: "i < length tr" "tr ! i = (s, p)" "pkt_type p = CiphertextPacket"
    and own: "rm i = Some r" "r < length rs" "rs ! r = ZkReveal red []" "\<forall>j. rm j = Some r \<longrightarrow> j = i"
    and suite: "getZkAlgorithmForCipherSuite cs = Inr alg" "getPureCiphertext L (pkt_ciphertext p) cs = Inr ct"
    and none: "completion [] = []"
  shows "\<exists>pgs made. set pgs = {x. \<exists>c \<in> set (chunk_slices (getChunkSizeBytes Z alg) 0 (int (length ct))).
          getProofGenerationParamsForSlice (pkt_encKey p) (pkt_iv p) ct (fill_up L p red) c None = Some x}
      \<and> mapR (generateProofForChunk Z alg) (completion pgs) = Inr made
      \<and> tm_reveal (ms ! i) = (if pgs = [] then None else Some \<lparr>directReveal = None, zkReveal = Some made\<rparr>)
      \<and> (pgs = [] \<longrightarrow> made = [])"
proof -
  let ?init = "\<lparr>prep_transcript = [], prep_reveals = rs, prep_generator = \<lparr>packetsToProve = [], zkProofsToGen = 0\<rparr>,
     prep_callbacks = []\<rparr>"
  from prep obtain st calls where st1: "foldR (prepare_packet L Z cs rm) ?init (enumerate 0 tr) = Inr st"
    and st2: "prepared_upto rm rs (enumerate 0 tr) st"
    and calls: "mapR (\<lambda>p. bindR (mapR (generateProofForChunk Z (pp_algorithm p)) (completion (proofsToGenerate p)))
                           (\<lambda>proofs. Inr (if proofsToGenerate p = [] then None else Some proofs)))
                 (packetsToProve (prep_generator st)) = Inr calls"
    and st3: "length calls = length (prep_callbacks st)"
    and st4: "ms = fold set_zk_reveal (zip (prep_callbacks st) calls) (prep_transcript st)"
    by (rule prepared_state)
  note st = st1 st2 st3 st4
  obtain stA stB where A: "foldR (prepare_packet L Z cs rm) ?init (enumerate 0 (take i tr)) = Inr stA"
    and B: "prepare_packet L Z cs rm stA (i, s, p) = Inr stB"
    and C: "foldR (prepare_packet L Z cs rm) stB (enumerate (Suc i) (drop (Suc i) tr)) = Inr st"
    using st(1) unfolding enumerate_split[OF i(1)] foldR_append i(2) by (auto simp: bindR_Inr_iff)
  have "prepared_upto rm rs [] ?init" by (simp add: prepared_upto_def same_kinds_def)
  from prepared_fold[OF this A] have invA: "prepared_upto rm rs (enumerate 0 (take i tr)) stA" by simp
  have lenA: "length (prep_transcript stA) = i" "length (prep_reveals stA) = length rs"
    "length (packetsToProve (prep_generator stA)) = length (prep_callbacks stA)"
    using invA i(1) by (auto simp: prepared_upto_def same_kinds_def)
  have "rm (fst x) \<noteq> Some r" if x: "x \<in> set (enumerate 0 (take i tr))" for x
  proof
    assume "rm (fst x) = Some r"
    then have "fst x = i" using own(4) by blast
    then show False using x by (simp add: in_set_enumerate_eq)
  qed
  then have rA: "prep_reveals stA ! r = ZkReveal red []"
    using fold_effect[OF A] own(3) by simp
  obtain g where g: "addPacketToProve L Z cs p (fill_up L p red) [] (prep_generator stA) = Inr g"
    and stB: "prep_generator stB = g" "prep_callbacks stB = prep_callbacks stA @ [i]"
    using B own(1,2) lenA(1,2) rA i(3) by (auto simp: prepare_packet_def js_get_def Let_def bindR_Inr_iff)
  obtain pgs where pgs: "packetsToProve g = packetsToProve (prep_generator stA)
      @ [\<lparr>pp_algorithm = alg, proofsToGenerate = pgs, pp_iv = pkt_fixedIv p\<rparr>]"
    "set pgs = {x. \<exists>c \<in> set (chunk_slices (getChunkSizeBytes Z alg) 0 (int (length ct))).
          getProofGenerationParamsForSlice (pkt_encKey p) (pkt_iv p) ct (fill_up L p red) c None = Some x}"
    using addPacketToProve_no_claims[OF g suite] by blast
  let ?j = "length (prep_callbacks stA)"
  obtain es cs' where grow: "packetsToProve (prep_generator st) = packetsToProve g @ es" "prep_callbacks st = prep_callbacks stB @ cs'"
    using fold_effect[OF C] stB(1) by auto
  have j: "prep_callbacks st ! ?j = i" "?j < length (prep_callbacks st)"
    "packetsToProve (prep_generator st) ! ?j = \<lparr>pp_algorithm = alg, proofsToGenerate = pgs, pp_iv = pkt_fixedIv p\<rparr>"
    "?j < length (packetsToProve (prep_generator st))"
    using grow stB(2) pgs(1) lenA(3) by (simp_all add: nth_append)
  obtain made where made: "mapR (generateProofForChunk Z alg) (completion pgs) = Inr made"
    "calls ! ?j = (if pgs = [] then None else Some made)"
    using mapR_nth[OF calls j(4)] j(3) by (auto simp: bindR_Inr_iff split: if_splits)
  have dist: "distinct (map fst (zip (prep_callbacks st) calls))" using callbacks_ok[OF st(2)] st(3) by simp
  have lt: "\<forall>z \<in> set (zip (prep_callbacks st) calls). fst z < length (prep_transcript st)"
    using callbacks_ok[OF st(2)] st(2) by (auto simp: prepared_upto_def dest: set_zip_leftD)
  have "(i, calls ! ?j) \<in> set (zip (prep_callbacks st) calls)"
    using j(1,2) st(3) by (auto simp: set_zip intro!: exI[of _ ?j])
  then have at: "map_of (zip (prep_callbacks st) calls) i = Some (calls ! ?j)"
    using dist by simp
  have notkey: "\<not> gets_key rm rs (i, s, p)" using own(1-3) by (simp add: gets_key_def reveal_at_def js_get_def)
  have base: "prep_transcript st ! i = transcript_message s p None" "length (prep_transcript st) = length tr"
    using st(2) i notkey by (auto simp: prepared_upto_def nth_enumerate_eq)
  have "ms ! i = (case calls ! ?j of
        Some proofs \<Rightarrow> (prep_transcript st ! i)\<lparr>tm_reveal := Some \<lparr>directReveal = None, zkReveal = Some proofs\<rparr>\<rparr>
      | None \<Rightarrow> prep_transcript st ! i)"
    using fold_set_zk_reveal[OF dist lt] at i(1) base(2) st(4) by simp
  then have "tm_reveal (ms ! i) = (if pgs = [] then None else Some \<lparr>directReveal = None, zkReveal = Some made\<rparr>)"
    using made(2) base(1) by (auto simp: transcript_message_def)
  moreover have "pgs = [] \<longrightarrow> made = []" using made(1) none by auto
  ultimately show ?thesis using pgs(2) made(1) by blast
qed

subsection \<open>Properties\<close>

text \<open>The claim request's transcript is the tunnel's, record by record: same length, order, senders and
  bytes. A record carries a key exactly when it is encrypted and marked for complete reveal, proofs
  only when it is encrypted and marked for ZK reveal, and nothing otherwise.\<close>

theorem prepared_transcript_faithful:
  assumes "preparePacketsForReveal L Z completion cs tr rm rs = Inr ms"
  shows "length ms = length tr
    \<and> (\<forall>i < length tr. \<exists>reveal. ms ! i = transcript_message (fst (tr ! i)) (snd (tr ! i)) reveal
         \<and> (if gets_key rm rs (i, tr ! i) then reveal = Some (direct_reveal (snd (tr ! i)))
            else if gets_proofs rm rs (i, tr ! i)
            then reveal = None \<or> (\<exists>proofs. reveal = Some \<lparr>directReveal = None, zkReveal = Some proofs\<rparr>)
            else reveal = None))"
  by (rule prepared_message[OF assms])

text \<open>What the attestor reads from a record with a ZK reveal of its own and without claims.\<close>

lemma zk_reveal_read:
  assumes prep: "preparePacketsForReveal L Z completion cs tr rm rs = Inr ms"
    and rec: "i < length tr" "tr ! i = (s, p)" "pkt_type p = CiphertextPacket" "pkt_encKey p \<noteq> []"
      "getWithoutHeader (pkt_data p) = pkt_ciphertext p"
    and own: "rm i = Some r" "r < length rs" "rs ! r = ZkReveal red []" "\<forall>j. rm j = Some r \<longrightarrow> j = i"
    and env: "ce_tls E = L" "ce_zk E eng = Z" "\<forall>gs. set (completion gs) = set gs" "\<forall>ps. set (ce_completion E ps) = set ps"
    and suite: "getZkAlgorithmForCipherSuite cs = Inr alg" "0 < getChunkSizeBytes Z alg"
      "getPureCiphertext L (pkt_ciphertext p) cs = Inr ct" "getRecordIV L (pkt_ciphertext p) cs = Inr rIV"
    and zk: "zk_correct Z alg (pkt_encKey p) (pkt_iv p) stream" "pkt_iv p = nonce_of L Z iv rIV n"
    and red: "length (fill_up L p red) = length ct
        \<and> (\<forall>k < length ct. fill_up L p red ! k = REDACTION_CHAR_CODE \<or> fill_up L p red ! k = xor (ct ! k) (stream (int k)))"
    and m: "ms ! i = transcript_message s p reveal"
  shows "packet_plaintext E eng (Some v) (Some cs) iv n (ms ! i) = Inr (fill_up L p red, False)
        \<or> (set (fill_up L p red) \<subseteq> {REDACTION_CHAR_CODE}
            \<and> packet_plaintext E eng (Some v) (Some cs) iv n (ms ! i) = Inr (pkt_ciphertext p, True))"
proof -
  note pt = packet_plaintext_def zk_plaintext_def m transcript_message_def
  have "completion [] = []" using env(3)[rule_format, of "[]"] by simp
  then have "\<exists>pgs made. set pgs = {x. \<exists>c \<in> set (chunk_slices (getChunkSizeBytes Z alg) 0 (int (length ct))).
            getProofGenerationParamsForSlice (pkt_encKey p) (pkt_iv p) ct (fill_up L p red) c None = Some x}
          \<and> mapR (generateProofForChunk Z alg) (completion pgs) = Inr made
          \<and> tm_reveal (ms ! i) = (if pgs = [] then None else Some \<lparr>directReveal = None, zkReveal = Some made\<rparr>)
          \<and> (pgs = [] \<longrightarrow> made = [])"
    using prepared_proofs[OF prep rec(1-3) own(1,2) _ _ suite(1,3)] own(3,4) by blast
  then obtain pgs made where pm: "set pgs = {x. \<exists>c \<in> set (chunk_slices (getChunkSizeBytes Z alg) 0 (int (length ct))).
            getProofGenerationParamsForSlice (pkt_encKey p) (pkt_iv p) ct (fill_up L p red) c None = Some x}"
    "mapR (generateProofForChunk Z alg) (completion pgs) = Inr made"
    "reveal = (if pgs = [] then None else Some \<lparr>directReveal = None, zkReveal = Some made\<rparr>)" "pgs = [] \<longrightarrow> made = []"
    by (auto simp: m transcript_message_def)
  have ok: "verifyZkPacket L (ce_b64 E) Z (ce_completion E) cs (pkt_ciphertext p) made iv n = Inr (fill_up L p red)"
    using made_proofs_accepted[OF pm(1,2) env(3) _ suite zk, of "ce_completion E" "ce_b64 E"] env(4) red by simp
  show ?thesis
  proof (cases "made = []")
    case True
    then have "fill_up L p red = replicate (length ct) REDACTION_CHAR_CODE"
      using ok suite env(4)[rule_format, of "[]"] by (simp add: verifyZkPacket_def True)
    then show ?thesis using True pm(3) rec(5) by (auto simp: pt split: if_splits)
  next
    case False
    then have "pgs \<noteq> []" using pm(4) by auto
    then show ?thesis using False pm(3) ok rec(5) env by (simp add: pt)
  qed
qed


text \<open>The packet of the ZK witnesses with its header, and a cipher that strips the tag.\<close>

definition ref_record_sent :: CompleteTLSPacket where
  "ref_record_sent = ref_packet\<lparr>pkt_data := [23, 3, 3, 0, 22] @ pkt_ciphertext ref_packet, pkt_plaintext := [72, 105, 33, 1, 2, 3]\<rparr>"

definition ref_reveal_env :: claim_env where
  "ref_reveal_env = ref_claim_env\<lparr>ce_hs := hs_ref\<lparr>decryptWrappedRecord := (\<lambda>c _ _ _ _ _ _. Inr (take (length c - 16) c))\<rparr>\<rparr>"

lemma ref_record_sent_simps:
  "pkt_type ref_record_sent = CiphertextPacket" "pkt_encKey ref_record_sent = [9]" "pkt_iv ref_record_sent = replicate 12 7"
  "pkt_ciphertext ref_record_sent = pkt_ciphertext ref_packet" "pkt_fixedIv ref_record_sent = replicate 12 7"
  "pkt_plaintext ref_record_sent = [72, 105, 33, 1, 2, 3]" "getWithoutHeader (pkt_data ref_record_sent) = pkt_ciphertext ref_packet"
  by (simp_all add: ref_record_sent_def ref_packet_def getWithoutHeader_def js_slices)

lemma ref_record_prepared:
  "preparePacketsForReveal tls_ref zk_ref rev ref_suite [(Client, ref_record_sent)] [0 \<mapsto> 0]
     [ZkReveal [72, 105, 33, 42, 42, 42] []]
   = Inr [transcript_message Client ref_record_sent (Some \<lparr>directReveal = None, zkReveal = Some [ref_proof]\<rparr>)]"
proof -
  have "getProofGenerationParamsForSlice [9] (replicate 12 7) [72, 105, 33, 1, 2, 3] [72, 105, 33, 42, 42, 42]
      \<lparr>fromIndex = 0, toIndex = 4\<rparr> None = Some ref_gen"
    "getProofGenerationParamsForSlice [9] (replicate 12 7) [72, 105, 33, 1, 2, 3] [72, 105, 33, 42, 42, 42]
      \<lparr>fromIndex = 4, toIndex = 6\<rparr> None = None"
    by (simp_all add: getProofGenerationParamsForSlice_def Let_def isFullyRedacted_def redact_ciphertext_def
      js_get_def js_slice_def js_index_def REDACTION_CHAR_CODE_def ref_gen_def upt_rec)
  then have gens: "List.map_filter (\<lambda>s. getProofGenerationParamsForSlice [9] (replicate 12 7) [72, 105, 33, 1, 2, 3]
      [72, 105, 33, 42, 42, 42] s None) (chunk_slices 4 0 6) = [ref_gen]"
    by (simp add: ref_slices List.map_filter_simps)
  have added: "addPacketToProve tls_ref zk_ref ref_suite ref_record_sent [72, 105, 33, 42, 42, 42] []
      \<lparr>packetsToProve = [], zkProofsToGen = 0\<rparr>
    = Inr \<lparr>packetsToProve = [\<lparr>pp_algorithm = Chacha20, proofsToGenerate = [ref_gen], pp_iv = replicate 12 7\<rparr>], zkProofsToGen = 1\<rparr>"
    using gens by (simp add: addPacketToProve_def ref_suite_alg ref_cipher addProofsToGenerate_def ref_chunk Let_def ref_record_sent_simps)
  have made: "generateProofs zk_ref rev \<lparr>packetsToProve = [\<lparr>pp_algorithm = Chacha20, proofsToGenerate = [ref_gen],
      pp_iv = replicate 12 7\<rparr>], zkProofsToGen = 1\<rparr> = Inr (\<lparr>packetsToProve = [], zkProofsToGen = 0\<rparr>, [Some [ref_proof]])"
    by (simp add: generateProofs_def generateProofForChunk_def zk_ref_def ref_gen_def ref_proof_def)
  have fill: "fill_up tls_ref ref_record_sent [72, 105, 33, 42, 42, 42] = [72, 105, 33, 42, 42, 42]"
    by (simp add: fill_up_def ref_record_sent_simps js_slices)
  show ?thesis
    by (simp add: preparePacketsForReveal_def prepare_packet_def js_get_def ref_record_sent_simps fill added[simplified]
      made[simplified] set_zk_reveal_def transcript_message_def)
qed

theorem prepared_transcript_faithful_witness:
  "\<exists>reveal. tm_message (transcript_message Client ref_record_sent reveal) = [23, 3, 3, 0, 22, 72, 105, 33, 1, 2, 3] @ replicate 16 0
    \<and> reveal \<noteq> Some (direct_reveal ref_record_sent)"
  using prepared_transcript_faithful[OF ref_record_prepared]
  by (auto simp: transcript_message_def gets_key_def reveal_at_def js_get_def ref_record_sent_simps direct_reveal_def
    ref_record_sent_def ref_packet_def)


end
