(* ===== verification/Create_Claim.thy ===== *)
theory Create_Claim
  imports Reveal_Packets
begin

text \<open>
  Creating a claim on the client (\<open>src/client/create-claim.ts\<close>) once the session is over: marking the
  server's records and the handshake for reveal (\<open>addServerSideReveals\<close>), putting OPRF hashes into the
  parameters, building and signing the claim request. How the request was written is
  \<open>Client_Writes\<close>; the provider is the HTTP provider.

  The transcript, the negotiated version and cipher suite come from the tunnel; progress reports and
  the optional callback that updates the parameters are left out.
\<close>

subsection \<open>Marks with objects of their own\<close>

definition add_reveal :: "nat \<times> MessageRevealInfo \<Rightarrow> 't tls_tunnel \<Rightarrow> 't tls_tunnel" where
  "add_reveal = (\<lambda>(i, r) t. t\<lparr>reveals := reveals t @ [r],
     revealMap := setRevealOfMessage i (Some (length (reveals t))) (revealMap t)\<rparr>)"

definition add_reveals :: "(nat \<times> MessageRevealInfo) list \<Rightarrow> 't tls_tunnel \<Rightarrow> 't tls_tunnel" where
  "add_reveals = fold add_reveal"

text \<open>The records of application data with their text.\<close>

definition app_packets ::
  "tls_pkg \<Rightarrow> TLSProtocolVersion option \<Rightarrow> CompleteTLSPacket Transcript \<Rightarrow> (nat \<times> sender \<times> bytes) list" where
  "app_packets L v tr =
     map (\<lambda>(i, s, p). (i, s, app_text v p)) (filter (\<lambda>(i, s, p). isApplicationData L p v) (enumerate 0 tr))"

definition packets_of :: "sender \<Rightarrow> (nat \<times> sender \<times> bytes) list \<Rightarrow> (nat \<times> bytes) list" where
  "packets_of s ps = List.map_filter (\<lambda>(i, s', m). if s' = s then Some (i, m) else None) ps"

definition all_server_marks :: "CompleteTLSPacket Transcript \<Rightarrow> (nat \<times> MessageRevealInfo) list" where
  "all_server_marks tr =
     map (\<lambda>(i, s, p). (i, CompleteReveal)) (filter (\<lambda>(i, s, p). s = Server) (enumerate 0 tr))"

definition slice_marks :: "(nat \<times> bytes) list \<Rightarrow> SliceWithReveal list \<Rightarrow> (nat \<times> MessageRevealInfo) list" where
  "slice_marks serverBlocks ss = map (\<lambda>(k, red, claims). (fst (serverBlocks ! k), ZkReveal red claims)) ss"

text \<open>The records before the first application data; the loop breaks there.\<close>

fun handshake_marks ::
  "tls_pkg \<Rightarrow> TLSProtocolVersion option \<Rightarrow> (nat \<times> sender \<times> CompleteTLSPacket) list \<Rightarrow> (nat \<times> MessageRevealInfo) list" where
  "handshake_marks L v [] = []"
| "handshake_marks L v ((i, s, p) # ps) =
     (if pkt_type p = PlaintextPacket then handshake_marks L v ps
      else if isApplicationData L p v then []
      else (i, CompleteReveal) # handshake_marks L v ps)"

subsection \<open>OPRF\<close>

record oprf_lib =
  generateOPRFRequestData :: "nat \<Rightarrow> bytes \<Rightarrow> jsstring \<Rightarrow> js_error + bytes \<times> bytes"
  rpc_toprf :: "nat \<Rightarrow> bytes \<Rightarrow> ZKProofEngine \<Rightarrow> js_error + TOPRFResponse"
  finaliseOPRF :: "bytes \<Rightarrow> bytes \<Rightarrow> TOPRFResponse list \<Rightarrow> js_error + bytes"

definition TOPRF_DOMAIN_SEPARATOR :: jsstring where
  "TOPRF_DOMAIN_SEPARATOR = js ''reclaim-toprf''"

text \<open>The mask and the masked data are what \<open>generateOPRFRequestData\<close> returns; \<open>k\<close> numbers the calls.\<close>

definition performOprf :: "oprf_lib \<Rightarrow> bytes \<Rightarrow> ZKEngine \<Rightarrow> nat \<Rightarrow> bytes \<Rightarrow> js_error + TOPRFProofParams" where
  "performOprf O' toprfPublicKey zkEngine k plaintext =
     bindR (generateOPRFRequestData O' k plaintext TOPRF_DOMAIN_SEPARATOR) (\<lambda>(maskOf, maskedData).
     bindR (getEngineProto zkEngine) (\<lambda>engine.
     bindR (rpc_toprf O' k maskedData engine) (\<lambda>rsp.
     bindR (finaliseOPRF O' toprfPublicKey maskOf [rsp]) (\<lambda>n.
       Inr \<lparr>dataLocation = None, nullifier = n, responses = [rsp], mask = maskOf, toprf_plaintext = plaintext\<rparr>))))"

text \<open>The plaintexts that were hashed are replaced in the text of the parameters.\<close>

definition params_with_hashes ::
  "claim_lib \<Rightarrow> (bytes \<Rightarrow> jsstring) \<Rightarrow> TOPRFProofParams list \<Rightarrow> json \<Rightarrow> js_error + json" where
  "params_with_hashes C b64 claims params =
     (let strParams = foldl (\<lambda>str c. js_replaceAll str (text_decode (toprf_plaintext c)) (binaryHashToStr b64 (nullifier c) (loc_length c)))
            (canonicalStringify C (Some params)) claims
      in case JSON_parse (cl_json C) strParams of
           None \<Rightarrow> Inl (JsSyntaxError ''Unexpected token'')
         | Some j \<Rightarrow> Inr j)"

fun update_params ::
  "claim_lib \<Rightarrow> (bytes \<Rightarrow> jsstring) \<Rightarrow> bool \<Rightarrow> SliceWithReveal list \<Rightarrow> json \<Rightarrow> js_error + json" where
  "update_params C b64 upd [] params = Inr params"
| "update_params C b64 upd ((k, red, claims) # ss) params =
     (if upd \<and> claims \<noteq> [] then bindR (params_with_hashes C b64 claims params) (update_params C b64 upd ss)
      else update_params C b64 upd ss params)"

subsection \<open>addServerSideReveals\<close>

definition CURRENT_ATTESTOR_VERSION :: int where
  "CURRENT_ATTESTOR_VERSION = ATTESTOR_VERSION_2_0_1"

record claim_opts =
  co_name :: jsstring
  co_secretParams :: HttpProviderSecretParameters
  co_context :: "json option"
  co_ownerPrivateKey :: jsstring
  co_timestampS :: int
  co_zkEngine :: ZKEngine
  co_updateParametersFromOprfData :: bool

definition server_packets_to_reveal ::
  "claim_env \<Rightarrow> (nat \<Rightarrow> bytes \<Rightarrow> js_error + TOPRFProofParams) \<Rightarrow> TLSProtocolVersion option \<Rightarrow> json
   \<Rightarrow> CompleteTLSPacket Transcript \<Rightarrow> js_error + RevealedSlices" where
  "server_packets_to_reveal E oprf v params tr =
     getBlocksToReveal (env_tls (ce_http E)) (ce_b64 E) oprf
       (\<lambda>tot. getResponseRedactions (ce_http E) tot (ce_params E params) CURRENT_ATTESTOR_VERSION)
       (map snd (packets_of Server (app_packets (env_tls (ce_http E)) v tr)))"

definition addServerSideReveals ::
  "claim_env \<Rightarrow> (nat \<Rightarrow> bytes \<Rightarrow> js_error + TOPRFProofParams) \<Rightarrow> claim_opts \<Rightarrow> TLSProtocolVersion option \<Rightarrow> json
   \<Rightarrow> 't tls_tunnel \<Rightarrow> js_error + json \<times> 't tls_tunnel" where
  "addServerSideReveals E oprf opts v params t =
     (let allPackets = tn_transcript t;
          L = env_tls (ce_http E);
          packets = app_packets L v allPackets;
          serverBlocks = packets_of Server packets
      in bindR (server_packets_to_reveal E oprf v params allPackets) (\<lambda>serverPacketsToReveal.
         bindR (case serverPacketsToReveal of
                  RevealAll \<Rightarrow> Inr (params, add_reveals (all_server_marks allPackets) t, map snd serverBlocks)
                | RevealSlices ss \<Rightarrow>
                    bindR (update_params (ce_claim E) (ce_b64 E) (co_updateParametersFromOprfData opts) ss params) (\<lambda>params1.
                      Inr (params1, add_reveals (slice_marks serverBlocks ss) t, map (\<lambda>(k, red, claims). red) ss)))
               (\<lambda>(params1, t1, serverRevealed).
         bindR (assertValidProviderReceipt (ce_http E)
                  (map (\<lambda>(i, m). (Client, m)) (packets_of Client packets) @ map (Pair Server) serverRevealed)
                  (ce_params E params1) (Some (co_secretParams opts)) CURRENT_ATTESTOR_VERSION) (\<lambda>_.
           Inr (params1, add_reveals (handshake_marks L v (enumerate 0 allPackets)) t1)))))"

subsection \<open>The claim request\<close>

definition redaction_mode_zk :: "TLSProtocolVersion option \<Rightarrow> HttpProviderParameters \<Rightarrow> bool" where
  "redaction_mode_zk v params \<longleftrightarrow> v = Some TLS1_2 \<or> hp_writeRedactionMode params = Some (js ''zk'')"

text \<open>An exception while writing is only logged.\<close>

definition writeRequest ::
  "'t tls_client \<Rightarrow> TLSProtocolVersion option \<Rightarrow> HttpProviderParameters \<Rightarrow> CreateRequestResult \<Rightarrow> 't tls_tunnel \<Rightarrow> 't tls_tunnel" where
  "writeRequest T v params r t =
     fst (if redaction_mode_zk v params then writeRedactedZk T (cr_data r) (cr_redactions r) t
          else writeRedactedWithKeyUpdate T (cr_data r) (cr_redactions r) t)"

definition fixed_iv_of :: "sender \<Rightarrow> CompleteTLSPacket Transcript \<Rightarrow> bytes" where
  "fixed_iv_of s tr =
     (case getLastBlocks s 1 tr of
        [] \<Rightarrow> []
      | i # _ \<Rightarrow> if pkt_type (snd (tr ! i)) = CiphertextPacket then pkt_fixedIv (snd (tr ! i)) else [])"

definition generateTranscript ::
  "claim_env \<Rightarrow> (nat \<Rightarrow> bytes \<Rightarrow> js_error + TOPRFProofParams) \<Rightarrow> (ZKProofToGenerate list \<Rightarrow> ZKProofToGenerate list)
   \<Rightarrow> claim_opts \<Rightarrow> TLSProtocolVersion option \<Rightarrow> jsstring \<Rightarrow> json \<Rightarrow> 't tls_tunnel \<Rightarrow> js_error + json \<times> TranscriptMessage list" where
  "generateTranscript E oprf completion opts v cipherSuite params t =
     bindR (addServerSideReveals E oprf opts v params t) (\<lambda>(params1, t1).
     bindR (preparePacketsForReveal (env_tls (ce_http E)) (ce_zk E (co_zkEngine opts)) completion cipherSuite
              (tn_transcript t1) (revealMap t1) (reveals t1)) (\<lambda>ms.
       Inr (params1, ms)))"

definition claim_request_of ::
  "claim_env \<Rightarrow> claim_opts \<Rightarrow> CreateTunnelRequest \<Rightarrow> CompleteTLSPacket Transcript \<Rightarrow> json \<Rightarrow> TranscriptMessage list \<Rightarrow> ClaimTunnelRequest" where
  "claim_request_of E opts tunnelReq tr params ms =
     \<lparr>cq_request = Some tunnelReq,
      cq_data = Some \<lparr>ci_provider = co_name opts, ci_parameters = canonicalStringify (ce_claim E) (Some params),
        ci_context = canonicalStringify (ce_claim E) (co_context opts),
        cd_owner = getAddress (ce_eth E) (getPublicKey (ce_eth E) (co_ownerPrivateKey opts)), cd_timestampS = co_timestampS opts\<rparr>,
      cq_transcript = ms, cq_requestSignature = None,
      cq_zkEngine = (if co_zkEngine opts = Gnark then ZK_ENGINE_GNARK else ZK_ENGINE_SNARKJS),
      cq_fixedServerIV = fixed_iv_of Server tr, cq_fixedClientIV = fixed_iv_of Client tr\<rparr>"

text \<open>What is sent with the \<open>claimTunnel\<close> RPC.\<close>

definition makeClaimRequest ::
  "claim_env \<Rightarrow> (nat \<Rightarrow> bytes \<Rightarrow> js_error + TOPRFProofParams) \<Rightarrow> (ZKProofToGenerate list \<Rightarrow> ZKProofToGenerate list)
   \<Rightarrow> claim_opts \<Rightarrow> CreateTunnelRequest \<Rightarrow> TLSProtocolVersion option \<Rightarrow> jsstring \<Rightarrow> json \<Rightarrow> 't tls_tunnel
   \<Rightarrow> js_error + ClaimTunnelRequest" where
  "makeClaimRequest E oprf completion opts tunnelReq v cipherSuite params t =
     bindR (generateTranscript E oprf completion opts v cipherSuite params t) (\<lambda>(params1, ms).
     let req = claim_request_of E opts tunnelReq (tn_transcript t) params1 ms in
     bindR (sign_data (ce_eth E) (encode_ClaimTunnelRequest (ce_proto E) req) (co_ownerPrivateKey opts)) (\<lambda>signature.
       Inr (req\<lparr>cq_requestSignature := Some signature\<rparr>)))"

subsection \<open>The marks in the end\<close>

definition refs_ok :: "'t tls_tunnel \<Rightarrow> bool" where
  "refs_ok t \<longleftrightarrow> (\<forall>i r. revealMap t i = Some r \<longrightarrow> r < length (reveals t))"

lemma marks_wf_refs_ok: "marks_wf t \<Longrightarrow> refs_ok t"
  by (auto simp: marks_wf_def refs_ok_def)

lemma reveal_at_of: "reveal_at (revealMap t) (reveals t) i = reveal_of t i"
  by (simp add: reveal_at_def reveal_of_def comp_def)

lemma add_reveals_append: "add_reveals (ms @ ns) t = add_reveals ns (add_reveals ms t)"
  by (simp add: add_reveals_def)

lemma add_reveals_frame [simp]:
  "tn_transcript (add_reveals ms t) = tn_transcript t"
  by (induction ms arbitrary: t) (auto simp: add_reveals_def add_reveal_def)

lemma add_reveals_marks:
  "refs_ok t \<Longrightarrow> refs_ok (add_reveals ms t)
     \<and> reveal_of (add_reveals ms t) i = (case map_of (rev ms) i of None \<Rightarrow> reveal_of t i | Some r \<Rightarrow> Some r)"
proof (induction ms arbitrary: t)
  case (Cons m ms)
  obtain k r where m: "m = (k, r)" by (cases m)
  let ?t = "add_reveal m t"
  have "refs_ok ?t" using Cons.prems by (auto simp: refs_ok_def m add_reveal_def setRevealOfMessage_def less_SucI)
  moreover have "reveal_of ?t i = (if i = k then Some r else reveal_of t i)"
  proof (cases "revealMap t i")
    case (Some q)
    then have "q < length (reveals t)" using Cons.prems by (simp add: refs_ok_def)
    then show ?thesis using Some by (simp add: reveal_of_def m add_reveal_def setRevealOfMessage_def js_get_def nth_append)
  qed (simp add: reveal_of_def m add_reveal_def setRevealOfMessage_def js_get_def)
  moreover have "add_reveals (m # ms) t = add_reveals ms ?t" by (simp add: add_reveals_def)
  ultimately show ?case using Cons.IH[of ?t]
    by (auto simp: m map_add_def split: option.splits)
qed (simp add: add_reveals_def)

lemma handshake_marks_iff:
  "(i, r) \<in> set (handshake_marks L v (enumerate k tr)) \<longleftrightarrow>
     r = CompleteReveal \<and> k \<le> i \<and> i < k + length tr \<and> pkt_type (snd (tr ! (i - k))) = CiphertextPacket
     \<and> (\<forall>j \<le> i - k. \<not> isApplicationData L (snd (tr ! j)) v)"
proof (induction tr arbitrary: k)
  case (Cons x tr)
  obtain s p where x: "x = (s, p)" by (cases x)
  have plain: "\<not> isApplicationData L p v" if "pkt_type p = PlaintextPacket" using that by (simp add: isApplicationData_def)
  have ge: "(i, r) \<in> set (handshake_marks L v (enumerate (Suc k) tr)) \<Longrightarrow> Suc k \<le> i" by (simp add: Cons.IH)
  show ?case
  proof (cases "i = k")
    case True
    then show ?thesis using plain ge by (cases "pkt_type p") (auto simp: x)
  next
    case False
    have "(\<forall>j \<le> i - k. \<not> isApplicationData L (snd ((x # tr) ! j)) v) \<longleftrightarrow>
        \<not> isApplicationData L p v \<and> (\<forall>j \<le> i - Suc k. \<not> isApplicationData L (snd (tr ! j)) v)" if "k < i"
    proof -
      have "i - k = Suc (i - Suc k)" using that by simp
      then show ?thesis by (simp only: x All_less_Suc2 le_simps(2)[symmetric] less_Suc_eq_le[symmetric]) simp
    qed
    then show ?thesis using False plain ge Cons.IH[of "Suc k"]
      by (cases "pkt_type p") (auto simp: x nth_Cons' split: if_splits)
  qed
qed simp

lemma addServerSideReveals_marks:
  assumes "addServerSideReveals E oprf opts v params t = Inr (params', t')"
  obtains first where "t' = add_reveals (first @ handshake_marks (env_tls (ce_http E)) v (enumerate 0 (tn_transcript t))) t"
    and "\<forall>(i, r) \<in> set first. (case r of CompleteReveal \<Rightarrow> i < length (tn_transcript t) \<and> fst (tn_transcript t ! i) = Server
          \<and> server_packets_to_reveal E oprf v params (tn_transcript t) = Inr RevealAll | _ \<Rightarrow> True)"
proof -
  let ?tr = "tn_transcript t"
  let ?hs = "handshake_marks (env_tls (ce_http E)) v (enumerate 0 ?tr)"
    and ?blocks = "packets_of Server (app_packets (env_tls (ce_http E)) v ?tr)"
  obtain slices t1 where s: "server_packets_to_reveal E oprf v params ?tr = Inr slices" "t' = add_reveals ?hs t1"
    "(case slices of RevealAll \<Rightarrow> t1 = add_reveals (all_server_marks ?tr) t
      | RevealSlices ss \<Rightarrow> t1 = add_reveals (slice_marks ?blocks ss) t)"
  proof -
    obtain slices p1 t1 sr where r: "server_packets_to_reveal E oprf v params ?tr = Inr slices" "(case slices of
                  RevealAll \<Rightarrow> Inr (params, add_reveals (all_server_marks ?tr) t, map snd ?blocks)
                | RevealSlices ss \<Rightarrow>
                    bindR (update_params (ce_claim E) (ce_b64 E) (co_updateParametersFromOprfData opts) ss params) (\<lambda>params1.
                      Inr (params1, add_reveals (slice_marks ?blocks ss) t, map (\<lambda>(k, red, claims). red) ss))) = Inr (p1, t1, sr)"
      "t' = add_reveals ?hs t1"
      using assms unfolding addServerSideReveals_def Let_def bindR_Inr_iff by (auto simp: bindR_Inr_iff)
    then show ?thesis using that[of slices t1] by (cases slices) (auto simp: bindR_Inr_iff)
  qed
  have "\<exists>first. t' = add_reveals (first @ ?hs) t
      \<and> (first = all_server_marks ?tr \<and> slices = RevealAll \<or> (\<exists>bs ss. first = slice_marks bs ss))"
    using s by (cases slices) (auto simp: add_reveals_append)
  then obtain first where first: "t' = add_reveals (first @ ?hs) t"
    "first = all_server_marks ?tr \<and> slices = RevealAll \<or> (\<exists>bs ss. first = slice_marks bs ss)" by blast
  moreover have "i < length ?tr \<and> fst (?tr ! i) = Server" if "(i, r) \<in> set (all_server_marks ?tr)" for i r
    using that by (auto simp: all_server_marks_def in_set_enumerate_eq)
  ultimately have "\<forall>(i, r) \<in> set first. (case r of CompleteReveal \<Rightarrow> i < length ?tr \<and> fst (?tr ! i) = Server
      \<and> server_packets_to_reveal E oprf v params ?tr = Inr RevealAll | _ \<Rightarrow> True)"
    using first(2) s(1) by (auto simp: slice_marks_def split: MessageRevealInfo.splits)
  with first(1) show ?thesis by (rule that)
qed

text \<open>The claim request and its parts.\<close>

lemma makeClaimRequest_parts:
  assumes "makeClaimRequest E oprf completion opts tunnelReq v cs params t = Inr req"
  obtains params' t' ms sig where "addServerSideReveals E oprf opts v params t = Inr (params', t')"
    and "preparePacketsForReveal (env_tls (ce_http E)) (ce_zk E (co_zkEngine opts)) completion cs (tn_transcript t) (revealMap t') (reveals t') = Inr ms"
    and "sign_data (ce_eth E) (encode_ClaimTunnelRequest (ce_proto E) (claim_request_of E opts tunnelReq (tn_transcript t) params' ms))
          (co_ownerPrivateKey opts) = Inr sig"
    and "req = (claim_request_of E opts tunnelReq (tn_transcript t) params' ms)\<lparr>cq_requestSignature := Some sig\<rparr>"
    and "tn_transcript t' = tn_transcript t"
proof -
  obtain params' t' ms sig where p: "addServerSideReveals E oprf opts v params t = Inr (params', t')"
    "preparePacketsForReveal (env_tls (ce_http E)) (ce_zk E (co_zkEngine opts)) completion cs (tn_transcript t') (revealMap t') (reveals t') = Inr ms"
    "sign_data (ce_eth E) (encode_ClaimTunnelRequest (ce_proto E) (claim_request_of E opts tunnelReq (tn_transcript t) params' ms))
          (co_ownerPrivateKey opts) = Inr sig"
    "req = (claim_request_of E opts tunnelReq (tn_transcript t) params' ms)\<lparr>cq_requestSignature := Some sig\<rparr>"
    using assms by (auto simp: makeClaimRequest_def generateTranscript_def bindR_Inr_iff Let_def)
  moreover have "tn_transcript t' = tn_transcript t"
    using p(1) by (rule addServerSideReveals_marks) simp
  ultimately show ?thesis using that by metis
qed

text \<open>How a claim request shows a transcript: \<open>marks\<close> is the final map of reveals.\<close>

definition reveals_as ::
  "claim_env \<Rightarrow> (nat \<Rightarrow> bytes \<Rightarrow> js_error + TOPRFProofParams) \<Rightarrow> TLSProtocolVersion option \<Rightarrow> json \<Rightarrow> 't tls_tunnel
   \<Rightarrow> ClaimTunnelRequest \<Rightarrow> (nat \<Rightarrow> MessageRevealInfo option) \<Rightarrow> bool" where
  "reveals_as E oprf v params t req marks \<longleftrightarrow>
     (let tr = tn_transcript t; early = (\<lambda>i. \<forall>j \<le> i. \<not> isApplicationData (env_tls (ce_http E)) (snd (tr ! j)) v) in
      length (cq_transcript req) = length tr
      \<and> (\<forall>i < length tr. \<exists>reveal. cq_transcript req ! i = transcript_message (fst (tr ! i)) (snd (tr ! i)) reveal
          \<and> ((\<exists>d z. reveal = Some \<lparr>directReveal = Some d, zkReveal = z\<rparr>) \<longrightarrow> reveal = Some (direct_reveal (snd (tr ! i))))
          \<and> (reveal = Some (direct_reveal (snd (tr ! i))) \<longleftrightarrow>
               pkt_type (snd (tr ! i)) = CiphertextPacket \<and> marks i = Some CompleteReveal))
      \<and> (\<forall>i. marks i = Some CompleteReveal \<longrightarrow> reveal_of t i = Some CompleteReveal
          \<or> (i < length tr \<and> fst (tr ! i) = Server \<and> server_packets_to_reveal E oprf v params tr = Inr RevealAll)
          \<or> early i)
      \<and> (\<forall>i < length tr. pkt_type (snd (tr ! i)) = CiphertextPacket \<and> early i \<longrightarrow> marks i = Some CompleteReveal))"

lemma claim_request_transcript:
  assumes "makeClaimRequest E oprf completion opts tunnelReq v cs params t = Inr req" and "refs_ok t"
  shows "\<exists>marks. reveals_as E oprf v params t req marks"
proof -
  let ?L = "env_tls (ce_http E)" and ?tr = "tn_transcript t"
  from assms(1) obtain params' t' ms sig where p: "addServerSideReveals E oprf opts v params t = Inr (params', t')"
    "preparePacketsForReveal ?L (ce_zk E (co_zkEngine opts)) completion cs ?tr (revealMap t') (reveals t') = Inr ms"
    "req = (claim_request_of E opts tunnelReq ?tr params' ms)\<lparr>cq_requestSignature := Some sig\<rparr>"
    by (rule makeClaimRequest_parts)
  from p(1) obtain first where f: "t' = add_reveals (first @ handshake_marks ?L v (enumerate 0 ?tr)) t"
    "\<forall>(i, r) \<in> set first. (case r of CompleteReveal \<Rightarrow> i < length ?tr \<and> fst (?tr ! i) = Server
        \<and> server_packets_to_reveal E oprf v params ?tr = Inr RevealAll | _ \<Rightarrow> True)"
    by (rule addServerSideReveals_marks)
  let ?hs = "handshake_marks ?L v (enumerate 0 ?tr)"
  have m: "reveal_of t' i = (case map_of (rev (first @ ?hs)) i of None \<Rightarrow> reveal_of t i | Some r \<Rightarrow> Some r)" for i
    using add_reveals_marks[OF assms(2)] f(1) by simp
  have tr: "cq_transcript req = ms" by (simp add: p(3) claim_request_of_def)
  show ?thesis
    unfolding reveals_as_def Let_def
  proof (intro exI[of _ "reveal_of t'"] conjI allI impI)
    fix i assume i: "i < length ?tr"
    obtain reveal where reveal: "ms ! i = transcript_message (fst (?tr ! i)) (snd (?tr ! i)) reveal"
      "if gets_key (revealMap t') (reveals t') (i, ?tr ! i) then reveal = Some (direct_reveal (snd (?tr ! i)))
            else if gets_proofs (revealMap t') (reveals t') (i, ?tr ! i)
            then reveal = None \<or> (\<exists>proofs. reveal = Some \<lparr>directReveal = None, zkReveal = Some proofs\<rparr>)
            else reveal = None"
      using prepared_message[OF p(2)] i by blast
    have key: "gets_key (revealMap t') (reveals t') (i, ?tr ! i) \<longleftrightarrow>
        pkt_type (snd (?tr ! i)) = CiphertextPacket \<and> reveal_of t' i = Some CompleteReveal"
      by (simp add: gets_key_def reveal_at_of split_beta)
    show "\<exists>reveal. cq_transcript req ! i = transcript_message (fst (?tr ! i)) (snd (?tr ! i)) reveal
      \<and> ((\<exists>d z. reveal = Some \<lparr>directReveal = Some d, zkReveal = z\<rparr>) \<longrightarrow> reveal = Some (direct_reveal (snd (?tr ! i))))
      \<and> (reveal = Some (direct_reveal (snd (?tr ! i))) \<longleftrightarrow>
           pkt_type (snd (?tr ! i)) = CiphertextPacket \<and> reveal_of t' i = Some CompleteReveal)"
      using reveal unfolding tr key[symmetric] by (intro exI[of _ reveal]) (auto simp: direct_reveal_def split: if_splits)
  next
    fix i assume "reveal_of t' i = Some CompleteReveal"
    then have "reveal_of t i = Some CompleteReveal \<or> (i, CompleteReveal) \<in> set (first @ ?hs)"
      using m[of i] by (auto split: option.splits dest!: map_of_SomeD)
    then show "reveal_of t i = Some CompleteReveal \<or> (i < length ?tr \<and> fst (?tr ! i) = Server
            \<and> server_packets_to_reveal E oprf v params ?tr = Inr RevealAll)
        \<or> (\<forall>j \<le> i. \<not> isApplicationData ?L (snd (?tr ! j)) v)"
      using f(2) by (auto simp: handshake_marks_iff)
  next
    fix i assume i: "i < length ?tr" "pkt_type (snd (?tr ! i)) = CiphertextPacket
      \<and> (\<forall>j \<le> i. \<not> isApplicationData ?L (snd (?tr ! j)) v)"
    then have "(i, CompleteReveal) \<in> set (rev ?hs)" by (simp add: handshake_marks_iff)
    then obtain r where r: "map_of (rev ?hs) i = Some r" by (metis weak_map_of_SomeI)
    then have "(i, r) \<in> set ?hs" using map_of_SomeD[OF r] by simp
    then have "r = CompleteReveal" by (simp add: handshake_marks_iff)
    then show "reveal_of t' i = Some CompleteReveal" using m[of i] r by (simp add: map_add_def)
  next
    show "length (cq_transcript req) = length ?tr" unfolding tr using prepared_message[OF p(2)] by blast
  qed
qed

lemma new_mark:
  assumes "marked t1 = marked t0 @ ms" and "length (tn_transcript t0) \<le> i" and "i < length (tn_transcript t1)"
  shows "(snd (tn_transcript t1 ! i), reveal_of t1 i) \<in> set ms"
proof -
  have "marked t1 ! i = (snd (tn_transcript t1 ! i), reveal_of t1 i)" "length (marked t1) = length (tn_transcript t1)"
    "length (marked t0) = length (tn_transcript t0)" using assms(3) by (simp_all add: marked_def)
  moreover have "marked t1 ! i = ms ! (i - length (marked t0))" "i - length (marked t0) < length ms"
    using assms calculation by (auto simp: nth_append dest!: arg_cong[of _ _ length])
  ultimately show ?thesis by (metis nth_mem)
qed

lemma given_key:
  assumes "makeClaimRequest E oprf completion opts tunnelReq v cs params t = Inr req" and "refs_ok t"
    and "i < length (cq_transcript req)" and "tm_reveal (cq_transcript req ! i) = Some \<lparr>directReveal = Some d, zkReveal = z\<rparr>"
  shows "md_key d = pkt_encKey (snd (tn_transcript t ! i)) \<and> i < length (tn_transcript t)
    \<and> (reveal_of t i = Some CompleteReveal
        \<or> (fst (tn_transcript t ! i) = Server \<and> server_packets_to_reveal E oprf v params (tn_transcript t) = Inr RevealAll)
        \<or> (\<forall>j \<le> i. \<not> isApplicationData (env_tls (ce_http E)) (snd (tn_transcript t ! j)) v))"
proof -
  let ?tr = "tn_transcript t"
  obtain marks where m: "reveals_as E oprf v params t req marks" using claim_request_transcript[OF assms(1,2)] ..
  then have i: "i < length ?tr" using assms(3) by (simp add: reveals_as_def Let_def)
  then obtain reveal where r: "cq_transcript req ! i = transcript_message (fst (?tr ! i)) (snd (?tr ! i)) reveal"
    "(\<exists>d z. reveal = Some \<lparr>directReveal = Some d, zkReveal = z\<rparr>) \<longrightarrow> reveal = Some (direct_reveal (snd (?tr ! i)))"
    "reveal = Some (direct_reveal (snd (?tr ! i))) \<longleftrightarrow> pkt_type (snd (?tr ! i)) = CiphertextPacket \<and> marks i = Some CompleteReveal"
    using m unfolding reveals_as_def Let_def by blast
  have d: "reveal = Some \<lparr>directReveal = Some d, zkReveal = z\<rparr>" using assms(4) r(1) by (simp add: transcript_message_def)
  then have full: "reveal = Some (direct_reveal (snd (?tr ! i)))" using r(2) by blast
  then have "marks i = Some CompleteReveal" using r(3) by blast
  then show ?thesis using m i d full unfolding reveals_as_def Let_def by (auto simp: direct_reveal_def)
qed

lemma early_key:
  assumes "makeClaimRequest E oprf completion opts tunnelReq v cs params t = Inr req" and "refs_ok t"
    and "i < length (tn_transcript t)" and "pkt_type (snd (tn_transcript t ! i)) = CiphertextPacket"
    and "\<forall>j \<le> i. \<not> isApplicationData (env_tls (ce_http E)) (snd (tn_transcript t ! j)) v"
  shows "tm_reveal (cq_transcript req ! i) = Some (direct_reveal (snd (tn_transcript t ! i)))"
proof -
  obtain marks where "reveals_as E oprf v params t req marks" using claim_request_transcript[OF assms(1,2)] ..
  then show ?thesis using assms(3-5) unfolding reveals_as_def Let_def by (auto simp: transcript_message_def)
qed

subsection \<open>Properties\<close>

text \<open>A claim request that the client makes passes the attestor's check of its signature: the owner it
  names is the address of the key that signed it.\<close>

theorem claim_request_signature_accepted:
  assumes "makeClaimRequest E oprf completion opts tunnelReq v cs params t = Inr req"
    and "eth_correct (ce_eth E) (co_ownerPrivateKey opts)"
  shows "\<exists>d sig. cq_data req = Some d \<and> cq_requestSignature req = Some sig
    \<and> verify_signature (ce_eth E) (encode_ClaimTunnelRequest (ce_proto E) (req\<lparr>cq_requestSignature := None\<rparr>)) sig (cd_owner d) = Inr True"
proof -
  from assms(1) obtain params' t' ms sig where sig: "sign_data (ce_eth E)
      (encode_ClaimTunnelRequest (ce_proto E) (claim_request_of E opts tunnelReq (tn_transcript t) params' ms))
      (co_ownerPrivateKey opts) = Inr sig"
    and req: "req = (claim_request_of E opts tunnelReq (tn_transcript t) params' ms)\<lparr>cq_requestSignature := Some sig\<rparr>"
    by (rule makeClaimRequest_parts)
  have "req\<lparr>cq_requestSignature := None\<rparr> = claim_request_of E opts tunnelReq (tn_transcript t) params' ms"
    by (simp add: req claim_request_of_def)
  then show ?thesis using signed_data_verifies[OF assms(2) sig] by (auto simp: req claim_request_of_def)
qed

text \<open>C25: Which keys a claim request gives away: those of records that were marked for complete reveal when the
  request was written, those of the server's records if the provider asked for no redaction of the
  response, and those of the encrypted records before the first application data; no other.\<close>

theorem keys_given_away:
  assumes "makeClaimRequest E oprf completion opts tunnelReq v cs params t = Inr req" and "refs_ok t"
    and "i < length (cq_transcript req)" and "tm_reveal (cq_transcript req ! i) = Some \<lparr>directReveal = Some d, zkReveal = z\<rparr>"
  shows "md_key d = pkt_encKey (snd (tn_transcript t ! i))
    \<and> (reveal_of t i = Some CompleteReveal
        \<or> (fst (tn_transcript t ! i) = Server \<and> server_packets_to_reveal E oprf v params (tn_transcript t) = Inr RevealAll)
        \<or> (\<forall>j \<le> i. \<not> isApplicationData (env_tls (ce_http E)) (snd (tn_transcript t ! j)) v))"
  using given_key[OF assms] by blast

text \<open>C24: An encrypted record before the first application data (a \<open>Finished\<close> of TLS 1.2, a session ticket of
  TLS 1.3 sent early) gives its key away even if later records under the same key are to stay hidden:
  the attestor can decrypt what the redaction leaves out.\<close>

theorem early_record_exposes_hidden_ones:
  assumes "makeClaimRequest E oprf completion opts tunnelReq v cs params t = Inr req" and "refs_ok t"
    and "i < length (tn_transcript t)" and "pkt_type (snd (tn_transcript t ! i)) = CiphertextPacket"
    and "\<forall>j \<le> i. \<not> isApplicationData (env_tls (ce_http E)) (snd (tn_transcript t ! j)) v"
    and "pkt_encKey (snd (tn_transcript t ! k)) = pkt_encKey (snd (tn_transcript t ! i))"
  shows "\<exists>d z. tm_reveal (cq_transcript req ! i) = Some \<lparr>directReveal = Some d, zkReveal = z\<rparr>
    \<and> md_key d = pkt_encKey (snd (tn_transcript t ! k))"
  using early_key[OF assms(1-5)] assms(6) by (simp add: direct_reveal_def)


subsection \<open>A session for the witnesses\<close>

definition plain_params :: HttpProviderParameters where
  "plain_params = example_params\<lparr>hp_responseRedactions := None\<rparr>"

definition ref_create_env :: claim_env where
  "ref_create_env = ref_claim_env\<lparr>ce_params := \<lambda>_. plain_params\<rparr>"

definition ref_claim_opts :: claim_opts where
  "ref_claim_opts = \<lparr>co_name = js ''http'', co_secretParams = example_secret (js ''x''), co_context = None, co_ownerPrivateKey = js ''k'',
     co_timestampS = 1700000000, co_zkEngine = Snarkjs, co_updateParametersFromOprfData = True\<rparr>"

definition ref_tunnel_request :: CreateTunnelRequest where
  "ref_tunnel_request = \<lparr>ct_id = 1, ct_host = js ''h'', ct_port = 443, ct_geoLocation = []\<rparr>"

lemma plain_substitution:
  "substituteParamValues U plain_params sp ign =
     Inr \<lparr>newParams = plain_params, sub_extractedValues = Map.empty, hiddenBodyParts = [], hiddenURLParts = []\<rparr>"
proof -
  have e: "extractAndReplaceTemplateValues pub q i (Some (js ''https://h/a'')) =
      Inr (Some \<lparr>newParam = js ''https://h/a'', extractedValues = Map.empty, hiddenParts = []\<rparr>)"
    "extractAndReplaceTemplateValues pub q i (Some (js ''ok'')) =
      Inr (Some \<lparr>newParam = js ''ok'', extractedValues = Map.empty, hiddenParts = []\<rparr>)" for pub q i
    by (rule extract_plain; simp add: js_def)+
  have n: "js ''ok'' \<noteq> []" by (simp add: js_def)
  have g: "extractAndReplaceTemplateValues pub q i None = Inr None" for pub q i
    by (simp add: extractAndReplaceTemplateValues_def)
  show ?thesis
    by (simp add: substituteParamValues_def plain_params_def example_params_def e n g substitute_url_def extracted_of_def
        substitute_opt_def Let_def)
qed

lemma plain_receipt_accepted: "assertValidProviderReceipt example_env ok_receipt plain_params (Some sp) 4 = Inr Map.empty"
proof (rule ok_receipt_supported)
  show "matched_text example_env 4 (Some sp \<noteq> None) (text_decode ok_response) = Inr (text_decode ok_response)"
    by (simp add: ok_response_text matched_text_def example_env_def shouldRevealCrlf_def ATTESTOR_VERSION_2_0_1_def OK_HTTP_HEADER_def
        js_def js_indexOf_from_def js_indexOf_def is_prefix_def)
  show "js_includes (text_decode ok_response) (js ''ok'')"
    by (simp add: ok_response_text js_includes_def js_def is_prefix_def)
qed (rule plain_substitution, rule plain_params_def)

lemma ref_response_all:
  assumes "app_packets tls_ref v tr = [(a, Client, ok_request), (b, Server, ok_response)]"
  shows "server_packets_to_reveal ref_create_env oprf v params tr = Inr RevealAll"
proof -
  obtain r where "parseHttpResponse tls_ref ok_response = Inr r" by (rule ok_parse)
  then have "getResponseRedactions example_env ok_response plain_params n = Inr []" for n
    by (simp add: getResponseRedactions_def example_env_def plain_params_def)
  then show ?thesis using assms
    by (simp add: server_packets_to_reveal_def getBlocksToReveal_def packets_of_def ref_create_env_def ref_claim_env_def
      List.map_filter_simps) (simp add: example_env_def)
qed

lemma ref_reveals:
  assumes "app_packets tls_ref v (tn_transcript t) = [(a, Client, ok_request), (b, Server, ok_response)]"
  shows "addServerSideReveals ref_create_env oprf ref_claim_opts v params t = Inr (params,
    add_reveals (handshake_marks tls_ref v (enumerate 0 (tn_transcript t))) (add_reveals (all_server_marks (tn_transcript t)) t))"
proof -
  have env: "env_tls example_env = tls_ref" "ce_http ref_create_env = example_env" "ce_params ref_create_env p = plain_params" for p
    by (simp_all add: ref_create_env_def ref_claim_env_def example_env_def)
  have "[(Client, ok_request), (Server, ok_response)] = ok_receipt" by (simp add: ok_receipt_def)
  then show ?thesis
    using assms plain_receipt_accepted ref_response_all[OF assms]
    by (simp add: addServerSideReveals_def env Let_def packets_of_def List.map_filter_simps CURRENT_ATTESTOR_VERSION_def
      ATTESTOR_VERSION_2_0_1_def)
qed

text \<open>Without ZK reveals no proofs are made and nothing can fail.\<close>

lemma prepared_without_proofs:
  assumes "\<forall>x \<in> set (enumerate 0 tr). \<not> gets_proofs rm rs x"
  shows "\<exists>ms. preparePacketsForReveal L Z completion cs tr rm rs = Inr ms"
proof -
  have "\<exists>st'. foldR (prepare_packet L Z cs rm) st xs = Inr st' \<and> prep_generator st' = prep_generator st"
    if "\<forall>x \<in> set xs. \<not> gets_proofs rm rs x" "prep_reveals st = rs" for xs st
    using that
  proof (induction xs arbitrary: st)
    case (Cons x xs)
    obtain i s p where x: "x = (i, s, p)" by (cases x)
    have "\<exists>st1. prepare_packet L Z cs rm st x = Inr st1 \<and> prep_generator st1 = prep_generator st \<and> prep_reveals st1 = rs"
      using Cons.prems by (cases "pkt_type p")
        (auto simp: x prepare_packet_def gets_proofs_def reveal_at_def Let_def split: option.splits MessageRevealInfo.splits)
    then obtain st1 where st1: "prepare_packet L Z cs rm st x = Inr st1" "prep_generator st1 = prep_generator st" "prep_reveals st1 = rs"
      by blast
    show ?case using Cons.IH[of st1] Cons.prems(1) st1 by auto
  qed simp
  from this[OF assms, of "\<lparr>prep_transcript = [], prep_reveals = rs, prep_generator = \<lparr>packetsToProve = [], zkProofsToGen = 0\<rparr>,
      prep_callbacks = []\<rparr>"]
  show ?thesis by (auto simp: preparePacketsForReveal_def generateProofs_def)
qed

lemma complete_marks_no_proofs:
  assumes "\<forall>(i, r) \<in> set ms. r = CompleteReveal" and "refs_ok t" and "\<forall>i. reveal_of t i = None \<or> reveal_of t i = Some CompleteReveal"
  shows "\<not> gets_proofs (revealMap (add_reveals ms t)) (reveals (add_reveals ms t)) x"
proof -
  have "reveal_of (add_reveals ms t) i \<noteq> Some (ZkReveal red ts)" for i red ts
  proof (cases "map_of (rev ms) i")
    case None
    then show ?thesis using add_reveals_marks[OF assms(2), of ms i] assms(3) by (metis MessageRevealInfo.distinct(1) option.case(1) option.distinct(1) option.inject)
  next
    case (Some r)
    then have "(i, r) \<in> set ms" using map_of_SomeD[OF Some] by simp
    then have "r = CompleteReveal" using assms(1) by blast
    then show ?thesis using add_reveals_marks[OF assms(2), of ms i] Some by simp
  qed
  then show ?thesis by (auto simp: gets_proofs_def reveal_at_of)
qed

lemma ref_client_claim_made:
  assumes "app_packets tls_ref v (tn_transcript t) = [(a, Client, ok_request), (b, Server, ok_response)]"
    and "refs_ok t" and "\<forall>i. reveal_of t i = None \<or> reveal_of t i = Some CompleteReveal"
  shows "\<exists>req. makeClaimRequest ref_create_env oprf id ref_claim_opts ref_tunnel_request v cs params t = Inr req"
proof -
  let ?hs = "handshake_marks tls_ref v (enumerate 0 (tn_transcript t))" and ?sv = "all_server_marks (tn_transcript t)"
  let ?t = "add_reveals (?sv @ ?hs) t"
  have "\<forall>(i, r) \<in> set (?sv @ ?hs). r = CompleteReveal"
    by (auto simp: all_server_marks_def handshake_marks_iff)
  then obtain ms where ms: "preparePacketsForReveal (env_tls (ce_http ref_create_env)) (ce_zk ref_create_env Snarkjs) id cs
      (tn_transcript t) (revealMap ?t) (reveals ?t) = Inr ms"
    using prepared_without_proofs complete_marks_no_proofs[OF _ assms(2,3)] by blast
  have "sign_data (ce_eth ref_create_env) d (js ''k'') = Inr (signMessage (ce_eth ref_create_env) (js ''k'') d)" for d
    by (simp add: sign_data_def js_def)
  then show ?thesis using ms
    by (simp add: makeClaimRequest_def generateTranscript_def ref_reveals[OF assms(1)] add_reveals_append[symmetric] Let_def)
      (simp add: ref_claim_opts_def)
qed

text \<open>A session in which the \<open>Finished\<close> of the client and the hidden request are under one key.\<close>

definition ref_one_key :: "unit tls_tunnel" where
  "ref_one_key = \<lparr>tn_tls = (), tn_transcript = [(Client, ref_sent [7] ''HANDSHAKE'' [20, 22]),
     (Client, ref_sent [7] ''APPLICATION_DATA'' (ok_request @ [23])), (Server, ref_sent [9] ''APPLICATION_DATA'' (ok_response @ [23]))],
     revealMap = Map.empty, reveals = [], lastMsgRevealed = False\<rparr>"

lemma ref_sent_app: "isApplicationData tls_ref (ref_sent k ct d) (Some TLS1_3) \<longleftrightarrow> js ct = js ''APPLICATION_DATA''"
  by (simp add: isApplicationData_def ref_sent_def)

lemma ref_sent_fields: "pkt_type (ref_sent k ct d) = CiphertextPacket" "pkt_encKey (ref_sent k ct d) = k"
  "app_text (Some TLS1_3) (ref_sent k ct (d @ [c])) = d"
  using js_slice_drop_last[where 'a = byte and n = 1] by (simp_all add: ref_sent_def app_text_def)

lemma handshake_not_app: "js ''HANDSHAKE'' \<noteq> js ''APPLICATION_DATA''"
  by (simp add: js_def)

lemma ref_one_key_made:
  "\<exists>req. makeClaimRequest ref_create_env oprf id ref_claim_opts ref_tunnel_request (Some TLS1_3) cs params ref_one_key = Inr req"
proof (rule ref_client_claim_made)
  show "app_packets tls_ref (Some TLS1_3) (tn_transcript ref_one_key) = [(1, Client, ok_request), (2, Server, ok_response)]"
    by (simp add: app_packets_def ref_one_key_def ref_sent_app ref_sent_fields handshake_not_app numeral_2_eq_2)
qed (simp_all add: ref_one_key_def refs_ok_def reveal_of_def)

lemma ref_one_key_ok: "refs_ok ref_one_key"
  by (simp add: ref_one_key_def refs_ok_def)

theorem claim_request_signature_accepted_witness:
  "\<exists>req d sig. makeClaimRequest ref_create_env (\<lambda>_ _. Inl (PlainError [])) id ref_claim_opts ref_tunnel_request (Some TLS1_3) [] JNull
      ref_one_key = Inr req \<and> cq_data req = Some d \<and> cq_requestSignature req = Some sig
    \<and> verify_signature eth_ref (encode_ClaimTunnelRequest (ce_proto ref_create_env) (req\<lparr>cq_requestSignature := None\<rparr>)) sig (cd_owner d)
      = Inr True"
proof -
  obtain req where req: "makeClaimRequest ref_create_env (\<lambda>_ _. Inl (PlainError [])) id ref_claim_opts ref_tunnel_request (Some TLS1_3) []
      JNull ref_one_key = Inr req" using ref_one_key_made by blast
  have "eth_correct (ce_eth ref_create_env) (co_ownerPrivateKey ref_claim_opts)"
    using eth_ref_correct by (simp add: ref_create_env_def ref_claim_env_def ref_claim_opts_def)
  moreover have "ce_eth ref_create_env = eth_ref" by (simp add: ref_create_env_def ref_claim_env_def)
  ultimately show ?thesis using claim_request_signature_accepted[OF req] req by auto
qed

theorem early_record_exposes_hidden_ones_witness:
  "\<exists>req d z. makeClaimRequest ref_create_env (\<lambda>_ _. Inl (PlainError [])) id ref_claim_opts ref_tunnel_request (Some TLS1_3) [] JNull
      ref_one_key = Inr req \<and> tm_reveal (cq_transcript req ! 0) = Some \<lparr>directReveal = Some d, zkReveal = z\<rparr> \<and> md_key d = [7]"
proof -
  obtain req where req: "makeClaimRequest ref_create_env (\<lambda>_ _. Inl (PlainError [])) id ref_claim_opts ref_tunnel_request (Some TLS1_3) []
      JNull ref_one_key = Inr req" using ref_one_key_made by blast
  have "env_tls (ce_http ref_create_env) = tls_ref" by (simp add: ref_create_env_def ref_claim_env_def example_env_def)
  then show ?thesis
    using early_record_exposes_hidden_ones[OF req ref_one_key_ok, of 0 1] req
    by (simp add: ref_one_key_def ref_sent_fields ref_sent_app handshake_not_app)
qed

theorem keys_given_away_witness:
  "\<exists>req d z. makeClaimRequest ref_create_env (\<lambda>_ _. Inl (PlainError [])) id ref_claim_opts ref_tunnel_request (Some TLS1_3) [] JNull
      ref_one_key = Inr req \<and> tm_reveal (cq_transcript req ! 2) = Some \<lparr>directReveal = Some d, zkReveal = z\<rparr> \<and> md_key d = [9]"
proof -
  let ?tr = "tn_transcript ref_one_key"
  obtain req where req: "makeClaimRequest ref_create_env (\<lambda>_ _. Inl (PlainError [])) id ref_claim_opts ref_tunnel_request (Some TLS1_3) []
      JNull ref_one_key = Inr req" using ref_one_key_made by blast
  from req obtain params' t' ms sig where p: "addServerSideReveals ref_create_env (\<lambda>_ _. Inl (PlainError [])) ref_claim_opts (Some TLS1_3)
      JNull ref_one_key = Inr (params', t')"
    "preparePacketsForReveal (env_tls (ce_http ref_create_env)) (ce_zk ref_create_env (co_zkEngine ref_claim_opts)) id [] ?tr
      (revealMap t') (reveals t') = Inr ms"
    "req = (claim_request_of ref_create_env ref_claim_opts ref_tunnel_request ?tr params' ms)\<lparr>cq_requestSignature := Some sig\<rparr>"
    by (rule makeClaimRequest_parts)
  have app: "app_packets tls_ref (Some TLS1_3) ?tr = [(1, Client, ok_request), (2, Server, ok_response)]"
    by (simp add: app_packets_def ref_one_key_def ref_sent_app ref_sent_fields handshake_not_app numeral_2_eq_2)
  have sv: "all_server_marks ?tr = [(2, CompleteReveal)]"
    by (simp add: all_server_marks_def ref_one_key_def numeral_2_eq_2)
  have hs: "handshake_marks tls_ref (Some TLS1_3) (enumerate 0 ?tr) = [(0, CompleteReveal)]"
    by (simp add: ref_one_key_def ref_sent_app ref_sent_fields handshake_not_app)
  have t': "t' = add_reveals [(2, CompleteReveal), (0, CompleteReveal)] ref_one_key"
    using p(1) unfolding ref_reveals[OF app] sv hs add_reveals_append[symmetric] by simp
  have two: "reveal_of t' 2 = Some CompleteReveal"
    unfolding t' using add_reveals_marks[OF ref_one_key_ok] by simp
  have len: "length ?tr = 3" and ct: "pkt_type (snd (?tr ! 2)) = CiphertextPacket" and k: "pkt_encKey (snd (?tr ! 2)) = [9]"
    by (simp_all add: ref_one_key_def ref_sent_fields)
  have n: "length ms = 3" and m: "ms ! 2 = transcript_message (fst (?tr ! 2)) (snd (?tr ! 2)) (Some (direct_reveal (snd (?tr ! 2))))"
    using conjunct1[OF prepared_message[OF p(2)]] spec[OF conjunct2[OF prepared_message[OF p(2)]], of 2] two ct len
    by (auto simp: gets_key_def reveal_at_of split: prod.splits)
  have r: "tm_reveal (cq_transcript req ! 2) = Some (direct_reveal (snd (?tr ! 2)))"
    by (simp add: p(3) claim_request_of_def m transcript_message_def)
  then obtain d z where dz: "tm_reveal (cq_transcript req ! 2) = Some \<lparr>directReveal = Some d, zkReveal = z\<rparr>"
    by (simp add: direct_reveal_def)
  have "2 < length (cq_transcript req)" using n by (simp add: p(3) claim_request_of_def)
  then have "md_key d = [9]" using keys_given_away[OF req ref_one_key_ok _ dz] k by simp
  then show ?thesis using req dz by blast
qed

text \<open>A session whose request is one record, hidden in full.\<close>

definition ref_whole_client :: "nat tls_client" where
  "ref_whole_client = ref_tls_client\<lparr>
     tls_write := (\<lambda>n data. (n, [(Client, ref_sent (replicate n 0) ''APPLICATION_DATA'' (data @ [23]))], None))\<rparr>"

lemma ref_whole_client_spec: "tls_client_spec tls_ref (Some TLS1_3) (\<lambda>n. n) (\<lambda>n. replicate n 0) ref_whole_client"
  by (auto simp: tls_client_spec_def inj_def ref_whole_client_def ref_tls_client_def ref_sent_app ref_sent_fields handshake_not_app
    dest: arg_cong[of _ _ length])

definition ref_answer :: "CompleteTLSPacket Transcript" where
  "ref_answer = [(Server, ref_sent [9] ''APPLICATION_DATA'' (ok_response @ [23]))]"


end
