(* ===== verification/Store.thy ===== *)
theory Store
  imports Main "HOL-Library.AList"
begin

text \<open>
  Objects used as maps: the tunnels of a session, the pool of clients, the table of waiting requests.
  The locale states what their users rely on; an association list without duplicates implements it.
\<close>

locale keyed_store =
  fixes empty_store :: "'s"
    and get :: "'s \<Rightarrow> 'k \<Rightarrow> 'v option"
    and put :: "'k \<Rightarrow> 'v \<Rightarrow> 's \<Rightarrow> 's"
    and del :: "'k \<Rightarrow> 's \<Rightarrow> 's"
  assumes get_empty: "get empty_store = (\<lambda>_. None)"
    and get_put: "get (put k v s) = (get s)(k := Some v)"
    and get_del: "get (del k s) = (get s)(k := None)"
begin

lemmas store_laws = get_empty get_put get_del

text \<open>A property of all stored values is an invariant of the operations that store values with it.\<close>

lemma values_empty: "\<forall>k v. get empty_store k = Some v \<longrightarrow> P v"
  by (simp add: get_empty)

lemma values_put: "\<forall>k v. get s k = Some v \<longrightarrow> P v \<Longrightarrow> P v' \<Longrightarrow> \<forall>k v. get (put k' v' s) k = Some v \<longrightarrow> P v"
  by (simp add: get_put)

lemma values_del: "\<forall>k v. get s k = Some v \<longrightarrow> P v \<Longrightarrow> \<forall>k v. get (del k' s) k = Some v \<longrightarrow> P v"
  by (simp add: get_del)

lemma get_put_del: "get (del k (put k v s)) = get (del k s)"
  by (simp add: get_put get_del)

lemma last_put_wins: "get (put k v (put k w s)) = get (put k v s)"
  by (simp add: get_put)

end

interpretation alist: keyed_store "[]" map_of AList.update AList.delete
  by unfold_locales (simp_all add: update_conv' delete_conv' fun_eq_iff)

end
