(* ===== verification/Message_Handler.thy ===== *)
theory Message_Handler
  imports Messages
begin

text \<open>
  RPC messages and their dispatch: \<open>src/client/utils/message-handler.ts\<close>, with \<open>getRpcRequest\<close>,
  \<open>packRpcMessages\<close> and \<open>extractArrayBufferFromWsData\<close> of \<open>src/utils/generics.ts\<close>. Client and server
  run the same handler; what differs is who listens to the events it dispatches.

  A decoded message is its number and the list of its members that are set, in the order of the
  object; \<open>handleMessage\<close> looks members up by name, as the source does.
\<close>

datatype rpc_value =
    VInitRequest InitRequest
  | VInitResponse bytes
  | VError ErrorData
  | VCreateTunnel CreateTunnelRequest
  | VDisconnectTunnel int
  | VTunnelMessage int bytes
  | VTunnelDisconnect int "ErrorData option"
  | VClaimTunnel ClaimTunnelRequest
  | VClaimTunnelResponse ClaimTunnelResponse
  | VToprf bytes ZKProofEngine
  | VToprfResponse TOPRFResponse
  | VClaimOnChain RequestClaimOnAvsRequest
  | VClaimOnChainResponse RequestClaimOnAvsResponse
  | VCompleteOnChain CompleteClaimOnAvsRequest
  | VCompleteOnChainResponse CompleteClaimOnAvsResponse
  | VMechainTask int
  | VMechainTaskResponse CreateTaskOnMechainResponse
  | VEmpty

record RPCMessage =
  rpc_id :: int
  rpc_members :: "(jsstring \<times> rpc_value) list"

definition member_of :: "RPCMessage \<Rightarrow> jsstring \<Rightarrow> rpc_value option" where
  "member_of m k = map_of (rpc_members m) k"

text \<open>The type ''error'' stands for a \<open>requestError\<close>.\<close>

fun first_rpc_key :: "(jsstring \<times> rpc_value) list \<Rightarrow> (jsstring \<times> rpc_direction) option" where
  "first_rpc_key [] = None"
| "first_rpc_key ((k, v) # ms) =
     (case getRpcTypeFromKey k of None \<Rightarrow> first_rpc_key ms | Some t \<Rightarrow> Some t)"

definition getRpcRequest :: "RPCMessage \<Rightarrow> (jsstring \<times> rpc_direction) option" where
  "getRpcRequest msg =
     (if member_of msg (js ''requestError'') \<noteq> None then Some (js ''error'', RpcResponse)
      else first_rpc_key (rpc_members msg))"

definition packRpcMessages :: "int list \<Rightarrow> (int option \<times> (jsstring \<times> rpc_value) list) list \<Rightarrow> RPCMessage list" where
  "packRpcMessages fresh msgs =
     map2 (\<lambda>newId (i, ms). \<lparr>rpc_id = (case i of None \<Rightarrow> newId | Some i' \<Rightarrow> if i' = 0 then newId else i'), rpc_members = ms\<rparr>)
       fresh msgs"

subsection \<open>Data of a websocket message\<close>

datatype ws_data = WsArrayBuffer bytes | WsBuffer bytes | WsString jsstring | WsBlob bytes | WsOther

definition extractArrayBufferFromWsData :: "tls_pkg \<Rightarrow> ws_data \<Rightarrow> js_error + bytes" where
  "extractArrayBufferFromWsData L d =
     (case d of
        WsArrayBuffer b \<Rightarrow> Inr b
      | WsBuffer b \<Rightarrow> Inr b
      | WsString s \<Rightarrow> Inr (strToUint8Array L s)
      | WsBlob b \<Rightarrow> Inr b
      | WsOther \<Rightarrow> Inl (PlainError ''unsupported data''))"

subsection \<open>Dispatch\<close>

datatype rpc_event =
    ConnectionTerminated attestor_error
  | RpcResponseEvent int "attestor_error + jsstring \<times> rpc_value option"
  | RpcRequestEvent int jsstring "rpc_value option"
  | TunnelMessageEvent int bytes
  | TunnelDisconnectEvent int "ErrorData option"

text \<open>What a message leads to: an event for the listeners, the refusal sent back, or a logged warning.\<close>

datatype handled = Dispatch rpc_event | Refuse int | Unhandled

definition error_of :: "rpc_value option \<Rightarrow> ErrorData option" where
  "error_of v = (case v of Some (VError d) \<Rightarrow> Some d | _ \<Rightarrow> None)"

definition handleMessage :: "json_lib \<Rightarrow> bool \<Rightarrow> RPCMessage \<Rightarrow> js_error + handled" where
  "handleMessage J isInitialised msg =
     (case member_of msg (js ''connectionTerminationAlert'') of
        Some v \<Rightarrow> bindR (fromProto J (error_of (Some v))) (\<lambda>err. Inr (Dispatch (ConnectionTerminated err)))
      | None \<Rightarrow>
          (case getRpcRequest msg of
             Some (type, RpcResponse) \<Rightarrow>
               if type = js ''error'' then
                 bindR (fromProto J (error_of (member_of msg (js ''requestError''))))
                   (\<lambda>err. Inr (Dispatch (RpcResponseEvent (rpc_id msg) (Inl err))))
               else Inr (Dispatch (RpcResponseEvent (rpc_id msg) (Inr (type, member_of msg (getRpcResponseType type)))))
           | Some (type, RpcRequest) \<Rightarrow>
               if \<not> isInitialised \<and> type \<noteq> js ''init'' then Inr (Refuse (rpc_id msg))
               else Inr (Dispatch (RpcRequestEvent (rpc_id msg) type (member_of msg (getRpcRequestType type))))
           | None \<Rightarrow>
               (case member_of msg (js ''tunnelMessage'') of
                  Some (VTunnelMessage t m) \<Rightarrow> Inr (Dispatch (TunnelMessageEvent t m))
                | _ \<Rightarrow>
                    (case member_of msg (js ''tunnelDisconnectEvent'') of
                       Some (VTunnelDisconnect t e) \<Rightarrow> Inr (Dispatch (TunnelDisconnectEvent t e))
                     | _ \<Rightarrow> Inr Unhandled))))"

definition refusal :: "json_lib \<Rightarrow> int \<Rightarrow> RPCMessage" where
  "refusal J i = \<lparr>rpc_id = i, rpc_members =
     [(js ''requestError'', VError (toProto J (badRequest ''Initialise connection first'' None)))]\<rparr>"

subsection \<open>Properties\<close>

lemma key_ends:
  "last (getRpcRequestType t) = 116" "last (butlast (getRpcRequestType t)) = 115" "last (getRpcResponseType t) = 101"
  by (simp_all add: getRpcRequestType_def getRpcResponseType_def js_def butlast_append)

lemma rpc_key_neq [simp]:
  "getRpcRequestType t \<noteq> js ''requestError''" "js ''requestError'' \<noteq> getRpcRequestType t"
  "getRpcRequestType t \<noteq> js ''connectionTerminationAlert''" "js ''connectionTerminationAlert'' \<noteq> getRpcRequestType t"
  "getRpcResponseType t \<noteq> js ''requestError''" "js ''requestError'' \<noteq> getRpcResponseType t"
  "getRpcResponseType t \<noteq> js ''connectionTerminationAlert''" "js ''connectionTerminationAlert'' \<noteq> getRpcResponseType t"
proof -
  have e: "last (js ''requestError'') = 114" "last (js ''connectionTerminationAlert'') = 116"
    "last (butlast (js ''connectionTerminationAlert'')) = 114"
    by (simp_all add: js_def)
  show "getRpcRequestType t \<noteq> js ''requestError''" using key_ends(1)[of t] e(1) by auto
  then show "js ''requestError'' \<noteq> getRpcRequestType t" by (rule not_sym)
  show "getRpcRequestType t \<noteq> js ''connectionTerminationAlert''" using key_ends(2)[of t] e(3) by auto
  then show "js ''connectionTerminationAlert'' \<noteq> getRpcRequestType t" by (rule not_sym)
  show "getRpcResponseType t \<noteq> js ''requestError''" using key_ends(3)[of t] e(1) by auto
  then show "js ''requestError'' \<noteq> getRpcResponseType t" by (rule not_sym)
  show "getRpcResponseType t \<noteq> js ''connectionTerminationAlert''" using key_ends(3)[of t] e(2) by auto
  then show "js ''connectionTerminationAlert'' \<noteq> getRpcResponseType t" by (rule not_sym)
qed

lemma request_dispatched:
  "handleMessage J b \<lparr>rpc_id = i, rpc_members = [(getRpcRequestType t, v)]\<rparr> =
     (if b \<or> t = js ''init'' then Inr (Dispatch (RpcRequestEvent i t (Some v))) else Inr (Refuse i))"
  by (simp add: handleMessage_def getRpcRequest_def member_of_def getRpcTypeFromKey_request)

lemma response_dispatched:
  "t \<noteq> js ''error'' \<Longrightarrow> handleMessage J b \<lparr>rpc_id = i, rpc_members = [(getRpcResponseType t, v)]\<rparr> =
     Inr (Dispatch (RpcResponseEvent i (Inr (t, Some v))))"
  by (simp add: handleMessage_def getRpcRequest_def member_of_def getRpcTypeFromKey_response)

lemma request_error_dispatched:
  "handleMessage J b \<lparr>rpc_id = i, rpc_members = [(js ''requestError'', VError d)]\<rparr> =
     bindR (fromProto J (Some d)) (\<lambda>err. Inr (Dispatch (RpcResponseEvent i (Inl err))))"
proof -
  have "js ''connectionTerminationAlert'' \<noteq> js ''requestError''" by (simp add: js_def)
  then show ?thesis by (simp add: handleMessage_def getRpcRequest_def member_of_def error_of_def)
qed

text \<open>What a party packs as a request of some type reaches the other party's listeners as a request of
  that type with the same number and data once the connection is initialised, and is refused with a
  reply to its number before, unless it is the initialisation; a response arrives as a response.\<close>

theorem rpc_message_roundtrip:
  "handleMessage J b \<lparr>rpc_id = i, rpc_members = [(getRpcRequestType t, v)]\<rparr> =
     (if b \<or> t = js ''init'' then Inr (Dispatch (RpcRequestEvent i t (Some v))) else Inr (Refuse i))
   \<and> (t = js ''error'' \<or>
      handleMessage J b \<lparr>rpc_id = i, rpc_members = [(getRpcResponseType t, v)]\<rparr> =
        Inr (Dispatch (RpcResponseEvent i (Inr (t, Some v)))))"
  by (cases "t = js ''error''") (simp_all add: request_dispatched response_dispatched)

lemma refusal_is_error:
  "handleMessage J b (refusal J i) = Inr (Dispatch (RpcResponseEvent i (Inl (badRequest ''Initialise connection first'' None))))"
  by (simp add: refusal_def request_error_dispatched fromProto_def toProto_def badRequest_def AttestorError_def ErrorCode_name_def)

lemma only_init_before_initialised:
  "handleMessage J False msg = Inr (Dispatch (RpcRequestEvent i t v)) \<Longrightarrow> t = js ''init''"
  by (auto simp: handleMessage_def bindR_Inr_iff split: option.splits prod.splits rpc_direction.splits rpc_value.splits if_splits)

text \<open>Before initialisation nothing but the initialisation request reaches the request listeners: for every
  message, whatever its members.\<close>

theorem uninitialised_only_init:
  "{t. \<exists>i v. handleMessage J False msg = Inr (Dispatch (RpcRequestEvent i t v))} \<subseteq> {js ''init''}"
  using only_init_before_initialised by blast

end
