(* ===== verification/Tcp_Tunnel.thy ===== *)
theory Tcp_Tunnel
  imports Claim_Request
begin

text \<open>
  The attestor's TCP tunnel (\<open>src/server/tunnels/make-tcp-tunnel.ts\<close>) and the country codes of
  \<open>src/server/utils/iso.ts\<close>.

  The tunnel is a state machine: \<open>on_data\<close>, \<open>on_error\<close> and \<open>on_close\<close> are the socket's callbacks,
  \<open>tunnel_write\<close> and \<open>tunnel_close\<close> the methods; each returns the calls it makes as a list of
  effects. Connecting is a function of what the operating system, the resolver and the proxy answer.
\<close>

subsection \<open>Country codes\<close>

definition countries :: "jsstring list" where
  "countries = map js [
     ''AF'', ''AX'', ''AL'', ''DZ'', ''AS'', ''AD'', ''AO'', ''AI'', ''AQ'', ''AG'', ''AR'', ''AM'', ''AW'', ''AU'', ''AT'', ''AZ'',
     ''BS'', ''BH'', ''BD'', ''BB'', ''BY'', ''BE'', ''BZ'', ''BJ'', ''BM'', ''BT'', ''BO'', ''BQ'', ''BA'', ''BW'', ''BV'', ''BR'',
     ''IO'', ''BN'', ''BG'', ''BF'', ''BI'', ''KH'', ''CM'', ''CA'', ''CV'', ''KY'', ''CF'', ''TD'', ''CL'', ''CN'', ''CX'', ''CC'',
     ''CO'', ''KM'', ''CG'', ''CD'', ''CK'', ''CR'', ''CI'', ''HR'', ''CU'', ''CW'', ''CY'', ''CZ'', ''DK'', ''DJ'', ''DM'', ''DO'',
     ''EC'', ''EG'', ''SV'', ''GQ'', ''ER'', ''EE'', ''ET'', ''FK'', ''FO'', ''FJ'', ''FI'', ''FR'', ''GF'', ''PF'', ''TF'', ''GA'',
     ''GM'', ''GE'', ''DE'', ''GH'', ''GI'', ''GR'', ''GL'', ''GD'', ''GP'', ''GU'', ''GT'', ''GG'', ''GN'', ''GW'', ''GY'', ''HT'',
     ''HM'', ''VA'', ''HN'', ''HK'', ''HU'', ''IS'', ''IN'', ''ID'', ''IR'', ''IQ'', ''IE'', ''IM'', ''IL'', ''IT'', ''JM'', ''JP'',
     ''JE'', ''JO'', ''KZ'', ''KE'', ''KI'', ''XK'', ''KP'', ''KR'', ''KW'', ''KG'', ''LA'', ''LV'', ''LB'', ''LS'', ''LR'', ''LY'',
     ''LI'', ''LT'', ''LU'', ''MO'', ''MK'', ''MG'', ''MW'', ''MY'', ''MV'', ''ML'', ''MT'', ''MH'', ''MQ'', ''MR'', ''MU'', ''YT'',
     ''MX'', ''FM'', ''MD'', ''MC'', ''MN'', ''ME'', ''MS'', ''MA'', ''MZ'', ''MM'', ''NA'', ''NR'', ''NP'', ''NL'', ''AN'', ''NC'',
     ''NZ'', ''NI'', ''NE'', ''NG'', ''NU'', ''NF'', ''MP'', ''NO'', ''OM'', ''PK'', ''PW'', ''PS'', ''PA'', ''PG'', ''PY'', ''PE'',
     ''PH'', ''PN'', ''PL'', ''PT'', ''PR'', ''QA'', ''RE'', ''RO'', ''RU'', ''RW'', ''BL'', ''SH'', ''KN'', ''LC'', ''MF'', ''PM'',
     ''VC'', ''WS'', ''SM'', ''ST'', ''SA'', ''SN'', ''RS'', ''SC'', ''SL'', ''SG'', ''SX'', ''SK'', ''SI'', ''SB'', ''SO'', ''ZA'',
     ''GS'', ''SS'', ''ES'', ''LK'', ''SD'', ''SR'', ''SJ'', ''SZ'', ''SE'', ''CH'', ''SY'', ''TW'', ''TJ'', ''TZ'', ''TH'', ''TL'',
     ''TG'', ''TK'', ''TO'', ''TT'', ''TN'', ''TR'', ''TM'', ''TC'', ''TV'', ''UG'', ''UA'', ''AE'', ''GB'', ''US'', ''UM'', ''UY'',
     ''UZ'', ''VU'', ''VE'', ''VN'', ''VG'', ''VI'', ''WF'', ''EH'', ''YE'', ''ZM'', ''ZW'']"

definition upper_char :: "16 word \<Rightarrow> 16 word" where
  "upper_char c = (if 97 \<le> c \<and> c \<le> 122 then c - 32 else c)"

definition js_toUpperCase :: "jsstring \<Rightarrow> jsstring" where
  "js_toUpperCase s = map upper_char s"

definition isValidCountryCode :: "jsstring \<Rightarrow> bool" where
  "isValidCountryCode countryCode \<longleftrightarrow> js_toUpperCase countryCode \<in> set countries"

subsection \<open>Connecting\<close>

record tunnel_opts =
  to_host :: jsstring
  to_port :: int
  to_geoLocation :: jsstring

datatype connection = Direct jsstring int | Proxied jsstring jsstring int

text \<open>
  \<open>net_resolve\<close> is the resolver, \<open>net_proxy\<close> the answer (status code and text) of the HTTPS proxy at a URL
  to CONNECT, or the error of reaching it.
\<close>

record net_env =
  net_resolve :: "jsstring \<Rightarrow> js_error + jsstring list"
  net_proxy :: "jsstring \<Rightarrow> jsstring \<Rightarrow> int \<Rightarrow> js_error + int \<times> jsstring"
  HTTPS_PROXY_URL :: jsstring

definition resolveHostnames :: "net_env \<Rightarrow> jsstring \<Rightarrow> js_error + jsstring list" where
  "resolveHostnames N host =
     (case net_resolve N host of Inl e \<Rightarrow> Inl (PlainError ''Could not resolve hostname'') | Inr as \<Rightarrow> Inr as)"

text \<open>\<open>replace\<close> with a string pattern replaces its first occurrence.\<close>

definition js_replace :: "jsstring \<Rightarrow> jsstring \<Rightarrow> jsstring \<Rightarrow> jsstring" where
  "js_replace s p v =
     (case find_suffix (is_prefix p) s of
        None \<Rightarrow> s
      | Some i \<Rightarrow> take i s @ v @ drop (i + length p) s)"

definition open_socket :: "net_env \<Rightarrow> jsstring \<Rightarrow> int \<Rightarrow> jsstring \<Rightarrow> js_error + connection" where
  "open_socket N host port geoLocation0 =
     (let geoLocation = (if geoLocation0 \<noteq> [] \<and> HTTPS_PROXY_URL N = [] then [] else geoLocation0) in
      if geoLocation = [] then Inr (Direct host port)
      else if \<not> isValidCountryCode geoLocation
      then Inl (AttestorErr (badRequest ''Geolocation is invalid. Must be 2 letter ISO country code''
             (Some (JObj [(js ''geoLocation'', JStr geoLocation)]))))
      else
        (let agentUrl = js_replace (HTTPS_PROXY_URL N) (js ''{{geoLocation}}'') (js_toLowerCase geoLocation)
         in bindR (net_proxy N agentUrl host port) (\<lambda>(statusCode, statusText).
              if statusCode \<noteq> 200
              then Inl (AttestorErr (AttestorError ERROR_PROXY_ERROR ''Proxy via geo location failed''
                     (Some (JObj [(js ''code'', JNum statusCode), (js ''message'', JStr statusText)]))))
              else Inr (Proxied agentUrl host port))))"

definition refused_by_proxy :: "js_error \<Rightarrow> bool" where
  "refused_by_proxy err =
     (case err of
        AttestorErr e \<Rightarrow> (case ae_data e of None \<Rightarrow> False | Some d \<Rightarrow> json_member d (js ''code'') = Some (JNum 403))
      | _ \<Rightarrow> False)"

fun first_open :: "net_env \<Rightarrow> jsstring list \<Rightarrow> int \<Rightarrow> jsstring \<Rightarrow> js_error \<Rightarrow> js_error + connection" where
  "first_open N [] port geo err = Inl err"
| "first_open N (addr # addrs) port geo err =
     (case open_socket N addr port geo of
        Inl _ \<Rightarrow> first_open N addrs port geo err
      | Inr c \<Rightarrow> Inr c)"

definition getSocket :: "net_env \<Rightarrow> tunnel_opts \<Rightarrow> js_error + connection" where
  "getSocket N opts =
     (case open_socket N (to_host opts) (to_port opts) (to_geoLocation opts) of
        Inr c \<Rightarrow> Inr c
      | Inl err \<Rightarrow>
          if \<not> refused_by_proxy err then Inl err
          else bindR (resolveHostnames N (to_host opts)) (\<lambda>addrs.
                 first_open N addrs (to_port opts) (to_geoLocation opts) err))"

text \<open>
  \<open>connectTcp\<close>: the promise settles with the first of the socket's events; the timer counts as one.
\<close>

datatype connect_event = Connected | SocketError js_error | SocketEnd | ConnectTimeout

definition connectTcp :: "net_env \<Rightarrow> tunnel_opts \<Rightarrow> connect_event \<Rightarrow> js_error + connection" where
  "connectTcp N opts first_event =
     (if first_event = ConnectTimeout then Inl (throwAttestor ERROR_NETWORK_ERROR ''Server connection timed out'')
      else
        bindR (getSocket N opts) (\<lambda>socket.
          case first_event of
            Connected \<Rightarrow> Inr socket
          | SocketError e \<Rightarrow> Inl e
          | _ \<Rightarrow> Inl (throwAttestor ERROR_NETWORK_ERROR ''connection closed'')))"

subsection \<open>The tunnel\<close>

datatype tunnel_effect =
    OnMessage bytes
  | OnClose "js_error option"
  | SocketWrite bytes
  | SocketDestroy "js_error option"

record tcp_tunnel =
  createRequest_opts :: tunnel_opts
  tt_transcript :: "bytes Transcript"
  tt_closed :: bool
  onClose_set :: bool

definition makeTcpTunnel :: "net_env \<Rightarrow> tunnel_opts \<Rightarrow> connect_event \<Rightarrow> js_error + tcp_tunnel" where
  "makeTcpTunnel N opts first_event =
     bindR (connectTcp N opts first_event) (\<lambda>_.
       Inr \<lparr>createRequest_opts = opts, tt_transcript = [], tt_closed = False, onClose_set = True\<rparr>)"

definition on_data :: "bytes \<Rightarrow> tcp_tunnel \<Rightarrow> tcp_tunnel \<times> tunnel_effect list" where
  "on_data m t =
     (if tt_closed t then (t, [])
      else (t\<lparr>tt_transcript := tt_transcript t @ [(Server, m)]\<rparr>, [OnMessage m]))"

definition onSocketClose :: "js_error option \<Rightarrow> tcp_tunnel \<Rightarrow> tcp_tunnel \<times> tunnel_effect list" where
  "onSocketClose err t =
     (if tt_closed t then (t, [])
      else (t\<lparr>tt_closed := True, onClose_set := False\<rparr>, if onClose_set t then [OnClose err] else []))"

definition tunnel_write :: "bytes \<Rightarrow> tcp_tunnel \<Rightarrow> tcp_tunnel \<times> tunnel_effect list" where
  "tunnel_write data t = (t\<lparr>tt_transcript := tt_transcript t @ [(Client, data)]\<rparr>, [SocketWrite data])"

definition tunnel_close :: "js_error option \<Rightarrow> tcp_tunnel \<Rightarrow> tcp_tunnel \<times> tunnel_effect list" where
  "tunnel_close err t = (if tt_closed t then (t, []) else (t, [SocketDestroy err]))"

datatype tunnel_event =
    Data bytes
  | Failed js_error
  | Closed
  | Write bytes
  | CloseCall "js_error option"

fun tunnel_step :: "tunnel_event \<Rightarrow> tcp_tunnel \<Rightarrow> tcp_tunnel \<times> tunnel_effect list" where
  "tunnel_step (Data m) t = on_data m t"
| "tunnel_step (Failed e) t = onSocketClose (Some e) t"
| "tunnel_step Closed t = onSocketClose None t"
| "tunnel_step (Write d) t = tunnel_write d t"
| "tunnel_step (CloseCall e) t = tunnel_close e t"

text \<open>The runs of a tunnel, with everything it has done.\<close>

inductive tunnel_run :: "tcp_tunnel \<Rightarrow> tcp_tunnel \<Rightarrow> tunnel_effect list \<Rightarrow> bool" for t0 where
  start: "tunnel_run t0 t0 []"
| step: "tunnel_run t0 t es \<Longrightarrow> tunnel_step ev t = (t', es') \<Longrightarrow> tunnel_run t0 t' (es @ es')"

definition messages_of :: "tunnel_effect list \<Rightarrow> bytes Transcript" where
  "messages_of es = List.map_filter
     (\<lambda>e. case e of OnMessage m \<Rightarrow> Some (Server, m) | SocketWrite d \<Rightarrow> Some (Client, d) | _ \<Rightarrow> None) es"

definition closings :: "tunnel_effect list \<Rightarrow> js_error option list" where
  "closings es = List.map_filter (\<lambda>e. case e of OnClose err \<Rightarrow> Some err | _ \<Rightarrow> None) es"

lemma effect_filters [simp]:
  "messages_of [] = []" "closings [] = []"
  "messages_of (es @ fs) = messages_of es @ messages_of fs" "closings (es @ fs) = closings es @ closings fs"
  by (simp_all add: messages_of_def closings_def List.map_filter_def)

lemma effect_single [simp]:
  "messages_of [OnMessage m] = [(Server, m)]" "messages_of [SocketWrite d] = [(Client, d)]"
  "messages_of [OnClose e] = []" "messages_of [SocketDestroy e] = []"
  "closings [OnMessage m] = []" "closings [SocketWrite d] = []" "closings [OnClose e] = [e]" "closings [SocketDestroy e] = []"
  by (simp_all add: messages_of_def closings_def List.map_filter_simps)

lemmas tunnel_step_defs = on_data_def onSocketClose_def tunnel_write_def tunnel_close_def

inductive_cases tunnel_runE: "tunnel_run t0 t es"

definition tunnel_inv :: "tunnel_opts \<Rightarrow> tcp_tunnel \<Rightarrow> tunnel_effect list \<Rightarrow> bool" where
  "tunnel_inv opts t es \<longleftrightarrow>
     tt_transcript t = messages_of es \<and> createRequest_opts t = opts \<and> onClose_set t = (\<not> tt_closed t)
     \<and> length (closings es) = (if tt_closed t then 1 else 0)"

lemma tunnel_inv_step: "tunnel_inv opts t es \<Longrightarrow> tunnel_step ev t = (t', es') \<Longrightarrow> tunnel_inv opts t' (es @ es')"
  by (cases ev) (auto simp: tunnel_inv_def tunnel_step_defs split: if_splits)

lemma tunnel_run_inv: "tunnel_run t0 t es \<Longrightarrow> tunnel_inv opts t0 [] \<Longrightarrow> tunnel_inv opts t es"
  by (induction rule: tunnel_run.induct) (auto intro: tunnel_inv_step)

lemma made_tunnel_inv: "makeTcpTunnel N opts e = Inr t \<Longrightarrow> tunnel_inv opts t []"
  by (auto simp: makeTcpTunnel_def bindR_Inr_iff tunnel_inv_def)

text \<open>C22: Invariant of a tunnel in every state it can reach: its transcript is exactly what it passed on, the
  messages handed to \<open>onMessage\<close> and the data written to the socket, in that order; its request is the
  one it was made for; \<open>onClose\<close> has been called once if the tunnel is closed and not at all otherwise.\<close>

theorem tunnel_transcript_invariant:
  assumes "makeTcpTunnel N opts e = Inr t0" and "tunnel_run t0 t es"
  shows "tt_transcript t = messages_of es \<and> createRequest_opts t = opts
    \<and> length (closings es) = (if tt_closed t then 1 else 0)"
  using tunnel_run_inv[OF assms(2) made_tunnel_inv[OF assms(1)]] by (simp add: tunnel_inv_def)

definition ref_net :: net_env where
  "ref_net = \<lparr>net_resolve = (\<lambda>_. Inr [js ''1.2.3.4'']),
     net_proxy = (\<lambda>u h p. Inr (if h = js ''h'' then 403 else 200, [])), HTTPS_PROXY_URL = js ''http://{{geoLocation}}.p''\<rparr>"

definition ref_opts :: tunnel_opts where
  "ref_opts = \<lparr>to_host = js ''h'', to_port = 443, to_geoLocation = []\<rparr>"

lemma ref_tunnel:
  "makeTcpTunnel ref_net ref_opts Connected =
     Inr \<lparr>createRequest_opts = ref_opts, tt_transcript = [], tt_closed = False, onClose_set = True\<rparr>"
  by (simp add: makeTcpTunnel_def connectTcp_def getSocket_def open_socket_def ref_opts_def)

theorem tunnel_transcript_invariant_witness:
  "\<exists>t es. tunnel_run \<lparr>createRequest_opts = ref_opts, tt_transcript = [], tt_closed = False, onClose_set = True\<rparr> t es
     \<and> tt_transcript t = [(Client, [1]), (Server, [2])] \<and> messages_of es = [(Client, [1]), (Server, [2])]
     \<and> length (closings es) = 1"
proof -
  let ?start = "\<lparr>createRequest_opts = ref_opts, tt_transcript = [], tt_closed = False, onClose_set = True\<rparr>"
  have 1: "tunnel_run ?start (?start\<lparr>tt_transcript := [(Client, [1])]\<rparr>) ([] @ [SocketWrite [1]])"
    by (rule tunnel_run.step[OF tunnel_run.start, where ev = "Write [1]"]) (simp add: tunnel_step_defs)
  have 2: "tunnel_run ?start (?start\<lparr>tt_transcript := [(Client, [1]), (Server, [2])]\<rparr>) (([] @ [SocketWrite [1]]) @ [OnMessage [2]])"
    by (rule tunnel_run.step[OF 1, where ev = "Data [2]"]) (simp add: tunnel_step_defs)
  let ?t = "?start\<lparr>tt_transcript := [(Client, [1]), (Server, [2])], tt_closed := True, onClose_set := False\<rparr>"
  have 3: "tunnel_run ?start ?t ((([] @ [SocketWrite [1]]) @ [OnMessage [2]]) @ [OnClose None])"
    by (rule tunnel_run.step[OF 2, where ev = Closed]) (simp add: tunnel_step_defs)
  have 4: "tunnel_run ?start ?t (((([] @ [SocketWrite [1]]) @ [OnMessage [2]]) @ [OnClose None]) @ [])"
    by (rule tunnel_run.step[OF 3, where ev = "Data [9]"]) (simp add: tunnel_step_defs)
  show ?thesis using tunnel_transcript_invariant[OF ref_tunnel 4] 4
    by (intro exI[of _ ?t] exI[of _ "((([] @ [SocketWrite [1]]) @ [OnMessage [2]]) @ [OnClose None]) @ []"]) simp
qed

text \<open>A write to a tunnel that has closed is entered in the transcript as sent by the client, although
  the socket is gone.\<close>

theorem write_after_close_recorded:
  assumes "tt_closed t"
  shows "tt_transcript (fst (tunnel_step (Write d) t)) = tt_transcript t @ [(Client, d)]
    \<and> fst (tunnel_step (Data d) t) = t \<and> snd (tunnel_step (CloseCall e) t) = []"
  using assms by (simp add: tunnel_step_defs)

theorem write_after_close_recorded_witness:
  "tt_transcript (fst (tunnel_step (Write [7])
     \<lparr>createRequest_opts = ref_opts, tt_transcript = [(Server, [1])], tt_closed = True, onClose_set = False\<rparr>))
   = [(Server, [1]), (Client, [7])]"
  using write_after_close_recorded[of "\<lparr>createRequest_opts = ref_opts, tt_transcript = [(Server, [1])], tt_closed = True,
    onClose_set = False\<rparr>" "[7]"] by simp

lemma open_socket_geo:
  "open_socket N host port geo = Inr c \<Longrightarrow> geo \<noteq> [] \<Longrightarrow> HTTPS_PROXY_URL N \<noteq> [] \<Longrightarrow>
     isValidCountryCode geo
     \<and> c = Proxied (js_replace (HTTPS_PROXY_URL N) (js ''{{geoLocation}}'') (js_toLowerCase geo)) host port"
  by (auto simp: open_socket_def Let_def bindR_Inr_iff split: if_splits)

lemma first_open_geo:
  "first_open N addrs port geo err = Inr c \<Longrightarrow> \<exists>a \<in> set addrs. open_socket N a port geo = Inr c"
  by (induction addrs) (auto split: sum.splits)

text \<open>A tunnel asked for a country is connected through the proxy of that country, to the host or, when the
  proxy refuses the host, to an address it resolves to; it never falls back to a direct connection when a
  proxy is configured, and the country is a known code.\<close>

theorem geo_location_honoured:
  assumes "getSocket N opts = Inr c" and "to_geoLocation opts \<noteq> []" and "HTTPS_PROXY_URL N \<noteq> []"
  shows "isValidCountryCode (to_geoLocation opts)
    \<and> (\<exists>h. c = Proxied (js_replace (HTTPS_PROXY_URL N) (js ''{{geoLocation}}'') (js_toLowerCase (to_geoLocation opts))) h (to_port opts)
         \<and> (h = to_host opts \<or> (\<exists>as. net_resolve N (to_host opts) = Inr as \<and> h \<in> set as)))"
proof (cases "open_socket N (to_host opts) (to_port opts) (to_geoLocation opts)")
  case (Inr c')
  then have "c' = c" using assms(1) by (simp add: getSocket_def)
  then show ?thesis using open_socket_geo[OF Inr assms(2,3)] by blast
next
  case (Inl err)
  then obtain as a where "net_resolve N (to_host opts) = Inr as" "a \<in> set as"
    "open_socket N a (to_port opts) (to_geoLocation opts) = Inr c"
    using assms(1) by (auto simp: getSocket_def resolveHostnames_def bindR_Inr_iff dest!: first_open_geo split: if_splits sum.splits)
  then show ?thesis using open_socket_geo assms(2,3) by blast
qed

theorem geo_location_honoured_witness:
  "getSocket ref_net (ref_opts\<lparr>to_geoLocation := js ''US''\<rparr>) = Inr (Proxied (js ''http://us.p'') (js ''1.2.3.4'') 443)
   \<and> isValidCountryCode (js ''US'')"
proof -
  have us: "js ''US'' \<in> set countries" by (simp add: countries_def)
  have v: "isValidCountryCode (js ''US'')" using us by (simp add: isValidCountryCode_def js_toUpperCase_def upper_char_def js_def)
  have "js_replace (js ''http://{{geoLocation}}.p'') (js ''{{geoLocation}}'') (js_toLowerCase (js ''US'')) = js ''http://us.p''"
    by (simp add: js_replace_def is_prefix_def js_def js_toLowerCase_def lower_char_def)
  then have run: "getSocket ref_net (ref_opts\<lparr>to_geoLocation := js ''US''\<rparr>) = Inr (Proxied (js ''http://us.p'') (js ''1.2.3.4'') 443)"
    using v unfolding js_def
    by (simp add: getSocket_def open_socket_def ref_net_def ref_opts_def refused_by_proxy_def json_member_def
      resolveHostnames_def js_def)
  show ?thesis using geo_location_honoured[OF run] run by (simp add: ref_net_def js_def)
qed

end
