(* ===== verification/Session.thy ===== *)
theory Session
  imports Store Message_Handler Tcp_Tunnel
begin

text \<open>
  A session of the attestor server: \<open>src/server/socket.ts\<close> with the handlers of
  \<open>src/server/handlers/\<close>. The state of a session is its tunnels, its metadata and whether it is
  initialised, whether the socket is open, and the \<open>createTunnel\<close> requests whose connection is not yet
  made; these are separate steps, as other messages may be handled in between. The other handlers
  do not wait for anything outside the program and are one step.

  An effect is a message sent to the client or a call on a tunnel's socket. The environment
  (\<open>server_env\<close>) holds the packages, the keys and the variables of the process; metadata that was never
  set (the empty object) is \<open>no_metadata\<close>. Logging, tracing (APM) and the timeout that only logs are
  left out, and so is the renumbering of an answer to a message numbered 0.
\<close>

record server_env =
  sv_claim :: claim_env
  sv_net :: net_env
  PRIVATE_KEY :: jsstring
  AUTHENTICATION_PUBLIC_KEY :: "jsstring option"
  TOPRF_PUBLIC_KEY :: jsstring
  TOPRF_SHARE_PRIVATE_KEY :: jsstring
  TOPRF_SHARE_PUBLIC_KEY :: jsstring
  evaluateOPRF :: "ZKEngine \<Rightarrow> bytes \<Rightarrow> bytes \<Rightarrow> js_error + TOPRFResponse"
  ACCEPT_CLAIM_PAYMENT_REQUESTS :: bool
  chain_create :: "RequestClaimOnAvsRequest \<Rightarrow> js_error + RequestClaimOnAvsResponse"
  chain_complete :: "CompleteClaimOnAvsRequest \<Rightarrow> js_error + CompleteClaimOnAvsResponse"
  mechain_task :: "int \<Rightarrow> js_error + CreateTaskOnMechainResponse"

abbreviation sv_eth :: "server_env \<Rightarrow> eth_pkg" where
  "sv_eth V \<equiv> ce_eth (sv_claim V)"

abbreviation sv_json :: "server_env \<Rightarrow> json_lib" where
  "sv_json V \<equiv> cl_json (ce_claim (sv_claim V))"

record session =
  ss_tunnels :: "(int \<times> tcp_tunnel) list"
  ss_metadata :: InitRequest
  isInitialised :: bool
  isOpen :: bool
  ss_pending :: "(int \<times> CreateTunnelRequest) list"

datatype session_effect = SendMessage RPCMessage | OnTunnel int tunnel_effect

definition no_metadata :: InitRequest where
  "no_metadata = \<lparr>clientVersion = 0, signatureType = SERVICE_SIGNATURE_TYPE_UNKNOWN, im_auth = None\<rparr>"

definition new_session :: session where
  "new_session = \<lparr>ss_tunnels = [], ss_metadata = no_metadata, isInitialised = False, isOpen = True, ss_pending = []\<rparr>"

type_synonym handler_result = "session \<times> session_effect list \<times> (js_error + rpc_value)"

subsection \<open>Tunnels of the session\<close>

definition getTunnel :: "session \<Rightarrow> int \<Rightarrow> js_error + tcp_tunnel" where
  "getTunnel s i =
     (case map_of (ss_tunnels s) i of
        None \<Rightarrow> Inl (throwAttestor ERROR_NOT_FOUND ''Tunnel not found'')
      | Some t \<Rightarrow> Inr t)"

definition removeTunnel :: "int \<Rightarrow> session \<Rightarrow> session" where
  "removeTunnel i s = s\<lparr>ss_tunnels := AList.delete i (ss_tunnels s)\<rparr>"

definition set_tunnel :: "int \<Rightarrow> tcp_tunnel \<Rightarrow> session \<Rightarrow> session" where
  "set_tunnel i t s = s\<lparr>ss_tunnels := AList.update i t (ss_tunnels s)\<rparr>"

definition send :: "session \<Rightarrow> RPCMessage \<Rightarrow> session_effect list" where
  "send s m = (if isOpen s then [SendMessage m] else [])"

text \<open>The callbacks \<open>createTunnel\<close> gives the tunnel: forward data, report the end, if the client is there.\<close>

definition tunnel_callback :: "server_env \<Rightarrow> session \<Rightarrow> int \<Rightarrow> tunnel_effect \<Rightarrow> session_effect list" where
  "tunnel_callback V s i e =
     (case e of
        OnMessage m \<Rightarrow> send s \<lparr>rpc_id = 0, rpc_members = [(js ''tunnelMessage'', VTunnelMessage i m)]\<rparr>
      | OnClose err \<Rightarrow> send s \<lparr>rpc_id = 0, rpc_members = [(js ''tunnelDisconnectEvent'',
            VTunnelDisconnect i (map_option (\<lambda>x. toProto (sv_json V) (fromError x)) err))]\<rparr>
      | _ \<Rightarrow> [OnTunnel i e])"

definition on_tunnel :: "server_env \<Rightarrow> int \<Rightarrow> tunnel_event \<Rightarrow> session \<Rightarrow> session \<times> session_effect list" where
  "on_tunnel V i ev s =
     (case map_of (ss_tunnels s) i of
        None \<Rightarrow> (s, [])
      | Some t \<Rightarrow> (let (t', es) = tunnel_step ev t in (set_tunnel i t' s, concat (map (tunnel_callback V s i) es))))"

subsection \<open>init\<close>

definition init_handler :: "server_env \<Rightarrow> int \<Rightarrow> InitRequest \<Rightarrow> session \<Rightarrow> handler_result" where
  "init_handler V now r s =
     (if isInitialised s then (s, [], Inl (throwBadRequest ''Client already initialised''))
      else if SIGNATURES (sv_eth V) (signatureType r) = None then (s, [], Inl (throwBadRequest ''Unsupported signature type''))
      else if clientVersion r \<le> 0 then (s, [], Inl (throwBadRequest ''Unsupported client version''))
      else
        (case assertValidAuthRequest (sv_eth V) (encode_AuthenticatedUserData (ce_proto (sv_claim V)))
                (AUTHENTICATION_PUBLIC_KEY V) now (im_auth r) (signatureType r) of
           Inl e \<Rightarrow> (s, [], Inl e)
         | Inr _ \<Rightarrow>
             (s\<lparr>ss_metadata := r, isInitialised := True\<rparr>, [],
              if TOPRF_PUBLIC_KEY V = [] then Inr (VInitResponse [])
              else bindR (arrayify (sv_eth V) (TOPRF_PUBLIC_KEY V)) (\<lambda>k. Inr (VInitResponse k)))))"

subsection \<open>createTunnel and disconnectTunnel\<close>

definition host_allowed :: "InitRequest \<Rightarrow> jsstring \<Rightarrow> bool" where
  "host_allowed metadata host \<longleftrightarrow>
     (case Option.bind (im_auth metadata) auth_data of
        None \<Rightarrow> True
      | Some d \<Rightarrow> hostWhitelist d = [] \<or> host \<in> set (hostWhitelist d))"

text \<open>Up to the connection: \<open>None\<close> when the request is now pending.\<close>

definition createTunnel_start :: "int \<Rightarrow> CreateTunnelRequest \<Rightarrow> session \<Rightarrow> session \<times> js_error option" where
  "createTunnel_start msgId q s =
     (if map_of (ss_tunnels s) (ct_id q) \<noteq> None then (s, Some (throwBadRequest ''Tunnel already exists''))
      else if \<not> host_allowed (ss_metadata s) (ct_host q) then (s, Some (throwBadRequest ''Host not allowed by auth request''))
      else (s\<lparr>ss_pending := ss_pending s @ [(msgId, q)]\<rparr>, None))"

definition tunnel_opts_of :: "CreateTunnelRequest \<Rightarrow> tunnel_opts" where
  "tunnel_opts_of q = \<lparr>to_host = ct_host q, to_port = ct_port q, to_geoLocation = ct_geoLocation q\<rparr>"

definition createTunnel_done :: "server_env \<Rightarrow> CreateTunnelRequest \<Rightarrow> connect_event \<Rightarrow> session \<Rightarrow> handler_result" where
  "createTunnel_done V q ev s =
     (case makeTcpTunnel (sv_net V) (tunnel_opts_of q) ev of
        Inl e \<Rightarrow> (s, [], Inl e)
      | Inr t \<Rightarrow> (set_tunnel (ct_id q) t s, [], Inr VEmpty))"

definition close_tunnel :: "server_env \<Rightarrow> int \<Rightarrow> js_error option \<Rightarrow> session \<Rightarrow> session \<times> session_effect list" where
  "close_tunnel V i err s = on_tunnel V i (CloseCall err) s"

definition disconnectTunnel :: "server_env \<Rightarrow> int \<Rightarrow> session \<Rightarrow> handler_result" where
  "disconnectTunnel V i s =
     (case getTunnel s i of
        Inl e \<Rightarrow> (s, [], Inl e)
      | Inr _ \<Rightarrow> (let (s', es) = close_tunnel V i None s in (s', es, Inr VEmpty)))"

subsection \<open>claimTunnel\<close>

definition MAX_CLAIM_TIMESTAMP_DIFF_S :: int where
  "MAX_CLAIM_TIMESTAMP_DIFF_S = 10 * 60"

text \<open>A request without data has no timestamp, and the comparison with \<open>NaN\<close> is false.\<close>

definition timestamp_ok :: "int \<Rightarrow> ClaimTunnelRequest \<Rightarrow> bool" where
  "timestamp_ok now req \<longleftrightarrow>
     (case cq_data req of None \<Rightarrow> True | Some d \<Rightarrow> \<not> (cd_timestampS d - now > MAX_CLAIM_TIMESTAMP_DIFF_S))"

definition claim_of :: "server_env \<Rightarrow> int \<Rightarrow> ClaimTunnelRequest \<Rightarrow> InitRequest \<Rightarrow> js_error + ProviderClaimData" where
  "claim_of V now req metadata =
     (if \<not> timestamp_ok now req then Inl (throwAttestor ERROR_INVALID_CLAIM ''Timestamp provided is too far off'')
      else
        bindR (assertValidClaimRequest (sv_claim V) req metadata) (\<lambda>c.
        bindR (getIdentifierFromClaimInfo (ce_claim (sv_claim V)) c) (\<lambda>(_, identifier).
          Inr \<lparr>ci_provider = ci_provider c, ci_parameters = ci_parameters c, ci_context = ci_context c,
               cd_owner = cd_owner c, cd_timestampS = cd_timestampS c, pc_identifier = identifier, pc_epoch = 1\<rparr>)))"

definition claim_response :: "server_env \<Rightarrow> ClaimTunnelRequest \<Rightarrow> js_error + ProviderClaimData \<Rightarrow> ClaimTunnelResponse" where
  "claim_response V req outcome =
     \<lparr>cs_request = Some req,
      cs_claim = (case outcome of Inl _ \<Rightarrow> None | Inr c \<Rightarrow> Some c),
      cs_error = (case outcome of
          Inl e \<Rightarrow> Some (toProto (sv_json V) ((fromError e)\<lparr>ae_code := Some ERROR_INVALID_CLAIM\<rparr>))
        | Inr _ \<Rightarrow> None),
      cs_signatures = None\<rparr>"

definition sign_response ::
  "server_env \<Rightarrow> ServiceSignatureType \<Rightarrow> ClaimTunnelResponse \<Rightarrow> js_error + ClaimTunnelResponse" where
  "sign_response V scheme rsp =
     bindR (getAttestorAddress (sv_eth V) (PRIVATE_KEY V) scheme) (\<lambda>address.
     bindR (case cs_claim rsp of
              None \<Rightarrow> Inr []
            | Some c \<Rightarrow> signAsAttestor (sv_eth V) (PRIVATE_KEY V) (text_encode (createSignDataForClaim c)) scheme) (\<lambda>claimSig.
     bindR (signAsAttestor (sv_eth V) (PRIVATE_KEY V) (encode_ClaimTunnelResponse (ce_proto (sv_claim V)) rsp) scheme) (\<lambda>resultSig.
       Inr (rsp\<lparr>cs_signatures := Some \<lparr>sig_attestorAddress = address, sig_claim = claimSig, sig_result = Some resultSig\<rparr>\<rparr>))))"

definition claimTunnel :: "server_env \<Rightarrow> int \<Rightarrow> ClaimTunnelRequest \<Rightarrow> session \<Rightarrow> handler_result" where
  "claimTunnel V now req s =
     (case cq_request req of
        None \<Rightarrow> (s, [], Inl (throwAttestor ERROR_NOT_FOUND ''Tunnel not found''))
      | Some q \<Rightarrow>
          (case getTunnel s (ct_id q) of
             Inl e \<Rightarrow> (s, [], Inl e)
           | Inr t \<Rightarrow>
               (let (s1, es) = close_tunnel V (ct_id q) None s in
                if createRequest_opts t \<noteq> tunnel_opts_of q
                then (s1, es, Inl (throwBadRequest ''Tunnel request does not match''))
                else
                  (case assertTranscriptsMatch (ce_tls (sv_claim V)) (cq_transcript req) (tt_transcript t) of
                     Inl e \<Rightarrow> (s1, es, Inl e)
                   | Inr _ \<Rightarrow>
                       (case sign_response V (signatureType (ss_metadata s))
                               (claim_response V req (claim_of V now req (ss_metadata s))) of
                          Inl e \<Rightarrow> (s1, es, Inl e)
                        | Inr rsp \<Rightarrow> (removeTunnel (ct_id q) s1, es, Inr (VClaimTunnelResponse rsp)))))))"

subsection \<open>The remaining handlers\<close>

definition toprf_handler :: "server_env \<Rightarrow> bytes \<Rightarrow> ZKProofEngine \<Rightarrow> js_error + rpc_value" where
  "toprf_handler V maskedData engine =
     (if TOPRF_SHARE_PRIVATE_KEY V = [] \<or> TOPRF_SHARE_PUBLIC_KEY V = []
      then Inl (PlainError ''private/public keys not set. Cannot execute OPRF'')
      else
        bindR (arrayify (sv_eth V) (TOPRF_SHARE_PRIVATE_KEY V)) (\<lambda>privateKey.
        bindR (arrayify (sv_eth V) (TOPRF_SHARE_PUBLIC_KEY V)) (\<lambda>publicKey.
        bindR (getEngineString engine) (\<lambda>engineStr.
        bindR (evaluateOPRF V engineStr privateKey maskedData) (\<lambda>rsp.
        Inr (VToprfResponse (rsp\<lparr>tr_publicKeyShare := publicKey\<rparr>)))))))"

text \<open>The chain handlers check the payment flag; contract calls are the environment's.\<close>

definition createClaimOnChain :: "server_env \<Rightarrow> RequestClaimOnAvsRequest \<Rightarrow> js_error + rpc_value" where
  "createClaimOnChain V req =
     (if \<not> ACCEPT_CLAIM_PAYMENT_REQUESTS V
      then Inl (throwAttestor ERROR_PAYMENT_REFUSED ''Payment requests are not accepted at this time'')
      else bindR (chain_create V req) (\<lambda>r. Inr (VClaimOnChainResponse r)))"

definition completeClaimOnChain :: "server_env \<Rightarrow> CompleteClaimOnAvsRequest \<Rightarrow> js_error + rpc_value" where
  "completeClaimOnChain V req =
     (if \<not> ACCEPT_CLAIM_PAYMENT_REQUESTS V
      then Inl (throwAttestor ERROR_PAYMENT_REFUSED ''Payment requests are not accepted at this time'')
      else bindR (chain_complete V req) (\<lambda>r. Inr (VCompleteOnChainResponse r)))"

subsection \<open>Requests\<close>

text \<open>\<open>respond\<close>: nothing is sent when the connection has closed; an error goes out as \<open>requestError\<close>.\<close>

definition respond :: "server_env \<Rightarrow> session \<Rightarrow> int \<Rightarrow> jsstring \<Rightarrow> js_error + rpc_value \<Rightarrow> session_effect list" where
  "respond V s msgId type rsp =
     send s (case rsp of
        Inl e \<Rightarrow> \<lparr>rpc_id = msgId, rpc_members = [(js ''requestError'', VError (toProto (sv_json V) (fromError e)))]\<rparr>
      | Inr v \<Rightarrow> \<lparr>rpc_id = msgId, rpc_members = [(getRpcResponseType type, v)]\<rparr>)"

definition answer :: "server_env \<Rightarrow> int \<Rightarrow> jsstring \<Rightarrow> handler_result \<Rightarrow> session \<times> session_effect list" where
  "answer V msgId type r = (case r of (s, es, rsp) \<Rightarrow> (s, es @ respond V s msgId type rsp))"

text \<open>A request whose data has the wrong type cannot come out of the decoder; it is answered with an error here.\<close>

definition settled :: "handler_result \<Rightarrow> session \<times> session_effect list \<times> (js_error + rpc_value) option" where
  "settled r = (case r of (s, es, rsp) \<Rightarrow> (s, es, Some rsp))"

text \<open>The handler of a type: its answer, or \<open>None\<close> while it awaits a connection.\<close>

definition rpc_handler ::
  "server_env \<Rightarrow> int \<Rightarrow> int \<Rightarrow> jsstring \<Rightarrow> rpc_value option \<Rightarrow> session
   \<Rightarrow> session \<times> session_effect list \<times> (js_error + rpc_value) option" where
  "rpc_handler V now msgId type data s =
     (if type = js ''createTunnel'' then
        (case data of
           Some (VCreateTunnel q) \<Rightarrow> (case createTunnel_start msgId q s of (s', e) \<Rightarrow> (s', [], map_option Inl e))
         | _ \<Rightarrow> settled (s, [], Inl (JsTypeError ''bad request data'')))
      else
        settled
          (if type = js ''init'' then
             (case data of Some (VInitRequest r) \<Rightarrow> init_handler V now r s | _ \<Rightarrow> (s, [], Inl (JsTypeError ''bad request data'')))
           else if type = js ''disconnectTunnel'' then
             (case data of Some (VDisconnectTunnel i) \<Rightarrow> disconnectTunnel V i s | _ \<Rightarrow> (s, [], Inl (JsTypeError ''bad request data'')))
           else if type = js ''claimTunnel'' then
             (case data of Some (VClaimTunnel r) \<Rightarrow> claimTunnel V now r s | _ \<Rightarrow> (s, [], Inl (JsTypeError ''bad request data'')))
           else if type = js ''toprf'' then
             (case data of Some (VToprf m e) \<Rightarrow> (s, [], toprf_handler V m e) | _ \<Rightarrow> (s, [], Inl (JsTypeError ''bad request data'')))
           else if type = js ''createClaimOnChain'' then
             (case data of Some (VClaimOnChain q) \<Rightarrow> (s, [], createClaimOnChain V q) | _ \<Rightarrow> (s, [], Inl (JsTypeError ''bad request data'')))
           else if type = js ''completeClaimOnChain'' then
             (case data of Some (VCompleteOnChain q) \<Rightarrow> (s, [], completeClaimOnChain V q) | _ \<Rightarrow> (s, [], Inl (JsTypeError ''bad request data'')))
           else if type = js ''createTaskOnMechain'' then
             (case data of Some (VMechainTask ts) \<Rightarrow> (s, [], bindR (mechain_task V ts) (\<lambda>r. Inr (VMechainTaskResponse r)))
              | _ \<Rightarrow> (s, [], Inl (JsTypeError ''bad request data'')))
           else (s, [], Inl (JsTypeError ''handler is not a function''))))"

definition handleRpcRequest ::
  "server_env \<Rightarrow> int \<Rightarrow> int \<Rightarrow> jsstring \<Rightarrow> rpc_value option \<Rightarrow> session \<Rightarrow> session \<times> session_effect list" where
  "handleRpcRequest V now msgId type data s =
     (case rpc_handler V now msgId type data s of
        (s', es, None) \<Rightarrow> (s', es)
      | (s', es, Some rsp) \<Rightarrow> answer V msgId type (s', es, rsp))"

subsection \<open>Events of a session\<close>

definition terminate_tunnels :: "server_env \<Rightarrow> session \<Rightarrow> session_effect list" where
  "terminate_tunnels V s =
     concat (map (\<lambda>(i, t). map (OnTunnel i) (snd (tunnel_close (Some (PlainError ''WS session terminated'')) t))) (ss_tunnels s))"

definition handle_event :: "server_env \<Rightarrow> int \<Rightarrow> rpc_event \<Rightarrow> session \<Rightarrow> session \<times> session_effect list" where
  "handle_event V now ev s =
     (case ev of
        RpcRequestEvent i type data \<Rightarrow> handleRpcRequest V now i type data s
      | TunnelMessageEvent i m \<Rightarrow> on_tunnel V i (Write m) s
      | ConnectionTerminated e \<Rightarrow> (s, terminate_tunnels V s)
      | _ \<Rightarrow> (s, []))"

text \<open>
  \<open>Receive\<close> is a message decoded from the socket, at a time. \<open>TunnelReady\<close> settles the connection of a
  pending \<open>createTunnel\<close>, \<open>SocketEvent\<close> comes from a tunnel's socket, \<open>BgpOverlap\<close> from the BGP listener,
  \<open>SocketClosed\<close> from the websocket. Events of a tunnel that is no longer stored are not steps here.
\<close>

datatype session_event =
    Receive int RPCMessage
  | TunnelReady int connect_event
  | SocketEvent int tunnel_event
  | BgpOverlap int
  | SocketClosed

fun is_socket_event :: "tunnel_event \<Rightarrow> bool" where
  "is_socket_event (Data _) = True"
| "is_socket_event (Failed _) = True"
| "is_socket_event Closed = True"
| "is_socket_event _ = False"

fun session_step :: "server_env \<Rightarrow> session_event \<Rightarrow> session \<Rightarrow> session \<times> session_effect list" where
  "session_step V (Receive now m) s =
     (case handleMessage (sv_json V) (isInitialised s) m of
        Inl e \<Rightarrow> (s, [])
      | Inr (Dispatch ev) \<Rightarrow> handle_event V now ev s
      | Inr (Refuse i) \<Rightarrow> (s, send s (refusal (sv_json V) i))
      | Inr Unhandled \<Rightarrow> (s, []))"
| "session_step V (TunnelReady i ev) s =
     (case List.find (\<lambda>p. fst p = i) (ss_pending s) of
        None \<Rightarrow> (s, [])
      | Some (_, q) \<Rightarrow>
          answer V i (js ''createTunnel'') (createTunnel_done V q ev (s\<lparr>ss_pending := remove1 (i, q) (ss_pending s)\<rparr>)))"
| "session_step V (SocketEvent i ev) s = (if is_socket_event ev then on_tunnel V i ev s else (s, []))"
| "session_step V (BgpOverlap i) s =
     close_tunnel V i (Some (throwAttestor ERROR_BGP_ANNOUNCEMENT_OVERLAP ''BGP announcement overlap detected'')) s"
| "session_step V SocketClosed s = (s\<lparr>isOpen := False\<rparr>, terminate_tunnels V s)"

inductive session_reachable :: "server_env \<Rightarrow> session \<Rightarrow> bool" for V where
  fresh: "session_reachable V new_session"
| next_state: "session_reachable V s \<Longrightarrow> session_step V ev s = (s', es) \<Longrightarrow> session_reachable V s'"

subsection \<open>Invariants\<close>

definition auth_ok :: "server_env \<Rightarrow> InitRequest \<Rightarrow> bool" where
  "auth_ok V r \<longleftrightarrow>
     (\<exists>now. assertValidAuthRequest (sv_eth V) (encode_AuthenticatedUserData (ce_proto (sv_claim V)))
        (AUTHENTICATION_PUBLIC_KEY V) now (im_auth r) (signatureType r) = Inr ())"

definition session_inv :: "server_env \<Rightarrow> session \<Rightarrow> bool" where
  "session_inv V s \<longleftrightarrow>
     (if isInitialised s then auth_ok V (ss_metadata s) else ss_tunnels s = [] \<and> ss_pending s = [])
     \<and> (\<forall>i t. map_of (ss_tunnels s) i = Some t \<longrightarrow> host_allowed (ss_metadata s) (to_host (createRequest_opts t)))
     \<and> (\<forall>p \<in> set (ss_pending s). host_allowed (ss_metadata s) (ct_host (snd p)))"

lemma set_tunnel_inv:
  assumes "session_inv V s" and "host_allowed (ss_metadata s) (to_host (createRequest_opts t))" and "isInitialised s"
  shows "session_inv V (set_tunnel i t s)"
  using assms alist.values_put[of "ss_tunnels s" "\<lambda>t. host_allowed (ss_metadata s) (to_host (createRequest_opts t))" t i]
  by (simp add: session_inv_def set_tunnel_def)

lemma removeTunnel_inv: "session_inv V s \<Longrightarrow> session_inv V (removeTunnel i s)"
  using alist.values_del[of "ss_tunnels s" "\<lambda>t. host_allowed (ss_metadata s) (to_host (createRequest_opts t))" i]
  by (auto simp: session_inv_def removeTunnel_def)

lemma tunnel_step_opts: "createRequest_opts (fst (tunnel_step ev t)) = createRequest_opts t"
  by (cases ev) (simp_all add: tunnel_step_defs)

lemma on_tunnel_inv: "session_inv V s \<Longrightarrow> session_inv V (fst (on_tunnel V i ev s))"
proof (cases "map_of (ss_tunnels s) i")
  case (Some t)
  assume inv: "session_inv V s"
  then have h: "host_allowed (ss_metadata s) (to_host (createRequest_opts (fst (tunnel_step ev t))))"
    using Some by (simp add: session_inv_def tunnel_step_opts)
  have "isInitialised s" using inv Some by (auto simp: session_inv_def split: if_splits)
  then show ?thesis using set_tunnel_inv[OF inv h] Some by (simp add: on_tunnel_def split_beta)
qed (simp add: on_tunnel_def)

lemma init_handler_inv: "session_inv V s \<Longrightarrow> session_inv V (fst (init_handler V now r s))"
  by (auto simp: init_handler_def session_inv_def auth_ok_def split: sum.splits)

lemma createTunnel_start_inv:
  "session_inv V s \<Longrightarrow> isInitialised s \<Longrightarrow> session_inv V (fst (createTunnel_start i q s))"
  by (auto simp: createTunnel_start_def session_inv_def)

lemma createTunnel_done_inv:
  assumes "session_inv V s" and "isInitialised s" and "host_allowed (ss_metadata s) (ct_host q)"
  shows "session_inv V (fst (createTunnel_done V q ev s))"
proof (cases "makeTcpTunnel (sv_net V) (tunnel_opts_of q) ev")
  case (Inr t)
  then have "to_host (createRequest_opts t) = ct_host q"
    by (auto simp: makeTcpTunnel_def bindR_Inr_iff tunnel_opts_of_def)
  then show ?thesis using set_tunnel_inv[OF assms(1) _ assms(2)] assms(3) Inr by (simp add: createTunnel_done_def)
qed (use assms in \<open>simp add: createTunnel_done_def\<close>)

lemma close_tunnel_inv: "session_inv V s \<Longrightarrow> session_inv V (fst (close_tunnel V i e s))"
  by (simp add: close_tunnel_def on_tunnel_inv)

lemma disconnectTunnel_inv: "session_inv V s \<Longrightarrow> session_inv V (fst (disconnectTunnel V i s))"
  using close_tunnel_inv by (auto simp: disconnectTunnel_def split_beta split: sum.splits)

lemma claimTunnel_inv: "session_inv V s \<Longrightarrow> session_inv V (fst (claimTunnel V now req s))"
  using close_tunnel_inv removeTunnel_inv
  by (auto simp: claimTunnel_def split_beta Let_def split: sum.splits option.splits)

lemma fst_answer: "fst (answer V i t r) = fst r"
  by (cases r) (simp add: answer_def)

lemma answer_settled:
  "(case settled r of (s', es, None) \<Rightarrow> (s', es) | (s', es, Some rsp) \<Rightarrow> answer V i t (s', es, rsp)) = answer V i t r"
  by (cases r) (simp add: settled_def)

lemma settled_pair: "settled (s, es, rsp) = (s, es, Some rsp)"
  by (simp add: settled_def)

lemmas rpc_handler_defs = handleRpcRequest_def rpc_handler_def answer_settled settled_pair

lemma handleRpcRequest_inv:
  assumes "session_inv V s" and "isInitialised s \<or> type = js ''init''"
  shows "session_inv V (fst (handleRpcRequest V now i type data s))"
proof (cases "type = js ''createTunnel''")
  case True
  moreover have "js ''createTunnel'' \<noteq> js ''init''" by (simp add: js_def)
  ultimately have "isInitialised s" using assms(2) by auto
  then show ?thesis using createTunnel_start_inv[OF assms(1)] assms(1) True
    by (auto simp: rpc_handler_defs fst_answer split_beta split: option.splits rpc_value.splits)
next
  case False
  note handlers = init_handler_inv[OF assms(1)] disconnectTunnel_inv[OF assms(1)] claimTunnel_inv[OF assms(1)] assms(1)
  show ?thesis
  proof (cases data)
    case None
    then show ?thesis using False assms(1) by (simp add: rpc_handler_defs fst_answer)
  next
    case (Some v)
    then show ?thesis using False handlers by (cases v) (simp_all add: rpc_handler_defs fst_answer)
  qed
qed

lemma session_step_inv:
  assumes "session_inv V s"
  shows "session_inv V (fst (session_step V ev s))"
proof (cases ev)
  case (Receive now m)
  show ?thesis
  proof (cases "handleMessage (sv_json V) (isInitialised s) m")
    case (Inr h)
    show ?thesis
    proof (cases h)
      case (Dispatch e)
      have "handleMessage (sv_json V) False m = Inr (Dispatch (RpcRequestEvent i type data)) \<Longrightarrow> type = js ''init''" for i type data
        by (rule only_init_before_initialised)
      then have "isInitialised s \<or> type = js ''init''" if "e = RpcRequestEvent i type data" for i type data
        using that Inr Dispatch by (cases "isInitialised s") auto
      then show ?thesis using assms Receive Inr Dispatch handleRpcRequest_inv on_tunnel_inv
        by (cases e) (auto simp: handle_event_def)
    qed (use assms Receive Inr in auto)
  qed (use assms Receive in auto)
next
  case (TunnelReady i cev)
  show ?thesis
  proof (cases "List.find (\<lambda>p. fst p = i) (ss_pending s)")
    case (Some p)
    have mem: "p \<in> set (ss_pending s)" "fst p = i" using Some by (auto simp: find_Some_iff)
    obtain q where p: "p = (i, q)" "p \<in> set (ss_pending s)"
      using that[of "snd p"] mem by (metis prod.collapse)
    let ?s = "s\<lparr>ss_pending := remove1 (i, q) (ss_pending s)\<rparr>"
    have "isInitialised s" "host_allowed (ss_metadata s) (ct_host q)"
      using assms p by (auto simp: session_inv_def split: if_splits)
    moreover have "session_inv V ?s"
      using assms \<open>isInitialised s\<close> by (auto simp: session_inv_def dest: in_set_remove1)
    ultimately show ?thesis using createTunnel_done_inv[of V ?s q cev] Some p TunnelReady by (simp add: fst_answer)
  qed (use assms TunnelReady in simp)
next
  case (SocketEvent i e)
  then show ?thesis using on_tunnel_inv[OF assms] assms by simp
next
  case (BgpOverlap i)
  then show ?thesis using close_tunnel_inv[OF assms] by simp
next
  case SocketClosed
  then show ?thesis using assms by (simp add: session_inv_def)
qed

lemma reachable_inv: "session_reachable V s \<Longrightarrow> session_inv V s"
proof (induction rule: session_reachable.induct)
  case fresh
  then show ?case by (simp add: session_inv_def new_session_def)
next
  case (next_state s ev s' es)
  then show ?case using session_step_inv[of V s ev] by simp
qed

text \<open>C14: Invariant of every reachable session: before initialisation it has no tunnels, open or pending; after
  it the authentication request in its metadata was accepted; and every tunnel, open or pending, goes to a
  host that the authenticated user may connect to.\<close>

theorem session_invariant:
  assumes "session_reachable V s"
  shows "(if isInitialised s then auth_ok V (ss_metadata s) else ss_tunnels s = [] \<and> ss_pending s = [])
     \<and> {to_host (createRequest_opts t) | t. t \<in> ran (map_of (ss_tunnels s))} \<union> ct_host ` snd ` set (ss_pending s)
       \<subseteq> Collect (host_allowed (ss_metadata s))"
  using reachable_inv[OF assms] by (auto simp: session_inv_def ran_def)

subsection \<open>What the attestor signs\<close>

lemma claimTunnel_success:
  assumes "claimTunnel V now req s = (s', es, Inr (VClaimTunnelResponse rsp))"
  obtains q t where "cq_request req = Some q" "map_of (ss_tunnels s) (ct_id q) = Some t"
    "createRequest_opts t = tunnel_opts_of q"
    "assertTranscriptsMatch (ce_tls (sv_claim V)) (cq_transcript req) (tt_transcript t) = Inr ()"
    "sign_response V (signatureType (ss_metadata s)) (claim_response V req (claim_of V now req (ss_metadata s))) = Inr rsp"
    "s' = removeTunnel (ct_id q) (fst (close_tunnel V (ct_id q) None s))"
  using assms
  by (auto simp: claimTunnel_def getTunnel_def Let_def split_beta split: option.splits sum.splits if_splits)

lemma sign_response_claim:
  "sign_response V scheme r = Inr rsp \<Longrightarrow> cs_claim rsp = cs_claim r \<and> cs_error rsp = cs_error r
     \<and> cs_request rsp = cs_request r \<and> rsp\<lparr>cs_signatures := None\<rparr> = r\<lparr>cs_signatures := None\<rparr>"
  by (auto simp: sign_response_def bindR_Inr_iff)

text \<open>C1: The main safety theorem. If the attestor's answer to a claim request holds a claim, then the client's
  transcript agrees with what passed through the tunnel of that request, the tunnel was made for the same host,
  port and country, the owner signed the request, a certificate chain was verified for that host, the provider
  accepted the decrypted application data under the claim's parameters, the timestamp is not far in the future,
  and the tunnel is gone from the session.\<close>

theorem signed_claim_supported:
  assumes "claimTunnel V now req s = (s', es, Inr (VClaimTunnelResponse rsp))" and "cs_claim rsp = Some c"
    and "tls_bytes_spec (ce_tls (sv_claim V))"
    and "\<forall>cs. verifyCertificateChain (ce_hs (sv_claim V)) cs None \<noteq> Inr ()"
  shows "\<exists>q t d sig receipt cert certs params ex.
     cq_request req = Some q \<and> map_of (ss_tunnels s) (ct_id q) = Some t \<and> createRequest_opts t = tunnel_opts_of q
     \<and> concat (sent_by SENDER_CLIENT (cq_transcript req)) = concat (tunnel_sent_by Client (tt_transcript t))
     \<and> is_prefix (concat (sent_by SENDER_SERVER (cq_transcript req))) (concat (tunnel_sent_by Server (tt_transcript t)))
     \<and> cq_data req = Some d \<and> cd_timestampS c - now \<le> MAX_CLAIM_TIMESTAMP_DIFF_S
     \<and> verify_signature (sv_eth V) (encode_ClaimTunnelRequest (ce_proto (sv_claim V)) (req\<lparr>cq_requestSignature := None\<rparr>))
         sig (cd_owner c) = Inr True
     \<and> verifyCertificateChain (ce_hs (sv_claim V)) (cert # certs) (Some (to_host (createRequest_opts t))) = Inr ()
     \<and> decryptTranscript (sv_claim V) (cq_transcript req) (claim_engine (cq_zkEngine req))
         (cq_fixedServerIV req) (cq_fixedClientIV req) = Inr receipt
     \<and> known_provider (ci_provider c) \<and> niceParseJsonObject (sv_json V) (ci_parameters c) = Inr params
     \<and> assertValidProviderReceipt (ce_http (sv_claim V)) (appl_data (sv_claim V) receipt) (ce_params (sv_claim V) params)
         None (clientVersion (ss_metadata s)) = Inr ex
     \<and> map_of (ss_tunnels s') (ct_id q) = None"
proof -
  obtain q t where q: "cq_request req = Some q" "map_of (ss_tunnels s) (ct_id q) = Some t"
    "createRequest_opts t = tunnel_opts_of q"
    "assertTranscriptsMatch (ce_tls (sv_claim V)) (cq_transcript req) (tt_transcript t) = Inr ()"
    "sign_response V (signatureType (ss_metadata s)) (claim_response V req (claim_of V now req (ss_metadata s))) = Inr rsp"
    "s' = removeTunnel (ct_id q) (fst (close_tunnel V (ct_id q) None s))"
    using claimTunnel_success[OF assms(1)] by blast
  have "claim_of V now req (ss_metadata s) = Inr c"
    using sign_response_claim[OF q(5)] assms(2) by (simp add: claim_response_def split: sum.splits)
  then obtain c0 where c: "timestamp_ok now req" "assertValidClaimRequest (sv_claim V) req (ss_metadata s) = Inr c0"
    "ci_provider c = ci_provider c0" "ci_parameters c = ci_parameters c0" "cd_owner c = cd_owner c0"
    "cd_timestampS c = cd_timestampS c0"
    by (auto simp: claim_of_def bindR_Inr_iff split_beta split: if_splits)
  obtain d sig receipt host cert certs params ex where k:
    "cq_data req = Some d"
    "verify_signature (sv_eth V) (encode_ClaimTunnelRequest (ce_proto (sv_claim V)) (req\<lparr>cq_requestSignature := None\<rparr>)) sig (cd_owner d) = Inr True"
    "decryptTranscript (sv_claim V) (cq_transcript req) (claim_engine (cq_zkEngine req))
         (cq_fixedServerIV req) (cq_fixedClientIV req) = Inr receipt"
    "map_option ct_host (cq_request req) = Some host"
    "verifyCertificateChain (ce_hs (sv_claim V)) (cert # certs) (Some host) = Inr ()"
    "known_provider (ci_provider d)" "niceParseJsonObject (sv_json V) (ci_parameters d) = Inr params"
    "assertValidProviderReceipt (ce_http (sv_claim V)) (appl_data (sv_claim V) receipt) (ce_params (sv_claim V) params)
         None (clientVersion (ss_metadata s)) = Inr ex"
    "c0 = d\<lparr>ci_context := ci_context c0\<rparr>"
    using claim_request_checked[OF c(2) assms(4)] by blast
  have same: "ci_provider c0 = ci_provider d" "ci_parameters c0 = ci_parameters d" "cd_owner c0 = cd_owner d"
    "cd_timestampS c0 = cd_timestampS d"
    by (subst k(9), simp)+
  have host: "host = to_host (createRequest_opts t)" using k(4) q(1,3) by (simp add: tunnel_opts_of_def)
  have "assertTranscriptsMatch (ce_tls (sv_claim V)) (cq_transcript req) (tt_transcript t) = Inr () \<longleftrightarrow>
      concat (sent_by SENDER_CLIENT (cq_transcript req)) = concat (tunnel_sent_by Client (tt_transcript t))
      \<and> is_prefix (concat (sent_by SENDER_SERVER (cq_transcript req))) (concat (tunnel_sent_by Server (tt_transcript t)))"
    by (rule transcripts_agree[OF assms(3)])
  moreover have "cd_timestampS c - now \<le> MAX_CLAIM_TIMESTAMP_DIFF_S"
    using c(1,6) k(1) same by (simp add: timestamp_ok_def)
  moreover have "map_of (ss_tunnels s') (ct_id q) = None"
    by (simp add: q(6) removeTunnel_def delete_conv')
  ultimately show ?thesis using q(1-4) k same c host
    by (intro exI[of _ q] exI[of _ t] exI[of _ d] exI[of _ sig] exI[of _ receipt] exI[of _ cert] exI[of _ certs]
      exI[of _ params] exI[of _ ex]) simp
qed

text \<open>C21: Every answer of the attestor to a claim request, with a claim or with an error, passes the client's
  check of its signatures, for a client of the same signature scheme.\<close>

theorem claim_response_verifies:
  assumes "claimTunnel V now req s = (s', es, Inr (VClaimTunnelResponse rsp))" and "eth_correct (sv_eth V) (PRIVATE_KEY V)"
    and "signatureType metadata = signatureType (ss_metadata s)"
  shows "assertValidClaimSignatures (sv_eth V) (ce_proto (sv_claim V)) rsp metadata = Inr ()"
proof -
  obtain r where sgn: "sign_response V (signatureType (ss_metadata s)) r = Inr rsp" "cs_signatures r = None"
    using claimTunnel_success[OF assms(1)] by (metis (no_types, lifting) ClaimTunnelResponse.select_convs(4) claim_response_def)
  obtain a cl rs where s: "signatureType (ss_metadata s) = SERVICE_SIGNATURE_TYPE_ETH"
      "a = getAddress (sv_eth V) (getPublicKey (sv_eth V) (PRIVATE_KEY V))"
      "case cs_claim r of None \<Rightarrow> cl = [] | Some c \<Rightarrow> sign_data (sv_eth V) (text_encode (createSignDataForClaim c)) (PRIVATE_KEY V) = Inr cl"
      "sign_data (sv_eth V) (encode_ClaimTunnelResponse (ce_proto (sv_claim V)) r) (PRIVATE_KEY V) = Inr rs"
      "rsp = r\<lparr>cs_signatures := Some \<lparr>sig_attestorAddress = a, sig_claim = cl, sig_result = Some rs\<rparr>\<rparr>"
    using sgn(1)
    by (auto simp: sign_response_def bindR_Inr_iff signAsAttestor_def getAttestorAddress_def signature_scheme_def SIGNATURES_def
      split: option.splits if_splits)
  have r: "rsp\<lparr>cs_signatures := None\<rparr> = r" "cs_claim rsp = cs_claim r" using s(5) sgn(2) by simp_all
  have "verify_signature (sv_eth V) (encode_ClaimTunnelResponse (ce_proto (sv_claim V)) r) rs a = Inr True"
    using signed_data_verifies[OF assms(2) s(4)] s(2) by simp
  moreover have "verify_signature (sv_eth V) (text_encode (createSignDataForClaim c)) cl a = Inr True"
    if "cs_claim r = Some c" for c
    using signed_data_verifies[OF assms(2)] s(2,3) that by simp
  ultimately show ?thesis
    using r s(1,5) assms(3)
    by (cases "cs_claim r") (simp_all add: assertValidClaimSignatures_def signature_scheme_def SIGNATURES_def)
qed

subsection \<open>Examples\<close>

definition ref_server :: server_env where
  "ref_server = \<lparr>sv_claim = ref_claim_env, sv_net = ref_net, PRIVATE_KEY = js ''k'', AUTHENTICATION_PUBLIC_KEY = None,
     TOPRF_PUBLIC_KEY = [], TOPRF_SHARE_PRIVATE_KEY = [], TOPRF_SHARE_PUBLIC_KEY = [],
     evaluateOPRF = (\<lambda>_ _ m. Inr \<lparr>tr_publicKeyShare = [], tr_evaluated = m, tr_c = [], tr_r = []\<rparr>), ACCEPT_CLAIM_PAYMENT_REQUESTS = False,
     chain_create = (\<lambda>_. Inl (PlainError ''no chain'')), chain_complete = (\<lambda>_. Inl (PlainError ''no chain'')),
     mechain_task = (\<lambda>_. Inl (PlainError ''no chain''))\<rparr>"

text \<open>A session whose tunnel 1 has passed the messages of the example session.\<close>

definition ref_tunnel_state :: tcp_tunnel where
  "ref_tunnel_state = \<lparr>createRequest_opts = ref_opts,
     tt_transcript = map (\<lambda>m. (if tm_sender m = SENDER_CLIENT then Client else Server, tm_message m)) ref_session,
     tt_closed = False, onClose_set = True\<rparr>"

definition ref_session_state :: session where
  "ref_session_state = \<lparr>ss_tunnels = [(1, ref_tunnel_state)], ss_metadata = ref_init, isInitialised = True, isOpen = True,
     ss_pending = []\<rparr>"

lemma ref_server_fields:
  "sv_claim ref_server = ref_claim_env" "PRIVATE_KEY ref_server = js ''k''" "ce_hs ref_claim_env = hs_ref"
  "ce_eth ref_claim_env = eth_ref" "hs_tls hs_ref = tls_ref" "sv_net ref_server = ref_net"
  "AUTHENTICATION_PUBLIC_KEY ref_server = None" "TOPRF_PUBLIC_KEY ref_server = []"
  by (simp_all add: ref_server_def ref_claim_env_def hs_ref_def)

lemma ref_transcripts_match:
  "assertTranscriptsMatch tls_ref ref_session (tt_transcript ref_tunnel_state) = Inr ()"
  unfolding transcripts_agree[OF tls_ref_spec]
  by (simp add: ref_tunnel_state_def ref_session_def ref_receipt_def ref_finished_def ref_record_def ref_sealed_def
    sent_by_def tunnel_sent_by_def is_prefix_def)

lemma ref_claim_made:
  "\<exists>i. claim_of ref_server 1700000000 ref_request ref_init =
     Inr \<lparr>ci_provider = js ''http'', ci_parameters = js ''{}'', ci_context = [123, 125], cd_owner = js ''k'',
        cd_timestampS = 1700000000, pc_identifier = i, pc_epoch = 1\<rparr>"
proof -
  let ?c = "\<lparr>ci_provider = js ''http'', ci_parameters = js ''{}'', ci_context = [123, 125], cd_owner = js ''k'',
        cd_timestampS = 1700000000\<rparr>"
  have t: "timestamp_ok 1700000000 ref_request" by (simp add: timestamp_ok_def ref_request_def MAX_CLAIM_TIMESTAMP_DIFF_S_def)
  obtain c' i where i: "getIdentifierFromClaimInfo (ce_claim ref_claim_env) ?c = Inr (c', i)"
    by (simp add: getIdentifierFromClaimInfo_def ref_claim_env_def)
  show ?thesis by (simp add: claim_of_def t ref_server_fields ref_request_accepted i)
qed

lemma ref_claim_signed:
  "\<exists>s' es rsp c. claimTunnel ref_server 1700000000 ref_request ref_session_state = (s', es, Inr (VClaimTunnelResponse rsp))
     \<and> cs_claim rsp = Some c \<and> ci_context c = [123, 125]"
proof -
  obtain i where c: "claim_of ref_server 1700000000 ref_request ref_init =
     Inr \<lparr>ci_provider = js ''http'', ci_parameters = js ''{}'', ci_context = [123, 125], cd_owner = js ''k'',
        cd_timestampS = 1700000000, pc_identifier = i, pc_epoch = 1\<rparr>" (is "_ = Inr ?c")
    using ref_claim_made by blast
  have k: "js ''k'' \<noteq> []" by (simp add: js_def)
  have sgn: "\<exists>rsp. sign_response ref_server SERVICE_SIGNATURE_TYPE_ETH (claim_response ref_server ref_request (Inr ?c)) = Inr rsp
      \<and> cs_claim rsp = Some ?c"
    using k by (simp add: sign_response_def claim_response_def getAttestorAddress_def signAsAttestor_def signature_scheme_def
      SIGNATURES_def sign_data_def ref_server_fields)
  have q: "cq_request ref_request = Some \<lparr>ct_id = 1, ct_host = js ''h'', ct_port = 443, ct_geoLocation = []\<rparr>"
    "cq_transcript ref_request = ref_session"
    by (simp_all add: ref_request_def)
  have st: "map_of (ss_tunnels ref_session_state) 1 = Some ref_tunnel_state" "ss_metadata ref_session_state = ref_init"
    "createRequest_opts ref_tunnel_state = ref_opts"
    by (simp_all add: ref_session_state_def ref_tunnel_state_def)
  have o: "tunnel_opts_of \<lparr>ct_id = 1, ct_host = js ''h'', ct_port = 443, ct_geoLocation = []\<rparr> = ref_opts"
    by (simp add: tunnel_opts_of_def ref_opts_def)
  have e: "signatureType ref_init = SERVICE_SIGNATURE_TYPE_ETH" by (simp add: ref_init_def)
  show ?thesis
    using sgn by (auto simp: claimTunnel_def getTunnel_def q st o e c ref_server_fields ref_transcripts_match split_beta)
qed

theorem claim_response_verifies_witness:
  "\<exists>s' es rsp. claimTunnel ref_server 1700000000 ref_request ref_session_state = (s', es, Inr (VClaimTunnelResponse rsp))
     \<and> assertValidClaimSignatures eth_ref (ce_proto ref_claim_env) rsp ref_init = Inr ()"
proof -
  obtain s' es rsp where r: "claimTunnel ref_server 1700000000 ref_request ref_session_state = (s', es, Inr (VClaimTunnelResponse rsp))"
    using ref_claim_signed by blast
  have "signatureType ref_init = signatureType (ss_metadata ref_session_state)" by (simp add: ref_session_state_def)
  then show ?thesis using claim_response_verifies[OF r, of ref_init] r by (simp add: ref_server_fields eth_ref_correct)
qed

theorem signed_claim_supported_witness:
  "\<exists>s' es rsp c t cert certs. claimTunnel ref_server 1700000000 ref_request ref_session_state = (s', es, Inr (VClaimTunnelResponse rsp))
     \<and> cs_claim rsp = Some c \<and> map_of (ss_tunnels ref_session_state) 1 = Some t
     \<and> concat (sent_by SENDER_CLIENT ref_session) = concat (tunnel_sent_by Client (tt_transcript t))
     \<and> verifyCertificateChain hs_ref (cert # certs) (Some (to_host (createRequest_opts t))) = Inr ()
     \<and> map_of (ss_tunnels s') 1 = None"
proof -
  obtain s' es rsp c where r: "claimTunnel ref_server 1700000000 ref_request ref_session_state = (s', es, Inr (VClaimTunnelResponse rsp))"
    "cs_claim rsp = Some c"
    using ref_claim_signed by blast
  have h: "tls_bytes_spec (ce_tls (sv_claim ref_server))" "\<forall>cs. verifyCertificateChain (ce_hs (sv_claim ref_server)) cs None \<noteq> Inr ()"
    by (simp_all add: ref_server_fields tls_ref_spec) (simp add: hs_ref_def)
  obtain q t cert certs where ok: "cq_request ref_request = Some q" "map_of (ss_tunnels ref_session_state) (ct_id q) = Some t"
    "concat (sent_by SENDER_CLIENT (cq_transcript ref_request)) = concat (tunnel_sent_by Client (tt_transcript t))"
    "verifyCertificateChain (ce_hs (sv_claim ref_server)) (cert # certs) (Some (to_host (createRequest_opts t))) = Inr ()"
    "map_of (ss_tunnels s') (ct_id q) = None"
    using signed_claim_supported[OF r h] by (elim exE conjE) (rule that)
  have "ct_id q = 1" "cq_transcript ref_request = ref_session" using ok(1) by (auto simp: ref_request_def)
  then show ?thesis using ok r by (auto simp: ref_server_fields)
qed

definition create_message :: "int \<Rightarrow> RPCMessage" where
  "create_message i = \<lparr>rpc_id = i, rpc_members = [(js ''createTunnelRequest'',
     VCreateTunnel \<lparr>ct_id = 1, ct_host = js ''h'', ct_port = 443, ct_geoLocation = []\<rparr>)]\<rparr>"

definition init_message :: RPCMessage where
  "init_message = \<lparr>rpc_id = 4, rpc_members = [(js ''initRequest'', VInitRequest ref_init)]\<rparr>"

fun session_run :: "server_env \<Rightarrow> session_event list \<Rightarrow> session \<Rightarrow> session \<times> session_effect list" where
  "session_run V [] s = (s, [])"
| "session_run V (ev # evs) s =
     (let (s1, es) = session_step V ev s; (s2, fs) = session_run V evs s1 in (s2, es @ fs))"

lemma session_run_reachable: "session_reachable V s \<Longrightarrow> session_reachable V (fst (session_run V evs s))"
proof (induction evs arbitrary: s)
  case (Cons ev evs)
  obtain s1 es where s1: "session_step V ev s = (s1, es)" by fastforce
  then have "session_reachable V s1" using Cons.prems session_reachable.next_state by blast
  then show ?case using Cons.IH[of s1] s1 by (simp add: split_beta)
qed simp

lemma create_handled:
  "handleMessage J True (create_message i) = Inr (Dispatch (RpcRequestEvent i (js ''createTunnel'')
     (Some (VCreateTunnel \<lparr>ct_id = 1, ct_host = js ''h'', ct_port = 443, ct_geoLocation = []\<rparr>))))"
proof -
  have "js ''createTunnelRequest'' = getRpcRequestType (js ''createTunnel'')" by (simp add: getRpcRequestType_def js_def)
  then show ?thesis
    by (simp add: create_message_def handleMessage_def getRpcRequest_def member_of_def getRpcTypeFromKey_request)
qed

lemma init_handled:
  "handleMessage J b init_message = Inr (Dispatch (RpcRequestEvent 4 (js ''init'') (Some (VInitRequest ref_init))))"
proof -
  have "js ''initRequest'' = getRpcRequestType (js ''init'')" by (simp add: getRpcRequestType_def js_def)
  then show ?thesis
    by (simp add: init_message_def handleMessage_def getRpcRequest_def member_of_def getRpcTypeFromKey_request)
qed

lemma type_names: "js ''init'' \<noteq> js ''createTunnel''"
  by (simp add: js_def)

lemma direct_tunnel: "makeTcpTunnel ref_net ref_opts Connected =
    Inr \<lparr>createRequest_opts = ref_opts, tt_transcript = [], tt_closed = False, onClose_set = True\<rparr>"
  by (rule ref_tunnel)

lemma opts_ref: "tunnel_opts_of \<lparr>ct_id = 1, ct_host = js ''h'', ct_port = 443, ct_geoLocation = []\<rparr> = ref_opts"
  by (simp add: tunnel_opts_of_def ref_opts_def)

definition ready_session :: session where
  "ready_session = \<lparr>ss_tunnels = [], ss_metadata = ref_init, isInitialised = True, isOpen = True, ss_pending = []\<rparr>"

lemma init_step: "session_step ref_server (Receive 0 init_message) new_session =
    (ready_session, [SendMessage \<lparr>rpc_id = 4, rpc_members = [(getRpcResponseType (js ''init''), VInitResponse [])]\<rparr>])"
  by (simp add: init_handled handle_event_def rpc_handler_defs type_names answer_def respond_def send_def
    init_handler_def new_session_def ready_session_def ref_server_fields SIGNATURES_def)
    (simp add: ref_init_def assertValidAuthRequest_def settled_pair)

theorem session_invariant_witness:
  "\<exists>s t. session_reachable ref_server s \<and> isInitialised s \<and> map_of (ss_tunnels s) 1 = Some t
     \<and> auth_ok ref_server (ss_metadata s) \<and> host_allowed (ss_metadata s) (to_host (createRequest_opts t))"
proof -
  let ?run = "session_run ref_server [Receive 0 init_message, Receive 0 (create_message 5), TunnelReady 5 Connected] new_session"
  have reach: "session_reachable ref_server (fst ?run)"
    by (rule session_run_reachable[OF session_reachable.fresh])
  have al: "host_allowed ref_init h" for h by (simp add: host_allowed_def ref_init_def)
  have s: "isInitialised (fst ?run) \<and> map_of (ss_tunnels (fst ?run)) 1 =
      Some \<lparr>createRequest_opts = ref_opts, tt_transcript = [], tt_closed = False, onClose_set = True\<rparr>"
    by (simp add: init_step del: session_step.simps(1))
      (simp add: ready_session_def create_handled handle_event_def rpc_handler_defs createTunnel_start_def al answer_def
        createTunnel_done_def opts_ref ref_server_fields direct_tunnel set_tunnel_def)
  define S where "S = fst ?run"
  have S: "session_reachable ref_server S" "isInitialised S"
      "map_of (ss_tunnels S) 1 = Some \<lparr>createRequest_opts = ref_opts, tt_transcript = [], tt_closed = False, onClose_set = True\<rparr>"
    using reach s by (simp_all only: S_def)
  have "host_allowed (ss_metadata S) (to_host ref_opts)"
    using session_invariant[OF S(1)] S(3) by (force simp: ran_def)
  then show ?thesis using session_invariant[OF S(1)] S by (intro exI[of _ S]) simp
qed

text \<open>Two \<open>createTunnel\<close> requests with one number, handled before either is connected, both succeed; the
  second tunnel takes the place of the first, and when the connection ends only one socket is closed.\<close>

theorem concurrent_create_leaks_tunnel:
  "snd (session_run ref_server [Receive 0 (create_message 5), Receive 0 (create_message 6),
       TunnelReady 5 Connected, TunnelReady 6 Connected, SocketClosed] ready_session)
   = [SendMessage \<lparr>rpc_id = 5, rpc_members = [(getRpcResponseType (js ''createTunnel''), VEmpty)]\<rparr>,
      SendMessage \<lparr>rpc_id = 6, rpc_members = [(getRpcResponseType (js ''createTunnel''), VEmpty)]\<rparr>,
      OnTunnel 1 (SocketDestroy (Some (PlainError ''WS session terminated'')))]"
proof -
  have al: "host_allowed ref_init h" for h by (simp add: host_allowed_def ref_init_def)
  show ?thesis
    by (simp add: ready_session_def create_handled handle_event_def rpc_handler_defs createTunnel_start_def al answer_def
      createTunnel_done_def opts_ref ref_server_fields direct_tunnel set_tunnel_def respond_def send_def terminate_tunnels_def
      tunnel_close_def)
qed

text \<open>A tunnel whose connection is made after the client has gone is stored and never closed.\<close>

theorem late_tunnel_stays_open:
  "session_run ref_server [Receive 0 (create_message 5), SocketClosed, TunnelReady 5 Connected] ready_session
   = (ready_session\<lparr>isOpen := False, ss_tunnels :=
        [(1, \<lparr>createRequest_opts = ref_opts, tt_transcript = [], tt_closed = False, onClose_set = True\<rparr>)]\<rparr>, [])"
proof -
  have al: "host_allowed ref_init h" for h by (simp add: host_allowed_def ref_init_def)
  show ?thesis
    by (simp add: ready_session_def create_handled handle_event_def rpc_handler_defs createTunnel_start_def al answer_def
      createTunnel_done_def opts_ref ref_server_fields direct_tunnel set_tunnel_def respond_def send_def terminate_tunnels_def)
qed

end
