(* ===== verification/Machine.thy ===== *)
theory Machine
  imports Prelude
begin

text \<open>
  State machines: the components that react to calls, messages and timers are step functions that
  return the new state and what they send or call. This theory runs them over a list of inputs and
  holds what all such runs share, as locales over a step function and what its steps keep.
\<close>

fun run_steps :: "('i \<Rightarrow> 's \<Rightarrow> 's \<times> 'o list) \<Rightarrow> 'i list \<Rightarrow> 's \<Rightarrow> 's \<times> 'o list" where
  "run_steps step [] s = (s, [])"
| "run_steps step (x # xs) s =
     (let (s1, out1) = step x s; (s2, out2) = run_steps step xs s1 in (s2, out1 @ out2))"

lemma run_steps_append:
  "run_steps step (xs @ ys) s =
     (let (s1, out1) = run_steps step xs s; (s2, out2) = run_steps step ys s1 in (s2, out1 @ out2))"
  by (induction xs arbitrary: s) (auto split: prod.splits)

lemma run_steps_snoc:
  "run_steps step xs s = (s1, out1) \<Longrightarrow> step x s1 = (s2, out2) \<Longrightarrow> run_steps step (xs @ [x]) s = (s2, out1 @ out2)"
  by (simp add: run_steps_append)

text \<open>A machine with an invariant.\<close>

locale machine =
  fixes step :: "'i \<Rightarrow> 's \<Rightarrow> 's \<times> 'o list"
    and inv :: "'s \<Rightarrow> bool"
  assumes step_inv: "inv s \<Longrightarrow> step x s = (s', out) \<Longrightarrow> inv s'"
begin

lemma run_inv: "inv s \<Longrightarrow> run_steps step xs s = (s', out) \<Longrightarrow> inv s'"
proof (induction xs arbitrary: s out)
  case (Cons x xs)
  then show ?case using step_inv[of s x] by (auto split: prod.splits)
qed simp

end

text \<open>A machine with an invariant as long as its inputs are of a kind.\<close>

locale assuming_machine =
  fixes step :: "'i \<Rightarrow> 's \<Rightarrow> 's \<times> 'o list"
    and allowed :: "'i \<Rightarrow> bool"
    and inv :: "'s \<Rightarrow> bool"
  assumes allowed_step_inv: "allowed x \<Longrightarrow> inv s \<Longrightarrow> step x s = (s', out) \<Longrightarrow> inv s'"
begin

lemma allowed_run_inv: "list_all allowed xs \<Longrightarrow> inv s \<Longrightarrow> run_steps step xs s = (s', out) \<Longrightarrow> inv s'"
proof (induction xs arbitrary: s out)
  case (Cons x xs)
  then show ?case using allowed_step_inv[of x s] by (auto split: prod.splits)
qed simp

end

text \<open>
  A machine whose steps relate old and new state and cost something, such as time: a run relates its
  ends by the sum of the costs.
\<close>

locale graded_machine = machine step inv for step :: "'i \<Rightarrow> 's \<Rightarrow> 's \<times> 'o list" and inv +
  fixes cost :: "'i \<Rightarrow> nat" and prog :: "nat \<Rightarrow> 's \<Rightarrow> 's \<Rightarrow> bool"
  assumes prog_refl: "inv s \<Longrightarrow> prog 0 s s"
    and prog_trans: "prog d s s1 \<Longrightarrow> prog e s1 s2 \<Longrightarrow> prog (d + e) s s2"
    and prog_step: "inv s \<Longrightarrow> step x s = (s', out) \<Longrightarrow> prog (cost x) s s'"
begin

lemma run_prog: "inv s \<Longrightarrow> run_steps step xs s = (s', out) \<Longrightarrow> prog (sum_list (map cost xs)) s s'"
proof (induction xs arbitrary: s out)
  case Nil
  then show ?case by (simp add: prog_refl)
next
  case (Cons x xs)
  obtain s1 out1 out2 where r: "step x s = (s1, out1)" "run_steps step xs s1 = (s', out2)"
    using Cons.prems(2) by (auto split: prod.splits)
  then show ?case using prog_trans prog_step[OF Cons.prems(1) r(1)] Cons.IH[OF step_inv[OF Cons.prems(1) r(1)] r(2)] by auto
qed

end

text \<open>
  A machine whose state tells something about its inputs so far, and whose outputs are explained by
  them.
\<close>

locale history_machine =
  fixes step :: "'i \<Rightarrow> 's \<Rightarrow> 's \<times> 'o list"
    and start :: 's
    and told :: "'i list \<Rightarrow> 's \<Rightarrow> bool"
    and explained :: "'i list \<Rightarrow> 'o \<Rightarrow> bool"
  assumes told_start: "told [] start"
    and told_step: "told xs s \<Longrightarrow> step x s = (s', out) \<Longrightarrow> told (xs @ [x]) s'"
    and explained_step: "told xs s \<Longrightarrow> step x s = (s', out) \<Longrightarrow> y \<in> set out \<Longrightarrow> explained (xs @ [x]) y"
begin

lemma run_told: "run_steps step xs start = (s, out) \<Longrightarrow> told xs s"
proof (induction xs arbitrary: s out rule: rev_induct)
  case Nil
  then show ?case using told_start by simp
next
  case (snoc x xs)
  obtain s1 out1 where r: "run_steps step xs start = (s1, out1)" by fastforce
  then show ?case using told_step[OF snoc.IH[OF r], of x] snoc.prems by (auto simp: run_steps_append split: prod.splits)
qed

lemma run_explained:
  "run_steps step xs start = (s, out) \<Longrightarrow> y \<in> set out \<Longrightarrow> \<exists>ys zs. xs = ys @ zs \<and> explained ys y"
proof (induction xs arbitrary: s out rule: rev_induct)
  case (snoc x xs)
  obtain s1 out1 out2 where r: "run_steps step xs start = (s1, out1)" "step x s1 = (s, out2)" "out = out1 @ out2"
    using snoc.prems(1) by (auto simp: run_steps_append split: prod.splits)
  show ?case
  proof (cases "y \<in> set out1")
    case True
    then obtain ys zs where "xs = ys @ zs" "explained ys y" using snoc.IH[OF r(1)] by blast
    then show ?thesis by (intro exI[of _ ys] exI[of _ "zs @ [x]"]) simp
  next
    case False
    then have "explained (xs @ [x]) y" using explained_step[OF run_told[OF r(1)] r(2)] snoc.prems(2) r(3) by auto
    then show ?thesis by (intro exI[of _ "xs @ [x]"] exI[of _ "[]"]) simp
  qed
qed simp

end

end
