(* ===== verification/Client_Socket.thy ===== *)
theory Client_Socket
  imports Machine Message_Handler
begin

text \<open>
  The socket of the client: \<open>AttestorSocket\<close> (\<open>src/utils/socket-base.ts\<close>), \<open>AttestorClient\<close>
  (\<open>src/client/utils/client-socket.ts\<close>) and the pool of clients (\<open>src/client/utils/attestor-pool.ts\<close>).

  A promise of \<open>waitForResponse\<close> is a number, an index of \<open>cl_promises\<close>; promise 0 waits for the
  initialisation. While it is pending, its two listeners and its timer are the entry of
  \<open>cl_waiters\<close>; they are registered and removed together. The websocket is its \<open>readyState\<close>; time is
  in milliseconds, and timers fire when time passes (\<open>Elapse\<close>). What a step does outside the client is
  an output: messages sent, events for the other listeners (the tunnels), closing the socket, and the
  rejection of a promise nobody handles, which ends a Node.js process. Logging is left out.
\<close>

datatype ready_state = Connecting | Open | Closing | Closed

record waiter =
  wt_promise :: nat
  wt_id :: int
  wt_due :: nat

text \<open>What an \<open>rpc\<close> call waits for: the send, the promise, or nothing as the send failed.\<close>

datatype call_phase = Sending | Awaiting | CallFailed js_error

record client =
  cl_ready :: ready_state
  cl_now :: nat
  cl_isInitialised :: bool
  cl_initResponse :: "rpc_value option"
  cl_waiters :: "waiter list"
  cl_promises :: "(attestor_error + rpc_value option) option list"
  cl_calls :: "(nat \<times> call_phase) list"

record client_env =
  clv_tls :: tls_pkg
  clv_json :: json_lib
  decode_RPCMessages :: "bytes \<Rightarrow> js_error + RPCMessage list"

datatype client_output =
    Send "RPCMessage list"
  | ToTunnels rpc_event
  | CloseSocket
  | UnhandledRejection nat

definition DEFAULT_RPC_TIMEOUT_MS :: int where
  "DEFAULT_RPC_TIMEOUT_MS = 90000"

text \<open>\<open>setTimeout\<close> turns a delay below 1 or above 2147483647 into 1.\<close>

definition timer_delay :: "int \<Rightarrow> nat" where
  "timer_delay ms = (if ms < 1 \<or> 2147483647 < ms then 1 else nat ms)"

definition isClosed :: "client \<Rightarrow> bool" where
  "isClosed c \<longleftrightarrow> cl_ready c = Closed \<or> cl_ready c = Closing"

subsection \<open>Waiting for responses\<close>

definition closed_error :: js_error where
  "closed_error = throwAttestor ERROR_NETWORK_ERROR ''Client connection already closed''"

text \<open>The number of the promise and the client with its listeners and timer.\<close>

definition waitForResponse :: "int \<Rightarrow> int \<Rightarrow> client \<Rightarrow> js_error + nat \<times> client" where
  "waitForResponse i timeoutMs c =
     (if isClosed c then Inl closed_error
      else
        (let n = length (cl_promises c) in
         Inr (n, c\<lparr>cl_promises := cl_promises c @ [None],
                   cl_waiters := cl_waiters c @ [\<lparr>wt_promise = n, wt_id = i, wt_due = cl_now c + timer_delay timeoutMs\<rparr>]\<rparr>)))"

definition waitForInit :: "client \<Rightarrow> js_error + nat" where
  "waitForInit c = (if isClosed c then Inl closed_error else Inr 0)"

text \<open>
  A rejected promise is handled if someone waits for it: the constructor for promise 0, the caller of
  \<open>waitForResponse\<close>, and \<open>rpc\<close> only after the message was sent.
\<close>

definition rejection_handled :: "client \<Rightarrow> nat \<Rightarrow> bool" where
  "rejection_handled c n \<longleftrightarrow> (case map_of (cl_calls c) n of None \<Rightarrow> True | Some phase \<Rightarrow> phase = Awaiting)"

text \<open>\<open>removeHandlers\<close> and settling; a settled promise keeps its outcome.\<close>

definition settle :: "nat \<Rightarrow> attestor_error + rpc_value option \<Rightarrow> client \<Rightarrow> client" where
  "settle n outcome c =
     c\<lparr>cl_waiters := filter (\<lambda>w. wt_promise w \<noteq> n) (cl_waiters c),
       cl_promises := (case js_get (cl_promises c) (int n) of
          Some None \<Rightarrow> (cl_promises c)[n := Some outcome]
        | _ \<Rightarrow> cl_promises c),
       cl_isInitialised := (cl_isInitialised c \<or> (n = 0 \<and> is_ok outcome)),
       cl_initResponse := (case outcome of Inr v \<Rightarrow> (if n = 0 then v else cl_initResponse c) | Inl _ \<Rightarrow> cl_initResponse c)\<rparr>"

definition rejected_now :: "client \<Rightarrow> nat \<Rightarrow> attestor_error + rpc_value option \<Rightarrow> client_output list" where
  "rejected_now c n outcome = (if \<not> is_ok outcome \<and> \<not> rejection_handled c n then [UnhandledRejection n] else [])"

text \<open>The waiters an event settles, with the outcome, in the order of their listeners.\<close>

definition terminated_with :: "attestor_error \<Rightarrow> attestor_error" where
  "terminated_with e =
     (if ae_code e = Some ERROR_NO_ERROR then AttestorError ERROR_NETWORK_ERROR (ae_message e) (ae_data e) else e)"

definition outcome_of :: "rpc_event \<Rightarrow> waiter \<Rightarrow> (attestor_error + rpc_value option) option" where
  "outcome_of ev w =
     (case ev of
        RpcResponseEvent i rsp \<Rightarrow> if i \<noteq> wt_id w then None
          else Some (case rsp of Inl e \<Rightarrow> Inl e | Inr (_, v) \<Rightarrow> Inr v)
      | ConnectionTerminated e \<Rightarrow> Some (Inl (terminated_with e))
      | _ \<Rightarrow> None)"

definition settle_waiter ::
  "(waiter \<Rightarrow> (attestor_error + rpc_value option) option) \<Rightarrow> waiter \<Rightarrow> client \<times> client_output list \<Rightarrow> client \<times> client_output list" where
  "settle_waiter oc w = (\<lambda>(c, out).
     case oc w of
       None \<Rightarrow> (c, out)
     | Some outcome \<Rightarrow> (settle (wt_promise w) outcome c, out @ rejected_now c (wt_promise w) outcome))"

definition settle_all ::
  "(waiter \<Rightarrow> (attestor_error + rpc_value option) option) \<Rightarrow> waiter list \<Rightarrow> client \<Rightarrow> client \<times> client_output list" where
  "settle_all oc ws c = fold (settle_waiter oc) ws (c, [])"

definition dispatchRPCEvent :: "rpc_event \<Rightarrow> client \<Rightarrow> client \<times> client_output list" where
  "dispatchRPCEvent ev c = (let (c', out) = settle_all (outcome_of ev) (cl_waiters c) c in (c', out @ [ToTunnels ev]))"

subsection \<open>Timers\<close>

definition timeout_error :: "int \<Rightarrow> attestor_error" where
  "timeout_error i = AttestorError ERROR_TIMEOUT ''RPC request timed out'' (Some (JObj [(js ''id'', JNum i)]))"

definition elapse :: "nat \<Rightarrow> client \<Rightarrow> client \<times> client_output list" where
  "elapse d c =
     (let c' = c\<lparr>cl_now := cl_now c + d\<rparr> in
      settle_all (\<lambda>w. Some (Inl (timeout_error (wt_id w))))
        (sort_key wt_due (filter (\<lambda>w. wt_due w \<le> cl_now c') (cl_waiters c'))) c')"

subsection \<open>Sending\<close>

definition sendMessage :: "int list \<Rightarrow> (int option \<times> (jsstring \<times> rpc_value) list) list \<Rightarrow> client \<Rightarrow> js_error + RPCMessage list" where
  "sendMessage fresh msgs c =
     (if isClosed c then Inl (throwAttestor ERROR_NETWORK_ERROR ''Connection closed, cannot send message'')
      else if cl_ready c \<noteq> Open then
        Inl (throwAttestor ERROR_NETWORK_ERROR ''Wait for connection to open before sending message'')
      else Inr (packRpcMessages fresh msgs))"

text \<open>\<open>rpc\<close> up to the end of the send; \<open>newId\<close> is the number that a message numbered 0 gets.\<close>

definition rpc :: "int \<Rightarrow> int \<Rightarrow> jsstring \<Rightarrow> rpc_value \<Rightarrow> int \<Rightarrow> client \<Rightarrow> (js_error + nat) \<times> client \<times> client_output list" where
  "rpc msgId newId type request timeoutMs c =
     (case waitForResponse msgId timeoutMs c of
        Inl e \<Rightarrow> (Inl e, c, [])
      | Inr (n, c1) \<Rightarrow>
          (case sendMessage [newId] [(Some msgId, [(getRpcRequestType type, request)])] c1 of
             Inl e \<Rightarrow> (Inr n, c1\<lparr>cl_calls := cl_calls c1 @ [(n, CallFailed e)]\<rparr>, [])
           | Inr ms \<Rightarrow> (Inr n, c1\<lparr>cl_calls := cl_calls c1 @ [(n, Sending)]\<rparr>, [Send ms])))"

text \<open>The send of a call ended.\<close>

definition send_done :: "nat \<Rightarrow> js_error option \<Rightarrow> client \<Rightarrow> client" where
  "send_done n e c =
     c\<lparr>cl_calls := map (\<lambda>(k, phase). (k, if k = n \<and> phase = Sending
         then (case e of None \<Rightarrow> Awaiting | Some e \<Rightarrow> CallFailed e) else phase)) (cl_calls c)\<rparr>"

text \<open>The outcome of the promise that \<open>rpc\<close> returned, once there is one.\<close>

definition rpc_result :: "client \<Rightarrow> nat \<Rightarrow> (js_error + rpc_value option) option" where
  "rpc_result c n =
     (case map_of (cl_calls c) n of
        Some (CallFailed e) \<Rightarrow> Some (Inl e)
      | Some Awaiting \<Rightarrow>
          (case js_get (cl_promises c) (int n) of
             Some (Some (Inl e)) \<Rightarrow> Some (Inl (AttestorErr e))
           | Some (Some (Inr v)) \<Rightarrow> Some (Inr v)
           | _ \<Rightarrow> None)
      | _ \<Rightarrow> None)"

definition terminateConnection :: "client_env \<Rightarrow> int list \<Rightarrow> js_error option \<Rightarrow> client \<Rightarrow> client \<times> client_output list" where
  "terminateConnection E fresh err c =
     (if isClosed c then (c, [])
      else
        (let witErr = (case err of Some e \<Rightarrow> fromError e | None \<Rightarrow> AttestorError ERROR_NO_ERROR [] None);
             (c1, out) = dispatchRPCEvent (ConnectionTerminated witErr) c;
             sent = (if cl_ready c1 = Open then
                 (case sendMessage fresh [(None, [(js ''connectionTerminationAlert'', VError (toProto (clv_json E) witErr))])] c1 of
                    Inl _ \<Rightarrow> []
                  | Inr ms \<Rightarrow> [Send ms])
               else [])
         in (c1\<lparr>cl_ready := Closing\<rparr>, out @ sent @ [CloseSocket])))"

subsection \<open>Receiving\<close>

text \<open>
  The messages of a packet, one after the other. An exception is logged and skips the rest. So does a
  request: nobody on the client answers requests, and the handler waits for the answer.
\<close>

fun handle_messages :: "client_env \<Rightarrow> RPCMessage list \<Rightarrow> client \<Rightarrow> client \<times> client_output list" where
  "handle_messages E [] c = (c, [])"
| "handle_messages E (m # ms) c =
     (case handleMessage (clv_json E) (cl_isInitialised c) m of
        Inl e \<Rightarrow> (c, [])
      | Inr (Dispatch ev) \<Rightarrow>
          (case ev of
             RpcRequestEvent _ _ _ \<Rightarrow> dispatchRPCEvent ev c
           | _ \<Rightarrow> (let (c1, out1) = dispatchRPCEvent ev c; (c2, out2) = handle_messages E ms c1 in (c2, out1 @ out2)))
      | Inr (Refuse i) \<Rightarrow>
          (let (c2, out2) = handle_messages E ms c in
           (c2, (if cl_ready c = Open then [Send [refusal (clv_json E) i]] else []) @ out2))
      | Inr Unhandled \<Rightarrow> handle_messages E ms c)"

definition wsMessageHandler :: "client_env \<Rightarrow> ws_data \<Rightarrow> client \<Rightarrow> client \<times> client_output list" where
  "wsMessageHandler E d c =
     (case bindR (extractArrayBufferFromWsData (clv_tls E) d) (decode_RPCMessages E) of
        Inl e \<Rightarrow> (c, [])
      | Inr ms \<Rightarrow> handle_messages E ms c)"

text \<open>The listener for \<open>error\<close> events of the websocket.\<close>

definition network_error :: "js_error \<Rightarrow> attestor_error" where
  "network_error e = (fromError e)\<lparr>ae_code := Some ERROR_NETWORK_ERROR\<rparr>"

subsection \<open>Steps\<close>

datatype client_input =
    SocketOpened
  | SocketError js_error
  | SocketClosed
  | PacketArrived ws_data
  | Elapse nat
  | Wait int int
  | CallRpc int int jsstring rpc_value int
  | SendDone nat "js_error option"
  | Terminate "int list" "js_error option"

fun client_step :: "client_env \<Rightarrow> client_input \<Rightarrow> client \<Rightarrow> client \<times> client_output list" where
  "client_step E SocketOpened c = (if cl_ready c = Connecting then c\<lparr>cl_ready := Open\<rparr> else c, [])"
| "client_step E (SocketError e) c = dispatchRPCEvent (ConnectionTerminated (network_error e)) c"
| "client_step E SocketClosed c =
     dispatchRPCEvent (ConnectionTerminated (AttestorError ERROR_NO_ERROR ''connection closed'' None)) (c\<lparr>cl_ready := Closed\<rparr>)"
| "client_step E (PacketArrived d) c = wsMessageHandler E d c"
| "client_step E (Elapse d) c = elapse d c"
| "client_step E (Wait i timeoutMs) c = (case waitForResponse i timeoutMs c of Inl e \<Rightarrow> (c, []) | Inr (n, c') \<Rightarrow> (c', []))"
| "client_step E (CallRpc i newId type request timeoutMs) c = snd (rpc i newId type request timeoutMs c)"
| "client_step E (SendDone n e) c = (send_done n e c, [])"
| "client_step E (Terminate fresh e) c = terminateConnection E fresh e c"

abbreviation client_run :: "client_env \<Rightarrow> client_input list \<Rightarrow> client \<Rightarrow> client \<times> client_output list" where
  "client_run E \<equiv> run_steps (client_step E)"

text \<open>The constructor: the initialisation request and the initial messages go into the URL.\<close>

definition init_messages :: "int list \<Rightarrow> InitRequest \<Rightarrow> (int option \<times> (jsstring \<times> rpc_value) list) list \<Rightarrow> RPCMessage list" where
  "init_messages fresh initRequest initMessages =
     packRpcMessages fresh ((None, [(js ''initRequest'', VInitRequest initRequest)]) # initMessages)"

definition new_client :: "nat \<Rightarrow> int \<Rightarrow> client" where
  "new_client now initReqId =
     \<lparr>cl_ready = Connecting, cl_now = now, cl_isInitialised = False, cl_initResponse = None,
      cl_waiters = [\<lparr>wt_promise = 0, wt_id = initReqId, wt_due = now + timer_delay DEFAULT_RPC_TIMEOUT_MS\<rparr>],
      cl_promises = [None], cl_calls = []\<rparr>"

subsection \<open>The pool\<close>

text \<open>The client for a URL, made by the second argument when there is none or it is closed.\<close>

definition getAttestorClientFromPool :: "jsstring \<Rightarrow> client \<Rightarrow> (jsstring \<rightharpoonup> client) \<Rightarrow> client \<times> (jsstring \<rightharpoonup> client)" where
  "getAttestorClientFromPool key fresh pool =
     (case pool key of
        Some c \<Rightarrow> if isClosed c then (fresh, pool(key \<mapsto> fresh)) else (c, pool)
      | None \<Rightarrow> (fresh, pool(key \<mapsto> fresh)))"

subsection \<open>Promises and their waiters\<close>

text \<open>The pending promises are those with a waiter, each with one.\<close>

definition waiting :: "client \<Rightarrow> bool" where
  "waiting c \<longleftrightarrow> distinct (map wt_promise (cl_waiters c))
     \<and> (\<forall>n. n \<in> wt_promise ` set (cl_waiters c) \<longleftrightarrow> n < length (cl_promises c) \<and> cl_promises c ! n = None)"

definition same_frame :: "client \<Rightarrow> client \<Rightarrow> bool" where
  "same_frame c c' \<longleftrightarrow> cl_ready c' = cl_ready c \<and> cl_now c' = cl_now c \<and> cl_calls c' = cl_calls c
     \<and> length (cl_promises c') = length (cl_promises c)"

lemma settle_frame [simp]:
  "cl_ready (settle n r c) = cl_ready c" "cl_now (settle n r c) = cl_now c" "cl_calls (settle n r c) = cl_calls c"
  "cl_waiters (settle n r c) = filter (\<lambda>w. wt_promise w \<noteq> n) (cl_waiters c)"
  "length (cl_promises (settle n r c)) = length (cl_promises c)"
  by (auto simp: settle_def split: option.split)

lemma settle_waiting:
  assumes "waiting c" and "w \<in> set (cl_waiters c)"
  shows "waiting (settle (wt_promise w) r c)"
    and "cl_promises (settle (wt_promise w) r c) = (cl_promises c)[wt_promise w := Some r]"
proof -
  have n: "wt_promise w < length (cl_promises c)" "cl_promises c ! wt_promise w = None"
    using assms by (auto simp: waiting_def)
  then show p: "cl_promises (settle (wt_promise w) r c) = (cl_promises c)[wt_promise w := Some r]"
    by (simp add: settle_def js_get_def)
  have "distinct (map wt_promise (filter (\<lambda>x. wt_promise x \<noteq> wt_promise w) (cl_waiters c)))"
    using assms(1) by (simp add: waiting_def distinct_map_filter)
  moreover have "k \<in> wt_promise ` {x \<in> set (cl_waiters c). wt_promise x \<noteq> wt_promise w} \<longleftrightarrow>
      k < length (cl_promises c) \<and> (cl_promises c)[wt_promise w := Some r] ! k = None" for k
  proof -
    have "k \<in> wt_promise ` {x \<in> set (cl_waiters c). wt_promise x \<noteq> wt_promise w} \<longleftrightarrow>
        k \<noteq> wt_promise w \<and> k \<in> wt_promise ` set (cl_waiters c)" by auto
    then show ?thesis using assms(1) n by (auto simp: waiting_def nth_list_update)
  qed
  ultimately show "waiting (settle (wt_promise w) r c)" by (simp add: waiting_def p)
qed

text \<open>What settling a list of waiters does to the promises and to the waiters.\<close>

definition settled_by :: "(waiter \<Rightarrow> (attestor_error + rpc_value option) option) \<Rightarrow> waiter list \<Rightarrow> client \<Rightarrow> client \<Rightarrow> bool" where
  "settled_by oc ws c c' \<longleftrightarrow> waiting c' \<and> same_frame c c'
     \<and> cl_waiters c' = filter (\<lambda>w. w \<notin> set ws \<or> oc w = None) (cl_waiters c)
     \<and> (\<forall>w \<in> set ws. \<forall>r. oc w = Some r \<longrightarrow> cl_promises c' ! wt_promise w = Some r)
     \<and> (\<forall>n r. n < length (cl_promises c) \<and> cl_promises c ! n = Some r \<longrightarrow> cl_promises c' ! n = Some r)"

lemma settle_waiter_simps:
  "oc w = None \<Longrightarrow> settle_waiter oc w (c, out) = (c, out)"
  "oc w = Some r \<Longrightarrow> settle_waiter oc w (c, out) = (settle (wt_promise w) r c, out @ rejected_now c (wt_promise w) r)"
  by (simp_all add: settle_waiter_def)

lemma fold_settle:
  assumes "waiting c" and "distinct (map wt_promise ws)" and "set ws \<subseteq> set (cl_waiters c)"
  shows "settled_by oc ws c (fst (fold (settle_waiter oc) ws (c, out)))
    \<and> snd (fold (settle_waiter oc) ws (c, out)) =
        out @ concat (map (\<lambda>w. case oc w of None \<Rightarrow> [] | Some r \<Rightarrow> rejected_now c (wt_promise w) r) ws)"
  using assms
proof (induction ws arbitrary: c out)
  case Nil
  then show ?case by (simp add: settled_by_def same_frame_def)
next
  case (Cons w ws)
  show ?case
  proof (cases "oc w")
    case None
    have "filter (\<lambda>x. x \<notin> set (w # ws) \<or> oc x = None) (cl_waiters c) = filter (\<lambda>x. x \<notin> set ws \<or> oc x = None) (cl_waiters c)"
      using None by (intro filter_cong) auto
    then have "settled_by oc (w # ws) c c'" if "settled_by oc ws c c'" for c'
      using that None by (simp add: settled_by_def)
    then show ?thesis using Cons.IH[OF Cons.prems(1), of out] Cons.prems(2,3) None by (simp add: settle_waiter_simps)
  next
    case (Some r)
    let ?c = "settle (wt_promise w) r c"
    have w: "w \<in> set (cl_waiters c)" using Cons.prems(3) by simp
    have other: "\<And>x. x \<in> set ws \<Longrightarrow> wt_promise x \<noteq> wt_promise w"
      using Cons.prems(2) by (auto simp: image_iff)
    have only: "\<And>x. x \<in> set (cl_waiters c) \<Longrightarrow> wt_promise x = wt_promise w \<Longrightarrow> x = w"
      using Cons.prems(1) w by (auto simp: waiting_def distinct_map dest: inj_onD)
    have sub: "set ws \<subseteq> set (cl_waiters ?c)" using Cons.prems(3) other by auto
    have IH: "settled_by oc ws ?c (fst (fold (settle_waiter oc) ws (?c, out @ rejected_now c (wt_promise w) r)))
      \<and> snd (fold (settle_waiter oc) ws (?c, out @ rejected_now c (wt_promise w) r)) = (out @ rejected_now c (wt_promise w) r)
        @ concat (map (\<lambda>x. case oc x of None \<Rightarrow> [] | Some r \<Rightarrow> rejected_now ?c (wt_promise x) r) ws)"
      using Cons.prems(2) sub settle_waiting(1)[OF Cons.prems(1) w] by (intro Cons.IH) simp_all
    have rej: "rejected_now ?c k q = rejected_now c k q" for k q by (simp add: rejected_now_def rejection_handled_def)
    have n: "wt_promise w < length (cl_promises c)" "cl_promises c ! wt_promise w = None"
      using Cons.prems(1) w by (auto simp: waiting_def)
    let ?c' = "fst (fold (settle_waiter oc) ws (?c, out @ rejected_now c (wt_promise w) r))"
    note p = settle_waiting(2)[OF Cons.prems(1) w, of r]
    have f: "filter (\<lambda>x. x \<notin> set ws \<or> oc x = None) (filter (\<lambda>x. wt_promise x \<noteq> wt_promise w) (cl_waiters c)) =
        filter (\<lambda>x. x \<notin> set (w # ws) \<or> oc x = None) (cl_waiters c)"
      using Some by (auto intro!: filter_cong dest: only)
    have keep: "cl_promises ?c' ! k = Some x" if "k < length (cl_promises c)" "cl_promises ?c ! k = Some x" for k x
      using IH that by (simp add: settled_by_def)
    have "settled_by oc (w # ws) c ?c'"
      unfolding settled_by_def
    proof (intro conjI ballI allI impI)
      show "waiting ?c'" "same_frame c ?c'" using IH by (simp_all add: settled_by_def same_frame_def)
      show "cl_waiters ?c' = filter (\<lambda>x. x \<notin> set (w # ws) \<or> oc x = None) (cl_waiters c)"
        using IH f by (simp add: settled_by_def)
      fix x q assume x: "x \<in> set (w # ws)" "oc x = Some q"
      show "cl_promises ?c' ! wt_promise x = Some q"
      proof (cases "x = w")
        case True
        then show ?thesis using keep[OF n(1)] x(2) Some p n by simp
      next
        case False
        then show ?thesis using IH x by (auto simp: settled_by_def)
      qed
    next
      fix k x assume k: "k < length (cl_promises c) \<and> cl_promises c ! k = Some x"
      then have "k \<noteq> wt_promise w" using n by auto
      then show "cl_promises ?c' ! k = Some x" using keep k p by simp
    qed
    then show ?thesis using IH Some by (simp add: settle_waiter_simps rej cong: option.case_cong)
  qed
qed

lemma settle_all_effect:
  assumes "waiting c" and "distinct (map wt_promise ws)" and "set ws \<subseteq> set (cl_waiters c)"
    and "settle_all oc ws c = (c', out)"
  shows "settled_by oc ws c c'"
    and "out = concat (map (\<lambda>w. case oc w of None \<Rightarrow> [] | Some r \<Rightarrow> rejected_now c (wt_promise w) r) ws)"
  using fold_settle[OF assms(1-3), of oc "[]"] assms(4) by (simp_all add: settle_all_def)

lemma dispatch_effect:
  assumes "waiting c" and "dispatchRPCEvent ev c = (c', out)"
  shows "settled_by (outcome_of ev) (cl_waiters c) c c'"
    and "out = concat (map (\<lambda>w. case outcome_of ev w of None \<Rightarrow> [] | Some r \<Rightarrow> rejected_now c (wt_promise w) r) (cl_waiters c))
      @ [ToTunnels ev]"
  using assms settle_all_effect[OF assms(1) _ subset_refl, of "outcome_of ev"]
  by (auto simp: dispatchRPCEvent_def waiting_def split: prod.splits)

lemma elapse_effect:
  assumes "waiting c" and "elapse d c = (c', out)"
  shows "settled_by (\<lambda>w. Some (Inl (timeout_error (wt_id w))))
    (sort_key wt_due (filter (\<lambda>w. wt_due w \<le> cl_now c + d) (cl_waiters c))) (c\<lparr>cl_now := cl_now c + d\<rparr>) c'"
proof -
  let ?ws = "sort_key wt_due (filter (\<lambda>w. wt_due w \<le> cl_now c + d) (cl_waiters c))"
  have "distinct (map wt_promise ?ws)"
    using assms(1) by (auto simp: waiting_def distinct_map intro: inj_on_subset)
  moreover have "waiting (c\<lparr>cl_now := cl_now c + d\<rparr>)" using assms(1) by (simp add: waiting_def)
  ultimately show ?thesis using assms(2) by (auto simp: elapse_def intro!: settle_all_effect(1))
qed

subsection \<open>Runs\<close>

text \<open>What a step may do to the promises: it settles some, for good, and makes new ones.\<close>

definition step_time :: "client_input \<Rightarrow> nat" where
  "step_time x = (case x of Elapse d \<Rightarrow> d | _ \<Rightarrow> 0)"

definition elapsed :: "client_input list \<Rightarrow> nat" where
  "elapsed xs = sum_list (map step_time xs)"

definition calls_ok :: "client \<Rightarrow> bool" where
  "calls_ok c \<longleftrightarrow> (\<forall>k \<in> fst ` set (cl_calls c). k < length (cl_promises c))"

definition progress :: "nat \<Rightarrow> client \<Rightarrow> client \<Rightarrow> bool" where
  "progress d c c' \<longleftrightarrow> waiting c' \<and> calls_ok c' \<and> cl_now c' = cl_now c + d \<and> length (cl_promises c) \<le> length (cl_promises c')
     \<and> (\<forall>w \<in> set (cl_waiters c'). cl_now c' < wt_due w \<and> (wt_promise w < length (cl_promises c) \<longrightarrow> w \<in> set (cl_waiters c)))
     \<and> (\<forall>n r. n < length (cl_promises c) \<and> cl_promises c ! n = Some r \<longrightarrow> cl_promises c' ! n = Some r)"

definition client_inv :: "client \<Rightarrow> bool" where
  "client_inv c \<longleftrightarrow> waiting c \<and> calls_ok c \<and> (\<forall>w \<in> set (cl_waiters c). cl_now c < wt_due w)"

lemma progress_refl: "client_inv c \<Longrightarrow> progress 0 c c"
  by (auto simp: progress_def client_inv_def)

lemma progress_inv: "progress d c c' \<Longrightarrow> client_inv c'"
  by (auto simp: progress_def client_inv_def)

lemma progress_trans: "progress d c c1 \<Longrightarrow> progress e c1 c2 \<Longrightarrow> progress (d + e) c c2"
  by (auto simp: progress_def)

lemma settled_by_progress: "settled_by oc ws c c' \<Longrightarrow> client_inv c \<Longrightarrow> progress 0 c c'"
  by (auto simp: settled_by_def progress_def same_frame_def client_inv_def calls_ok_def)

lemma dispatch_progress: "dispatchRPCEvent ev c = (c', out) \<Longrightarrow> client_inv c \<Longrightarrow> progress 0 c c'"
  using dispatch_effect(1) settled_by_progress by (metis client_inv_def)

lemma elapse_progress:
  assumes "elapse d c = (c', out)" and "client_inv c"
  shows "progress d c c'"
  using elapse_effect[OF _ assms(1)] assms(2)
  by (auto simp: settled_by_def progress_def same_frame_def client_inv_def calls_ok_def)

lemma waitForResponse_progress:
  assumes "waitForResponse i ms c = Inr (n, c')" and "client_inv c"
  shows "progress 0 c c' \<and> n = length (cl_promises c)
    \<and> \<lparr>wt_promise = n, wt_id = i, wt_due = cl_now c + timer_delay ms\<rparr> \<in> set (cl_waiters c') \<and> n < length (cl_promises c')"
proof -
  have c': "n = length (cl_promises c)" "c' = c\<lparr>cl_promises := cl_promises c @ [None],
      cl_waiters := cl_waiters c @ [\<lparr>wt_promise = n, wt_id = i, wt_due = cl_now c + timer_delay ms\<rparr>]\<rparr>"
    using assms(1) by (auto simp: waitForResponse_def Let_def split: if_splits)
  have due: "0 < timer_delay ms" by (simp add: timer_delay_def)
  have all: "\<And>k. k \<in> wt_promise ` set (cl_waiters c) \<longleftrightarrow> k < length (cl_promises c) \<and> cl_promises c ! k = None"
    using assms(2) by (simp add: client_inv_def waiting_def)
  then have "n \<notin> wt_promise ` set (cl_waiters c)" by (simp add: c'(1))
  moreover have "k \<in> wt_promise ` set (cl_waiters c') \<longleftrightarrow> k < length (cl_promises c') \<and> cl_promises c' ! k = None" for k
    using all[of k] by (auto simp: c' nth_append less_Suc_eq)
  ultimately have "waiting c'" using assms(2) by (simp add: waiting_def client_inv_def c'(2))
  then show ?thesis using assms(2) due
    by (auto simp: progress_def client_inv_def c' nth_append calls_ok_def)
qed

text \<open>Promises and waiters are all that \<open>progress\<close> looks at.\<close>

lemma progress_cong:
  "cl_promises c2 = cl_promises c1 \<Longrightarrow> cl_waiters c2 = cl_waiters c1 \<Longrightarrow> cl_now c2 = cl_now c1 \<Longrightarrow> calls_ok c2 \<Longrightarrow> progress d c c1 \<Longrightarrow> progress d c c2"
  "cl_promises b = cl_promises c \<Longrightarrow> cl_waiters b = cl_waiters c \<Longrightarrow> cl_now b = cl_now c \<Longrightarrow> progress d b c1 \<Longrightarrow> progress d c c1"
  by (auto simp: progress_def waiting_def)

lemma client_inv_cong:
  "cl_promises b = cl_promises c \<Longrightarrow> cl_waiters b = cl_waiters c \<Longrightarrow> cl_now b = cl_now c \<Longrightarrow> cl_calls b = cl_calls c
    \<Longrightarrow> client_inv b = client_inv c"
  by (auto simp: client_inv_def waiting_def calls_ok_def)

lemma dispatch_ready:
  "dispatchRPCEvent ev c = (c', out) \<Longrightarrow> client_inv c \<Longrightarrow> cl_ready c' = cl_ready c"
  using dispatch_effect(1)[of c ev c' out] by (auto simp: client_inv_def settled_by_def same_frame_def)

lemma handle_messages_progress:
  "handle_messages E ms c = (c', out) \<Longrightarrow> client_inv c \<Longrightarrow> progress 0 c c'"
proof (induction E ms c arbitrary: c' out rule: handle_messages.induct)
  case (1 E c)
  then show ?case by (simp add: progress_refl)
next
  case (2 E m ms c)
  show ?case
  proof (cases "handleMessage (clv_json E) (cl_isInitialised c) m")
    case (Inl e)
    then show ?thesis using 2 by (simp add: progress_refl)
  next
    case (Inr h)
    show ?thesis
    proof (cases h)
      case (Dispatch ev)
      obtain c1 out1 where d: "dispatchRPCEvent ev c = (c1, out1)" by fastforce
      then have p: "progress 0 c c1" using dispatch_progress "2.prems"(2) by blast
      obtain c2 out2 where r: "handle_messages E ms c1 = (c2, out2)" by fastforce
      have "c' = c1 \<or> c' = c2" using "2.prems"(1) Inr Dispatch d r by (cases ev) auto
      moreover have "progress 0 c1 c2" if "\<forall>i t v. ev \<noteq> RpcRequestEvent i t v"
        using that "2.IH"(1-4) Inr Dispatch d r progress_inv[OF p] by (cases ev) auto
      moreover have "c' = c1" if "ev = RpcRequestEvent i t v" for i t v using that "2.prems"(1) Inr Dispatch d by simp
      ultimately show ?thesis using p progress_trans[OF p] by (metis add_0)
    next
      case (Refuse i)
      then show ?thesis using 2 Inr by (auto split: prod.splits)
    next
      case Unhandled
      then show ?thesis using 2 Inr by auto
    qed
  qed
qed

lemma rpc_progress:
  assumes "rpc i newId t v ms c = (r, c', out)" and "client_inv c"
  shows "progress 0 c c'"
proof (cases "waitForResponse i ms c")
  case (Inl e)
  then show ?thesis using assms by (simp add: rpc_def progress_refl)
next
  case (Inr p)
  obtain n c1 where p: "p = (n, c1)" by fastforce
  have "progress 0 c c1" "n < length (cl_promises c1)" using waitForResponse_progress[of i ms c n c1] Inr p assms(2) by simp_all
  moreover from this have "calls_ok c1" by (simp add: progress_def)
  moreover have "cl_promises c' = cl_promises c1 \<and> cl_waiters c' = cl_waiters c1 \<and> cl_now c' = cl_now c1
      \<and> (\<exists>phase. cl_calls c' = cl_calls c1 @ [(n, phase)])"
    using assms(1) Inr p by (auto simp: rpc_def split: sum.splits)
  ultimately show ?thesis using progress_cong(1)[of c' c1] by (auto simp: calls_ok_def)
qed

lemma terminate_progress:
  assumes "terminateConnection E fresh e c = (c', out)" and "client_inv c"
  shows "progress 0 c c'"
proof (cases "isClosed c")
  case True
  then show ?thesis using assms by (simp add: terminateConnection_def progress_refl)
next
  case False
  obtain c1 out1 where d: "dispatchRPCEvent (ConnectionTerminated (case e of Some x \<Rightarrow> fromError x
      | None \<Rightarrow> AttestorError ERROR_NO_ERROR [] None)) c = (c1, out1)" by fastforce
  then have "c' = c1\<lparr>cl_ready := Closing\<rparr>" using assms(1) False by (auto simp: terminateConnection_def Let_def)
  then show ?thesis using dispatch_progress[OF d assms(2)] progress_cong(1)[of c' c1 0 c] by (auto simp: calls_ok_def progress_def waiting_def)
qed

lemma client_step_progress:
  assumes "client_step E x c = (c', out)" and "client_inv c"
  shows "progress (step_time x) c c'"
proof (cases x)
  case SocketOpened
  then show ?thesis using assms progress_cong(1)[OF _ _ _ _ progress_refl[OF assms(2)]]
    by (auto simp: step_time_def calls_ok_def client_inv_def)
next
  case (SocketError e)
  then show ?thesis using assms dispatch_progress by (simp add: step_time_def)
next
  case SocketClosed
  have "client_inv (c\<lparr>cl_ready := Closed\<rparr>)" using assms(2) client_inv_cong[of "c\<lparr>cl_ready := Closed\<rparr>" c] by simp
  then have "progress 0 (c\<lparr>cl_ready := Closed\<rparr>) c'" using assms(1) SocketClosed dispatch_progress by simp
  then show ?thesis using progress_cong(2)[of "c\<lparr>cl_ready := Closed\<rparr>" c] SocketClosed by (simp add: step_time_def)
next
  case (PacketArrived d)
  then show ?thesis using assms handle_messages_progress
    by (auto simp: step_time_def wsMessageHandler_def progress_refl split: sum.splits)
next
  case (Elapse d)
  then show ?thesis using assms elapse_progress by (simp add: step_time_def)
next
  case (Wait i ms)
  then show ?thesis using assms waitForResponse_progress
    by (auto simp: step_time_def progress_refl split: sum.splits prod.splits)
next
  case (CallRpc i newId t v ms)
  obtain r where "rpc i newId t v ms c = (r, c', out)" using assms(1) CallRpc by (cases "rpc i newId t v ms c") simp
  then show ?thesis using rpc_progress assms(2) CallRpc by (simp add: step_time_def)
next
  case (SendDone n e)
  then show ?thesis using assms progress_cong(1)[OF _ _ _ _ progress_refl[OF assms(2)], of c']
    by (force simp: step_time_def send_done_def calls_ok_def client_inv_def)
next
  case (Terminate fresh e)
  then show ?thesis using assms terminate_progress by (simp add: step_time_def)
qed

interpretation client: graded_machine "client_step E" client_inv step_time progress for E
  using client_step_progress progress_inv progress_refl progress_trans by unfold_locales blast+

lemma client_run_progress: "client_run E xs c = (c', out) \<Longrightarrow> client_inv c \<Longrightarrow> progress (elapsed xs) c c'"
  unfolding elapsed_def by (rule client.run_prog)

lemma new_client_inv: "client_inv (new_client now i)"
  by (auto simp: client_inv_def waiting_def calls_ok_def new_client_def timer_delay_def DEFAULT_RPC_TIMEOUT_MS_def)

lemma reached_inv: "client_run E xs (new_client now i) = (c, out) \<Longrightarrow> client_inv c"
  using client.run_inv new_client_inv by blast

subsection \<open>Properties\<close>

text \<open>C10: Every wait for a response ends: once the timeout has passed its promise is settled and its
  listeners are gone, whatever happens in between, in every state a client can reach.\<close>

theorem every_wait_settles:
  assumes "client_run E before (new_client now initReqId) = (c0, out0)" and "waitForResponse i timeoutMs c0 = Inr (n, c)"
    and "client_run E after c = (c', out)" and "timer_delay timeoutMs \<le> elapsed after"
  shows "\<exists>r. cl_promises c' ! n = Some r \<and> n \<notin> wt_promise ` set (cl_waiters c')"
proof -
  have w: "progress 0 c0 c" "\<lparr>wt_promise = n, wt_id = i, wt_due = cl_now c0 + timer_delay timeoutMs\<rparr> \<in> set (cl_waiters c)"
    "n < length (cl_promises c)"
    using waitForResponse_progress[OF assms(2) reached_inv[OF assms(1)]] by auto
  then have inv: "client_inv c" using progress_inv by blast
  have p: "progress (elapsed after) c c'" by (rule client_run_progress[OF assms(3) inv])
  have "n \<notin> wt_promise ` set (cl_waiters c')"
  proof
    assume "n \<in> wt_promise ` set (cl_waiters c')"
    then obtain w' where w': "w' \<in> set (cl_waiters c')" "wt_promise w' = n" by auto
    then have "w' \<in> set (cl_waiters c)" "cl_now c' < wt_due w'" using p w(3) by (auto simp: progress_def)
    have "inj_on wt_promise (set (cl_waiters c))" using inv by (simp add: client_inv_def waiting_def distinct_map)
    then have "w' = \<lparr>wt_promise = n, wt_id = i, wt_due = cl_now c0 + timer_delay timeoutMs\<rparr>"
      using \<open>w' \<in> set (cl_waiters c)\<close> w(2) w'(2) by (metis inj_onD waiter.select_convs(1))
    then show False using \<open>cl_now c' < wt_due w'\<close> p w(1) assms(4) by (simp add: progress_def)
  qed
  then show ?thesis using p w(3) by (auto simp: progress_def waiting_def)
qed

text \<open>In every state a client can reach, a promise is pending exactly when it has one waiter, whose
  timer is still to fire, so that no listener outlives its promise; and an outcome is final.\<close>

theorem promises_invariant:
  assumes "client_run E before (new_client now initReqId) = (c, out)"
  shows "distinct (map wt_promise (cl_waiters c))
    \<and> (\<forall>n < length (cl_promises c). cl_promises c ! n = None \<longleftrightarrow> n \<in> wt_promise ` set (cl_waiters c))
    \<and> (\<forall>w \<in> set (cl_waiters c). wt_promise w < length (cl_promises c) \<and> cl_now c < wt_due w)
    \<and> (\<forall>after n r. n < length (cl_promises c) \<and> cl_promises c ! n = Some r
        \<longrightarrow> cl_promises (fst (client_run E after c)) ! n = Some r)"
proof -
  have inv: "client_inv c" using reached_inv[OF assms] .
  have keep: "cl_promises (fst (client_run E after c)) ! n = Some r"
    if "n < length (cl_promises c)" "cl_promises c ! n = Some r" for after n r
    using client_run_progress[OF _ inv, of E after] that by (cases "client_run E after c") (auto simp: progress_def)
  have w: "wt_promise w < length (cl_promises c)" if "w \<in> set (cl_waiters c)" for w
    using inv that by (auto simp: client_inv_def waiting_def)
  show ?thesis using inv keep w by (auto simp: client_inv_def waiting_def)
qed

lemma unhandled_rejection:
  assumes "waiting c" and "distinct (map wt_promise ws)" and "set ws \<subseteq> set (cl_waiters c)" and "settle_all oc ws c = (c', out)"
    and "w \<in> set ws" and "oc w = Some (Inl e)" and "\<not> rejection_handled c (wt_promise w)"
  shows "UnhandledRejection (wt_promise w) \<in> set out"
  unfolding settle_all_effect(2)[OF assms(1-4)] using assms(5-7) by (force simp: rejected_now_def)

text \<open>An \<open>rpc\<close> call whose message could not be sent leaves its promise behind with its listeners: the
  caller gets the error of the send, and when the websocket fails later the promise is rejected with
  nobody to handle it.\<close>

theorem failed_send_leaves_promise:
  assumes "client_run E before (new_client now initReqId) = (c0, out0)" and "cl_ready c0 = Connecting"
    and "rpc i newId type request timeoutMs c0 = (call, c, out)" and "client_step E (SocketError e) c = (c', out')"
  shows "\<exists>n err. call = Inr n \<and> rpc_result c n = Some (Inl err) \<and> n \<in> wt_promise ` set (cl_waiters c)
    \<and> UnhandledRejection n \<in> set out'"
proof -
  have inv: "client_inv c0" using reached_inv[OF assms(1)] .
  obtain n c1 where w: "waitForResponse i timeoutMs c0 = Inr (n, c1)"
    using assms(2) by (simp add: waitForResponse_def isClosed_def Let_def)
  have p: "n = length (cl_promises c0)" "n \<in> wt_promise ` set (cl_waiters c1)"
    using waitForResponse_progress[OF w inv] by force+
  have "cl_ready c1 = Connecting" "cl_calls c1 = cl_calls c0" using w assms(2) by (auto simp: waitForResponse_def Let_def split: if_splits)
  then obtain err where c: "call = Inr n" "c = c1\<lparr>cl_calls := cl_calls c0 @ [(n, CallFailed err)]\<rparr>"
    using assms(3) w by (auto simp: rpc_def sendMessage_def isClosed_def)
  have "n \<notin> fst ` set (cl_calls c0)" using inv p(1) by (auto simp: client_inv_def calls_ok_def)
  then have "map_of (cl_calls c0) n = None" by (simp add: map_of_eq_None_iff)
  then have call: "map_of (cl_calls c) n = Some (CallFailed err)" by (simp add: c map_add_def)
  have wc: "waiting c" using progress_inv[OF rpc_progress[OF assms(3) inv]] by (simp add: client_inv_def)
  obtain w' where w': "w' \<in> set (cl_waiters c)" "wt_promise w' = n" using p(2) c(2) by auto
  have "\<not> rejection_handled c n" by (simp add: rejection_handled_def call)
  then have "UnhandledRejection n \<in> set out'"
    using dispatch_effect(2)[OF wc, of "ConnectionTerminated (network_error e)" c' out'] assms(4) w'
    by (force simp: outcome_of_def rejected_now_def)
  then show ?thesis using c(1) call w' by (auto simp: rpc_result_def)
qed

subsection \<open>Witnesses\<close>

definition ref_client_env :: client_env where
  "ref_client_env = \<lparr>clv_tls = tls_ref, clv_json = \<lparr>JSON_parse = (\<lambda>_. None), JSON_stringify = (\<lambda>_. [])\<rparr>,
     decode_RPCMessages = (\<lambda>b. if b = [] then Inr [] else Inr [refusal \<lparr>JSON_parse = (\<lambda>_. None), JSON_stringify = (\<lambda>_. [])\<rparr> (uint (hd b))])\<rparr>"

theorem every_wait_settles_witness:
  "\<exists>n c. waitForResponse 5 1000 (fst (client_run ref_client_env [SocketOpened] (new_client 0 7))) = Inr (n, c)
    \<and> (\<exists>r. cl_promises (fst (client_run ref_client_env [Elapse 400, Elapse 700] c)) ! n = Some r)"
proof -
  let ?E = ref_client_env
  obtain c0 out0 where r: "client_run ?E [SocketOpened] (new_client 0 7) = (c0, out0)" by fastforce
  then have "cl_ready c0 = Open" by (auto simp: new_client_def)
  then obtain n c where w: "waitForResponse 5 1000 c0 = Inr (n, c)" by (simp add: waitForResponse_def isClosed_def Let_def)
  obtain c' out' where a: "client_run ?E [Elapse 400, Elapse 700] c = (c', out')" by fastforce
  have "timer_delay 1000 \<le> elapsed [Elapse 400, Elapse 700]" by (simp add: timer_delay_def elapsed_def step_time_def)
  then show ?thesis using every_wait_settles[OF r w a] r w a by auto
qed

theorem promises_invariant_witness:
  "let c = fst (client_run ref_client_env [SocketOpened, CallRpc 5 0 (js ''toprf'') VEmpty 1000] (new_client 0 7))
   in length (cl_promises c) = 2 \<and> (\<forall>w \<in> set (cl_waiters c). cl_now c < wt_due w)"
proof -
  obtain c out where r: "client_run ref_client_env [SocketOpened, CallRpc 5 0 (js ''toprf'') VEmpty 1000] (new_client 0 7) = (c, out)"
    by fastforce
  then have "length (cl_promises c) = 2"
    by (auto simp: new_client_def rpc_def waitForResponse_def isClosed_def sendMessage_def Let_def)
  then show ?thesis using promises_invariant[OF r] r by simp
qed

theorem failed_send_leaves_promise_witness:
  "\<exists>n c. fst (rpc 5 0 (js ''toprf'') VEmpty 1000 (new_client 0 7)) = Inr n \<and> c = fst (snd (rpc 5 0 (js ''toprf'') VEmpty 1000 (new_client 0 7)))
    \<and> UnhandledRejection n \<in> set (snd (client_step ref_client_env (SocketError (PlainError ''connection refused'')) c))"
proof -
  have b: "client_run ref_client_env [] (new_client 0 7) = (new_client 0 7, [])" "cl_ready (new_client 0 7) = Connecting"
    by (simp_all add: new_client_def)
  obtain call c out where r: "rpc 5 0 (js ''toprf'') VEmpty 1000 (new_client 0 7) = (call, c, out)"
    by (cases "rpc 5 0 (js ''toprf'') VEmpty 1000 (new_client 0 7)") auto
  obtain c' out' where st: "client_step ref_client_env (SocketError (PlainError ''connection refused'')) c = (c', out')" by fastforce
  show ?thesis using failed_send_leaves_promise[OF b r st] r st by auto
qed

end
