(* ===== verification/Rpc_Calls.thy ===== *)
theory Rpc_Calls
  imports Session Client_Socket
begin

text \<open>
  A call over both sides: the client's \<open>rpc\<close> (\<open>Client_Socket\<close>) meets the request handler of the
  attestor (\<open>Session\<close>). The codec between them is what the packets of the answer decode to.
\<close>

text \<open>An answer that survives the wire: an error needs a code and data that JSON can carry.\<close>

definition survives_wire :: "json_lib \<Rightarrow> js_error + rpc_value \<Rightarrow> bool" where
  "survives_wire J rsp \<longleftrightarrow>
     (\<forall>e. rsp = Inl e \<longrightarrow> ae_code (fromError e) \<noteq> None \<and> (\<forall>d. ae_data (fromError e) = Some d \<longrightarrow> json_roundtrip J d))"

definition client_result :: "js_error + rpc_value \<Rightarrow> js_error + rpc_value option" where
  "client_result rsp = (case rsp of Inl e \<Rightarrow> Inl (AttestorErr (fromError e)) | Inr v \<Rightarrow> Inr (Some v))"

lemma answer_dispatched:
  assumes "survives_wire J rsp" and "t \<noteq> js ''error''" and "sv_json V = J"
    and "respond V s i t rsp = [SendMessage r]"
  shows "\<exists>a. handleMessage J b r = Inr (Dispatch (RpcResponseEvent i a))
    \<and> client_result rsp = (case a of Inl e \<Rightarrow> Inl (AttestorErr e) | Inr (_, v) \<Rightarrow> Inr v)"
proof (cases rsp)
  case (Inl e)
  then have r: "r = \<lparr>rpc_id = i, rpc_members = [(js ''requestError'', VError (toProto J (fromError e)))]\<rparr>"
    using assms(3,4) by (auto simp: respond_def send_def split: if_splits)
  obtain c where "ae_code (fromError e) = Some c" using assms(1) Inl by (auto simp: survives_wire_def)
  then have "fromProto J (Some (toProto J (fromError e))) = Inr (fromError e)"
    using assms(1) Inl by (intro fromProto_toProto) (auto simp: survives_wire_def)
  then show ?thesis by (simp add: r request_error_dispatched Inl client_result_def)
next
  case (Inr v)
  then have "r = \<lparr>rpc_id = i, rpc_members = [(getRpcResponseType t, v)]\<rparr>"
    using assms(4) by (auto simp: respond_def send_def split: if_splits)
  then show ?thesis using response_dispatched[OF assms(2)] by (simp add: Inr client_result_def)
qed

text \<open>An answer that arrives after the send of its call is the result of the call.\<close>

lemma response_is_result:
  assumes "client_inv c0" and "cl_ready c0 = Open" and "rpc i newId t v ms c0 = (Inr n, c1, out)"
    and "handleMessage (clv_json E) (cl_isInitialised c1) r = Inr (Dispatch (RpcResponseEvent i a))"
    and "decode_RPCMessages E bts = Inr [r]"
  shows "rpc_result (fst (client_run E [SendDone n None, PacketArrived (WsArrayBuffer bts)] c1)) n =
    Some (case a of Inl e \<Rightarrow> Inl (AttestorErr e) | Inr (_, v) \<Rightarrow> Inr v)"
proof -
  obtain c' where w: "waitForResponse i ms c0 = Inr (n, c')"
    using assms(2,3) by (auto simp: rpc_def split: sum.splits prod.splits)
  have wp: "n = length (cl_promises c0)" "n < length (cl_promises c')"
    "\<lparr>wt_promise = n, wt_id = i, wt_due = cl_now c0 + timer_delay ms\<rparr> \<in> set (cl_waiters c')"
    using waitForResponse_progress[OF w assms(1)] by auto
  have c': "cl_calls c' = cl_calls c0" "cl_ready c' = Open" using w assms(2) by (auto simp: waitForResponse_def Let_def split: if_splits)
  then have c1: "c1 = c'\<lparr>cl_calls := cl_calls c0 @ [(n, Sending)]\<rparr>"
    using assms(3) w by (auto simp: rpc_def sendMessage_def isClosed_def)
  let ?c = "send_done n None c1"
  have new: "n \<notin> fst ` set (cl_calls c0)" using assms(1) wp(1) by (auto simp: client_inv_def calls_ok_def)
  have "map_of (map (\<lambda>(k, phase). (k, f k phase)) xs) n = None" if "n \<notin> fst ` set xs"
    for f :: "nat \<Rightarrow> call_phase \<Rightarrow> call_phase" and xs :: "(nat \<times> call_phase) list"
    using that by (induction xs) auto
  then have call: "map_of (cl_calls ?c) n = Some Awaiting" using new by (simp add: send_done_def c1 map_add_def)
  have "client_inv ?c"
    using progress_inv[OF client_step_progress[of E "SendDone n None" c1 ?c "[]"]] progress_inv[OF rpc_progress[OF assms(3,1)]] by simp
  then have "waiting ?c" by (simp add: client_inv_def)
  obtain c2 out2 where d: "dispatchRPCEvent (RpcResponseEvent i a) ?c = (c2, out2)" by fastforce
  then have s: "settled_by (outcome_of (RpcResponseEvent i a)) (cl_waiters ?c) ?c c2" using \<open>waiting ?c\<close> dispatch_effect(1) by blast
  have "cl_waiters ?c = cl_waiters c'" "cl_promises ?c = cl_promises c'" by (simp_all add: send_done_def c1)
  then have "cl_promises c2 ! n = Some (case a of Inl e \<Rightarrow> Inl e | Inr (_, v) \<Rightarrow> Inr v)" "n < length (cl_promises c2)"
    "map_of (cl_calls c2) n = Some Awaiting"
    using s wp(2,3) call by (force simp: settled_by_def same_frame_def outcome_of_def)+
  then have "rpc_result c2 n = Some (case a of Inl e \<Rightarrow> Inl (AttestorErr e) | Inr (_, v) \<Rightarrow> Inr v)"
    by (auto simp: rpc_result_def js_get_def split: sum.splits prod.splits)
  moreover have "cl_isInitialised ?c = cl_isInitialised c1" by (simp add: send_done_def)
  ultimately show ?thesis using d assms(4,5) by (simp add: wsMessageHandler_def extractArrayBufferFromWsData_def)
qed

text \<open>Every request but \<open>createTunnel\<close> is answered in the step that handles it.\<close>

lemma handler_answers:
  assumes "t \<noteq> js ''createTunnel''"
  shows "\<exists>s' es0 rsp. handleRpcRequest V now i t data s = answer V i t (s', es0, rsp)"
proof -
  have "\<exists>r. rpc_handler V now i t data s = settled r"
    unfolding rpc_handler_def if_not_P[OF assms] by (rule exI) (rule refl)
  then obtain s' es0 rsp where "rpc_handler V now i t data s = (s', es0, Some rsp)"
    by (auto simp: settled_def split: prod.splits)
  then show ?thesis by (auto simp: handleRpcRequest_def)
qed


text \<open>The attestor does not know the tunnel that the client asks it to disconnect.\<close>

definition not_found :: js_error where
  "not_found = throwAttestor ERROR_NOT_FOUND ''Tunnel not found''"

definition answering_env :: client_env where
  "answering_env = ref_client_env\<lparr>clv_json := sv_json ref_server, decode_RPCMessages := (\<lambda>_. Inr
     [\<lparr>rpc_id = 5, rpc_members = [(js ''requestError'', VError (toProto (sv_json ref_server) (fromError not_found)))]\<rparr>])\<rparr>"


end
