(* ===== verification/Client_Tunnels.thy ===== *)
theory Client_Tunnels
  imports Machine Message_Handler Http_Templates
begin

text \<open>
  The client's ends of a tunnel: the TCP tunnel over RPC
  (\<open>src/client/tunnels/make-rpc-tcp-tunnel.ts\<close>) and the TLS tunnel on top of it
  (\<open>src/client/tunnels/make-rpc-tls-tunnel.ts\<close>).

  Both are state machines whose steps return the calls they make as effects. The TLS client of the
  package calls back with the packets it writes and has read (\<open>WritePacket\<close>, \<open>ReadPacket\<close>), the end of
  the handshake, application data and its end; what goes to it are the received bytes and the end of
  the connection. \<open>Connected\<close> is the end of the \<open>await\<close> on \<open>connect\<close>, \<open>CreateFailed\<close> the rejection of the
  \<open>createTunnel\<close> request. The callbacks are not re-entered. Logging is left out.
\<close>

subsection \<open>The TCP tunnel\<close>

record rpc_tunnel =
  rt_tunnelId :: int
  rt_listening :: bool
  rt_onClose :: bool
  rt_closed :: bool

datatype rpc_tunnel_effect =
    TunnelData bytes
  | TunnelClosed "js_error option"
  | SendToServer jsstring rpc_value
  | DisconnectRpc int

definition makeRpcTcpTunnel :: "int \<Rightarrow> rpc_tunnel" where
  "makeRpcTcpTunnel i = \<lparr>rt_tunnelId = i, rt_listening = True, rt_onClose = True, rt_closed = False\<rparr>"

definition onErrorRecv :: "js_error option \<Rightarrow> rpc_tunnel \<Rightarrow> rpc_tunnel \<times> rpc_tunnel_effect list" where
  "onErrorRecv err t =
     (t\<lparr>rt_listening := False, rt_onClose := False, rt_closed := True\<rparr>, if rt_onClose t then [TunnelClosed err] else [])"

definition onMessageListener :: "int \<Rightarrow> bytes \<Rightarrow> rpc_tunnel \<Rightarrow> rpc_tunnel \<times> rpc_tunnel_effect list" where
  "onMessageListener i m t = (t, if i \<noteq> rt_tunnelId t then [] else [TunnelData m])"

text \<open>An error whose data cannot be parsed makes the listener throw, and nothing happens.\<close>

definition onDisconnectListener ::
  "json_lib \<Rightarrow> int \<Rightarrow> ErrorData option \<Rightarrow> rpc_tunnel \<Rightarrow> rpc_tunnel \<times> rpc_tunnel_effect list" where
  "onDisconnectListener J i err t =
     (if i \<noteq> rt_tunnelId t then (t, [])
      else
        (case err of
           None \<Rightarrow> onErrorRecv None t
         | Some d \<Rightarrow>
             if ed_code d = 0 then onErrorRecv None t
             else
               (case fromProto J (Some d) of
                  Inl _ \<Rightarrow> (t, [])
                | Inr e \<Rightarrow> onErrorRecv (Some (AttestorErr e)) t)))"

definition onConnectionTerminatedListener :: "attestor_error \<Rightarrow> rpc_tunnel \<Rightarrow> rpc_tunnel \<times> rpc_tunnel_effect list" where
  "onConnectionTerminatedListener e t = onErrorRecv (Some (AttestorErr e)) t"

definition on_rpc_event :: "json_lib \<Rightarrow> rpc_event \<Rightarrow> rpc_tunnel \<Rightarrow> rpc_tunnel \<times> rpc_tunnel_effect list" where
  "on_rpc_event J ev t =
     (if \<not> rt_listening t then (t, [])
      else
        (case ev of
           TunnelMessageEvent i m \<Rightarrow> onMessageListener i m t
         | TunnelDisconnectEvent i err \<Rightarrow> onDisconnectListener J i err t
         | ConnectionTerminated e \<Rightarrow> onConnectionTerminatedListener e t
         | _ \<Rightarrow> (t, [])))"

definition rpc_tunnel_write :: "bytes \<Rightarrow> rpc_tunnel \<Rightarrow> rpc_tunnel \<times> rpc_tunnel_effect list" where
  "rpc_tunnel_write m t = (t, [SendToServer (js ''tunnelMessage'') (VTunnelMessage (rt_tunnelId t) m)])"

definition rpc_tunnel_close :: "js_error option \<Rightarrow> rpc_tunnel \<Rightarrow> rpc_tunnel \<times> rpc_tunnel_effect list" where
  "rpc_tunnel_close err t =
     (if rt_closed t then (t, [])
      else (let (t', es) = onErrorRecv err t in (t', es @ [DisconnectRpc (rt_tunnelId t)])))"

datatype rpc_tunnel_input = FromClient rpc_event | WriteCall bytes | CloseTcp "js_error option"

fun rpc_tunnel_step :: "json_lib \<Rightarrow> rpc_tunnel_input \<Rightarrow> rpc_tunnel \<Rightarrow> rpc_tunnel \<times> rpc_tunnel_effect list" where
  "rpc_tunnel_step J (FromClient ev) t = on_rpc_event J ev t"
| "rpc_tunnel_step J (WriteCall m) t = rpc_tunnel_write m t"
| "rpc_tunnel_step J (CloseTcp err) t = rpc_tunnel_close err t"

abbreviation rpc_tunnel_run :: "json_lib \<Rightarrow> rpc_tunnel_input list \<Rightarrow> rpc_tunnel \<Rightarrow> rpc_tunnel \<times> rpc_tunnel_effect list" where
  "rpc_tunnel_run J \<equiv> run_steps (rpc_tunnel_step J)"

subsection \<open>The TLS tunnel\<close>

record rpc_tls_tunnel =
  tr_request :: CreateTunnelRequest
  tr_transcript :: "CompleteTLSPacket Transcript"
  tr_tcp :: "rpc_tunnel option"
  tr_onClose :: bool
  tr_handshake :: "(js_error + unit) option"

datatype tls_tunnel_effect =
    Connect "(jsstring \<times> rpc_value) list"
  | ToServer jsstring rpc_value
  | Disconnect int
  | HandleReceivedBytes bytes
  | EndTls "js_error option"
  | WriteTls bytes
  | AppData bytes
  | Ended "js_error option"

definition new_tls_tunnel :: "CreateTunnelRequest \<Rightarrow> rpc_tls_tunnel" where
  "new_tls_tunnel q = \<lparr>tr_request = q, tr_transcript = [], tr_tcp = None, tr_onClose = True, tr_handshake = None\<rparr>"

text \<open>\<open>onClose\<close> is called once; a pending handshake is rejected.\<close>

definition onConnectionClose :: "js_error option \<Rightarrow> rpc_tls_tunnel \<Rightarrow> rpc_tls_tunnel \<times> tls_tunnel_effect list" where
  "onConnectionClose err t =
     (t\<lparr>tr_onClose := False,
        tr_handshake := (case tr_handshake t of
           None \<Rightarrow> Some (Inl (case err of Some e \<Rightarrow> e | None \<Rightarrow> PlainError ''TLS connection closed''))
         | Some r \<Rightarrow> Some r)\<rparr>,
      if tr_onClose t then [Ended err] else [])"

text \<open>Calls of the TCP tunnel: its \<open>onMessage\<close> and \<open>onClose\<close> go to the TLS client.\<close>

fun tcp_effect :: "rpc_tunnel_effect \<Rightarrow> tls_tunnel_effect" where
  "tcp_effect (TunnelData m) = HandleReceivedBytes m"
| "tcp_effect (TunnelClosed err) = EndTls err"
| "tcp_effect (SendToServer k v) = ToServer k v"
| "tcp_effect (DisconnectRpc i) = Disconnect i"

definition on_tcp :: "(rpc_tunnel \<Rightarrow> rpc_tunnel \<times> rpc_tunnel_effect list) \<Rightarrow> rpc_tls_tunnel \<Rightarrow> rpc_tls_tunnel \<times> tls_tunnel_effect list" where
  "on_tcp f t =
     (case tr_tcp t of
        None \<Rightarrow> (t, [])
      | Some tcp \<Rightarrow> (let (tcp', es) = f tcp in (t\<lparr>tr_tcp := Some tcp'\<rparr>, map tcp_effect es)))"

definition connect_messages :: "CreateTunnelRequest \<Rightarrow> bytes \<Rightarrow> (jsstring \<times> rpc_value) list" where
  "connect_messages q message =
     [(js ''createTunnelRequest'', VCreateTunnel (q\<lparr>ct_port := (if ct_port q = 0 then DEFAULT_HTTPS_PORT else ct_port q)\<rparr>)),
      (js ''tunnelMessage'', VTunnelMessage (ct_id q) message)]"

definition write_packet :: "tls_pkg \<Rightarrow> bytes \<Rightarrow> bytes \<Rightarrow> CompleteTLSPacket \<Rightarrow> rpc_tls_tunnel \<Rightarrow> rpc_tls_tunnel \<times> tls_tunnel_effect list" where
  "write_packet L header content ctx t =
     (let message = concatenateUint8Arrays L [header, content];
          t1 = t\<lparr>tr_transcript := tr_transcript t @ [(Client, ctx\<lparr>pkt_data := message\<rparr>)]\<rparr>
      in case tr_tcp t1 of
           None \<Rightarrow> (t1, [Connect (connect_messages (tr_request t) message)])
         | Some _ \<Rightarrow> on_tcp (rpc_tunnel_write message) t1)"

definition read_packet :: "tls_pkg \<Rightarrow> bytes \<Rightarrow> bytes \<Rightarrow> CompleteTLSPacket \<Rightarrow> rpc_tls_tunnel \<Rightarrow> rpc_tls_tunnel" where
  "read_packet L header content ctx t =
     t\<lparr>tr_transcript := tr_transcript t @
        [(Server, ctx\<lparr>pkt_data := concatenateUint8Arrays L
            [header, if pkt_type ctx = CiphertextPacket then pkt_ciphertext ctx else content]\<rparr>)]\<rparr>"

definition close_tls_tunnel :: "js_error option \<Rightarrow> rpc_tls_tunnel \<Rightarrow> rpc_tls_tunnel \<times> tls_tunnel_effect list" where
  "close_tls_tunnel err t =
     (let (t1, es1) = onConnectionClose err t; (t2, es2) = on_tcp (rpc_tunnel_close err) t1 in (t2, es1 @ es2))"

datatype tls_tunnel_input =
    WritePacket bytes bytes CompleteTLSPacket
  | ReadPacket bytes bytes CompleteTLSPacket
  | ClientConnected
  | CreateFailed js_error
  | HandshakeDone
  | ApplicationData bytes
  | TlsEnded "js_error option"
  | TunnelEvent rpc_event
  | WriteData bytes
  | CloseTls "js_error option"

fun tls_tunnel_step :: "tls_pkg \<Rightarrow> json_lib \<Rightarrow> tls_tunnel_input \<Rightarrow> rpc_tls_tunnel \<Rightarrow> rpc_tls_tunnel \<times> tls_tunnel_effect list" where
  "tls_tunnel_step L J (WritePacket header content ctx) t = write_packet L header content ctx t"
| "tls_tunnel_step L J (ReadPacket header content ctx) t = (read_packet L header content ctx t, [])"
| "tls_tunnel_step L J ClientConnected t = (t\<lparr>tr_tcp := Some (makeRpcTcpTunnel (ct_id (tr_request t)))\<rparr>, [])"
| "tls_tunnel_step L J (CreateFailed err) t = onConnectionClose (Some err) t"
| "tls_tunnel_step L J HandshakeDone t =
     (t\<lparr>tr_handshake := (case tr_handshake t of None \<Rightarrow> Some (Inr ()) | Some r \<Rightarrow> Some r)\<rparr>, [])"
| "tls_tunnel_step L J (ApplicationData m) t = (t, [AppData m])"
| "tls_tunnel_step L J (TlsEnded err) t = onConnectionClose err t"
| "tls_tunnel_step L J (TunnelEvent ev) t = on_tcp (on_rpc_event J ev) t"
| "tls_tunnel_step L J (WriteData d) t = (t, [WriteTls d])"
| "tls_tunnel_step L J (CloseTls err) t = close_tls_tunnel err t"

abbreviation tls_tunnel_run ::
  "tls_pkg \<Rightarrow> json_lib \<Rightarrow> tls_tunnel_input list \<Rightarrow> rpc_tls_tunnel \<Rightarrow> rpc_tls_tunnel \<times> tls_tunnel_effect list" where
  "tls_tunnel_run L J \<equiv> run_steps (tls_tunnel_step L J)"

subsection \<open>What a TCP tunnel delivers\<close>

text \<open>The specification: the messages for the tunnel, up to the first event that ends it.\<close>

definition ends_tunnel :: "json_lib \<Rightarrow> int \<Rightarrow> rpc_tunnel_input \<Rightarrow> bool" where
  "ends_tunnel J i x \<longleftrightarrow>
     (case x of
        CloseTcp _ \<Rightarrow> True
      | FromClient (ConnectionTerminated _) \<Rightarrow> True
      | FromClient (TunnelDisconnectEvent j d) \<Rightarrow> j = i
          \<and> (case d of None \<Rightarrow> True | Some d \<Rightarrow> ed_code d = 0 \<or> is_ok (fromProto J (Some d)))
      | _ \<Rightarrow> False)"

fun tunnel_messages :: "int \<Rightarrow> rpc_tunnel_input list \<Rightarrow> bytes list" where
  "tunnel_messages i [] = []"
| "tunnel_messages i (FromClient (TunnelMessageEvent j m) # xs) = (if j = i then m # tunnel_messages i xs else tunnel_messages i xs)"
| "tunnel_messages i (_ # xs) = tunnel_messages i xs"

definition data_of :: "rpc_tunnel_effect list \<Rightarrow> bytes list" where
  "data_of es = List.map_filter (\<lambda>e. case e of TunnelData m \<Rightarrow> Some m | _ \<Rightarrow> None) es"

definition closes_of :: "rpc_tunnel_effect list \<Rightarrow> js_error option list" where
  "closes_of es = List.map_filter (\<lambda>e. case e of TunnelClosed err \<Rightarrow> Some err | _ \<Rightarrow> None) es"

lemma effects_simps [simp]:
  "data_of [] = []" "closes_of [] = []"
  "data_of (es @ fs) = data_of es @ data_of fs" "closes_of (es @ fs) = closes_of es @ closes_of fs"
  "data_of (TunnelData m # es) = m # data_of es" "data_of (TunnelClosed x # es) = data_of es"
  "data_of (SendToServer k v # es) = data_of es" "data_of (DisconnectRpc i # es) = data_of es"
  "closes_of (TunnelData m # es) = closes_of es" "closes_of (TunnelClosed x # es) = x # closes_of es"
  "closes_of (SendToServer k v # es) = closes_of es" "closes_of (DisconnectRpc i # es) = closes_of es"
  by (simp_all add: data_of_def closes_of_def List.map_filter_simps List.map_filter_def)

definition closed_tunnel :: "int \<Rightarrow> rpc_tunnel" where
  "closed_tunnel i = \<lparr>rt_tunnelId = i, rt_listening = False, rt_onClose = False, rt_closed = True\<rparr>"

lemmas rpc_tunnel_defs = on_rpc_event_def onMessageListener_def onDisconnectListener_def onConnectionTerminatedListener_def
  onErrorRecv_def rpc_tunnel_write_def rpc_tunnel_close_def

lemma closed_tunnel_step:
  "rpc_tunnel_step J x (closed_tunnel i) = (t', es) \<Longrightarrow> t' = closed_tunnel i \<and> data_of es = [] \<and> closes_of es = []"
  by (cases x) (auto simp: closed_tunnel_def rpc_tunnel_defs)

lemma closed_tunnel_run:
  "rpc_tunnel_run J xs (closed_tunnel i) = (t', es) \<Longrightarrow> t' = closed_tunnel i \<and> data_of es = [] \<and> closes_of es = []"
proof (induction xs arbitrary: es)
  case (Cons x xs)
  then show ?case using closed_tunnel_step[of J x i] by (auto split: prod.splits)
qed simp

lemma open_tunnel_step:
  assumes "rpc_tunnel_step J x (makeRpcTcpTunnel i) = (t', es)"
  shows "if ends_tunnel J i x then t' = closed_tunnel i \<and> data_of es = [] \<and> length (closes_of es) = 1
    else t' = makeRpcTcpTunnel i \<and> data_of es = tunnel_messages i [x] \<and> closes_of es = []"
proof (cases x)
  case (FromClient ev)
  then show ?thesis using assms
    by (cases ev) (auto simp: ends_tunnel_def makeRpcTcpTunnel_def closed_tunnel_def rpc_tunnel_defs split: option.splits sum.splits if_splits)
qed (use assms in \<open>auto simp: ends_tunnel_def makeRpcTcpTunnel_def closed_tunnel_def rpc_tunnel_defs\<close>)

text \<open>What a TCP tunnel of the client hands on are the messages for it, in order, up to the first event
  that ends it (the close call, a disconnect of this tunnel, the end of the connection); that event
  calls \<open>onClose\<close> once, and nothing is handed on afterwards.\<close>

theorem rpc_tunnel_delivers:
  "data_of (snd (rpc_tunnel_run J xs (makeRpcTcpTunnel i))) = tunnel_messages i (takeWhile (\<lambda>x. \<not> ends_tunnel J i x) xs)
   \<and> length (closes_of (snd (rpc_tunnel_run J xs (makeRpcTcpTunnel i)))) = (if \<exists>x \<in> set xs. ends_tunnel J i x then 1 else 0)
   \<and> rt_closed (fst (rpc_tunnel_run J xs (makeRpcTcpTunnel i))) = (\<exists>x \<in> set xs. ends_tunnel J i x)"
proof (induction xs)
  case Nil
  then show ?case by (simp add: makeRpcTcpTunnel_def)
next
  case (Cons x xs)
  obtain t1 es1 where s: "rpc_tunnel_step J x (makeRpcTcpTunnel i) = (t1, es1)" by fastforce
  obtain t2 es2 where r: "rpc_tunnel_run J xs t1 = (t2, es2)" by fastforce
  have one: "tunnel_messages i (x # ys) = tunnel_messages i [x] @ tunnel_messages i ys" for ys
  proof (cases x)
    case (FromClient ev)
    then show ?thesis by (cases ev) auto
  qed simp_all
  have run: "rpc_tunnel_run J (x # xs) (makeRpcTcpTunnel i) = (t2, es1 @ es2)" using s r by simp
  show ?case
  proof (cases "ends_tunnel J i x")
    case True
    then have t1: "t1 = closed_tunnel i" "data_of es1 = []" "length (closes_of es1) = 1" using open_tunnel_step[OF s] by simp_all
    then have "t2 = closed_tunnel i" "data_of es2 = []" "closes_of es2 = []" using closed_tunnel_run[of J xs i t2 es2] r by simp_all
    then show ?thesis unfolding run using t1 True by (simp add: closed_tunnel_def)
  next
    case False
    then have "t1 = makeRpcTcpTunnel i" "data_of es1 = tunnel_messages i [x]" "closes_of es1 = []"
      using open_tunnel_step[OF s] by simp_all
    then show ?thesis unfolding run using Cons.IH r False by (simp add: one[of "takeWhile (\<lambda>x. \<not> ends_tunnel J i x) xs"])
  qed
qed

end
