(* ===== verification/Tunnel_Link.thy ===== *)
theory Tunnel_Link
  imports Tcp_Tunnel Client_Tunnels Create_Claim
begin

text \<open>
  Both ends of a tunnel: the client's TLS tunnel, the attestor's TCP tunnel and the messages under way
  between them, first in first out in either direction. A step is a step of one of the ends, with what
  it sends put on the way; the client's TLS package reads the records the received bytes consist of.
  The claim the development is about: the transcript that an honest client claims is one the attestor
  accepts, whatever the timing.
\<close>

record link =
  lk_tls :: rpc_tls_tunnel
  lk_received :: bytes
  lk_tcp :: tcp_tunnel
  lk_up :: "bytes list"
  lk_down :: "bytes list"

definition up_of :: "tls_tunnel_effect list \<Rightarrow> bytes list" where
  "up_of es = concat (map (\<lambda>e. case e of
     Connect ms \<Rightarrow> List.map_filter (\<lambda>(k, v). case v of VTunnelMessage i m \<Rightarrow> Some m | _ \<Rightarrow> None) ms
   | ToServer k v \<Rightarrow> (case v of VTunnelMessage i m \<Rightarrow> [m] | _ \<Rightarrow> [])
   | _ \<Rightarrow> []) es)"

definition received_of :: "tls_tunnel_effect list \<Rightarrow> bytes" where
  "received_of es = concat (map (\<lambda>e. case e of HandleReceivedBytes m \<Rightarrow> m | _ \<Rightarrow> []) es)"

definition down_of :: "tunnel_effect list \<Rightarrow> bytes list" where
  "down_of es = concat (map (\<lambda>e. case e of OnMessage m \<Rightarrow> [m] | _ \<Rightarrow> []) es)"

definition record_bytes :: "bytes \<Rightarrow> bytes \<Rightarrow> CompleteTLSPacket \<Rightarrow> bytes" where
  "record_bytes header content ctx = header @ (if pkt_type ctx = CiphertextPacket then pkt_ciphertext ctx else content)"

definition bytes_from :: "sender \<Rightarrow> CompleteTLSPacket Transcript \<Rightarrow> bytes" where
  "bytes_from s tr = concat (map (pkt_data \<circ> snd) (filter (\<lambda>x. fst x = s) tr))"

text \<open>The TLS client's first packet creates the tunnel; the link exists once the attestor has connected.\<close>

definition link_start :: "tls_pkg \<Rightarrow> json_lib \<Rightarrow> CreateTunnelRequest \<Rightarrow> tunnel_opts \<Rightarrow> bytes \<Rightarrow> bytes \<Rightarrow> CompleteTLSPacket \<Rightarrow> link" where
  "link_start L J q opts header content ctx =
     (let (t, es) = tls_tunnel_run L J [WritePacket header content ctx, ClientConnected] (new_tls_tunnel q) in
      \<lparr>lk_tls = t, lk_received = [],
       lk_tcp = \<lparr>createRequest_opts = opts, tt_transcript = [], tt_closed = False, onClose_set = True\<rparr>,
       lk_up = up_of es, lk_down = []\<rparr>)"

text \<open>Inputs of the client that come from the TLS package or its user, apart from reading a record.\<close>

fun local_input :: "tls_tunnel_input \<Rightarrow> bool" where
  "local_input (ReadPacket _ _ _) = False"
| "local_input ClientConnected = False"
| "local_input (TunnelEvent (TunnelMessageEvent _ _)) = False"
| "local_input _ = True"

inductive link_step :: "tls_pkg \<Rightarrow> json_lib \<Rightarrow> link \<Rightarrow> link \<Rightarrow> bool" for L J where
  client: "local_input x \<Longrightarrow> tls_tunnel_step L J x (lk_tls k) = (t', es)
    \<Longrightarrow> link_step L J k (k\<lparr>lk_tls := t', lk_up := lk_up k @ up_of es\<rparr>)"
| client_receives: "lk_down k = m # ms
    \<Longrightarrow> tls_tunnel_step L J (TunnelEvent (TunnelMessageEvent (ct_id (tr_request (lk_tls k))) m)) (lk_tls k) = (t', es)
    \<Longrightarrow> link_step L J k (k\<lparr>lk_tls := t', lk_down := ms, lk_received := lk_received k @ received_of es\<rparr>)"
| client_reads: "is_prefix (bytes_from Server (tr_transcript (lk_tls k)) @ record_bytes header content ctx) (lk_received k)
    \<Longrightarrow> tls_tunnel_step L J (ReadPacket header content ctx) (lk_tls k) = (t', es)
    \<Longrightarrow> link_step L J k (k\<lparr>lk_tls := t'\<rparr>)"
| server_receives: "lk_up k = m # ms \<Longrightarrow> tunnel_step (Write m) (lk_tcp k) = (t', es)
    \<Longrightarrow> link_step L J k (k\<lparr>lk_tcp := t', lk_up := ms\<rparr>)"
| server: "(\<forall>m. ev \<noteq> Write m) \<Longrightarrow> tunnel_step ev (lk_tcp k) = (t', es)
    \<Longrightarrow> link_step L J k (k\<lparr>lk_tcp := t', lk_down := lk_down k @ down_of es\<rparr>)"

inductive link_reachable :: "tls_pkg \<Rightarrow> json_lib \<Rightarrow> link \<Rightarrow> bool" for L J where
  start: "link_reachable L J (link_start L J q opts header content ctx)"
| step: "link_reachable L J k \<Longrightarrow> link_step L J k k' \<Longrightarrow> link_reachable L J k'"

inductive_cases link_stepE: "link_step L J k k'"

subsection \<open>The invariant\<close>

definition server_bytes :: "sender \<Rightarrow> tcp_tunnel \<Rightarrow> bytes" where
  "server_bytes s t = concat (tunnel_sent_by s (tt_transcript t))"

text \<open>
  What the client wrote is what the attestor passed on and what is under way; what the attestor got from
  the server is what the client received and what is under way, as long as the client listens; and the
  client's records are cut from what it received.
\<close>

definition received_ok :: "rpc_tunnel \<Rightarrow> link \<Rightarrow> bool" where
  "received_ok tcp k \<longleftrightarrow>
     (if rt_listening tcp then lk_received k @ concat (lk_down k) = server_bytes Server (lk_tcp k)
      else is_prefix (lk_received k) (server_bytes Server (lk_tcp k)))"

definition link_inv :: "link \<Rightarrow> bool" where
  "link_inv k \<longleftrightarrow>
     bytes_from Client (tr_transcript (lk_tls k)) = server_bytes Client (lk_tcp k) @ concat (lk_up k)
     \<and> (\<exists>tcp. tr_tcp (lk_tls k) = Some tcp \<and> rt_tunnelId tcp = ct_id (tr_request (lk_tls k)) \<and> received_ok tcp k)
     \<and> is_prefix (bytes_from Server (tr_transcript (lk_tls k))) (lk_received k)"

lemma bytes_from_append [simp]: "bytes_from s (tr @ tr') = bytes_from s tr @ bytes_from s tr'"
  by (simp add: bytes_from_def)

lemma bytes_from_single [simp]: "bytes_from s [(s', p)] = (if s' = s then pkt_data p else [])"
  by (simp add: bytes_from_def)

lemma effects_of [simp]:
  "up_of [] = []" "up_of (es @ fs) = up_of es @ up_of fs" "received_of [] = []" "down_of [] = []"
  by (simp_all add: up_of_def received_of_def down_of_def)

lemma is_prefix_ex: "is_prefix p xs \<longleftrightarrow> (\<exists>ys. xs = p @ ys)"
  by (metis append_eq_conv_conj append_take_drop_id is_prefix_append is_prefix_def)

lemma is_prefix_extend: "is_prefix p xs \<Longrightarrow> is_prefix p (xs @ ys)"
  by (auto simp: is_prefix_ex)

lemmas tls_tunnel_defs = on_tcp_def onConnectionClose_def close_tls_tunnel_def write_packet_def read_packet_def

text \<open>A local step of the client writes what it sends into the transcript, and may stop to listen.\<close>

definition local_effect :: "rpc_tls_tunnel \<Rightarrow> rpc_tls_tunnel \<Rightarrow> tls_tunnel_effect list \<Rightarrow> bool" where
  "local_effect t t' es \<longleftrightarrow>
     (\<forall>tcp. tr_tcp t = Some tcp \<longrightarrow> (\<exists>tcp'. tr_tcp t' = Some tcp' \<and> rt_tunnelId tcp' = rt_tunnelId tcp
        \<and> (rt_listening tcp' \<longrightarrow> rt_listening tcp)))
     \<and> tr_request t' = tr_request t \<and> bytes_from Server (tr_transcript t') = bytes_from Server (tr_transcript t)
     \<and> bytes_from Client (tr_transcript t') = bytes_from Client (tr_transcript t) @ concat (up_of es)"

lemma tcp_event_effect:
  assumes "on_rpc_event J ev tcp = (tcp', es)" and "\<forall>i m. ev \<noteq> TunnelMessageEvent i m"
  shows "rt_tunnelId tcp' = rt_tunnelId tcp \<and> (rt_listening tcp' \<longrightarrow> rt_listening tcp) \<and> up_of (map tcp_effect es) = []"
  using assms by (cases ev) (auto simp: rpc_tunnel_defs up_of_def split: if_splits option.splits sum.splits)

lemma local_step:
  assumes "local_input x" and "tls_tunnel_step L J x t = (t', es)" and "tr_tcp t \<noteq> None" and "tls_bytes_spec L"
  shows "local_effect t t' es"
proof -
  obtain tcp where tcp: "tr_tcp t = Some tcp" using assms(3) by auto
  show ?thesis
  proof (cases x)
    case (WritePacket header content ctx)
    then show ?thesis using assms(2) tcp
      by (auto simp: local_effect_def tls_tunnel_defs rpc_tunnel_write_def tls_bytes_specD[OF assms(4)] up_of_def Let_def)
  next
    case (TunnelEvent ev)
    obtain tcp' es' where e: "on_rpc_event J ev tcp = (tcp', es')" by fastforce
    have "\<forall>i m. ev \<noteq> TunnelMessageEvent i m" using assms(1) TunnelEvent by auto
    then show ?thesis using tcp_event_effect[OF e] assms(2) TunnelEvent tcp e by (auto simp: local_effect_def on_tcp_def)
  next
    case (CloseTls err)
    then show ?thesis using assms(2) tcp
      by (auto simp: local_effect_def tls_tunnel_defs rpc_tunnel_defs up_of_def split: if_splits)
  qed (use assms(1,2) tcp in \<open>auto simp: local_effect_def onConnectionClose_def up_of_def split: if_splits\<close>)
qed

lemma server_write_bytes:
  "tunnel_step (Write m) t = (t', es) \<Longrightarrow> server_bytes Client t' = server_bytes Client t @ m \<and> server_bytes Server t' = server_bytes Server t"
  by (auto simp: tunnel_write_def server_bytes_def tunnel_sent_by_def)

lemma server_event_bytes:
  "tunnel_step ev t = (t', es) \<Longrightarrow> \<forall>m. ev \<noteq> Write m \<Longrightarrow>
     server_bytes Client t' = server_bytes Client t \<and> server_bytes Server t' = server_bytes Server t @ concat (down_of es)"
  by (cases ev) (auto simp: tunnel_step_defs server_bytes_def tunnel_sent_by_def down_of_def split: if_splits)

lemma received_ok_prefix: "received_ok tcp k \<Longrightarrow> is_prefix (lk_received k) (server_bytes Server (lk_tcp k))"
  by (metis is_prefix_append received_ok_def)

lemma link_inv_start:
  assumes "tls_bytes_spec L"
  shows "link_inv (link_start L J q opts header content ctx)"
proof -
  let ?m = "header @ content"
  have "link_start L J q opts header content ctx =
      \<lparr>lk_tls = \<lparr>tr_request = q, tr_transcript = [(Client, ctx\<lparr>pkt_data := ?m\<rparr>)],
         tr_tcp = Some (makeRpcTcpTunnel (ct_id q)), tr_onClose = True, tr_handshake = None\<rparr>, lk_received = [],
       lk_tcp = \<lparr>createRequest_opts = opts, tt_transcript = [], tt_closed = False, onClose_set = True\<rparr>,
       lk_up = [?m], lk_down = []\<rparr>"
    by (simp add: link_start_def new_tls_tunnel_def write_packet_def connect_messages_def up_of_def Let_def
      tls_bytes_specD[OF assms] List.map_filter_simps)
  then show ?thesis
    by (simp add: link_inv_def received_ok_def makeRpcTcpTunnel_def server_bytes_def tunnel_sent_by_def bytes_from_def)
      (simp add: is_prefix_def)
qed

lemma link_inv_step:
  assumes "link_step L J k k'" and inv: "link_inv k" and "tls_bytes_spec L"
  shows "link_inv k'"
proof -
  obtain tcp where tcp: "tr_tcp (lk_tls k) = Some tcp" "rt_tunnelId tcp = ct_id (tr_request (lk_tls k))" "received_ok tcp k"
    using inv by (auto simp: link_inv_def)
  show ?thesis
    using assms(1)
  proof cases
    case (client x t' es)
    have e: "local_effect (lk_tls k) t' es" using local_step[OF client(2,3) _ assms(3)] tcp(1) by simp
    then obtain tcp' where tcp': "tr_tcp t' = Some tcp'" "rt_tunnelId tcp' = rt_tunnelId tcp" "rt_listening tcp' \<longrightarrow> rt_listening tcp"
      using tcp(1) by (auto simp: local_effect_def)
    have "received_ok tcp' k'" using tcp(3) tcp'(3) received_ok_prefix[OF tcp(3)] by (auto simp: client(1) received_ok_def)
    then show ?thesis using inv tcp' tcp(2) e by (auto simp: client(1) link_inv_def local_effect_def)
  next
    case (client_receives m ms t' es)
    show ?thesis
    proof (cases "rt_listening tcp")
      case True
      then have "t' = lk_tls k\<lparr>tr_tcp := Some tcp\<rparr>" "es = [HandleReceivedBytes m]"
        using client_receives(3) tcp by (auto simp: on_tcp_def rpc_tunnel_defs)
      then show ?thesis using inv tcp True client_receives(2)
        by (simp add: client_receives(1) link_inv_def received_ok_def received_of_def is_prefix_extend)
    next
      case False
      then have "t' = lk_tls k\<lparr>tr_tcp := Some tcp\<rparr>" "es = []"
        using client_receives(3) tcp by (auto simp: on_tcp_def rpc_tunnel_defs)
      then show ?thesis using inv tcp False by (simp add: client_receives(1) link_inv_def received_ok_def)
    qed
  next
    case (client_reads header content ctx t' es)
    have "t' = read_packet L header content ctx (lk_tls k)" using client_reads(3) by simp
    then show ?thesis using inv tcp client_reads(2)
      by (simp add: client_reads(1) link_inv_def received_ok_def read_packet_def record_bytes_def tls_bytes_specD[OF assms(3)])
  next
    case (server_receives m ms t' es)
    then show ?thesis using inv tcp server_write_bytes[OF server_receives(3)] by (auto simp: link_inv_def received_ok_def)
  next
    case (server ev t' es)
    have "received_ok tcp k'" using tcp(3) server_event_bytes[OF server(3,2)]
      by (simp add: server(1) received_ok_def is_prefix_extend split: if_splits)
    then show ?thesis using inv tcp server_event_bytes[OF server(3,2)] by (simp add: server(1) link_inv_def)
  qed
qed

lemma reachable_link_inv: "link_reachable L J k \<Longrightarrow> tls_bytes_spec L \<Longrightarrow> link_inv k"
  by (induction rule: link_reachable.induct) (auto intro: link_inv_start link_inv_step)

lemma sent_by_transcript:
  assumes "length ms = length tr" and "\<forall>i < length tr. \<exists>reveal. ms ! i = transcript_message (fst (tr ! i)) (snd (tr ! i)) reveal"
  shows "concat (sent_by (if s = Client then SENDER_CLIENT else SENDER_SERVER) ms) = bytes_from s tr"
  using assms
proof (induction ms tr rule: list_induct2)
  case (Cons m ms x tr)
  have "\<exists>reveal. m = transcript_message (fst x) (snd x) reveal" using Cons.prems by (metis length_Cons nth_Cons_0 zero_less_Suc)
  moreover have "\<forall>i < length tr. \<exists>reveal. ms ! i = transcript_message (fst (tr ! i)) (snd (tr ! i)) reveal"
    using Cons.prems by (metis Suc_less_eq length_Cons nth_Cons_Suc)
  ultimately show ?case using Cons.IH
    by (cases s; cases "fst x") (auto simp: sent_by_def bytes_from_def transcript_message_def)
qed (simp add: sent_by_def bytes_from_def)

subsection \<open>Properties\<close>

text \<open>C9: The transcript an honest client claims is one the attestor accepts: once everything the client
  wrote has arrived, \<open>assertTranscriptsMatch\<close> accepts the transcript of its claim request against the
  tunnel's, however messages were delayed and cut, and even if either end was closed meanwhile.\<close>

theorem honest_transcript_matches:
  assumes "link_reachable L J k" and "lk_up k = []" and "tls_bytes_spec L"
    and "makeClaimRequest E oprf completion opts tunnelReq v cs params t = Inr req" and "refs_ok t"
    and "tn_transcript t = tr_transcript (lk_tls k)"
  shows "assertTranscriptsMatch L (cq_transcript req) (tt_transcript (lk_tcp k)) = Inr ()"
proof -
  let ?tr = "tr_transcript (lk_tls k)"
  obtain marks where m: "reveals_as E oprf v params t req marks" using claim_request_transcript[OF assms(4,5)] ..
  have len: "length (cq_transcript req) = length ?tr"
    "\<forall>i < length ?tr. \<exists>reveal. cq_transcript req ! i = transcript_message (fst (?tr ! i)) (snd (?tr ! i)) reveal"
    using m assms(6) unfolding reveals_as_def Let_def by auto
  note sent = sent_by_transcript[OF len]
  have inv: "link_inv k" by (rule reachable_link_inv[OF assms(1,3)])
  have "bytes_from Client ?tr = server_bytes Client (lk_tcp k)" using inv assms(2) by (simp add: link_inv_def)
  moreover have "is_prefix (bytes_from Server ?tr) (server_bytes Server (lk_tcp k))"
    using inv received_ok_prefix by (force simp: link_inv_def is_prefix_ex)
  ultimately show ?thesis using sent[of Client] sent[of Server]
    by (simp add: transcripts_agree[OF assms(3)] server_bytes_def)
qed

subsection \<open>A session over a link\<close>

definition ref_link :: "CompleteTLSPacket Transcript \<Rightarrow> bytes \<Rightarrow> bytes Transcript \<Rightarrow> bytes list \<Rightarrow> bytes list \<Rightarrow> link" where
  "ref_link tr recv tt up down =
     \<lparr>lk_tls = \<lparr>tr_request = ref_tunnel_request, tr_transcript = tr, tr_tcp = Some (makeRpcTcpTunnel 1), tr_onClose = True, tr_handshake = None\<rparr>,
      lk_received = recv, lk_tcp = \<lparr>createRequest_opts = ref_opts, tt_transcript = tt, tt_closed = False, onClose_set = True\<rparr>,
      lk_up = up, lk_down = down\<rparr>"

lemma ref_link_start:
  "link_start tls_ref J ref_tunnel_request ref_opts h d x = ref_link [(Client, x\<lparr>pkt_data := h @ d\<rparr>)] [] [] [h @ d] []"
  by (simp add: link_start_def new_tls_tunnel_def write_packet_def connect_messages_def up_of_def Let_def List.map_filter_simps
    ref_link_def ref_tunnel_request_def)

lemma ref_link_write:
  "link_step tls_ref J (ref_link tr recv tt up down) (ref_link (tr @ [(Client, x\<lparr>pkt_data := h @ d\<rparr>)]) recv tt (up @ [h @ d]) down)"
  using link_step.client[of "WritePacket h d x" tls_ref J "ref_link tr recv tt up down"]
  by (simp add: ref_link_def tls_tunnel_defs rpc_tunnel_write_def up_of_def Let_def)

lemma ref_link_server_receives:
  "link_step tls_ref J (ref_link tr recv tt (m # up) down) (ref_link tr recv (tt @ [(Client, m)]) up down)"
  using link_step.server_receives[of "ref_link tr recv tt (m # up) down" m up _ _ tls_ref J]
  by (simp add: ref_link_def tunnel_write_def)

lemma ref_link_server_data:
  "link_step tls_ref J (ref_link tr recv tt up down) (ref_link tr recv (tt @ [(Server, m)]) up (down @ [m]))"
  using link_step.server[of "Data m" "ref_link tr recv tt up down" _ _ tls_ref J]
  by (simp add: ref_link_def on_data_def down_of_def)

lemma ref_link_client_receives:
  "link_step tls_ref J (ref_link tr recv tt up (m # down)) (ref_link tr (recv @ m) tt up down)"
  using link_step.client_receives[of "ref_link tr recv tt up (m # down)" m down tls_ref J]
  by (simp add: ref_link_def on_tcp_def rpc_tunnel_defs received_of_def makeRpcTcpTunnel_def ref_tunnel_request_def)

lemma ref_link_client_reads:
  assumes "is_prefix (bytes_from Server tr @ h @ pkt_ciphertext x) recv" and "pkt_type x = CiphertextPacket"
  shows "link_step tls_ref J (ref_link tr recv tt up down) (ref_link (tr @ [(Server, x\<lparr>pkt_data := h @ pkt_ciphertext x\<rparr>)]) recv tt up down)"
  using link_step.client_reads[of "ref_link tr recv tt up down" h "[]" x tls_ref J] assms
  by (simp add: ref_link_def read_packet_def record_bytes_def)

lemma ref_sent_data: "(ref_sent k ct d)\<lparr>pkt_data := [23, 3, 3, 0, 0] @ d\<rparr> = ref_sent k ct d" "pkt_ciphertext (ref_sent k ct d) = d"
  by (simp_all add: ref_sent_def)

lemma ref_one_key_link:
  "\<exists>k. link_reachable tls_ref J k \<and> lk_up k = [] \<and> tr_transcript (lk_tls k) = tn_transcript ref_one_key"
proof -
  let ?h = "[23, 3, 3, 0, 0] :: bytes"
  let ?p = "ref_sent [7] ''HANDSHAKE'' [20, 22]" and ?q = "ref_sent [7] ''APPLICATION_DATA'' (ok_request @ [23])"
    and ?r = "ref_sent [9] ''APPLICATION_DATA'' (ok_response @ [23])"
  let ?m = "?h @ ok_response @ [23]"
  let ?a = "?h @ [20, 22]" and ?b = "?h @ ok_request @ [23]" and ?tr = "[(Client, ?p), (Client, ?q)]"
  have "link_reachable tls_ref J (ref_link [(Client, ?p)] [] [] [?a] [])"
    using link_reachable.start[of tls_ref J ref_tunnel_request ref_opts ?h "[20, 22]" ?p]
    unfolding ref_link_start ref_sent_data(1) by simp
  moreover have "link_step tls_ref J (ref_link [(Client, ?p)] [] [] [?a] []) (ref_link ?tr [] [] [?a, ?b] [])"
    using ref_link_write[of J "[(Client, ?p)]" "[]" "[]" "[?a]" "[]" ?h "ok_request @ [23]" ?q] unfolding ref_sent_data(1) by simp
  moreover have "link_step tls_ref J (ref_link ?tr [] [] [?a, ?b] []) (ref_link ?tr [] [(Client, ?a)] [?b] [])"
    using ref_link_server_receives[of J ?tr "[]" "[]" ?a "[?b]" "[]"] by simp
  moreover have "link_step tls_ref J (ref_link ?tr [] [(Client, ?a)] [?b] []) (ref_link ?tr [] [(Client, ?a), (Client, ?b)] [] [])"
    using ref_link_server_receives[of J ?tr "[]" "[(Client, ?a)]" ?b "[]" "[]"] by simp
  moreover have "link_step tls_ref J (ref_link ?tr [] [(Client, ?a), (Client, ?b)] [] [])
      (ref_link ?tr [] [(Client, ?a), (Client, ?b), (Server, ?m)] [] [?m])"
    using ref_link_server_data[of J ?tr "[]" "[(Client, ?a), (Client, ?b)]" "[]" "[]" ?m] by simp
  moreover have "link_step tls_ref J (ref_link ?tr [] [(Client, ?a), (Client, ?b), (Server, ?m)] [] [?m])
      (ref_link ?tr ?m [(Client, ?a), (Client, ?b), (Server, ?m)] [] [])"
    using ref_link_client_receives[of J ?tr "[]" "[(Client, ?a), (Client, ?b), (Server, ?m)]" "[]" ?m "[]"] by simp
  moreover have "link_step tls_ref J (ref_link ?tr ?m [(Client, ?a), (Client, ?b), (Server, ?m)] [] [])
      (ref_link (?tr @ [(Server, ?r)]) ?m [(Client, ?a), (Client, ?b), (Server, ?m)] [] [])"
    using ref_link_client_reads[of ?tr ?h ?r ?m J "[(Client, ?a), (Client, ?b), (Server, ?m)]" "[]" "[]"]
    unfolding ref_sent_data by (simp add: bytes_from_def is_prefix_def ref_sent_fields)
  ultimately have "link_reachable tls_ref J (ref_link (?tr @ [(Server, ?r)]) ?m [(Client, ?a), (Client, ?b), (Server, ?m)] [] [])"
    using link_reachable.step by meson
  then show ?thesis by (force simp: ref_link_def ref_one_key_def)
qed

theorem honest_transcript_matches_witness:
  "\<exists>(k :: link) req. makeClaimRequest ref_create_env (\<lambda>_ _. Inl (PlainError [])) id ref_claim_opts ref_tunnel_request (Some TLS1_3) [] JNull
      ref_one_key = Inr req \<and> cq_transcript req \<noteq> []
    \<and> assertTranscriptsMatch tls_ref (cq_transcript req) (tt_transcript (lk_tcp k)) = Inr ()"
proof -
  obtain req where req: "makeClaimRequest ref_create_env (\<lambda>_ _. Inl (PlainError [])) id ref_claim_opts ref_tunnel_request (Some TLS1_3) []
      JNull ref_one_key = Inr req" using ref_one_key_made by blast
  obtain k where k: "link_reachable tls_ref \<lparr>JSON_parse = (\<lambda>_. None), JSON_stringify = (\<lambda>_. [])\<rparr> k" "lk_up k = []"
    "tr_transcript (lk_tls k) = tn_transcript ref_one_key" using ref_one_key_link by blast
  obtain marks where "reveals_as ref_create_env (\<lambda>_ _. Inl (PlainError [])) (Some TLS1_3) JNull ref_one_key req marks"
    using claim_request_transcript[OF req ref_one_key_ok] ..
  then have "length (cq_transcript req) = 3" by (simp add: reveals_as_def Let_def ref_one_key_def)
  then have "cq_transcript req \<noteq> []" by auto
  then show ?thesis using honest_transcript_matches[OF k(1,2) tls_ref_spec req ref_one_key_ok k(3)[symmetric]] req by blast
qed

end
