(* ===== verification/Keep_Alive.thy ===== *)
theory Keep_Alive
  imports Machine
begin

text \<open>
  The keep-alive of the server's websockets (\<open>src/server/utils/keep-alive.ts\<close>, with the intervals of
  \<open>src/config/index.ts\<close>). Time passes in steps of a millisecond (\<open>Tick\<close>), at which the timers that are
  due fire; the other inputs are the events of the websocket. The timers are kept by the time they are
  due; a timer that fired or was cleared is \<open>None\<close>.
\<close>

definition PING_INTERVAL_MS :: nat where
  "PING_INTERVAL_MS = 10000"

definition MAX_NO_DATA_INTERVAL_MS :: nat where
  "MAX_NO_DATA_INTERVAL_MS = 30000"

record keep_alive =
  ka_now :: nat
  sendTimeout :: "nat option"
  killTimeout :: "nat option"

datatype ka_input = Tick | WsMessage | WsPong | WsError | WsClose

datatype ka_output = Ping | CloseWs

definition addKeepAlive :: "nat \<Rightarrow> keep_alive" where
  "addKeepAlive now = \<lparr>ka_now = now, sendTimeout = None, killTimeout = None\<rparr>"

definition cleanup :: "keep_alive \<Rightarrow> keep_alive" where
  "cleanup s = s\<lparr>killTimeout := None, sendTimeout := None\<rparr>"

definition resetSendTimeout :: "keep_alive \<Rightarrow> keep_alive" where
  "resetSendTimeout s = s\<lparr>sendTimeout := Some (ka_now s + PING_INTERVAL_MS)\<rparr>"

definition resetTimer :: "keep_alive \<Rightarrow> keep_alive" where
  "resetTimer s = (resetSendTimeout (cleanup s))\<lparr>killTimeout := Some (ka_now s + MAX_NO_DATA_INTERVAL_MS)\<rparr>"

definition fires :: "nat option \<Rightarrow> nat \<Rightarrow> bool" where
  "fires timer now \<longleftrightarrow> (case timer of None \<Rightarrow> False | Some due \<Rightarrow> due \<le> now)"

text \<open>The callback of the send timer pings and sets the timer again; that of the kill timer closes.\<close>

definition fire_send :: "keep_alive \<Rightarrow> keep_alive \<times> ka_output list" where
  "fire_send s = (if fires (sendTimeout s) (ka_now s) then (resetSendTimeout s, [Ping]) else (s, []))"

definition fire_kill :: "keep_alive \<Rightarrow> keep_alive \<times> ka_output list" where
  "fire_kill s = (if fires (killTimeout s) (ka_now s) then (s\<lparr>killTimeout := None\<rparr>, [CloseWs]) else (s, []))"

fun ka_step :: "ka_input \<Rightarrow> keep_alive \<Rightarrow> keep_alive \<times> ka_output list" where
  "ka_step Tick s =
     (let (s1, out1) = fire_send (s\<lparr>ka_now := Suc (ka_now s)\<rparr>); (s2, out2) = fire_kill s1 in (s2, out1 @ out2))"
| "ka_step WsMessage s = (resetTimer s, [])"
| "ka_step WsPong s = (resetTimer s, [])"
| "ka_step WsError s = (cleanup s, [])"
| "ka_step WsClose s = (cleanup s, [])"

abbreviation ka_run :: "ka_input list \<Rightarrow> keep_alive \<Rightarrow> keep_alive \<times> ka_output list" where
  "ka_run \<equiv> run_steps ka_step"

subsection \<open>Silence after data\<close>

lemmas ka_defs = cleanup_def resetSendTimeout_def resetTimer_def fires_def fire_send_def fire_kill_def
  PING_INTERVAL_MS_def MAX_NO_DATA_INTERVAL_MS_def

text \<open>The state \<open>n\<close> milliseconds after the last data.\<close>

definition silent_for :: "nat \<Rightarrow> nat \<Rightarrow> keep_alive" where
  "silent_for t n = \<lparr>ka_now = t + n, sendTimeout = Some (t + PING_INTERVAL_MS * (n div PING_INTERVAL_MS + 1)),
     killTimeout = (if n < MAX_NO_DATA_INTERVAL_MS then Some (t + MAX_NO_DATA_INTERVAL_MS) else None)\<rparr>"

lemma resetTimer_silent: "resetTimer s = silent_for (ka_now s) 0"
  by (simp add: ka_defs silent_for_def)

lemma silent_tick:
  "ka_step Tick (silent_for t n) = (silent_for t (Suc n),
     (if PING_INTERVAL_MS dvd Suc n then [Ping] else []) @ (if Suc n = MAX_NO_DATA_INTERVAL_MS then [CloseWs] else []))"
proof (cases "PING_INTERVAL_MS dvd Suc n")
  case True
  then have d: "Suc n div 10000 = Suc (n div 10000)"
    by (simp add: PING_INTERVAL_MS_def div_Suc dvd_eq_mod_eq_0)
  moreover have "10000 * (Suc n div 10000) = Suc n"
    using True by (simp only: PING_INTERVAL_MS_def dvd_mult_div_cancel)
  ultimately have "10000 * (n div 10000 + 1) = Suc n" by simp
  then show ?thesis using True d by (auto simp: silent_for_def ka_defs)
next
  case False
  then have "Suc n div 10000 = n div 10000" by (simp add: PING_INTERVAL_MS_def div_Suc dvd_eq_mod_eq_0)
  moreover have "Suc n < 10000 * (n div 10000 + 1)"
  proof -
    have "n < 10000 * (n div 10000 + 1)" using div_mult_mod_eq[of n 10000] by simp
    moreover have "Suc n \<noteq> 10000 * (n div 10000 + 1)" using False by (metis PING_INTERVAL_MS_def dvd_triv_left)
    ultimately show ?thesis by simp
  qed
  ultimately show ?thesis using False by (auto simp: silent_for_def ka_defs)
qed

definition tick_outputs :: "nat \<Rightarrow> ka_output list" where
  "tick_outputs n =
     (if PING_INTERVAL_MS dvd Suc n then [Ping] else []) @ (if Suc n = MAX_NO_DATA_INTERVAL_MS then [CloseWs] else [])"

lemma silent_run:
  "ka_run (replicate n Tick) (silent_for t k) = (silent_for t (k + n), concat (map tick_outputs [k..<k + n]))"
proof (induction n arbitrary: k)
  case (Suc n)
  have "[k..<k + Suc n] = k # [Suc k..<Suc k + n]" by (simp add: upt_conv_Cons)
  then show ?case using Suc[of "Suc k"] silent_tick[of t k] by (simp add: tick_outputs_def)
qed simp

definition is_data :: "ka_input \<Rightarrow> bool" where
  "is_data x \<longleftrightarrow> x = WsMessage \<or> x = WsPong"

lemma data_step: "is_data x \<Longrightarrow> ka_step x s = (silent_for (ka_now s) 0, [])"
  by (auto simp: is_data_def resetTimer_silent)

lemma silence_closes:
  assumes "is_data x" and "MAX_NO_DATA_INTERVAL_MS \<le> n"
  shows "CloseWs \<in> set (snd (ka_run (x # replicate n Tick) s))"
proof -
  have "CloseWs \<in> set (tick_outputs (MAX_NO_DATA_INTERVAL_MS - 1))" by (simp add: tick_outputs_def MAX_NO_DATA_INTERVAL_MS_def)
  moreover have "MAX_NO_DATA_INTERVAL_MS - 1 \<in> set [0..<n]" using assms(2) by (simp add: MAX_NO_DATA_INTERVAL_MS_def)
  ultimately show ?thesis using data_step[OF assms(1)] silent_run[of n "ka_now s" 0] by force
qed

lemma pings_in_silence:
  assumes "is_data x"
  shows "length (filter (\<lambda>y. y = Ping) (snd (ka_run (x # replicate n Tick) s))) = n div PING_INTERVAL_MS"
proof -
  have "length (filter (\<lambda>y. y = Ping) (concat (map tick_outputs [0..<n]))) = n div PING_INTERVAL_MS"
    by (induction n) (auto simp: tick_outputs_def div_Suc dvd_eq_mod_eq_0)
  then show ?thesis using data_step[OF assms] silent_run[of n "ka_now s" 0] by simp
qed

text \<open>The kill timer is set exactly after data followed by nothing but time.\<close>

definition kill_timer_inv :: "ka_input list \<Rightarrow> keep_alive \<Rightarrow> bool" where
  "kill_timer_inv xs s \<longleftrightarrow> (\<forall>due. killTimeout s = Some due \<longrightarrow>
     (\<exists>ys x n. xs = ys @ x # replicate n Tick \<and> is_data x \<and> due + n = ka_now s + MAX_NO_DATA_INTERVAL_MS
        \<and> n < MAX_NO_DATA_INTERVAL_MS))"

lemma kill_timer_step:
  assumes inv: "kill_timer_inv xs s" and step: "ka_step y s = (s', out)"
  shows "kill_timer_inv (xs @ [y]) s'
    \<and> (CloseWs \<in> set out \<longrightarrow> (\<exists>ys x. xs @ [y] = ys @ x # replicate MAX_NO_DATA_INTERVAL_MS Tick \<and> is_data x))"
proof (cases y)
  case Tick
  show ?thesis
  proof (cases "killTimeout s")
    case None
    then show ?thesis using step Tick by (auto simp: kill_timer_inv_def ka_defs split: if_splits)
  next
    case (Some due)
    obtain ys x n where x: "xs = ys @ x # replicate n Tick" "is_data x" "due + n = ka_now s + MAX_NO_DATA_INTERVAL_MS"
      "n < MAX_NO_DATA_INTERVAL_MS" using inv Some unfolding kill_timer_inv_def by blast
    have xs: "xs @ [y] = ys @ x # replicate (Suc n) Tick" using x(1) Tick by (simp add: replicate_append_same)
    have "CloseWs \<in> set out \<longleftrightarrow> due \<le> Suc (ka_now s)"
      "killTimeout s' = (if due \<le> Suc (ka_now s) then None else Some due)" "ka_now s' = Suc (ka_now s)"
      using step Tick Some by (auto simp: ka_defs split: option.splits if_splits)
    moreover have "due \<le> Suc (ka_now s) \<longleftrightarrow> Suc n = MAX_NO_DATA_INTERVAL_MS" using x(3,4) by auto
    ultimately show ?thesis using xs x unfolding kill_timer_inv_def by (metis Suc_lessI add_Suc add_Suc_right option.distinct(1) option.inject)
  qed
next
  case WsMessage
  then have "killTimeout s' = Some (ka_now s' + MAX_NO_DATA_INTERVAL_MS)" "out = []" using step by (auto simp: ka_defs)
  then show ?thesis unfolding kill_timer_inv_def using WsMessage
    by (auto simp: is_data_def MAX_NO_DATA_INTERVAL_MS_def intro!: exI[of _ xs] exI[of _ WsMessage] exI[of _ 0])
next
  case WsPong
  then have "killTimeout s' = Some (ka_now s' + MAX_NO_DATA_INTERVAL_MS)" "out = []" using step by (auto simp: ka_defs)
  then show ?thesis unfolding kill_timer_inv_def using WsPong
    by (auto simp: is_data_def MAX_NO_DATA_INTERVAL_MS_def intro!: exI[of _ xs] exI[of _ WsPong] exI[of _ 0])
qed (use step in \<open>auto simp: kill_timer_inv_def cleanup_def\<close>)

text \<open>Closing is explained by thirty seconds of silence after data.\<close>

definition silence_explains :: "ka_input list \<Rightarrow> ka_output \<Rightarrow> bool" where
  "silence_explains xs y \<longleftrightarrow> (y = CloseWs \<longrightarrow> (\<exists>ys x. xs = ys @ x # replicate MAX_NO_DATA_INTERVAL_MS Tick \<and> is_data x))"

interpretation keep_alive: history_machine ka_step "addKeepAlive t" kill_timer_inv silence_explains for t
proof unfold_locales
  show "kill_timer_inv [] (addKeepAlive t)" by (simp add: kill_timer_inv_def addKeepAlive_def)
qed (use kill_timer_step in \<open>auto simp: silence_explains_def\<close>)

lemma close_needs_silence:
  assumes "CloseWs \<in> set (snd (ka_run xs (addKeepAlive t)))"
  shows "\<exists>ys x zs. xs = ys @ x # replicate MAX_NO_DATA_INTERVAL_MS Tick @ zs \<and> is_data x"
proof -
  obtain us zs where u: "xs = us @ zs" "silence_explains us CloseWs"
    using keep_alive.run_explained[OF prod.collapse[symmetric] assms] by blast
  then obtain ys x where "us = ys @ x # replicate MAX_NO_DATA_INTERVAL_MS Tick" "is_data x" by (auto simp: silence_explains_def)
  then show ?thesis using u(1) by (intro exI[of _ ys] exI[of _ x] exI[of _ zs]) simp
qed

subsection \<open>Properties\<close>

text \<open>C27: The keep-alive closes a connection exactly when, after some message or pong, thirty seconds pass
  without any event: a dead connection is closed, one whose peer answers is kept, and one that never
  sent anything is neither pinged nor closed, however long it is silent.\<close>

theorem dead_connection_closed:
  "(CloseWs \<in> set (snd (ka_run xs (addKeepAlive t))) \<longleftrightarrow>
     (\<exists>ys x zs. xs = ys @ x # replicate MAX_NO_DATA_INTERVAL_MS Tick @ zs \<and> is_data x))
   \<and> ka_run (replicate n Tick) (addKeepAlive t) = (addKeepAlive (t + n), [])"
proof
  show "CloseWs \<in> set (snd (ka_run xs (addKeepAlive t))) \<longleftrightarrow>
     (\<exists>ys x zs. xs = ys @ x # replicate MAX_NO_DATA_INTERVAL_MS Tick @ zs \<and> is_data x)"
  proof
    assume "\<exists>ys x zs. xs = ys @ x # replicate MAX_NO_DATA_INTERVAL_MS Tick @ zs \<and> is_data x"
    then obtain ys x zs where "xs = ys @ (x # replicate MAX_NO_DATA_INTERVAL_MS Tick) @ zs" "is_data x" by auto
    then show "CloseWs \<in> set (snd (ka_run xs (addKeepAlive t)))"
      using silence_closes[of x MAX_NO_DATA_INTERVAL_MS "fst (ka_run ys (addKeepAlive t))"]
      by (simp only: run_steps_append) (auto split: prod.splits)
  qed (rule close_needs_silence)
  show "ka_run (replicate n Tick) (addKeepAlive t) = (addKeepAlive (t + n), [])"
    by (induction n arbitrary: t) (simp_all add: addKeepAlive_def ka_defs)
qed

end
