(* ===== verification/Bgp_Listener.thy ===== *)
theory Bgp_Listener
  imports Machine Claims
begin

text \<open>
  The listener for BGP announcements (\<open>src/utils/bgp-listener.ts\<close>): the addresses it watches, the
  callbacks that wait for overlaps, and its websocket to the route collector with its reconnects.

  A websocket is a number; those whose \<open>onerror\<close> and \<open>onclose\<close> are still set and that have not closed
  are in \<open>bl_sockets\<close>. A callback is the number of its registration. The package \<open>ip-cidr\<close> is the
  argument that parses a prefix, or throws, and then tells which addresses it contains.
\<close>

type_synonym cidr_lib = "jsstring \<Rightarrow> js_error + (jsstring \<Rightarrow> bool)"

record bgp_listener =
  targetIps :: "jsstring list"
  bl_listeners :: "(nat \<times> jsstring list) list"
  bl_registered :: nat
  bl_closed :: bool
  bl_sockets :: "nat list"
  bl_opened :: nat

datatype bgp_output =
    Overlap nat jsstring
  | OpenWs nat
  | CloseWs nat
  | Subscribe nat

subsection \<open>The websocket\<close>

definition openWs :: "bgp_listener \<Rightarrow> bgp_listener \<times> bgp_output list" where
  "openWs s = (s\<lparr>bl_sockets := bl_sockets s @ [bl_opened s], bl_opened := Suc (bl_opened s)\<rparr>, [OpenWs (bl_opened s)])"

definition createBgpListener :: bgp_listener where
  "createBgpListener = fst (openWs \<lparr>targetIps = [], bl_listeners = [], bl_registered = 0, bl_closed = False,
     bl_sockets = [], bl_opened = 0\<rparr>)"

text \<open>The argument of \<open>onClose\<close>, an event or an error, is never missing.\<close>

definition bgp_onClose :: "bgp_listener \<Rightarrow> bgp_listener \<times> bgp_output list" where
  "bgp_onClose s = (if bl_closed s then (s, []) else openWs s)"

text \<open>\<open>close\<close> knows the last websocket only.\<close>

definition bgp_close :: "bgp_listener \<Rightarrow> bgp_listener \<times> bgp_output list" where
  "bgp_close s = (s\<lparr>bl_sockets := removeAll (bl_opened s - 1) (bl_sockets s), bl_closed := True\<rparr>, [CloseWs (bl_opened s - 1)])"

subsection \<open>Watching\<close>

definition onOverlap :: "jsstring list \<Rightarrow> bgp_listener \<Rightarrow> nat \<times> bgp_listener" where
  "onOverlap ips s =
     (bl_registered s,
      s\<lparr>targetIps := fold List.insert ips (targetIps s), bl_listeners := bl_listeners s @ [(bl_registered s, ips)],
        bl_registered := Suc (bl_registered s)\<rparr>)"

text \<open>The function that \<open>onOverlap\<close> returned.\<close>

definition cancelOverlap :: "nat \<Rightarrow> jsstring list \<Rightarrow> bgp_listener \<Rightarrow> bgp_listener" where
  "cancelOverlap n ips s =
     s\<lparr>targetIps := fold removeAll ips (targetIps s), bl_listeners := filter (\<lambda>(k, _). k \<noteq> n) (bl_listeners s)\<rparr>"

subsection \<open>Messages\<close>

text \<open>\<open>x?.key\<close>\<close>

definition opt_member :: "json option \<Rightarrow> jsstring \<Rightarrow> json option" where
  "opt_member j k = (case j of None \<Rightarrow> None | Some j' \<Rightarrow> json_member j' k)"

fun json_truthy :: "json option \<Rightarrow> bool" where
  "json_truthy None = False"
| "json_truthy (Some JNull) = False"
| "json_truthy (Some (JBool b)) = b"
| "json_truthy (Some (JNum n)) = (n \<noteq> 0)"
| "json_truthy (Some (JStr s)) = (s \<noteq> [])"
| "json_truthy (Some j) = True"

text \<open>\<open>x?.length\<close>, as a condition, and what a loop over \<open>x\<close> runs through.\<close>

fun has_length :: "json option \<Rightarrow> bool" where
  "has_length (Some (JArr xs)) = (xs \<noteq> [])"
| "has_length (Some (JStr s)) = (s \<noteq> [])"
| "has_length j = json_truthy (opt_member j (js ''length''))"

fun str_chars :: "jsstring \<Rightarrow> jsstring list" where
  "str_chars (u # v # vs) =
     (if 0xD800 \<le> u \<and> u \<le> 0xDBFF \<and> 0xDC00 \<le> v \<and> v \<le> 0xDFFF then [u, v] # str_chars vs else [u] # str_chars (v # vs))"
| "str_chars [u] = [[u]]"
| "str_chars [] = []"

fun iterate :: "json option \<Rightarrow> js_error + json list" where
  "iterate (Some (JArr xs)) = Inr xs"
| "iterate (Some (JStr s)) = Inr (map JStr (str_chars s))"
| "iterate j = Inl (JsTypeError ''prefixes is not iterable'')"

definition overlapsTargetIps :: "cidr_lib \<Rightarrow> jsstring list \<Rightarrow> json \<Rightarrow> js_error + bool" where
  "overlapsTargetIps C ips prefix =
     (case prefix of
        JStr p \<Rightarrow>
          if js_endsWith p (js ''/0'') then Inr False
          else bindR (C p) (\<lambda>contains. Inr (\<exists>ip \<in> set ips. contains ip))
      | _ \<Rightarrow> Inl (JsTypeError ''prefix.endsWith is not a function''))"

fun prefix_text :: "json \<Rightarrow> jsstring" where
  "prefix_text (JStr p) = p"
| "prefix_text _ = []"

text \<open>The events dispatched before an exception stay.\<close>

fun scan_prefixes :: "cidr_lib \<Rightarrow> bgp_listener \<Rightarrow> json list \<Rightarrow> bgp_output list \<times> js_error option" where
  "scan_prefixes C s [] = ([], None)"
| "scan_prefixes C s (p # ps) =
     (case overlapsTargetIps C (targetIps s) p of
        Inl e \<Rightarrow> ([], Some e)
      | Inr hit \<Rightarrow>
          (let (out, e) = scan_prefixes C s ps in
           ((if hit then map (\<lambda>(n, _). Overlap n (prefix_text p)) (bl_listeners s) else []) @ out, e)))"

definition has_prefixes :: "json option \<Rightarrow> json \<Rightarrow> bool" where
  "has_prefixes asPath announcement \<longleftrightarrow>
     has_length (opt_member (Some announcement) (js ''prefixes''))
     \<and> (json_truthy (opt_member (Some announcement) (js ''next_hop'')) \<or> json_truthy asPath)"

text \<open>The loop returns, and does not go on, at an announcement without prefixes.\<close>

fun scan_announcements :: "cidr_lib \<Rightarrow> json option \<Rightarrow> bgp_listener \<Rightarrow> json list \<Rightarrow> bgp_output list \<times> js_error option" where
  "scan_announcements C asPath s [] = ([], None)"
| "scan_announcements C asPath s (a # as) =
     (if \<not> has_prefixes asPath a then ([], None)
      else
        (case iterate (opt_member (Some a) (js ''prefixes'')) of
           Inl e \<Rightarrow> ([], Some e)
         | Inr ps \<Rightarrow>
             (case scan_prefixes C s ps of
                (out, Some e) \<Rightarrow> (out, Some e)
              | (out, None) \<Rightarrow> (let (out', e) = scan_announcements C asPath s as in (out @ out', e)))))"

definition bgp_onMessage :: "json_lib \<Rightarrow> cidr_lib \<Rightarrow> jsstring \<Rightarrow> bgp_listener \<Rightarrow> bgp_output list \<times> js_error option" where
  "bgp_onMessage J C message s =
     (case JSON_parse J message of
        None \<Rightarrow> ([], Some (JsSyntaxError ''JSON.parse''))
      | Some data \<Rightarrow>
          (let d = opt_member (Some data) (js ''data'') in
           case opt_member d (js ''announcements'') of
             Some (JArr announcements) \<Rightarrow> scan_announcements C (opt_member d (js ''path'')) s announcements
           | _ \<Rightarrow> ([], None)))"

subsection \<open>Steps\<close>

datatype bgp_input =
    Watch "jsstring list"
  | Cancel nat
  | CloseListener
  | WsOpened nat
  | WsFailed nat
  | WsClosed nat
  | WsData nat jsstring

fun bgp_step :: "json_lib \<Rightarrow> cidr_lib \<Rightarrow> bgp_input \<Rightarrow> bgp_listener \<Rightarrow> bgp_listener \<times> bgp_output list" where
  "bgp_step J C (Watch ips) s = (snd (onOverlap ips s), [])"
| "bgp_step J C (Cancel n) s =
     (case map_of (bl_listeners s) n of None \<Rightarrow> (s, []) | Some ips \<Rightarrow> (cancelOverlap n ips s, []))"
| "bgp_step J C CloseListener s = bgp_close s"
| "bgp_step J C (WsOpened k) s = (s, [Subscribe k])"
| "bgp_step J C (WsFailed k) s = (if k \<in> set (bl_sockets s) then bgp_onClose s else (s, []))"
| "bgp_step J C (WsClosed k) s =
     (if k \<in> set (bl_sockets s) then bgp_onClose (s\<lparr>bl_sockets := removeAll k (bl_sockets s)\<rparr>) else (s, []))"
| "bgp_step J C (WsData k message) s = (s, fst (bgp_onMessage J C message s))"

abbreviation bgp_run :: "json_lib \<Rightarrow> cidr_lib \<Rightarrow> bgp_input list \<Rightarrow> bgp_listener \<Rightarrow> bgp_listener \<times> bgp_output list" where
  "bgp_run J C \<equiv> run_steps (bgp_step J C)"

subsection \<open>Reports\<close>

text \<open>Prefixes that parse, and those of them that are reported.\<close>

definition good_prefix :: "cidr_lib \<Rightarrow> json \<Rightarrow> bool" where
  "good_prefix C p \<longleftrightarrow> (\<exists>s. p = JStr s \<and> (js_endsWith s (js ''/0'') \<or> is_ok (C s)))"

definition watched :: "cidr_lib \<Rightarrow> jsstring list \<Rightarrow> jsstring \<Rightarrow> bool" where
  "watched C ips p \<longleftrightarrow> \<not> js_endsWith p (js ''/0'') \<and> (case C p of Inl _ \<Rightarrow> False | Inr contains \<Rightarrow> \<exists>ip \<in> set ips. contains ip)"

definition reports :: "cidr_lib \<Rightarrow> bgp_listener \<Rightarrow> json list \<Rightarrow> bgp_output list" where
  "reports C s ps = concat (map (\<lambda>p. map (\<lambda>(n, _). Overlap n p) (bl_listeners s)) (filter (watched C (targetIps s)) (map prefix_text ps)))"

lemma scan_prefixes_reports:
  "\<forall>p \<in> set ps. good_prefix C p \<Longrightarrow> scan_prefixes C s ps = (reports C s ps, None)"
proof (induction ps)
  case (Cons p ps)
  then have "good_prefix C p" by simp
  then obtain x where x: "p = JStr x" "js_endsWith x (js ''/0'') \<or> is_ok (C x)" by (auto simp: good_prefix_def)
  then have "overlapsTargetIps C (targetIps s) p = Inr (watched C (targetIps s) x)"
    by (cases "C x") (auto simp: overlapsTargetIps_def watched_def)
  then show ?case using Cons x(1) by (simp add: reports_def)
qed (simp add: reports_def)

lemma scan_announcements_reports:
  assumes "\<forall>a \<in> set as. \<exists>ps. json_member a (js ''prefixes'') = Some (JArr ps) \<and> ps \<noteq> [] \<and> (\<forall>p \<in> set ps. good_prefix C p)"
    and "json_truthy asPath"
  shows "scan_announcements C asPath s as =
    (concat (map (\<lambda>a. case json_member a (js ''prefixes'') of Some (JArr ps) \<Rightarrow> reports C s ps | _ \<Rightarrow> []) as), None)"
  using assms(1)
proof (induction as)
  case (Cons a as)
  then obtain ps where ps: "json_member a (js ''prefixes'') = Some (JArr ps)" "ps \<noteq> []" "\<forall>p \<in> set ps. good_prefix C p" by auto
  then show ?case using Cons assms(2) scan_prefixes_reports[OF ps(3)] by (simp add: has_prefixes_def opt_member_def)
qed simp

text \<open>A well-formed update is reported exactly: every callback is called for every announced prefix that
  contains a watched address, in order, prefixes that end in \<open>/0\<close> excepted. Every callback hears of it,
  also one whose own addresses the prefix does not contain.\<close>

theorem overlaps_reported:
  assumes "JSON_parse J message = Some msg" and "json_member msg (js ''data'') = Some d"
    and "json_member d (js ''announcements'') = Some (JArr as)" and "json_truthy (json_member d (js ''path''))"
    and "\<forall>a \<in> set as. \<exists>ps. json_member a (js ''prefixes'') = Some (JArr ps) \<and> ps \<noteq> [] \<and> (\<forall>p \<in> set ps. good_prefix C p)"
  shows "bgp_onMessage J C message s =
    (concat (map (\<lambda>a. case json_member a (js ''prefixes'') of Some (JArr ps) \<Rightarrow> reports C s ps | _ \<Rightarrow> []) as), None)"
  using scan_announcements_reports[OF assms(5,4), of s] assms(1-3) by (simp add: bgp_onMessage_def opt_member_def)

lemma no_targets_no_reports: "targetIps s = [] \<Longrightarrow> fst (scan_prefixes C s ps) = []"
  by (induction ps) (auto simp: overlapsTargetIps_def bindR_def split: json.splits sum.splits prod.splits if_splits)

lemma no_targets_no_announcements: "targetIps s = [] \<Longrightarrow> fst (scan_announcements C p s as) = []"
proof (induction as)
  case (Cons a as)
  then show ?case using no_targets_no_reports[of s C]
    by (auto split: sum.splits prod.splits option.splits) (metis fst_conv)+
qed simp

lemma no_targets_silent: "targetIps s = [] \<Longrightarrow> fst (bgp_onMessage J C message s) = []"
  using no_targets_no_announcements[of s C] by (auto simp: bgp_onMessage_def Let_def split: option.splits json.splits)

lemma set_fold_removeAll: "set (fold removeAll xs ys) = set ys - set xs"
  by (induction xs arbitrary: ys) auto

lemma set_fold_insert: "set (fold List.insert xs ys) = set xs \<union> set ys"
  by (induction xs arbitrary: ys) auto

text \<open>Cancelling takes the addresses from everyone: of two tunnels to the same addresses, the second is
  no longer told of any announcement once the first one ends.\<close>

theorem cancel_blinds_others:
  assumes "set ips' \<subseteq> set ips"
  shows "let (s, out) = bgp_run J C [Watch ips, Watch ips', Cancel 0] createBgpListener in
    bl_listeners s = [(1, ips')] \<and> snd (bgp_step J C (WsData k message) s) = []"
proof -
  let ?s = "cancelOverlap 0 ips (snd (onOverlap ips' (snd (onOverlap ips createBgpListener))))"
  have "set (targetIps ?s) = {}"
    using assms by (simp add: cancelOverlap_def onOverlap_def set_fold_removeAll set_fold_insert createBgpListener_def openWs_def)
  then have "fst (bgp_onMessage J C message ?s) = []" by (simp add: no_targets_silent)
  then show ?thesis by (simp add: onOverlap_def createBgpListener_def openWs_def cancelOverlap_def)
qed

text \<open>An announcement without prefixes hides those after it.\<close>

lemma announcement_without_prefixes_hides_later:
  "json_member a (js ''prefixes'') = None \<Longrightarrow> scan_announcements C p s (a # as) = ([], None)"
  by (simp add: has_prefixes_def opt_member_def)

subsection \<open>Reconnecting\<close>

text \<open>A failing websocket reports an error and then that it has closed.\<close>

definition fail_socket :: "json_lib \<Rightarrow> cidr_lib \<Rightarrow> nat \<Rightarrow> bgp_listener \<Rightarrow> bgp_listener" where
  "fail_socket J C k s = fst (bgp_run J C [WsFailed k, WsClosed k] s)"

definition fail_all :: "json_lib \<Rightarrow> cidr_lib \<Rightarrow> bgp_listener \<Rightarrow> bgp_listener" where
  "fail_all J C s = fold (fail_socket J C) (bl_sockets s) s"

definition sockets_ok :: "bgp_listener \<Rightarrow> bool" where
  "sockets_ok s \<longleftrightarrow> \<not> bl_closed s \<and> distinct (bl_sockets s) \<and> (\<forall>k \<in> set (bl_sockets s). k < bl_opened s)"

lemma fail_socket_sockets:
  assumes "sockets_ok s" and "k \<in> set (bl_sockets s)"
  shows "sockets_ok (fail_socket J C k s)
    \<and> bl_sockets (fail_socket J C k s) = removeAll k (bl_sockets s) @ [bl_opened s, Suc (bl_opened s)]"
  using assms by (fastforce simp: fail_socket_def bgp_onClose_def openWs_def sockets_ok_def distinct_removeAll)

lemma fold_fail_sockets:
  "sockets_ok s \<Longrightarrow> bl_sockets s = ks @ rest \<Longrightarrow>
     sockets_ok (fold (fail_socket J C) ks s) \<and> length (bl_sockets (fold (fail_socket J C) ks s)) = 2 * length ks + length rest"
proof (induction ks arbitrary: s rest)
  case (Cons k ks)
  have f: "sockets_ok (fail_socket J C k s)" "bl_sockets (fail_socket J C k s) = removeAll k (bl_sockets s) @ [bl_opened s, Suc (bl_opened s)]"
    using fail_socket_sockets[of s k J C] Cons.prems by auto
  have "removeAll k (bl_sockets s) = ks @ rest" using Cons.prems by (simp add: sockets_ok_def removeAll_id)
  then show ?case using Cons.IH[OF f(1), of "rest @ [bl_opened s, Suc (bl_opened s)]"] f(2) by simp
qed simp

lemma fail_all_sockets:
  "sockets_ok s \<Longrightarrow> sockets_ok (fail_all J C s) \<and> length (bl_sockets (fail_all J C s)) = 2 * length (bl_sockets s)"
  using fold_fail_sockets[of s "bl_sockets s" "[]" J C] by (simp add: fail_all_def)

text \<open>While the collector cannot be reached the websockets multiply: each failing websocket is replaced by
  two, one for its error and one for its close, so after \<open>n\<close> rounds there are \<open>2 ^ n\<close>.\<close>

theorem reconnects_double:
  "length (bl_sockets ((fail_all J C ^^ n) createBgpListener)) = 2 ^ n"
proof -
  have "sockets_ok ((fail_all J C ^^ n) createBgpListener) \<and> length (bl_sockets ((fail_all J C ^^ n) createBgpListener)) = 2 ^ n"
  proof (induction n)
    case 0
    show ?case by (simp add: createBgpListener_def openWs_def sockets_ok_def)
  next
    case (Suc n)
    then show ?case using fail_all_sockets[of "(fail_all J C ^^ n) createBgpListener" J C] by simp
  qed
  then show ?thesis by simp
qed

subsection \<open>Witnesses\<close>

definition ref_update :: json where
  "ref_update = JObj [(js ''data'', JObj [(js ''path'', JArr []), (js ''announcements'',
     JArr [JObj [(js ''prefixes'', JArr [JStr (js ''1.2.0.0/16''), JStr (js ''0.0.0.0/0'')])]])])]"

theorem overlaps_reported_witness:
  "bgp_onMessage \<lparr>JSON_parse = (\<lambda>_. Some ref_update), JSON_stringify = (\<lambda>_. [])\<rparr> (\<lambda>_. Inr (\<lambda>ip. ip = js ''1.2.3.4'')) []
     (snd (onOverlap [js ''5.6.7.8''] (snd (onOverlap [js ''1.2.3.4''] createBgpListener))))
   = ([Overlap 0 (js ''1.2.0.0/16''), Overlap 1 (js ''1.2.0.0/16'')], None)"
proof -
  let ?J = "\<lparr>JSON_parse = (\<lambda>_. Some ref_update), JSON_stringify = (\<lambda>_. [])\<rparr>" and ?C = "\<lambda>_ :: jsstring. Inr (\<lambda>ip. ip = js ''1.2.3.4'')"
  let ?ps = "[JStr (js ''1.2.0.0/16''), JStr (js ''0.0.0.0/0'')]"
  let ?s = "snd (onOverlap [js ''5.6.7.8''] (snd (onOverlap [js ''1.2.3.4''] createBgpListener)))"
  let ?a = "JObj [(js ''prefixes'', JArr ?ps)]"
  have n: "js ''path'' \<noteq> js ''announcements''" by (simp add: js_def)
  have "bgp_onMessage ?J ?C [] ?s =
      (concat (map (\<lambda>a. case json_member a (js ''prefixes'') of Some (JArr ps) \<Rightarrow> reports ?C ?s ps | _ \<Rightarrow> []) [?a]), None)"
    by (rule overlaps_reported[of _ _ ref_update "JObj [(js ''path'', JArr []), (js ''announcements'', JArr [?a])]"])
      (simp_all add: ref_update_def json_member_def n not_sym[OF n] good_prefix_def)
  moreover have "watched ?C ips (js ''1.2.0.0/16'') = (js ''1.2.3.4'' \<in> set ips)" "\<not> watched ?C ips (js ''0.0.0.0/0'')" for ips
    by (auto simp: watched_def js_endsWith_def is_prefix_def js_def)
  ultimately show ?thesis
    by (simp add: json_member_def reports_def onOverlap_def createBgpListener_def openWs_def)
qed

theorem cancel_blinds_others_witness:
  "let J = \<lparr>JSON_parse = (\<lambda>_. Some ref_update), JSON_stringify = (\<lambda>_. [])\<rparr>; C = \<lambda>_. Inr (\<lambda>_. True) in
   snd (bgp_step J C (WsData 0 [])
     (fst (bgp_run J C [Watch [js ''1.2.3.4''], Watch [js ''1.2.3.4''], Cancel 0] createBgpListener))) = []"
  using cancel_blinds_others[of "[js ''1.2.3.4'']" "[js ''1.2.3.4'']" "\<lparr>JSON_parse = (\<lambda>_. Some ref_update), JSON_stringify = (\<lambda>_. [])\<rparr>"
    "\<lambda>_. Inr (\<lambda>_. True)" 0 "[]"]
  by (simp add: Let_def case_prod_beta)

end
