(* ===== verification/Wire.thy ===== *)
theory Wire
  imports Messages
begin

text \<open>
  The wire format under \<open>src/proto/api.ts\<close>. The writer and the reader of \<open>@bufbuild/protobuf\<close> are a
  parameter: the functions of the record \<open>wire_lib\<close>, one per method the generated code calls, with the
  documented behaviour the proofs rely on as \<open>wire_spec\<close> (what a method writes, its counterpart reads
  back and leaves the rest) and \<open>wire_progress\<close> (a read consumes bytes). A writer is the bytes written, a
  reader the bytes left; \<open>reader.pos < end\<close> compares the bytes left with those behind the end.

  All decoders of the file have one shape: a loop over tagged fields, \<open>decode_loop\<close>, around a \<open>switch\<close>,
  which is the parameter \<open>step\<close> (\<open>None\<close> for a tag that has no case).
\<close>

subsection \<open>The library\<close>

record wire_lib =
  w_uint32 :: "int \<Rightarrow> bytes"
  w_int32 :: "int \<Rightarrow> bytes"
  w_uint64 :: "int \<Rightarrow> bytes"
  w_bytes :: "bytes \<Rightarrow> bytes"
  w_string :: "jsstring \<Rightarrow> bytes"
  r_uint32 :: "bytes \<Rightarrow> js_error + int \<times> bytes"
  r_int32 :: "bytes \<Rightarrow> js_error + int \<times> bytes"
  r_uint64 :: "bytes \<Rightarrow> js_error + int \<times> bytes"
  r_bytes :: "bytes \<Rightarrow> js_error + bytes \<times> bytes"
  r_string :: "bytes \<Rightarrow> js_error + jsstring \<times> bytes"
  r_skip :: "int \<Rightarrow> bytes \<Rightarrow> js_error + bytes"

definition is_u32 :: "int \<Rightarrow> bool" where
  "is_u32 n \<longleftrightarrow> 0 \<le> n \<and> n < 2 ^ 32"

definition is_i32 :: "int \<Rightarrow> bool" where
  "is_i32 n \<longleftrightarrow> - (2 ^ 31) \<le> n \<and> n < 2 ^ 31"

definition is_u64 :: "int \<Rightarrow> bool" where
  "is_u64 n \<longleftrightarrow> 0 \<le> n \<and> n < 2 ^ 64"

text \<open>Text that survives UTF-8: no lone surrogate and no byte order mark at the front.\<close>

definition is_text :: "jsstring \<Rightarrow> bool" where
  "is_text s \<longleftrightarrow> text_decode (text_encode s) = s"

definition small :: "bytes \<Rightarrow> bool" where
  "small b \<longleftrightarrow> int (length b) < 2 ^ 32"

definition wire_spec :: "wire_lib \<Rightarrow> bool" where
  "wire_spec W \<longleftrightarrow>
     (\<forall>n r. is_u32 n \<longrightarrow> r_uint32 W (w_uint32 W n @ r) = Inr (n, r))
     \<and> (\<forall>n r. is_i32 n \<longrightarrow> r_int32 W (w_int32 W n @ r) = Inr (n, r))
     \<and> (\<forall>n r. is_u64 n \<longrightarrow> r_uint64 W (w_uint64 W n @ r) = Inr (n, r))
     \<and> (\<forall>b r. small (w_bytes W b) \<longrightarrow> r_bytes W (w_bytes W b @ r) = Inr (b, r))
     \<and> (\<forall>s r. is_text s \<and> small (w_string W s) \<longrightarrow> r_string W (w_string W s @ r) = Inr (s, r))"

lemma wire_specD:
  assumes "wire_spec W"
  shows "is_u32 n \<Longrightarrow> r_uint32 W (w_uint32 W n @ r) = Inr (n, r)"
    and "is_i32 n \<Longrightarrow> r_int32 W (w_int32 W n @ r) = Inr (n, r)"
    and "is_u64 n \<Longrightarrow> r_uint64 W (w_uint64 W n @ r) = Inr (n, r)"
    and "small (w_bytes W b) \<Longrightarrow> r_bytes W (w_bytes W b @ r) = Inr (b, r)"
    and "is_text s \<Longrightarrow> small (w_string W s) \<Longrightarrow> r_string W (w_string W s @ r) = Inr (s, r)"
  using assms by (simp_all add: wire_spec_def)

lemma small_append: "small (a @ b) \<Longrightarrow> small a \<and> small b"
  by (simp add: small_def)

lemma is_u32_num [simp]: "0 \<le> n \<Longrightarrow> n < 2 ^ 32 \<Longrightarrow> is_u32 n"
  by (simp add: is_u32_def)

text \<open>A tag is never written as nothing: two different numbers could not both be read back.\<close>

lemma w_uint32_nonempty:
  assumes "wire_spec W" and "is_u32 n"
  shows "w_uint32 W n \<noteq> []"
proof
  assume e: "w_uint32 W n = []"
  let ?k = "if n = 0 then 1 else 0 :: int"
  have "r_uint32 W (w_uint32 W n @ w_uint32 W ?k) = Inr (n, w_uint32 W ?k)"
    using wire_specD(1)[OF assms(1) assms(2)] .
  moreover have "r_uint32 W (w_uint32 W ?k @ []) = Inr (?k, [])"
    using wire_specD(1)[OF assms(1), of ?k "[]"] by (simp add: is_u32_def)
  ultimately show False using e by (simp split: if_splits)
qed

subsection \<open>Writing\<close>

text \<open>\<open>fork\<close> and \<open>join\<close>: the length of what was written in between goes before it.\<close>

definition fork_join :: "wire_lib \<Rightarrow> bytes \<Rightarrow> bytes" where
  "fork_join W b = w_uint32 W (int (length b)) @ b"

definition put_uint32 :: "wire_lib \<Rightarrow> int \<Rightarrow> int \<Rightarrow> bytes" where
  "put_uint32 W tag n = (if n \<noteq> 0 then w_uint32 W tag @ w_uint32 W n else [])"

definition put_int32 :: "wire_lib \<Rightarrow> int \<Rightarrow> int \<Rightarrow> bytes" where
  "put_int32 W tag n = (if n \<noteq> 0 then w_uint32 W tag @ w_int32 W n else [])"

definition put_uint64 :: "wire_lib \<Rightarrow> int \<Rightarrow> int \<Rightarrow> bytes" where
  "put_uint64 W tag n = (if n \<noteq> 0 then w_uint32 W tag @ w_uint64 W n else [])"

definition put_bytes :: "wire_lib \<Rightarrow> int \<Rightarrow> bytes \<Rightarrow> bytes" where
  "put_bytes W tag b = (if b \<noteq> [] then w_uint32 W tag @ w_bytes W b else [])"

definition put_string :: "wire_lib \<Rightarrow> int \<Rightarrow> jsstring \<Rightarrow> bytes" where
  "put_string W tag s = (if s \<noteq> [] then w_uint32 W tag @ w_string W s else [])"

definition put_message :: "wire_lib \<Rightarrow> int \<Rightarrow> ('a \<Rightarrow> bytes) \<Rightarrow> 'a option \<Rightarrow> bytes" where
  "put_message W tag enc x = (case x of None \<Rightarrow> [] | Some m \<Rightarrow> w_uint32 W tag @ fork_join W (enc m))"

definition put_strings :: "wire_lib \<Rightarrow> int \<Rightarrow> jsstring list \<Rightarrow> bytes" where
  "put_strings W tag xs = concat (map (\<lambda>v. w_uint32 W tag @ w_string W v) xs)"

definition put_messages :: "wire_lib \<Rightarrow> int \<Rightarrow> ('a \<Rightarrow> bytes) \<Rightarrow> 'a list \<Rightarrow> bytes" where
  "put_messages W tag enc xs = concat (map (\<lambda>m. w_uint32 W tag @ fork_join W (enc m)) xs)"

subsection \<open>Reading\<close>

type_synonym 'm reader = "int \<Rightarrow> bytes \<Rightarrow> js_error + 'm \<times> bytes"
type_synonym 'm step = "int \<Rightarrow> 'm \<Rightarrow> bytes \<Rightarrow> (js_error + 'm \<times> bytes) option"

definition out_of_fuel :: js_error where
  "out_of_fuel = PlainError ''decoder: out of fuel''"

text \<open>
  A turn reads a tag and gives it to the \<open>switch\<close>. A tag without a case ends the message (an end-group
  tag, or 0) or its field is skipped. The bytes left bound the number of turns, as each reads a tag.
\<close>

fun decode_loop :: "wire_lib \<Rightarrow> 'm step \<Rightarrow> nat \<Rightarrow> int \<Rightarrow> 'm \<Rightarrow> bytes \<Rightarrow> js_error + 'm \<times> bytes" where
  "decode_loop W step 0 stop m r = Inl out_of_fuel"
| "decode_loop W step (Suc fuel) stop m r =
     (if \<not> stop < int (length r) then Inr (m, r)
      else bindR (r_uint32 W r) (\<lambda>(tag, r1).
        case step tag m r1 of
          Some out \<Rightarrow> bindR out (\<lambda>(m', r2). decode_loop W step fuel stop m' r2)
        | None \<Rightarrow>
            if tag mod 8 = 4 \<or> tag = 0 then Inr (m, r1)
            else bindR (r_skip W (tag mod 8) r1) (decode_loop W step fuel stop m)))"

definition decode_fields :: "wire_lib \<Rightarrow> 'm step \<Rightarrow> 'm \<Rightarrow> 'm reader" where
  "decode_fields W step base len r = decode_loop W step (Suc (length r)) (int (length r) - len) base r"

text \<open>One case of a \<open>switch\<close>: read a value and put it into the message.\<close>

definition field :: "js_error + 'v \<times> bytes \<Rightarrow> ('v \<Rightarrow> 'm) \<Rightarrow> (js_error + 'm \<times> bytes) option" where
  "field rd put = Some (bindR rd (\<lambda>(v, r). Inr (put v, r)))"

definition r_message :: "wire_lib \<Rightarrow> 'm reader \<Rightarrow> bytes \<Rightarrow> js_error + 'm \<times> bytes" where
  "r_message W dec r = bindR (r_uint32 W r) (\<lambda>(len, r1). dec len r1)"

text \<open>\<open>decode\<close> of a byte array: without a length the end is the end of the array.\<close>

definition decode_whole :: "'m reader \<Rightarrow> bytes \<Rightarrow> js_error + 'm" where
  "decode_whole dec b = bindR (dec (int (length b)) b) (\<lambda>(m, _). Inr m)"

subsection \<open>What every decoded message has\<close>

lemma decode_loop_inv:
  assumes "\<And>tag m r m' r'. P m \<Longrightarrow> step tag m r = Some (Inr (m', r')) \<Longrightarrow> P m'"
  shows "P m \<Longrightarrow> decode_loop W step fuel stop m r = Inr (m', r') \<Longrightarrow> P m'"
proof (induction fuel arbitrary: m r)
  case (Suc fuel)
  have next_turn: "P m'" if "step tag m r1 = Some (Inr (m1, r2))" "decode_loop W step fuel stop m1 r2 = Inr (m', r')" for tag r1 m1 r2
    by (rule Suc.IH[OF assms[OF Suc.prems(1) that(1)] that(2)])
  show ?case
    using Suc.prems Suc.IH[OF Suc.prems(1)] next_turn by (fastforce simp: bindR_Inr_iff split: if_splits option.splits)
qed simp

lemma decode_fields_inv:
  assumes "decode_fields W step base len r = Inr (m, r')" and "P base"
    and "\<And>tag m r m' r'. P m \<Longrightarrow> step tag m r = Some (Inr (m', r')) \<Longrightarrow> P m'"
  shows "P m"
  using decode_loop_inv[of P step base W "Suc (length r)" "int (length r) - len" r m r'] assms unfolding decode_fields_def by blast

lemma field_Some: "field rd put = Some (Inr (m, r)) \<longleftrightarrow> (\<exists>v. rd = Inr (v, r) \<and> m = put v)"
  by (auto simp: field_def bindR_Inr_iff)

subsection \<open>Reading back what was written\<close>

text \<open>\<open>fields_read m b m'\<close>: the bytes are fields that take the message \<open>m\<close> to \<open>m'\<close>.\<close>

inductive fields_read :: "wire_lib \<Rightarrow> 'm step \<Rightarrow> 'm \<Rightarrow> bytes \<Rightarrow> 'm \<Rightarrow> bool" for W step where
  no_field: "fields_read W step m [] m"
| a_field: "is_u32 tag \<Longrightarrow> (\<And>r. step tag m (c @ r) = Some (Inr (m', r))) \<Longrightarrow> fields_read W step m' b m''
    \<Longrightarrow> fields_read W step m (w_uint32 W tag @ c @ b) m''"

lemma fields_read_append:
  "fields_read W step m a m' \<Longrightarrow> fields_read W step m' b m'' \<Longrightarrow> fields_read W step m (a @ b) m''"
  by (induction rule: fields_read.induct) (auto intro: fields_read.intros)

lemma fields_read_one:
  "is_u32 tag \<Longrightarrow> (\<And>r. step tag m (c @ r) = Some (Inr (m', r))) \<Longrightarrow> fields_read W step m (w_uint32 W tag @ c) m'"
  using a_field[of tag step m c m' W "[]" m'] no_field by fastforce

lemma decode_loop_prefix:
  assumes "fields_read W step m b m'" and "wire_spec W" and "length b < fuel" and "stop \<le> int (length r)"
  shows "\<exists>k. fuel \<le> k + length b \<and> 0 < k \<and> decode_loop W step fuel stop m (b @ r) = decode_loop W step k stop m' r"
  using assms(1,3)
proof (induction arbitrary: fuel rule: fields_read.induct)
  case (a_field tag m c m' b m'')
  have "w_uint32 W tag \<noteq> []" by (rule w_uint32_nonempty[OF assms(2) a_field.hyps(1)])
  moreover obtain f where f: "fuel = Suc f" using a_field.prems by (cases fuel) auto
  ultimately have l: "length b < f" "stop < int (length ((w_uint32 W tag @ c @ b) @ r))"
    using a_field.prems assms(4) by (cases "w_uint32 W tag"; auto)+
  obtain k where "f \<le> k + length b" "0 < k" "decode_loop W step f stop m' (b @ r) = decode_loop W step k stop m'' r"
    using a_field.IH[OF l(1)] by blast
  then show ?case
    using a_field.hyps(2) wire_specD(1)[OF assms(2) a_field.hyps(1)] f l(2) \<open>w_uint32 W tag \<noteq> []\<close>
    by (intro exI[of _ k]) (cases "w_uint32 W tag"; simp)
qed auto

lemma decode_loop_reads:
  assumes "fields_read W step m b m'" and "wire_spec W" and "length b < fuel"
  shows "decode_loop W step fuel (int (length r)) m (b @ r) = Inr (m', r)"
proof -
  obtain k where k: "0 < k" "decode_loop W step fuel (int (length r)) m (b @ r) = decode_loop W step k (int (length r)) m' r"
    using decode_loop_prefix[OF assms, of "int (length r)" r] by auto
  then show ?thesis by (cases k) simp_all
qed

text \<open>\<open>reads\<close>: the same for bytes whose length fits into a length field.\<close>

definition reads :: "wire_lib \<Rightarrow> 'm step \<Rightarrow> 'm \<Rightarrow> bytes \<Rightarrow> 'm \<Rightarrow> bool" where
  "reads W step m b m' \<longleftrightarrow> wire_spec W \<and> (small b \<longrightarrow> fields_read W step m b m')"

text \<open>\<open>carries W enc dec m\<close>: the message comes back from its encoding.\<close>

definition carries :: "('m \<Rightarrow> bytes) \<Rightarrow> 'm reader \<Rightarrow> 'm \<Rightarrow> bool" where
  "carries enc dec m \<longleftrightarrow> (small (enc m) \<longrightarrow> (\<forall>r. dec (int (length (enc m))) (enc m @ r) = Inr (m, r)))"

lemma carries_decode:
  assumes "reads W step base (enc m) m"
  shows "carries enc (decode_fields W step base) m"
  using decode_loop_reads[of W step base "enc m" m] assms
  by (auto simp: carries_def reads_def decode_fields_def simp del: decode_loop.simps)

text \<open>A field without a case, behind the others, is skipped.\<close>

lemma unknown_field_skipped:
  assumes "reads W step base (enc m) m" and "small (enc m)" and "is_u32 tag" and "tag mod 8 \<noteq> 4" and "tag \<noteq> 0"
    and "\<And>m r. step tag m r = None" and "r_skip W (tag mod 8) c = Inr []"
  shows "decode_whole (decode_fields W step base) (enc m @ w_uint32 W tag @ c) = Inr m"
proof -
  let ?r = "w_uint32 W tag @ c"
  have W: "wire_spec W" and f: "fields_read W step base (enc m) m" using assms(1,2) by (simp_all add: reads_def)
  have n: "w_uint32 W tag \<noteq> []" by (rule w_uint32_nonempty[OF W assms(3)])
  then have l: "1 \<le> length ?r" "0 < int (length ?r)" by (cases "w_uint32 W tag"; auto)+
  obtain k where k: "Suc (length (enc m @ ?r)) \<le> k + length (enc m)"
      "decode_loop W step (Suc (length (enc m @ ?r))) 0 base (enc m @ ?r) = decode_loop W step k 0 m ?r"
    using decode_loop_prefix[OF f W, of "Suc (length (enc m @ ?r))" 0 ?r] by auto
  then have "Suc 1 \<le> k" using l by simp
  then obtain j where j: "k = Suc (Suc j)" by (cases k; cases "k - 1") auto
  have "decode_loop W step k 0 m ?r = Inr (m, [])"
    using assms(4-7) wire_specD(1)[OF W assms(3), of c] l(2) j by simp
  then show ?thesis using k(2) by (simp add: decode_whole_def decode_fields_def del: decode_loop.simps)
qed

lemma decode_whole_encode: "carries enc dec m \<Longrightarrow> small (enc m) \<Longrightarrow> decode_whole dec (enc m) = Inr m"
  using spec[of "\<lambda>r. dec (int (length (enc m))) (enc m @ r) = Inr (m, r)" "[]"]
  by (auto simp: carries_def decode_whole_def)

lemma reads_seq: "reads W step m a m' \<Longrightarrow> reads W step m' b m'' \<Longrightarrow> reads W step m (a @ b) m''"
  by (auto simp: reads_def dest!: small_append intro: fields_read_append)

lemma reads_field:
  assumes "wire_spec W" and "is_u32 tag" and "\<And>r. step tag m r = field (rd r) put"
    and "\<And>r. small c \<Longrightarrow> rd (c @ r) = Inr (v, r)"
  shows "reads W step m (w_uint32 W tag @ c) (put v)"
  using assms by (auto simp: reads_def field_def dest!: small_append intro!: fields_read_one)

lemma reads_nothing: "wire_spec W \<Longrightarrow> reads W step m [] m"
  by (simp add: reads_def no_field)

lemma reads_put_uint32:
  assumes "\<And>r. step tag m r = field (r_uint32 W r) put" "put 0 = m" "is_u32 n" "is_u32 tag" "wire_spec W"
  shows "reads W step m (put_uint32 W tag n) (put n)"
  using assms reads_field[of W tag step m "r_uint32 W" put "w_uint32 W n" n] wire_specD(1)[of W]
  by (auto simp: put_uint32_def reads_nothing)

lemma reads_put_int32:
  assumes "\<And>r. step tag m r = field (r_int32 W r) put" "put 0 = m" "is_i32 n" "is_u32 tag" "wire_spec W"
  shows "reads W step m (put_int32 W tag n) (put n)"
  using assms reads_field[of W tag step m "r_int32 W" put "w_int32 W n" n] wire_specD(2)[of W]
  by (auto simp: put_int32_def reads_nothing)

lemma reads_put_bytes:
  assumes "\<And>r. step tag m r = field (r_bytes W r) put" "put [] = m" "is_u32 tag" "wire_spec W"
  shows "reads W step m (put_bytes W tag b) (put b)"
  using assms reads_field[of W tag step m "r_bytes W" put "w_bytes W b" b] wire_specD(4)[of W]
  by (auto simp: put_bytes_def reads_nothing)

lemma reads_put_string:
  assumes "\<And>r. step tag m r = field (r_string W r) put" "put [] = m" "is_text s" "is_u32 tag" "wire_spec W"
  shows "reads W step m (put_string W tag s) (put s)"
  using assms reads_field[of W tag step m "r_string W" put "w_string W s" s] wire_specD(5)[of W]
  by (auto simp: put_string_def reads_nothing)

lemma r_message_carries:
  assumes "wire_spec W" and "carries enc dec v" and "small (fork_join W (enc v))"
  shows "r_message W dec (fork_join W (enc v) @ r) = Inr (v, r)"
proof -
  have "small (enc v)" using assms(3) by (simp add: fork_join_def small_def)
  then show ?thesis
    using assms(2) wire_specD(1)[OF assms(1), of "int (length (enc v))"]
    by (simp add: r_message_def fork_join_def carries_def is_u32_def small_def)
qed

lemma reads_put_message:
  assumes "\<And>r. step tag m r = field (r_message W dec r) (\<lambda>v. put (Some v))" and "put None = m"
    and "\<And>v. x = Some v \<Longrightarrow> carries enc dec v" and "is_u32 tag" and "wire_spec W"
  shows "reads W step m (put_message W tag enc x) (put x)"
proof (cases x)
  case None
  then show ?thesis using assms by (simp add: put_message_def reads_nothing)
next
  case (Some v)
  then show ?thesis
    using assms reads_field[of W tag step m "r_message W dec" "\<lambda>v. put (Some v)" "fork_join W (enc v)" v] r_message_carries[of W enc dec v]
    by (simp add: put_message_def)
qed

text \<open>Repeated fields: each occurrence appends.\<close>

lemma reads_repeated:
  assumes "wire_spec W" and "\<And>vs v. v \<in> set xs \<Longrightarrow> reads W step (put vs) (w v) (put (vs @ [v]))"
  shows "reads W step (put vs0) (concat (map w xs)) (put (vs0 @ xs))"
  using assms(2)
proof (induction xs arbitrary: vs0)
  case Nil
  then show ?case using assms(1) by (simp add: reads_nothing)
next
  case (Cons x xs)
  have "reads W step (put (vs0 @ [x])) (concat (map w xs)) (put ((vs0 @ [x]) @ xs))"
    using Cons by (intro Cons.IH) auto
  then show ?case using reads_seq[OF Cons.prems[of x vs0]] by simp
qed

lemma reads_put_messages:
  assumes "\<And>vs r. step tag (upd (\<lambda>_. vs) m) r = field (r_message W dec r) (\<lambda>v. upd (\<lambda>_. vs @ [v]) m)" and "upd (\<lambda>_. []) m = m"
    and "\<And>v. v \<in> set xs \<Longrightarrow> carries enc dec v" and "is_u32 tag" and "wire_spec W"
  shows "reads W step m (put_messages W tag enc xs) (upd (\<lambda>_. xs) m)"
proof -
  have "reads W step (upd (\<lambda>_. vs) m) (w_uint32 W tag @ fork_join W (enc v)) (upd (\<lambda>_. vs @ [v]) m)" if "v \<in> set xs" for vs v
    using assms that reads_field[of W tag step "upd (\<lambda>_. vs) m" "r_message W dec" "\<lambda>v. upd (\<lambda>_. vs @ [v]) m" "fork_join W (enc v)" v]
      r_message_carries[of W enc dec v] by simp
  then show ?thesis
    using reads_repeated[OF assms(5), of xs step "\<lambda>vs. upd (\<lambda>_. vs) m" "\<lambda>v. w_uint32 W tag @ fork_join W (enc v)" "[]"] assms(2)
    by (simp add: put_messages_def)
qed

lemma reads_put_strings:
  assumes "\<And>vs r. step tag (upd (\<lambda>_. vs) m) r = field (r_string W r) (\<lambda>v. upd (\<lambda>_. vs @ [v]) m)" and "upd (\<lambda>_. []) m = m"
    and "\<And>v. v \<in> set xs \<Longrightarrow> is_text v" and "is_u32 tag" and "wire_spec W"
  shows "reads W step m (put_strings W tag xs) (upd (\<lambda>_. xs) m)"
proof -
  have "reads W step (upd (\<lambda>_. vs) m) (w_uint32 W tag @ w_string W v) (upd (\<lambda>_. vs @ [v]) m)" if "v \<in> set xs" for vs v
    using assms that reads_field[of W tag step "upd (\<lambda>_. vs) m" "r_string W" "\<lambda>v. upd (\<lambda>_. vs @ [v]) m" "w_string W v" v]
      wire_specD(5)[of W v] by simp
  then show ?thesis
    using reads_repeated[OF assms(5), of xs step "\<lambda>vs. upd (\<lambda>_. vs) m" "\<lambda>v. w_uint32 W tag @ w_string W v" "[]"] assms(2)
    by (simp add: put_strings_def)
qed

lemmas wire_intros = reads_seq reads_put_uint32 reads_put_int32 reads_put_bytes reads_put_string reads_put_message

lemma reads_fields: "wire_spec W \<Longrightarrow> (wire_spec W \<Longrightarrow> reads W step base b m') \<Longrightarrow> m' = m \<Longrightarrow> reads W step base b m"
  by simp

lemma carries_fields:
  assumes "wire_spec W \<Longrightarrow> reads W step base (enc m) m'" and "m' = m" and "wire_spec W"
  shows "carries enc (decode_fields W step base) m"
  using assms carries_decode[of W step base enc m] by simp

end
