(* ===== verification/Wire_Messages.thy ===== *)
theory Wire_Messages
  imports Wire Message_Handler
begin

text \<open>
  The messages of \<open>src/proto/api.ts\<close> on the wire. For each message: the empty message of its
  \<open>createBase\<close> function, its \<open>encode\<close>, the \<open>switch\<close> of its \<open>decode\<close> (\<open>step\<close>), and \<open>decode\<close>.
  A message of one or two fields that has no type of its own in this development is its field or the
  pair of its fields; \<open>ClaimTunnelRequest_Signatures\<close> is the bytes of its only field.
\<close>

subsection \<open>Enums and error messages\<close>

text \<open>The reader returns the number of an enum value; any other number is \<open>UNRECOGNIZED\<close> here.\<close>

fun sender_num :: "TranscriptMessageSenderType \<Rightarrow> int" where
  "sender_num SENDER_UNKNOWN = 0"
| "sender_num SENDER_CLIENT = 1"
| "sender_num SENDER_SERVER = 2"
| "sender_num SENDER_UNRECOGNIZED = -1"

definition sender_of :: "int \<Rightarrow> TranscriptMessageSenderType" where
  "sender_of n = (if n = 0 then SENDER_UNKNOWN else if n = 1 then SENDER_CLIENT else if n = 2 then SENDER_SERVER
     else SENDER_UNRECOGNIZED)"

fun engine_num :: "ZKProofEngine \<Rightarrow> int" where
  "engine_num ZK_ENGINE_SNARKJS = 0"
| "engine_num ZK_ENGINE_GNARK = 1"
| "engine_num ZK_ENGINE_UNRECOGNIZED = -1"

definition engine_of :: "int \<Rightarrow> ZKProofEngine" where
  "engine_of n = (if n = 0 then ZK_ENGINE_SNARKJS else if n = 1 then ZK_ENGINE_GNARK else ZK_ENGINE_UNRECOGNIZED)"

fun signature_type_num :: "ServiceSignatureType \<Rightarrow> int" where
  "signature_type_num SERVICE_SIGNATURE_TYPE_UNKNOWN = 0"
| "signature_type_num SERVICE_SIGNATURE_TYPE_ETH = 1"
| "signature_type_num SERVICE_SIGNATURE_TYPE_UNRECOGNIZED = -1"

definition signature_type_of :: "int \<Rightarrow> ServiceSignatureType" where
  "signature_type_of n = (if n = 0 then SERVICE_SIGNATURE_TYPE_UNKNOWN else if n = 1 then SERVICE_SIGNATURE_TYPE_ETH
     else SERVICE_SIGNATURE_TYPE_UNRECOGNIZED)"

text \<open>Error messages are HOL strings in this development.\<close>

definition message_of :: "jsstring \<Rightarrow> message" where
  "message_of s = map (\<lambda>c. char_of (unat c)) s"

subsection \<open>The messages\<close>

definition createBaseDataSlice :: DataSlice where
  "createBaseDataSlice = \<lparr>ds_fromIndex = 0, ds_length = 0\<rparr>"

definition DataSlice_encode :: "wire_lib \<Rightarrow> DataSlice \<Rightarrow> bytes" where
  "DataSlice_encode W m =
     put_uint32 W 8 (ds_fromIndex m)
     @ put_uint32 W 16 (ds_length m)"

definition DataSlice_step :: "wire_lib \<Rightarrow> DataSlice step" where
  "DataSlice_step W tag m r =
     (if tag = 8 then field (r_uint32 W r) (\<lambda>v. m\<lparr>ds_fromIndex := v\<rparr>)
      else if tag = 16 then field (r_uint32 W r) (\<lambda>v. m\<lparr>ds_length := v\<rparr>)
      else None)"

definition DataSlice_decode :: "wire_lib \<Rightarrow> DataSlice reader" where
  "DataSlice_decode W = decode_fields W (DataSlice_step W) createBaseDataSlice"

definition createBaseTOPRFResponse :: TOPRFResponse where
  "createBaseTOPRFResponse = \<lparr>tr_publicKeyShare = [], tr_evaluated = [], tr_c = [], tr_r = []\<rparr>"

definition TOPRFResponse_encode :: "wire_lib \<Rightarrow> TOPRFResponse \<Rightarrow> bytes" where
  "TOPRFResponse_encode W m =
     put_bytes W 10 (tr_publicKeyShare m)
     @ put_bytes W 18 (tr_evaluated m)
     @ put_bytes W 26 (tr_c m)
     @ put_bytes W 34 (tr_r m)"

definition TOPRFResponse_step :: "wire_lib \<Rightarrow> TOPRFResponse step" where
  "TOPRFResponse_step W tag m r =
     (if tag = 10 then field (r_bytes W r) (\<lambda>v. m\<lparr>tr_publicKeyShare := v\<rparr>)
      else if tag = 18 then field (r_bytes W r) (\<lambda>v. m\<lparr>tr_evaluated := v\<rparr>)
      else if tag = 26 then field (r_bytes W r) (\<lambda>v. m\<lparr>tr_c := v\<rparr>)
      else if tag = 34 then field (r_bytes W r) (\<lambda>v. m\<lparr>tr_r := v\<rparr>)
      else None)"

definition TOPRFResponse_decode :: "wire_lib \<Rightarrow> TOPRFResponse reader" where
  "TOPRFResponse_decode W = decode_fields W (TOPRFResponse_step W) createBaseTOPRFResponse"

text \<open>The mask and the plaintext of a claim are not part of the message.\<close>

definition createBaseTOPRFPayload :: TOPRFProofParams where
  "createBaseTOPRFPayload = \<lparr>dataLocation = None, nullifier = [], responses = [], mask = [], toprf_plaintext = []\<rparr>"

definition TOPRFPayload_encode :: "wire_lib \<Rightarrow> TOPRFProofParams \<Rightarrow> bytes" where
  "TOPRFPayload_encode W m =
     put_message W 10 (DataSlice_encode W) (dataLocation m)
     @ put_bytes W 18 (nullifier m)
     @ put_messages W 26 (TOPRFResponse_encode W) (responses m)"

definition TOPRFPayload_step :: "wire_lib \<Rightarrow> TOPRFProofParams step" where
  "TOPRFPayload_step W tag m r =
     (if tag = 10 then field (r_message W (DataSlice_decode W) r) (\<lambda>v. m\<lparr>dataLocation := Some v\<rparr>)
      else if tag = 18 then field (r_bytes W r) (\<lambda>v. m\<lparr>nullifier := v\<rparr>)
      else if tag = 26 then field (r_message W (TOPRFResponse_decode W) r) (\<lambda>v. m\<lparr>responses := responses m @ [v]\<rparr>)
      else None)"

definition TOPRFPayload_decode :: "wire_lib \<Rightarrow> TOPRFProofParams reader" where
  "TOPRFPayload_decode W = decode_fields W (TOPRFPayload_step W) createBaseTOPRFPayload"

definition createBaseZKProof :: ZKProof where
  "createBaseZKProof = \<lparr>proofJson = [], proofData = [], zp_toprf = None, decryptedRedactedCiphertext = [], zp_redactedPlaintext = [], startIdx = 0\<rparr>"

definition ZKProof_encode :: "wire_lib \<Rightarrow> ZKProof \<Rightarrow> bytes" where
  "ZKProof_encode W m =
     put_string W 10 (proofJson m)
     @ put_bytes W 18 (decryptedRedactedCiphertext m)
     @ put_bytes W 26 (zp_redactedPlaintext m)
     @ put_uint32 W 32 (startIdx m)
     @ put_bytes W 42 (proofData m)
     @ put_message W 50 (TOPRFPayload_encode W) (zp_toprf m)"

definition ZKProof_step :: "wire_lib \<Rightarrow> ZKProof step" where
  "ZKProof_step W tag m r =
     (if tag = 10 then field (r_string W r) (\<lambda>v. m\<lparr>proofJson := v\<rparr>)
      else if tag = 18 then field (r_bytes W r) (\<lambda>v. m\<lparr>decryptedRedactedCiphertext := v\<rparr>)
      else if tag = 26 then field (r_bytes W r) (\<lambda>v. m\<lparr>zp_redactedPlaintext := v\<rparr>)
      else if tag = 32 then field (r_uint32 W r) (\<lambda>v. m\<lparr>startIdx := v\<rparr>)
      else if tag = 42 then field (r_bytes W r) (\<lambda>v. m\<lparr>proofData := v\<rparr>)
      else if tag = 50 then field (r_message W (TOPRFPayload_decode W) r) (\<lambda>v. m\<lparr>zp_toprf := Some v\<rparr>)
      else None)"

definition ZKProof_decode :: "wire_lib \<Rightarrow> ZKProof reader" where
  "ZKProof_decode W = decode_fields W (ZKProof_step W) createBaseZKProof"

definition createBaseMessageRevealDirect :: MessageRevealDirect where
  "createBaseMessageRevealDirect = \<lparr>md_key = [], md_iv = [], md_recordNumber = 0\<rparr>"

definition MessageRevealDirect_encode :: "wire_lib \<Rightarrow> MessageRevealDirect \<Rightarrow> bytes" where
  "MessageRevealDirect_encode W m =
     put_bytes W 10 (md_key m)
     @ put_bytes W 18 (md_iv m)
     @ put_uint32 W 24 (md_recordNumber m)"

definition MessageRevealDirect_step :: "wire_lib \<Rightarrow> MessageRevealDirect step" where
  "MessageRevealDirect_step W tag m r =
     (if tag = 10 then field (r_bytes W r) (\<lambda>v. m\<lparr>md_key := v\<rparr>)
      else if tag = 18 then field (r_bytes W r) (\<lambda>v. m\<lparr>md_iv := v\<rparr>)
      else if tag = 24 then field (r_uint32 W r) (\<lambda>v. m\<lparr>md_recordNumber := v\<rparr>)
      else None)"

definition MessageRevealDirect_decode :: "wire_lib \<Rightarrow> MessageRevealDirect reader" where
  "MessageRevealDirect_decode W = decode_fields W (MessageRevealDirect_step W) createBaseMessageRevealDirect"

definition createBaseMessageRevealZk :: "ZKProof list" where
  "createBaseMessageRevealZk = []"

definition MessageRevealZk_encode :: "wire_lib \<Rightarrow> (ZKProof list) \<Rightarrow> bytes" where
  "MessageRevealZk_encode W m =
     put_messages W 10 (ZKProof_encode W) m"

definition MessageRevealZk_step :: "wire_lib \<Rightarrow> (ZKProof list) step" where
  "MessageRevealZk_step W tag m r =
     (if tag = 10 then field (r_message W (ZKProof_decode W) r) (\<lambda>v. m @ [v])
      else None)"

definition MessageRevealZk_decode :: "wire_lib \<Rightarrow> (ZKProof list) reader" where
  "MessageRevealZk_decode W = decode_fields W (MessageRevealZk_step W) createBaseMessageRevealZk"

definition createBaseMessageReveal :: MessageReveal where
  "createBaseMessageReveal = \<lparr>directReveal = None, zkReveal = None\<rparr>"

definition MessageReveal_encode :: "wire_lib \<Rightarrow> MessageReveal \<Rightarrow> bytes" where
  "MessageReveal_encode W m =
     put_message W 10 (MessageRevealDirect_encode W) (directReveal m)
     @ put_message W 18 (MessageRevealZk_encode W) (zkReveal m)"

definition MessageReveal_step :: "wire_lib \<Rightarrow> MessageReveal step" where
  "MessageReveal_step W tag m r =
     (if tag = 10 then field (r_message W (MessageRevealDirect_decode W) r) (\<lambda>v. m\<lparr>directReveal := Some v\<rparr>)
      else if tag = 18 then field (r_message W (MessageRevealZk_decode W) r) (\<lambda>v. m\<lparr>zkReveal := Some v\<rparr>)
      else None)"

definition MessageReveal_decode :: "wire_lib \<Rightarrow> MessageReveal reader" where
  "MessageReveal_decode W = decode_fields W (MessageReveal_step W) createBaseMessageReveal"

definition createBaseTranscriptMessage :: TranscriptMessage where
  "createBaseTranscriptMessage = \<lparr>tm_sender = SENDER_UNKNOWN, tm_message = [], tm_reveal = None\<rparr>"

definition TranscriptMessage_encode :: "wire_lib \<Rightarrow> TranscriptMessage \<Rightarrow> bytes" where
  "TranscriptMessage_encode W m =
     put_int32 W 8 (sender_num (tm_sender m))
     @ put_bytes W 18 (tm_message m)
     @ put_message W 26 (MessageReveal_encode W) (tm_reveal m)"

definition TranscriptMessage_step :: "wire_lib \<Rightarrow> TranscriptMessage step" where
  "TranscriptMessage_step W tag m r =
     (if tag = 8 then field (r_int32 W r) (\<lambda>v. m\<lparr>tm_sender := sender_of v\<rparr>)
      else if tag = 18 then field (r_bytes W r) (\<lambda>v. m\<lparr>tm_message := v\<rparr>)
      else if tag = 26 then field (r_message W (MessageReveal_decode W) r) (\<lambda>v. m\<lparr>tm_reveal := Some v\<rparr>)
      else None)"

definition TranscriptMessage_decode :: "wire_lib \<Rightarrow> TranscriptMessage reader" where
  "TranscriptMessage_decode W = decode_fields W (TranscriptMessage_step W) createBaseTranscriptMessage"

definition createBaseCreateTunnelRequest :: CreateTunnelRequest where
  "createBaseCreateTunnelRequest = \<lparr>ct_id = 0, ct_host = [], ct_port = 0, ct_geoLocation = []\<rparr>"

definition CreateTunnelRequest_encode :: "wire_lib \<Rightarrow> CreateTunnelRequest \<Rightarrow> bytes" where
  "CreateTunnelRequest_encode W m =
     put_uint32 W 8 (ct_id m)
     @ put_string W 18 (ct_host m)
     @ put_uint32 W 24 (ct_port m)
     @ put_string W 34 (ct_geoLocation m)"

definition CreateTunnelRequest_step :: "wire_lib \<Rightarrow> CreateTunnelRequest step" where
  "CreateTunnelRequest_step W tag m r =
     (if tag = 8 then field (r_uint32 W r) (\<lambda>v. m\<lparr>ct_id := v\<rparr>)
      else if tag = 18 then field (r_string W r) (\<lambda>v. m\<lparr>ct_host := v\<rparr>)
      else if tag = 24 then field (r_uint32 W r) (\<lambda>v. m\<lparr>ct_port := v\<rparr>)
      else if tag = 34 then field (r_string W r) (\<lambda>v. m\<lparr>ct_geoLocation := v\<rparr>)
      else None)"

definition CreateTunnelRequest_decode :: "wire_lib \<Rightarrow> CreateTunnelRequest reader" where
  "CreateTunnelRequest_decode W = decode_fields W (CreateTunnelRequest_step W) createBaseCreateTunnelRequest"

definition createBaseClaimRequestData :: ClaimRequestData where
  "createBaseClaimRequestData = \<lparr>ci_provider = [], ci_parameters = [], ci_context = [], cd_owner = [], cd_timestampS = 0\<rparr>"

definition ClaimRequestData_encode :: "wire_lib \<Rightarrow> ClaimRequestData \<Rightarrow> bytes" where
  "ClaimRequestData_encode W m =
     put_string W 10 (ci_provider m)
     @ put_string W 18 (ci_parameters m)
     @ put_string W 26 (cd_owner m)
     @ put_uint32 W 32 (cd_timestampS m)
     @ put_string W 42 (ci_context m)"

definition ClaimRequestData_step :: "wire_lib \<Rightarrow> ClaimRequestData step" where
  "ClaimRequestData_step W tag m r =
     (if tag = 10 then field (r_string W r) (\<lambda>v. m\<lparr>ci_provider := v\<rparr>)
      else if tag = 18 then field (r_string W r) (\<lambda>v. m\<lparr>ci_parameters := v\<rparr>)
      else if tag = 26 then field (r_string W r) (\<lambda>v. m\<lparr>cd_owner := v\<rparr>)
      else if tag = 32 then field (r_uint32 W r) (\<lambda>v. m\<lparr>cd_timestampS := v\<rparr>)
      else if tag = 42 then field (r_string W r) (\<lambda>v. m\<lparr>ci_context := v\<rparr>)
      else None)"

definition ClaimRequestData_decode :: "wire_lib \<Rightarrow> ClaimRequestData reader" where
  "ClaimRequestData_decode W = decode_fields W (ClaimRequestData_step W) createBaseClaimRequestData"

definition createBaseRequestSignatures :: bytes where
  "createBaseRequestSignatures = []"

definition RequestSignatures_encode :: "wire_lib \<Rightarrow> bytes \<Rightarrow> bytes" where
  "RequestSignatures_encode W m =
     put_bytes W 10 m"

definition RequestSignatures_step :: "wire_lib \<Rightarrow> bytes step" where
  "RequestSignatures_step W tag m r =
     (if tag = 10 then field (r_bytes W r) (\<lambda>v. v)
      else None)"

definition RequestSignatures_decode :: "wire_lib \<Rightarrow> bytes reader" where
  "RequestSignatures_decode W = decode_fields W (RequestSignatures_step W) createBaseRequestSignatures"

definition createBaseClaimTunnelRequest :: ClaimTunnelRequest where
  "createBaseClaimTunnelRequest = \<lparr>cq_request = None, cq_data = None, cq_transcript = [], cq_requestSignature = None,
     cq_zkEngine = ZK_ENGINE_SNARKJS, cq_fixedServerIV = [], cq_fixedClientIV = []\<rparr>"

definition ClaimTunnelRequest_encode :: "wire_lib \<Rightarrow> ClaimTunnelRequest \<Rightarrow> bytes" where
  "ClaimTunnelRequest_encode W m =
     put_message W 10 (CreateTunnelRequest_encode W) (cq_request m)
     @ put_message W 18 (ClaimRequestData_encode W) (cq_data m)
     @ put_messages W 26 (TranscriptMessage_encode W) (cq_transcript m)
     @ put_message W 34 (RequestSignatures_encode W) (cq_requestSignature m)
     @ put_int32 W 40 (engine_num (cq_zkEngine m))
     @ put_bytes W 50 (cq_fixedServerIV m)
     @ put_bytes W 58 (cq_fixedClientIV m)"

definition ClaimTunnelRequest_step :: "wire_lib \<Rightarrow> ClaimTunnelRequest step" where
  "ClaimTunnelRequest_step W tag m r =
     (if tag = 10 then field (r_message W (CreateTunnelRequest_decode W) r) (\<lambda>v. m\<lparr>cq_request := Some v\<rparr>)
      else if tag = 18 then field (r_message W (ClaimRequestData_decode W) r) (\<lambda>v. m\<lparr>cq_data := Some v\<rparr>)
      else if tag = 26 then field (r_message W (TranscriptMessage_decode W) r) (\<lambda>v. m\<lparr>cq_transcript := cq_transcript m @ [v]\<rparr>)
      else if tag = 34 then field (r_message W (RequestSignatures_decode W) r) (\<lambda>v. m\<lparr>cq_requestSignature := Some v\<rparr>)
      else if tag = 40 then field (r_int32 W r) (\<lambda>v. m\<lparr>cq_zkEngine := engine_of v\<rparr>)
      else if tag = 50 then field (r_bytes W r) (\<lambda>v. m\<lparr>cq_fixedServerIV := v\<rparr>)
      else if tag = 58 then field (r_bytes W r) (\<lambda>v. m\<lparr>cq_fixedClientIV := v\<rparr>)
      else None)"

definition ClaimTunnelRequest_decode :: "wire_lib \<Rightarrow> ClaimTunnelRequest reader" where
  "ClaimTunnelRequest_decode W = decode_fields W (ClaimTunnelRequest_step W) createBaseClaimTunnelRequest"

definition createBaseProviderClaimData :: ProviderClaimData where
  "createBaseProviderClaimData = \<lparr>ci_provider = [], ci_parameters = [], ci_context = [], cd_owner = [], cd_timestampS = 0, pc_identifier = [], pc_epoch = 0\<rparr>"

definition ProviderClaimData_encode :: "wire_lib \<Rightarrow> ProviderClaimData \<Rightarrow> bytes" where
  "ProviderClaimData_encode W m =
     put_string W 10 (ci_provider m)
     @ put_string W 18 (ci_parameters m)
     @ put_string W 26 (cd_owner m)
     @ put_uint32 W 32 (cd_timestampS m)
     @ put_string W 50 (ci_context m)
     @ put_string W 66 (pc_identifier m)
     @ put_uint32 W 72 (pc_epoch m)"

definition ProviderClaimData_step :: "wire_lib \<Rightarrow> ProviderClaimData step" where
  "ProviderClaimData_step W tag m r =
     (if tag = 10 then field (r_string W r) (\<lambda>v. m\<lparr>ci_provider := v\<rparr>)
      else if tag = 18 then field (r_string W r) (\<lambda>v. m\<lparr>ci_parameters := v\<rparr>)
      else if tag = 26 then field (r_string W r) (\<lambda>v. m\<lparr>cd_owner := v\<rparr>)
      else if tag = 32 then field (r_uint32 W r) (\<lambda>v. m\<lparr>cd_timestampS := v\<rparr>)
      else if tag = 50 then field (r_string W r) (\<lambda>v. m\<lparr>ci_context := v\<rparr>)
      else if tag = 66 then field (r_string W r) (\<lambda>v. m\<lparr>pc_identifier := v\<rparr>)
      else if tag = 72 then field (r_uint32 W r) (\<lambda>v. m\<lparr>pc_epoch := v\<rparr>)
      else None)"

definition ProviderClaimData_decode :: "wire_lib \<Rightarrow> ProviderClaimData reader" where
  "ProviderClaimData_decode W = decode_fields W (ProviderClaimData_step W) createBaseProviderClaimData"

definition createBaseErrorData :: ErrorData where
  "createBaseErrorData = \<lparr>ed_code = 0, ed_message = '''', ed_data = []\<rparr>"

definition ErrorData_encode :: "wire_lib \<Rightarrow> ErrorData \<Rightarrow> bytes" where
  "ErrorData_encode W m =
     put_int32 W 8 (ed_code m)
     @ put_string W 18 (js (ed_message m))
     @ put_string W 26 (ed_data m)"

definition ErrorData_step :: "wire_lib \<Rightarrow> ErrorData step" where
  "ErrorData_step W tag m r =
     (if tag = 8 then field (r_int32 W r) (\<lambda>v. m\<lparr>ed_code := v\<rparr>)
      else if tag = 18 then field (r_string W r) (\<lambda>v. m\<lparr>ed_message := message_of v\<rparr>)
      else if tag = 26 then field (r_string W r) (\<lambda>v. m\<lparr>ed_data := v\<rparr>)
      else None)"

definition ErrorData_decode :: "wire_lib \<Rightarrow> ErrorData reader" where
  "ErrorData_decode W = decode_fields W (ErrorData_step W) createBaseErrorData"

text \<open>A message always has the result signature; \<open>None\<close> is a message of the caller that leaves it out.\<close>

definition createBaseResponseSignatures :: ResponseSignatures where
  "createBaseResponseSignatures = \<lparr>sig_attestorAddress = [], sig_claim = [], sig_result = Some []\<rparr>"

definition ResponseSignatures_encode :: "wire_lib \<Rightarrow> ResponseSignatures \<Rightarrow> bytes" where
  "ResponseSignatures_encode W m =
     put_string W 10 (sig_attestorAddress m)
     @ put_bytes W 18 (sig_claim m)
     @ put_bytes W 26 (case sig_result m of None \<Rightarrow> [] | Some b \<Rightarrow> b)"

definition ResponseSignatures_step :: "wire_lib \<Rightarrow> ResponseSignatures step" where
  "ResponseSignatures_step W tag m r =
     (if tag = 10 then field (r_string W r) (\<lambda>v. m\<lparr>sig_attestorAddress := v\<rparr>)
      else if tag = 18 then field (r_bytes W r) (\<lambda>v. m\<lparr>sig_claim := v\<rparr>)
      else if tag = 26 then field (r_bytes W r) (\<lambda>v. m\<lparr>sig_result := Some v\<rparr>)
      else None)"

definition ResponseSignatures_decode :: "wire_lib \<Rightarrow> ResponseSignatures reader" where
  "ResponseSignatures_decode W = decode_fields W (ResponseSignatures_step W) createBaseResponseSignatures"

definition createBaseClaimTunnelResponse :: ClaimTunnelResponse where
  "createBaseClaimTunnelResponse = \<lparr>cs_request = None, cs_claim = None, cs_error = None, cs_signatures = None\<rparr>"

definition ClaimTunnelResponse_encode :: "wire_lib \<Rightarrow> ClaimTunnelResponse \<Rightarrow> bytes" where
  "ClaimTunnelResponse_encode W m =
     put_message W 10 (ClaimTunnelRequest_encode W) (cs_request m)
     @ put_message W 18 (ProviderClaimData_encode W) (cs_claim m)
     @ put_message W 26 (ErrorData_encode W) (cs_error m)
     @ put_message W 34 (ResponseSignatures_encode W) (cs_signatures m)"

definition ClaimTunnelResponse_step :: "wire_lib \<Rightarrow> ClaimTunnelResponse step" where
  "ClaimTunnelResponse_step W tag m r =
     (if tag = 10 then field (r_message W (ClaimTunnelRequest_decode W) r) (\<lambda>v. m\<lparr>cs_request := Some v\<rparr>)
      else if tag = 18 then field (r_message W (ProviderClaimData_decode W) r) (\<lambda>v. m\<lparr>cs_claim := Some v\<rparr>)
      else if tag = 26 then field (r_message W (ErrorData_decode W) r) (\<lambda>v. m\<lparr>cs_error := Some v\<rparr>)
      else if tag = 34 then field (r_message W (ResponseSignatures_decode W) r) (\<lambda>v. m\<lparr>cs_signatures := Some v\<rparr>)
      else None)"

definition ClaimTunnelResponse_decode :: "wire_lib \<Rightarrow> ClaimTunnelResponse reader" where
  "ClaimTunnelResponse_decode W = decode_fields W (ClaimTunnelResponse_step W) createBaseClaimTunnelResponse"

definition createBaseDisconnectTunnelRequest :: int where
  "createBaseDisconnectTunnelRequest = 0"

definition DisconnectTunnelRequest_encode :: "wire_lib \<Rightarrow> int \<Rightarrow> bytes" where
  "DisconnectTunnelRequest_encode W m =
     put_uint32 W 8 m"

definition DisconnectTunnelRequest_step :: "wire_lib \<Rightarrow> int step" where
  "DisconnectTunnelRequest_step W tag m r =
     (if tag = 8 then field (r_uint32 W r) (\<lambda>v. v)
      else None)"

definition DisconnectTunnelRequest_decode :: "wire_lib \<Rightarrow> int reader" where
  "DisconnectTunnelRequest_decode W = decode_fields W (DisconnectTunnelRequest_step W) createBaseDisconnectTunnelRequest"

definition createBaseEmpty :: unit where
  "createBaseEmpty = ()"

definition Empty_encode :: "wire_lib \<Rightarrow> unit \<Rightarrow> bytes" where
  "Empty_encode W m =
     []"

definition Empty_step :: "wire_lib \<Rightarrow> unit step" where
  "Empty_step W tag m r =
     None"

definition Empty_decode :: "wire_lib \<Rightarrow> unit reader" where
  "Empty_decode W = decode_fields W (Empty_step W) createBaseEmpty"

definition createBaseTunnelMessage :: "int \<times> bytes" where
  "createBaseTunnelMessage = (0, [])"

definition TunnelMessage_encode :: "wire_lib \<Rightarrow> (int \<times> bytes) \<Rightarrow> bytes" where
  "TunnelMessage_encode W m =
     put_uint32 W 8 (fst m)
     @ put_bytes W 18 (snd m)"

definition TunnelMessage_step :: "wire_lib \<Rightarrow> (int \<times> bytes) step" where
  "TunnelMessage_step W tag m r =
     (if tag = 8 then field (r_uint32 W r) (\<lambda>v. (v, snd m))
      else if tag = 18 then field (r_bytes W r) (\<lambda>v. (fst m, v))
      else None)"

definition TunnelMessage_decode :: "wire_lib \<Rightarrow> (int \<times> bytes) reader" where
  "TunnelMessage_decode W = decode_fields W (TunnelMessage_step W) createBaseTunnelMessage"

definition createBaseTunnelDisconnectEvent :: "int \<times> ErrorData option" where
  "createBaseTunnelDisconnectEvent = (0, None)"

definition TunnelDisconnectEvent_encode :: "wire_lib \<Rightarrow> (int \<times> ErrorData option) \<Rightarrow> bytes" where
  "TunnelDisconnectEvent_encode W m =
     put_uint32 W 8 (fst m)
     @ put_message W 18 (ErrorData_encode W) (snd m)"

definition TunnelDisconnectEvent_step :: "wire_lib \<Rightarrow> (int \<times> ErrorData option) step" where
  "TunnelDisconnectEvent_step W tag m r =
     (if tag = 8 then field (r_uint32 W r) (\<lambda>v. (v, snd m))
      else if tag = 18 then field (r_message W (ErrorData_decode W) r) (\<lambda>v. (fst m, Some v))
      else None)"

definition TunnelDisconnectEvent_decode :: "wire_lib \<Rightarrow> (int \<times> ErrorData option) reader" where
  "TunnelDisconnectEvent_decode W = decode_fields W (TunnelDisconnectEvent_step W) createBaseTunnelDisconnectEvent"

definition createBaseAuthenticatedUserData :: AuthenticatedUserData where
  "createBaseAuthenticatedUserData = \<lparr>ud_id = [], createdAt = 0, expiresAt = 0, hostWhitelist = []\<rparr>"

definition AuthenticatedUserData_encode :: "wire_lib \<Rightarrow> AuthenticatedUserData \<Rightarrow> bytes" where
  "AuthenticatedUserData_encode W m =
     put_string W 10 (ud_id m)
     @ put_uint32 W 16 (createdAt m)
     @ put_uint32 W 24 (expiresAt m)
     @ put_strings W 34 (hostWhitelist m)"

definition AuthenticatedUserData_step :: "wire_lib \<Rightarrow> AuthenticatedUserData step" where
  "AuthenticatedUserData_step W tag m r =
     (if tag = 10 then field (r_string W r) (\<lambda>v. m\<lparr>ud_id := v\<rparr>)
      else if tag = 16 then field (r_uint32 W r) (\<lambda>v. m\<lparr>createdAt := v\<rparr>)
      else if tag = 24 then field (r_uint32 W r) (\<lambda>v. m\<lparr>expiresAt := v\<rparr>)
      else if tag = 34 then field (r_string W r) (\<lambda>v. m\<lparr>hostWhitelist := hostWhitelist m @ [v]\<rparr>)
      else None)"

definition AuthenticatedUserData_decode :: "wire_lib \<Rightarrow> AuthenticatedUserData reader" where
  "AuthenticatedUserData_decode W = decode_fields W (AuthenticatedUserData_step W) createBaseAuthenticatedUserData"

definition createBaseAuthenticationRequest :: AuthenticationRequest where
  "createBaseAuthenticationRequest = \<lparr>auth_data = None, auth_signature = []\<rparr>"

definition AuthenticationRequest_encode :: "wire_lib \<Rightarrow> AuthenticationRequest \<Rightarrow> bytes" where
  "AuthenticationRequest_encode W m =
     put_message W 10 (AuthenticatedUserData_encode W) (auth_data m)
     @ put_bytes W 18 (auth_signature m)"

definition AuthenticationRequest_step :: "wire_lib \<Rightarrow> AuthenticationRequest step" where
  "AuthenticationRequest_step W tag m r =
     (if tag = 10 then field (r_message W (AuthenticatedUserData_decode W) r) (\<lambda>v. m\<lparr>auth_data := Some v\<rparr>)
      else if tag = 18 then field (r_bytes W r) (\<lambda>v. m\<lparr>auth_signature := v\<rparr>)
      else None)"

definition AuthenticationRequest_decode :: "wire_lib \<Rightarrow> AuthenticationRequest reader" where
  "AuthenticationRequest_decode W = decode_fields W (AuthenticationRequest_step W) createBaseAuthenticationRequest"

definition createBaseInitRequest :: InitRequest where
  "createBaseInitRequest = \<lparr>clientVersion = 0, signatureType = SERVICE_SIGNATURE_TYPE_UNKNOWN, im_auth = None\<rparr>"

definition InitRequest_encode :: "wire_lib \<Rightarrow> InitRequest \<Rightarrow> bytes" where
  "InitRequest_encode W m =
     put_int32 W 16 (clientVersion m)
     @ put_int32 W 24 (signature_type_num (signatureType m))
     @ put_message W 34 (AuthenticationRequest_encode W) (im_auth m)"

definition InitRequest_step :: "wire_lib \<Rightarrow> InitRequest step" where
  "InitRequest_step W tag m r =
     (if tag = 16 then field (r_int32 W r) (\<lambda>v. m\<lparr>clientVersion := v\<rparr>)
      else if tag = 24 then field (r_int32 W r) (\<lambda>v. m\<lparr>signatureType := signature_type_of v\<rparr>)
      else if tag = 34 then field (r_message W (AuthenticationRequest_decode W) r) (\<lambda>v. m\<lparr>im_auth := Some v\<rparr>)
      else None)"

definition InitRequest_decode :: "wire_lib \<Rightarrow> InitRequest reader" where
  "InitRequest_decode W = decode_fields W (InitRequest_step W) createBaseInitRequest"

definition createBaseInitResponse :: bytes where
  "createBaseInitResponse = []"

definition InitResponse_encode :: "wire_lib \<Rightarrow> bytes \<Rightarrow> bytes" where
  "InitResponse_encode W m =
     put_bytes W 10 m"

definition InitResponse_step :: "wire_lib \<Rightarrow> bytes step" where
  "InitResponse_step W tag m r =
     (if tag = 10 then field (r_bytes W r) (\<lambda>v. v)
      else None)"

definition InitResponse_decode :: "wire_lib \<Rightarrow> bytes reader" where
  "InitResponse_decode W = decode_fields W (InitResponse_step W) createBaseInitResponse"

definition createBaseTOPRFRequest :: "bytes \<times> ZKProofEngine" where
  "createBaseTOPRFRequest = ([], ZK_ENGINE_SNARKJS)"

definition TOPRFRequest_encode :: "wire_lib \<Rightarrow> (bytes \<times> ZKProofEngine) \<Rightarrow> bytes" where
  "TOPRFRequest_encode W m =
     put_bytes W 10 (fst m)
     @ put_int32 W 16 (engine_num (snd m))"

definition TOPRFRequest_step :: "wire_lib \<Rightarrow> (bytes \<times> ZKProofEngine) step" where
  "TOPRFRequest_step W tag m r =
     (if tag = 10 then field (r_bytes W r) (\<lambda>v. (v, snd m))
      else if tag = 16 then field (r_int32 W r) (\<lambda>v. (fst m, engine_of v))
      else None)"

definition TOPRFRequest_decode :: "wire_lib \<Rightarrow> (bytes \<times> ZKProofEngine) reader" where
  "TOPRFRequest_decode W = decode_fields W (TOPRFRequest_step W) createBaseTOPRFRequest"

definition createBaseRequestClaimOnAvsRequest :: RequestClaimOnAvsRequest where
  "createBaseRequestClaimOnAvsRequest = \<lparr>ra_chainId = 0, ra_jsonCreateClaimRequest = [], ra_requestSignature = []\<rparr>"

definition RequestClaimOnAvsRequest_encode :: "wire_lib \<Rightarrow> RequestClaimOnAvsRequest \<Rightarrow> bytes" where
  "RequestClaimOnAvsRequest_encode W m =
     put_uint32 W 8 (ra_chainId m)
     @ put_string W 18 (ra_jsonCreateClaimRequest m)
     @ put_bytes W 26 (ra_requestSignature m)"

definition RequestClaimOnAvsRequest_step :: "wire_lib \<Rightarrow> RequestClaimOnAvsRequest step" where
  "RequestClaimOnAvsRequest_step W tag m r =
     (if tag = 8 then field (r_uint32 W r) (\<lambda>v. m\<lparr>ra_chainId := v\<rparr>)
      else if tag = 18 then field (r_string W r) (\<lambda>v. m\<lparr>ra_jsonCreateClaimRequest := v\<rparr>)
      else if tag = 26 then field (r_bytes W r) (\<lambda>v. m\<lparr>ra_requestSignature := v\<rparr>)
      else None)"

definition RequestClaimOnAvsRequest_decode :: "wire_lib \<Rightarrow> RequestClaimOnAvsRequest reader" where
  "RequestClaimOnAvsRequest_decode W = decode_fields W (RequestClaimOnAvsRequest_step W) createBaseRequestClaimOnAvsRequest"

definition createBaseRequestClaimOnAvsResponse :: RequestClaimOnAvsResponse where
  "createBaseRequestClaimOnAvsResponse = \<lparr>rr_txHash = [], rr_taskIndex = 0, rr_jsonTask = []\<rparr>"

definition RequestClaimOnAvsResponse_encode :: "wire_lib \<Rightarrow> RequestClaimOnAvsResponse \<Rightarrow> bytes" where
  "RequestClaimOnAvsResponse_encode W m =
     put_string W 10 (rr_txHash m)
     @ put_uint32 W 16 (rr_taskIndex m)
     @ put_string W 26 (rr_jsonTask m)"

definition RequestClaimOnAvsResponse_step :: "wire_lib \<Rightarrow> RequestClaimOnAvsResponse step" where
  "RequestClaimOnAvsResponse_step W tag m r =
     (if tag = 10 then field (r_string W r) (\<lambda>v. m\<lparr>rr_txHash := v\<rparr>)
      else if tag = 16 then field (r_uint32 W r) (\<lambda>v. m\<lparr>rr_taskIndex := v\<rparr>)
      else if tag = 26 then field (r_string W r) (\<lambda>v. m\<lparr>rr_jsonTask := v\<rparr>)
      else None)"

definition RequestClaimOnAvsResponse_decode :: "wire_lib \<Rightarrow> RequestClaimOnAvsResponse reader" where
  "RequestClaimOnAvsResponse_decode W = decode_fields W (RequestClaimOnAvsResponse_step W) createBaseRequestClaimOnAvsResponse"

definition createBaseCompleteClaimOnAvsRequest :: CompleteClaimOnAvsRequest where
  "createBaseCompleteClaimOnAvsRequest = \<lparr>ca_chainId = 0, ca_taskIndex = 0, ca_completedTaskJson = []\<rparr>"

definition CompleteClaimOnAvsRequest_encode :: "wire_lib \<Rightarrow> CompleteClaimOnAvsRequest \<Rightarrow> bytes" where
  "CompleteClaimOnAvsRequest_encode W m =
     put_uint32 W 8 (ca_chainId m)
     @ put_uint32 W 16 (ca_taskIndex m)
     @ put_string W 26 (ca_completedTaskJson m)"

definition CompleteClaimOnAvsRequest_step :: "wire_lib \<Rightarrow> CompleteClaimOnAvsRequest step" where
  "CompleteClaimOnAvsRequest_step W tag m r =
     (if tag = 8 then field (r_uint32 W r) (\<lambda>v. m\<lparr>ca_chainId := v\<rparr>)
      else if tag = 16 then field (r_uint32 W r) (\<lambda>v. m\<lparr>ca_taskIndex := v\<rparr>)
      else if tag = 26 then field (r_string W r) (\<lambda>v. m\<lparr>ca_completedTaskJson := v\<rparr>)
      else None)"

definition CompleteClaimOnAvsRequest_decode :: "wire_lib \<Rightarrow> CompleteClaimOnAvsRequest reader" where
  "CompleteClaimOnAvsRequest_decode W = decode_fields W (CompleteClaimOnAvsRequest_step W) createBaseCompleteClaimOnAvsRequest"

definition createBaseCompleteClaimOnAvsResponse :: CompleteClaimOnAvsResponse where
  "createBaseCompleteClaimOnAvsResponse = \<lparr>cr_txHash = [], cr_taskCompletedObjectJson = []\<rparr>"

definition CompleteClaimOnAvsResponse_encode :: "wire_lib \<Rightarrow> CompleteClaimOnAvsResponse \<Rightarrow> bytes" where
  "CompleteClaimOnAvsResponse_encode W m =
     put_string W 10 (cr_txHash m)
     @ put_string W 18 (cr_taskCompletedObjectJson m)"

definition CompleteClaimOnAvsResponse_step :: "wire_lib \<Rightarrow> CompleteClaimOnAvsResponse step" where
  "CompleteClaimOnAvsResponse_step W tag m r =
     (if tag = 10 then field (r_string W r) (\<lambda>v. m\<lparr>cr_txHash := v\<rparr>)
      else if tag = 18 then field (r_string W r) (\<lambda>v. m\<lparr>cr_taskCompletedObjectJson := v\<rparr>)
      else None)"

definition CompleteClaimOnAvsResponse_decode :: "wire_lib \<Rightarrow> CompleteClaimOnAvsResponse reader" where
  "CompleteClaimOnAvsResponse_decode W = decode_fields W (CompleteClaimOnAvsResponse_step W) createBaseCompleteClaimOnAvsResponse"

definition createBaseCreateTaskOnMechainRequest :: int where
  "createBaseCreateTaskOnMechainRequest = 0"

definition CreateTaskOnMechainRequest_encode :: "wire_lib \<Rightarrow> int \<Rightarrow> bytes" where
  "CreateTaskOnMechainRequest_encode W m =
     put_uint32 W 8 m"

definition CreateTaskOnMechainRequest_step :: "wire_lib \<Rightarrow> int step" where
  "CreateTaskOnMechainRequest_step W tag m r =
     (if tag = 8 then field (r_uint32 W r) (\<lambda>v. v)
      else None)"

definition CreateTaskOnMechainRequest_decode :: "wire_lib \<Rightarrow> int reader" where
  "CreateTaskOnMechainRequest_decode W = decode_fields W (CreateTaskOnMechainRequest_step W) createBaseCreateTaskOnMechainRequest"

definition createBaseCreateTaskOnMechainResponse :: CreateTaskOnMechainResponse where
  "createBaseCreateTaskOnMechainResponse = \<lparr>mt_taskId = 0, mt_requiredAttestors = 0, mt_hosts = []\<rparr>"

definition CreateTaskOnMechainResponse_encode :: "wire_lib \<Rightarrow> CreateTaskOnMechainResponse \<Rightarrow> bytes" where
  "CreateTaskOnMechainResponse_encode W m =
     put_uint32 W 8 (mt_taskId m)
     @ put_uint32 W 16 (mt_requiredAttestors m)
     @ put_strings W 26 (mt_hosts m)"

definition CreateTaskOnMechainResponse_step :: "wire_lib \<Rightarrow> CreateTaskOnMechainResponse step" where
  "CreateTaskOnMechainResponse_step W tag m r =
     (if tag = 8 then field (r_uint32 W r) (\<lambda>v. m\<lparr>mt_taskId := v\<rparr>)
      else if tag = 16 then field (r_uint32 W r) (\<lambda>v. m\<lparr>mt_requiredAttestors := v\<rparr>)
      else if tag = 26 then field (r_string W r) (\<lambda>v. m\<lparr>mt_hosts := mt_hosts m @ [v]\<rparr>)
      else None)"

definition CreateTaskOnMechainResponse_decode :: "wire_lib \<Rightarrow> CreateTaskOnMechainResponse reader" where
  "CreateTaskOnMechainResponse_decode W = decode_fields W (CreateTaskOnMechainResponse_step W) createBaseCreateTaskOnMechainResponse"

subsection \<open>RPC messages\<close>

text \<open>
  The members of an \<open>RPCMessage\<close> in the order of the object that \<open>createBaseRPCMessage\<close> makes, each with
  its tag. The members that are set are kept in that order, as the keys of the object are.
\<close>

definition rpc_fields :: "(int \<times> jsstring) list" where
  "rpc_fields =
     [(18, js ''initRequest''), (26, js ''initResponse''), (34, js ''connectionTerminationAlert''),
      (42, js ''requestError''), (50, js ''createTunnelRequest''), (58, js ''createTunnelResponse''),
      (66, js ''disconnectTunnelRequest''), (74, js ''disconnectTunnelResponse''), (82, js ''tunnelMessage''),
      (90, js ''tunnelDisconnectEvent''), (98, js ''claimTunnelRequest''), (106, js ''claimTunnelResponse''),
      (114, js ''createClaimOnChainRequest''), (122, js ''createClaimOnChainResponse''),
      (130, js ''completeClaimOnChainRequest''), (138, js ''completeClaimOnChainResponse''),
      (146, js ''toprfRequest''), (154, js ''toprfResponse''),
      (162, js ''createTaskOnMechainRequest''), (170, js ''createTaskOnMechainResponse'')]"

fun encode_value :: "wire_lib \<Rightarrow> rpc_value \<Rightarrow> bytes" where
  "encode_value W (VInitRequest m) = InitRequest_encode W m"
| "encode_value W (VInitResponse b) = InitResponse_encode W b"
| "encode_value W (VError d) = ErrorData_encode W d"
| "encode_value W (VCreateTunnel m) = CreateTunnelRequest_encode W m"
| "encode_value W (VDisconnectTunnel i) = DisconnectTunnelRequest_encode W i"
| "encode_value W (VTunnelMessage i b) = TunnelMessage_encode W (i, b)"
| "encode_value W (VTunnelDisconnect i e) = TunnelDisconnectEvent_encode W (i, e)"
| "encode_value W (VClaimTunnel m) = ClaimTunnelRequest_encode W m"
| "encode_value W (VClaimTunnelResponse m) = ClaimTunnelResponse_encode W m"
| "encode_value W (VToprf b e) = TOPRFRequest_encode W (b, e)"
| "encode_value W (VToprfResponse m) = TOPRFResponse_encode W m"
| "encode_value W (VClaimOnChain m) = RequestClaimOnAvsRequest_encode W m"
| "encode_value W (VClaimOnChainResponse m) = RequestClaimOnAvsResponse_encode W m"
| "encode_value W (VCompleteOnChain m) = CompleteClaimOnAvsRequest_encode W m"
| "encode_value W (VCompleteOnChainResponse m) = CompleteClaimOnAvsResponse_encode W m"
| "encode_value W (VMechainTask t) = CreateTaskOnMechainRequest_encode W t"
| "encode_value W (VMechainTaskResponse m) = CreateTaskOnMechainResponse_encode W m"
| "encode_value W VEmpty = Empty_encode W ()"

definition RPCMessage_encode :: "wire_lib \<Rightarrow> RPCMessage \<Rightarrow> bytes" where
  "RPCMessage_encode W m =
     put_uint64 W 8 (rpc_id m)
     @ concat (map (\<lambda>(tag, k). put_message W tag (encode_value W) (member_of m k)) rpc_fields)"

definition RPCMessages_encode :: "wire_lib \<Rightarrow> RPCMessage list \<Rightarrow> bytes" where
  "RPCMessages_encode W ms = put_messages W 10 (RPCMessage_encode W) ms"

definition longToNumber :: "int \<Rightarrow> js_error + int" where
  "longToNumber n =
     (if n > 2 ^ 53 - 1 then Inl (PlainError ''Value is larger than Number.MAX_SAFE_INTEGER'')
      else if n < - (2 ^ 53 - 1) then Inl (PlainError ''Value is smaller than Number.MIN_SAFE_INTEGER'')
      else Inr n)"

definition map_reader :: "('a \<Rightarrow> 'b) \<Rightarrow> 'a reader \<Rightarrow> 'b reader" where
  "map_reader f dec len r = bindR (dec len r) (\<lambda>(v, r'). Inr (f v, r'))"

text \<open>What each case of the \<open>switch\<close> reads into its member.\<close>

definition decode_value :: "wire_lib \<Rightarrow> int \<Rightarrow> rpc_value reader" where
  "decode_value W tag =
     (if tag = 18 then map_reader VInitRequest (InitRequest_decode W)
      else if tag = 26 then map_reader VInitResponse (InitResponse_decode W)
      else if tag = 34 then map_reader VError (ErrorData_decode W)
      else if tag = 42 then map_reader VError (ErrorData_decode W)
      else if tag = 50 then map_reader VCreateTunnel (CreateTunnelRequest_decode W)
      else if tag = 58 then map_reader (\<lambda>_. VEmpty) (Empty_decode W)
      else if tag = 66 then map_reader VDisconnectTunnel (DisconnectTunnelRequest_decode W)
      else if tag = 74 then map_reader (\<lambda>_. VEmpty) (Empty_decode W)
      else if tag = 82 then map_reader (case_prod VTunnelMessage) (TunnelMessage_decode W)
      else if tag = 90 then map_reader (case_prod VTunnelDisconnect) (TunnelDisconnectEvent_decode W)
      else if tag = 98 then map_reader VClaimTunnel (ClaimTunnelRequest_decode W)
      else if tag = 106 then map_reader VClaimTunnelResponse (ClaimTunnelResponse_decode W)
      else if tag = 114 then map_reader VClaimOnChain (RequestClaimOnAvsRequest_decode W)
      else if tag = 122 then map_reader VClaimOnChainResponse (RequestClaimOnAvsResponse_decode W)
      else if tag = 130 then map_reader VCompleteOnChain (CompleteClaimOnAvsRequest_decode W)
      else if tag = 138 then map_reader VCompleteOnChainResponse (CompleteClaimOnAvsResponse_decode W)
      else if tag = 146 then map_reader (case_prod VToprf) (TOPRFRequest_decode W)
      else if tag = 154 then map_reader VToprfResponse (TOPRFResponse_decode W)
      else if tag = 162 then map_reader VMechainTask (CreateTaskOnMechainRequest_decode W)
      else map_reader VMechainTaskResponse (CreateTaskOnMechainResponse_decode W))"

text \<open>Assigning a member of the object.\<close>

definition members_of :: "(jsstring \<Rightarrow> rpc_value option) \<Rightarrow> (jsstring \<times> rpc_value) list" where
  "members_of f = List.map_filter (\<lambda>(tag, k). map_option (Pair k) (f k)) rpc_fields"

definition assign_member :: "jsstring \<Rightarrow> rpc_value \<Rightarrow> RPCMessage \<Rightarrow> RPCMessage" where
  "assign_member k v m = m\<lparr>rpc_members := members_of ((member_of m)(k \<mapsto> v))\<rparr>"

definition createBaseRPCMessage :: RPCMessage where
  "createBaseRPCMessage = \<lparr>rpc_id = 0, rpc_members = []\<rparr>"

definition RPCMessage_step :: "wire_lib \<Rightarrow> RPCMessage step" where
  "RPCMessage_step W tag m r =
     (if tag = 8 then field (bindR (r_uint64 W r) (\<lambda>(n, r'). bindR (longToNumber n) (\<lambda>v. Inr (v, r')))) (\<lambda>v. m\<lparr>rpc_id := v\<rparr>)
      else case map_of rpc_fields tag of
        Some k \<Rightarrow> field (r_message W (decode_value W tag) r) (\<lambda>v. assign_member k v m)
      | None \<Rightarrow> None)"

definition RPCMessage_decode :: "wire_lib \<Rightarrow> RPCMessage reader" where
  "RPCMessage_decode W = decode_fields W (RPCMessage_step W) createBaseRPCMessage"

definition createBaseRPCMessages :: "RPCMessage list" where
  "createBaseRPCMessages = []"

definition RPCMessages_step :: "wire_lib \<Rightarrow> RPCMessage list step" where
  "RPCMessages_step W tag m r =
     (if tag = 10 then field (r_message W (RPCMessage_decode W) r) (\<lambda>v. m @ [v]) else None)"

definition RPCMessages_decode :: "wire_lib \<Rightarrow> RPCMessage list reader" where
  "RPCMessages_decode W = decode_fields W (RPCMessages_step W) createBaseRPCMessages"

text \<open>The codec of a whole packet, and the encoders that the handlers sign.\<close>

definition wire_proto :: "wire_lib \<Rightarrow> proto_lib" where
  "wire_proto W = \<lparr>encode_ClaimTunnelRequest = ClaimTunnelRequest_encode W,
     encode_ClaimTunnelResponse = ClaimTunnelResponse_encode W,
     encode_AuthenticatedUserData = AuthenticatedUserData_encode W\<rparr>"

end
