(* ===== verification/Wire_Roundtrip.thy ===== *)
theory Wire_Roundtrip
  imports Wire_Messages
begin

text \<open>
  What \<open>encode\<close> writes, \<open>decode\<close> reads back: for each message under the conditions \<open>ok_\<close> its numbers
  and texts must meet (a number fits its wire type, a text survives UTF-8, an enum value is one of the
  enum), up to the packets of RPC messages that client and attestor exchange.
\<close>

subsection \<open>Messages a decoder can return\<close>

definition ok_DataSlice :: "DataSlice \<Rightarrow> bool" where
  "ok_DataSlice m \<longleftrightarrow> is_u32 (ds_fromIndex m) \<and> is_u32 (ds_length m)"

definition ok_TOPRFPayload :: "TOPRFProofParams \<Rightarrow> bool" where
  "ok_TOPRFPayload m \<longleftrightarrow> pred_option ok_DataSlice (dataLocation m) \<and> mask m = [] \<and> toprf_plaintext m = []"

definition ok_ZKProof :: "ZKProof \<Rightarrow> bool" where
  "ok_ZKProof m \<longleftrightarrow> is_text (proofJson m) \<and> is_u32 (startIdx m) \<and> pred_option ok_TOPRFPayload (zp_toprf m)"

definition ok_MessageRevealDirect :: "MessageRevealDirect \<Rightarrow> bool" where
  "ok_MessageRevealDirect m \<longleftrightarrow> is_u32 (md_recordNumber m)"

definition ok_MessageRevealZk :: "(ZKProof list) \<Rightarrow> bool" where
  "ok_MessageRevealZk m \<longleftrightarrow> list_all ok_ZKProof m"

definition ok_MessageReveal :: "MessageReveal \<Rightarrow> bool" where
  "ok_MessageReveal m \<longleftrightarrow> pred_option ok_MessageRevealDirect (directReveal m) \<and> pred_option ok_MessageRevealZk (zkReveal m)"

definition ok_TranscriptMessage :: "TranscriptMessage \<Rightarrow> bool" where
  "ok_TranscriptMessage m \<longleftrightarrow> tm_sender m \<noteq> SENDER_UNRECOGNIZED \<and> pred_option ok_MessageReveal (tm_reveal m)"

definition ok_CreateTunnelRequest :: "CreateTunnelRequest \<Rightarrow> bool" where
  "ok_CreateTunnelRequest m \<longleftrightarrow> is_u32 (ct_id m) \<and> is_text (ct_host m) \<and> is_u32 (ct_port m) \<and> is_text (ct_geoLocation m)"

definition ok_ClaimRequestData :: "ClaimRequestData \<Rightarrow> bool" where
  "ok_ClaimRequestData m \<longleftrightarrow> is_text (ci_provider m) \<and> is_text (ci_parameters m) \<and> is_text (cd_owner m) \<and> is_u32 (cd_timestampS m) \<and> is_text (ci_context m)"

definition ok_ClaimTunnelRequest :: "ClaimTunnelRequest \<Rightarrow> bool" where
  "ok_ClaimTunnelRequest m \<longleftrightarrow> pred_option ok_CreateTunnelRequest (cq_request m) \<and> pred_option ok_ClaimRequestData (cq_data m) \<and> list_all ok_TranscriptMessage (cq_transcript m) \<and> cq_zkEngine m \<noteq> ZK_ENGINE_UNRECOGNIZED"

definition ok_ProviderClaimData :: "ProviderClaimData \<Rightarrow> bool" where
  "ok_ProviderClaimData m \<longleftrightarrow> is_text (ci_provider m) \<and> is_text (ci_parameters m) \<and> is_text (cd_owner m) \<and> is_u32 (cd_timestampS m) \<and> is_text (ci_context m) \<and> is_text (pc_identifier m) \<and> is_u32 (pc_epoch m)"

definition ok_ErrorData :: "ErrorData \<Rightarrow> bool" where
  "ok_ErrorData m \<longleftrightarrow> is_i32 (ed_code m) \<and> is_text (js (ed_message m)) \<and> is_text (ed_data m)"

definition ok_ResponseSignatures :: "ResponseSignatures \<Rightarrow> bool" where
  "ok_ResponseSignatures m \<longleftrightarrow> is_text (sig_attestorAddress m) \<and> sig_result m \<noteq> None"

definition ok_ClaimTunnelResponse :: "ClaimTunnelResponse \<Rightarrow> bool" where
  "ok_ClaimTunnelResponse m \<longleftrightarrow> pred_option ok_ClaimTunnelRequest (cs_request m) \<and> pred_option ok_ProviderClaimData (cs_claim m) \<and> pred_option ok_ErrorData (cs_error m) \<and> pred_option ok_ResponseSignatures (cs_signatures m)"

definition ok_DisconnectTunnelRequest :: "int \<Rightarrow> bool" where
  "ok_DisconnectTunnelRequest m \<longleftrightarrow> is_u32 m"

definition ok_TunnelMessage :: "(int \<times> bytes) \<Rightarrow> bool" where
  "ok_TunnelMessage m \<longleftrightarrow> is_u32 (fst m)"

definition ok_TunnelDisconnectEvent :: "(int \<times> ErrorData option) \<Rightarrow> bool" where
  "ok_TunnelDisconnectEvent m \<longleftrightarrow> is_u32 (fst m) \<and> pred_option ok_ErrorData (snd m)"

definition ok_AuthenticatedUserData :: "AuthenticatedUserData \<Rightarrow> bool" where
  "ok_AuthenticatedUserData m \<longleftrightarrow> is_text (ud_id m) \<and> is_u32 (createdAt m) \<and> is_u32 (expiresAt m) \<and> list_all is_text (hostWhitelist m)"

definition ok_AuthenticationRequest :: "AuthenticationRequest \<Rightarrow> bool" where
  "ok_AuthenticationRequest m \<longleftrightarrow> pred_option ok_AuthenticatedUserData (auth_data m)"

definition ok_InitRequest :: "InitRequest \<Rightarrow> bool" where
  "ok_InitRequest m \<longleftrightarrow> is_i32 (clientVersion m) \<and> signatureType m \<noteq> SERVICE_SIGNATURE_TYPE_UNRECOGNIZED \<and> pred_option ok_AuthenticationRequest (im_auth m)"

definition ok_TOPRFRequest :: "(bytes \<times> ZKProofEngine) \<Rightarrow> bool" where
  "ok_TOPRFRequest m \<longleftrightarrow> snd m \<noteq> ZK_ENGINE_UNRECOGNIZED"

definition ok_RequestClaimOnAvsRequest :: "RequestClaimOnAvsRequest \<Rightarrow> bool" where
  "ok_RequestClaimOnAvsRequest m \<longleftrightarrow> is_u32 (ra_chainId m) \<and> is_text (ra_jsonCreateClaimRequest m)"

definition ok_RequestClaimOnAvsResponse :: "RequestClaimOnAvsResponse \<Rightarrow> bool" where
  "ok_RequestClaimOnAvsResponse m \<longleftrightarrow> is_text (rr_txHash m) \<and> is_u32 (rr_taskIndex m) \<and> is_text (rr_jsonTask m)"

definition ok_CompleteClaimOnAvsRequest :: "CompleteClaimOnAvsRequest \<Rightarrow> bool" where
  "ok_CompleteClaimOnAvsRequest m \<longleftrightarrow> is_u32 (ca_chainId m) \<and> is_u32 (ca_taskIndex m) \<and> is_text (ca_completedTaskJson m)"

definition ok_CompleteClaimOnAvsResponse :: "CompleteClaimOnAvsResponse \<Rightarrow> bool" where
  "ok_CompleteClaimOnAvsResponse m \<longleftrightarrow> is_text (cr_txHash m) \<and> is_text (cr_taskCompletedObjectJson m)"

definition ok_CreateTaskOnMechainRequest :: "int \<Rightarrow> bool" where
  "ok_CreateTaskOnMechainRequest m \<longleftrightarrow> is_u32 m"

definition ok_CreateTaskOnMechainResponse :: "CreateTaskOnMechainResponse \<Rightarrow> bool" where
  "ok_CreateTaskOnMechainResponse m \<longleftrightarrow> is_u32 (mt_taskId m) \<and> is_u32 (mt_requiredAttestors m) \<and> list_all is_text (mt_hosts m)"

subsection \<open>Each message comes back\<close>

lemma enum_simps:
  "is_i32 (sender_num a)" "is_i32 (engine_num b)" "is_i32 (signature_type_num c)"
  "sender_of 0 = SENDER_UNKNOWN" "engine_of 0 = ZK_ENGINE_SNARKJS" "signature_type_of 0 = SERVICE_SIGNATURE_TYPE_UNKNOWN"
  "sender_of (sender_num a) = a" "engine_of (engine_num b) = b" "signature_type_of (signature_type_num c) = c"
  by (cases a; cases b; cases c; simp add: is_i32_def sender_of_def engine_of_def signature_type_of_def)+

lemma unat_of_char: "unat (of_char c :: 16 word) = of_char c"
proof -
  have "(of_char c :: nat) < 256" by (subst of_char_mod_256[symmetric], rule mod_less_divisor) simp
  then have "of_char c < (65536 :: nat)" by (rule less_trans) simp
  then have "unat (of_nat (of_char c) :: 16 word) = of_char c" by (simp add: unat_of_nat take_bit_eq_mod)
  then show ?thesis by (simp add: of_nat_of_char)
qed

lemma message_of_js: "message_of (js s) = s"
  by (induction s) (simp_all add: message_of_def js_def unat_of_char)

lemma message_of_nil: "message_of [] = []"
  by (simp add: message_of_def)

lemma some_of_case: "x \<noteq> None \<Longrightarrow> Some (case x of None \<Rightarrow> [] | Some b \<Rightarrow> b) = x"
  by (cases x) simp_all

lemmas wire_simps = some_of_case enum_simps message_of_js list_all_iff message_of_nil

lemma carries_DataSlice:
  assumes "wire_spec W" and "ok_DataSlice m"
  shows "carries (DataSlice_encode W) (DataSlice_decode W) m"
  using assms unfolding DataSlice_encode_def DataSlice_decode_def
  by - (rule carries_fields, (rule wire_intros | (simp add: DataSlice_step_def createBaseDataSlice_def ok_DataSlice_def wire_simps; fail))+)

lemma carries_TOPRFResponse:
  assumes "wire_spec W"
  shows "carries (TOPRFResponse_encode W) (TOPRFResponse_decode W) m"
  using assms unfolding TOPRFResponse_encode_def TOPRFResponse_decode_def
  by - (rule carries_fields, (rule wire_intros | (simp add: TOPRFResponse_step_def createBaseTOPRFResponse_def wire_simps; fail))+)

lemma carries_TOPRFPayload:
  assumes "wire_spec W" and "ok_TOPRFPayload m"
  shows "carries (TOPRFPayload_encode W) (TOPRFPayload_decode W) m"
  using assms unfolding TOPRFPayload_encode_def TOPRFPayload_decode_def
  by - (rule carries_fields, (rule wire_intros reads_put_messages[where upd = responses_update] | (simp add: TOPRFPayload_step_def createBaseTOPRFPayload_def ok_TOPRFPayload_def carries_DataSlice carries_TOPRFResponse wire_simps; fail))+)

lemma carries_ZKProof:
  assumes "wire_spec W" and "ok_ZKProof m"
  shows "carries (ZKProof_encode W) (ZKProof_decode W) m"
  using assms unfolding ZKProof_encode_def ZKProof_decode_def
  by - (rule carries_fields, (rule wire_intros | (simp add: ZKProof_step_def createBaseZKProof_def ok_ZKProof_def carries_TOPRFPayload wire_simps; fail))+)

lemma carries_MessageRevealDirect:
  assumes "wire_spec W" and "ok_MessageRevealDirect m"
  shows "carries (MessageRevealDirect_encode W) (MessageRevealDirect_decode W) m"
  using assms unfolding MessageRevealDirect_encode_def MessageRevealDirect_decode_def
  by - (rule carries_fields, (rule wire_intros | (simp add: MessageRevealDirect_step_def createBaseMessageRevealDirect_def ok_MessageRevealDirect_def wire_simps; fail))+)

lemma carries_MessageRevealZk:
  assumes "wire_spec W" and "ok_MessageRevealZk m"
  shows "carries (MessageRevealZk_encode W) (MessageRevealZk_decode W) m"
  using assms unfolding MessageRevealZk_encode_def MessageRevealZk_decode_def
  by - (rule carries_fields, (rule wire_intros reads_put_messages[where upd = "\<lambda>f. f"] | (simp add: MessageRevealZk_step_def createBaseMessageRevealZk_def ok_MessageRevealZk_def carries_ZKProof wire_simps; fail))+)

lemma carries_MessageReveal:
  assumes "wire_spec W" and "ok_MessageReveal m"
  shows "carries (MessageReveal_encode W) (MessageReveal_decode W) m"
  using assms unfolding MessageReveal_encode_def MessageReveal_decode_def
  by - (rule carries_fields, (rule wire_intros | (simp add: MessageReveal_step_def createBaseMessageReveal_def ok_MessageReveal_def carries_MessageRevealDirect carries_MessageRevealZk wire_simps; fail))+)

lemma carries_TranscriptMessage:
  assumes "wire_spec W" and "ok_TranscriptMessage m"
  shows "carries (TranscriptMessage_encode W) (TranscriptMessage_decode W) m"
  using assms unfolding TranscriptMessage_encode_def TranscriptMessage_decode_def
  by - (rule carries_fields, (rule wire_intros | (simp add: TranscriptMessage_step_def createBaseTranscriptMessage_def ok_TranscriptMessage_def carries_MessageReveal wire_simps; fail))+)

lemma carries_CreateTunnelRequest:
  assumes "wire_spec W" and "ok_CreateTunnelRequest m"
  shows "carries (CreateTunnelRequest_encode W) (CreateTunnelRequest_decode W) m"
  using assms unfolding CreateTunnelRequest_encode_def CreateTunnelRequest_decode_def
  by - (rule carries_fields, (rule wire_intros | (simp add: CreateTunnelRequest_step_def createBaseCreateTunnelRequest_def ok_CreateTunnelRequest_def wire_simps; fail))+)

lemma carries_ClaimRequestData:
  assumes "wire_spec W" and "ok_ClaimRequestData m"
  shows "carries (ClaimRequestData_encode W) (ClaimRequestData_decode W) m"
  using assms unfolding ClaimRequestData_encode_def ClaimRequestData_decode_def
  by - (rule carries_fields, (rule wire_intros | (simp add: ClaimRequestData_step_def createBaseClaimRequestData_def ok_ClaimRequestData_def wire_simps; fail))+)

lemma carries_RequestSignatures:
  assumes "wire_spec W"
  shows "carries (RequestSignatures_encode W) (RequestSignatures_decode W) m"
  using assms unfolding RequestSignatures_encode_def RequestSignatures_decode_def
  by - (rule carries_fields, (rule wire_intros | (simp add: RequestSignatures_step_def createBaseRequestSignatures_def wire_simps; fail))+)

lemma reads_ClaimTunnelRequest:
  assumes "wire_spec W" and "ok_ClaimTunnelRequest m"
  shows "reads W (ClaimTunnelRequest_step W) createBaseClaimTunnelRequest (ClaimTunnelRequest_encode W m) m"
  using assms unfolding ClaimTunnelRequest_encode_def
  by - (rule reads_fields, assumption, (rule wire_intros reads_put_messages[where upd = cq_transcript_update] | (simp add: ClaimTunnelRequest_step_def createBaseClaimTunnelRequest_def ok_ClaimTunnelRequest_def carries_CreateTunnelRequest carries_ClaimRequestData carries_TranscriptMessage carries_RequestSignatures wire_simps; fail))+)

lemma carries_ClaimTunnelRequest:
  assumes "wire_spec W" and "ok_ClaimTunnelRequest m"
  shows "carries (ClaimTunnelRequest_encode W) (ClaimTunnelRequest_decode W) m"
  unfolding ClaimTunnelRequest_decode_def using reads_ClaimTunnelRequest[OF assms] by (rule carries_decode)

lemma carries_ProviderClaimData:
  assumes "wire_spec W" and "ok_ProviderClaimData m"
  shows "carries (ProviderClaimData_encode W) (ProviderClaimData_decode W) m"
  using assms unfolding ProviderClaimData_encode_def ProviderClaimData_decode_def
  by - (rule carries_fields, (rule wire_intros | (simp add: ProviderClaimData_step_def createBaseProviderClaimData_def ok_ProviderClaimData_def wire_simps; fail))+)

lemma carries_ErrorData:
  assumes "wire_spec W" and "ok_ErrorData m"
  shows "carries (ErrorData_encode W) (ErrorData_decode W) m"
  using assms unfolding ErrorData_encode_def ErrorData_decode_def
  by - (rule carries_fields, (rule wire_intros | (simp add: ErrorData_step_def createBaseErrorData_def ok_ErrorData_def wire_simps; fail))+)

lemma carries_ResponseSignatures:
  assumes "wire_spec W" and "ok_ResponseSignatures m"
  shows "carries (ResponseSignatures_encode W) (ResponseSignatures_decode W) m"
  using assms unfolding ResponseSignatures_encode_def ResponseSignatures_decode_def
  by - (rule carries_fields, (rule wire_intros | (simp add: ResponseSignatures_step_def createBaseResponseSignatures_def ok_ResponseSignatures_def wire_simps; fail))+)

lemma carries_ClaimTunnelResponse:
  assumes "wire_spec W" and "ok_ClaimTunnelResponse m"
  shows "carries (ClaimTunnelResponse_encode W) (ClaimTunnelResponse_decode W) m"
  using assms unfolding ClaimTunnelResponse_encode_def ClaimTunnelResponse_decode_def
  by - (rule carries_fields, (rule wire_intros | (simp add: ClaimTunnelResponse_step_def createBaseClaimTunnelResponse_def ok_ClaimTunnelResponse_def carries_ClaimTunnelRequest carries_ProviderClaimData carries_ErrorData carries_ResponseSignatures wire_simps; fail))+)

lemma carries_DisconnectTunnelRequest:
  assumes "wire_spec W" and "ok_DisconnectTunnelRequest m"
  shows "carries (DisconnectTunnelRequest_encode W) (DisconnectTunnelRequest_decode W) m"
  using assms unfolding DisconnectTunnelRequest_encode_def DisconnectTunnelRequest_decode_def
  by - (rule carries_fields, (rule wire_intros | (simp add: DisconnectTunnelRequest_step_def createBaseDisconnectTunnelRequest_def ok_DisconnectTunnelRequest_def wire_simps; fail))+)

lemma carries_Empty: "wire_spec W \<Longrightarrow> carries (Empty_encode W) (Empty_decode W) m"
  unfolding Empty_encode_def Empty_decode_def by (rule carries_fields, (rule reads_nothing | simp)+)

lemma carries_TunnelMessage:
  assumes "wire_spec W" and "ok_TunnelMessage m"
  shows "carries (TunnelMessage_encode W) (TunnelMessage_decode W) m"
  using assms unfolding TunnelMessage_encode_def TunnelMessage_decode_def
  by - (rule carries_fields, (rule wire_intros | (simp add: TunnelMessage_step_def createBaseTunnelMessage_def ok_TunnelMessage_def wire_simps; fail))+)

lemma carries_TunnelDisconnectEvent:
  assumes "wire_spec W" and "ok_TunnelDisconnectEvent m"
  shows "carries (TunnelDisconnectEvent_encode W) (TunnelDisconnectEvent_decode W) m"
  using assms unfolding TunnelDisconnectEvent_encode_def TunnelDisconnectEvent_decode_def
  by - (rule carries_fields, (rule wire_intros | (simp add: TunnelDisconnectEvent_step_def createBaseTunnelDisconnectEvent_def ok_TunnelDisconnectEvent_def carries_ErrorData wire_simps; fail))+)

lemma carries_AuthenticatedUserData:
  assumes "wire_spec W" and "ok_AuthenticatedUserData m"
  shows "carries (AuthenticatedUserData_encode W) (AuthenticatedUserData_decode W) m"
  using assms unfolding AuthenticatedUserData_encode_def AuthenticatedUserData_decode_def
  by - (rule carries_fields, (rule wire_intros reads_put_strings[where upd = hostWhitelist_update] | (simp add: AuthenticatedUserData_step_def createBaseAuthenticatedUserData_def ok_AuthenticatedUserData_def wire_simps; fail))+)

lemma carries_AuthenticationRequest:
  assumes "wire_spec W" and "ok_AuthenticationRequest m"
  shows "carries (AuthenticationRequest_encode W) (AuthenticationRequest_decode W) m"
  using assms unfolding AuthenticationRequest_encode_def AuthenticationRequest_decode_def
  by - (rule carries_fields, (rule wire_intros | (simp add: AuthenticationRequest_step_def createBaseAuthenticationRequest_def ok_AuthenticationRequest_def carries_AuthenticatedUserData wire_simps; fail))+)

lemma carries_InitRequest:
  assumes "wire_spec W" and "ok_InitRequest m"
  shows "carries (InitRequest_encode W) (InitRequest_decode W) m"
  using assms unfolding InitRequest_encode_def InitRequest_decode_def
  by - (rule carries_fields, (rule wire_intros | (simp add: InitRequest_step_def createBaseInitRequest_def ok_InitRequest_def carries_AuthenticationRequest wire_simps; fail))+)

lemma carries_InitResponse:
  assumes "wire_spec W"
  shows "carries (InitResponse_encode W) (InitResponse_decode W) m"
  using assms unfolding InitResponse_encode_def InitResponse_decode_def
  by - (rule carries_fields, (rule wire_intros | (simp add: InitResponse_step_def createBaseInitResponse_def wire_simps; fail))+)

lemma carries_TOPRFRequest:
  assumes "wire_spec W" and "ok_TOPRFRequest m"
  shows "carries (TOPRFRequest_encode W) (TOPRFRequest_decode W) m"
  using assms unfolding TOPRFRequest_encode_def TOPRFRequest_decode_def
  by - (rule carries_fields, (rule wire_intros | (simp add: TOPRFRequest_step_def createBaseTOPRFRequest_def ok_TOPRFRequest_def wire_simps; fail))+)

lemma carries_RequestClaimOnAvsRequest:
  assumes "wire_spec W" and "ok_RequestClaimOnAvsRequest m"
  shows "carries (RequestClaimOnAvsRequest_encode W) (RequestClaimOnAvsRequest_decode W) m"
  using assms unfolding RequestClaimOnAvsRequest_encode_def RequestClaimOnAvsRequest_decode_def
  by - (rule carries_fields, (rule wire_intros | (simp add: RequestClaimOnAvsRequest_step_def createBaseRequestClaimOnAvsRequest_def ok_RequestClaimOnAvsRequest_def wire_simps; fail))+)

lemma carries_RequestClaimOnAvsResponse:
  assumes "wire_spec W" and "ok_RequestClaimOnAvsResponse m"
  shows "carries (RequestClaimOnAvsResponse_encode W) (RequestClaimOnAvsResponse_decode W) m"
  using assms unfolding RequestClaimOnAvsResponse_encode_def RequestClaimOnAvsResponse_decode_def
  by - (rule carries_fields, (rule wire_intros | (simp add: RequestClaimOnAvsResponse_step_def createBaseRequestClaimOnAvsResponse_def ok_RequestClaimOnAvsResponse_def wire_simps; fail))+)

lemma carries_CompleteClaimOnAvsRequest:
  assumes "wire_spec W" and "ok_CompleteClaimOnAvsRequest m"
  shows "carries (CompleteClaimOnAvsRequest_encode W) (CompleteClaimOnAvsRequest_decode W) m"
  using assms unfolding CompleteClaimOnAvsRequest_encode_def CompleteClaimOnAvsRequest_decode_def
  by - (rule carries_fields, (rule wire_intros | (simp add: CompleteClaimOnAvsRequest_step_def createBaseCompleteClaimOnAvsRequest_def ok_CompleteClaimOnAvsRequest_def wire_simps; fail))+)

lemma carries_CompleteClaimOnAvsResponse:
  assumes "wire_spec W" and "ok_CompleteClaimOnAvsResponse m"
  shows "carries (CompleteClaimOnAvsResponse_encode W) (CompleteClaimOnAvsResponse_decode W) m"
  using assms unfolding CompleteClaimOnAvsResponse_encode_def CompleteClaimOnAvsResponse_decode_def
  by - (rule carries_fields, (rule wire_intros | (simp add: CompleteClaimOnAvsResponse_step_def createBaseCompleteClaimOnAvsResponse_def ok_CompleteClaimOnAvsResponse_def wire_simps; fail))+)

lemma carries_CreateTaskOnMechainRequest:
  assumes "wire_spec W" and "ok_CreateTaskOnMechainRequest m"
  shows "carries (CreateTaskOnMechainRequest_encode W) (CreateTaskOnMechainRequest_decode W) m"
  using assms unfolding CreateTaskOnMechainRequest_encode_def CreateTaskOnMechainRequest_decode_def
  by - (rule carries_fields, (rule wire_intros | (simp add: CreateTaskOnMechainRequest_step_def createBaseCreateTaskOnMechainRequest_def ok_CreateTaskOnMechainRequest_def wire_simps; fail))+)

lemma carries_CreateTaskOnMechainResponse:
  assumes "wire_spec W" and "ok_CreateTaskOnMechainResponse m"
  shows "carries (CreateTaskOnMechainResponse_encode W) (CreateTaskOnMechainResponse_decode W) m"
  using assms unfolding CreateTaskOnMechainResponse_encode_def CreateTaskOnMechainResponse_decode_def
  by - (rule carries_fields, (rule wire_intros reads_put_strings[where upd = mt_hosts_update] | (simp add: CreateTaskOnMechainResponse_step_def createBaseCreateTaskOnMechainResponse_def ok_CreateTaskOnMechainResponse_def wire_simps; fail))+)

subsection \<open>RPC messages\<close>

text \<open>A member holds a value of its type.\<close>

fun ok_value :: "int \<Rightarrow> rpc_value \<Rightarrow> bool" where
  "ok_value tag (VInitRequest m) = (tag = 18 \<and> ok_InitRequest m)"
| "ok_value tag (VInitResponse b) = (tag = 26)"
| "ok_value tag (VError d) = ((tag = 34 \<or> tag = 42) \<and> ok_ErrorData d)"
| "ok_value tag (VCreateTunnel m) = (tag = 50 \<and> ok_CreateTunnelRequest m)"
| "ok_value tag (VDisconnectTunnel i) = (tag = 66 \<and> ok_DisconnectTunnelRequest i)"
| "ok_value tag (VTunnelMessage i b) = (tag = 82 \<and> ok_TunnelMessage (i, b))"
| "ok_value tag (VTunnelDisconnect i e) = (tag = 90 \<and> ok_TunnelDisconnectEvent (i, e))"
| "ok_value tag (VClaimTunnel m) = (tag = 98 \<and> ok_ClaimTunnelRequest m)"
| "ok_value tag (VClaimTunnelResponse m) = (tag = 106 \<and> ok_ClaimTunnelResponse m)"
| "ok_value tag (VToprf b e) = (tag = 146 \<and> ok_TOPRFRequest (b, e))"
| "ok_value tag (VToprfResponse m) = (tag = 154)"
| "ok_value tag (VClaimOnChain m) = (tag = 114 \<and> ok_RequestClaimOnAvsRequest m)"
| "ok_value tag (VClaimOnChainResponse m) = (tag = 122 \<and> ok_RequestClaimOnAvsResponse m)"
| "ok_value tag (VCompleteOnChain m) = (tag = 130 \<and> ok_CompleteClaimOnAvsRequest m)"
| "ok_value tag (VCompleteOnChainResponse m) = (tag = 138 \<and> ok_CompleteClaimOnAvsResponse m)"
| "ok_value tag (VMechainTask t) = (tag = 162 \<and> ok_CreateTaskOnMechainRequest t)"
| "ok_value tag (VMechainTaskResponse m) = (tag = 170 \<and> ok_CreateTaskOnMechainResponse m)"
| "ok_value tag VEmpty = (tag = 58 \<or> tag = 74)"

text \<open>The members are those of the object, in its order; the number is a safe integer.\<close>

definition ok_RPCMessage :: "RPCMessage \<Rightarrow> bool" where
  "ok_RPCMessage m \<longleftrightarrow> 0 \<le> rpc_id m \<and> rpc_id m < 2 ^ 53 \<and> rpc_members m = members_of (member_of m)
     \<and> list_all (\<lambda>(tag, k). pred_option (ok_value tag) (member_of m k)) rpc_fields"

lemma carries_mapped:
  "carries enc dec v \<Longrightarrow> enc' w = enc v \<Longrightarrow> f v = w \<Longrightarrow> carries enc' (map_reader f dec) w"
  by (auto simp: carries_def map_reader_def)

lemmas rpc_carries = carries_InitRequest carries_InitResponse carries_ErrorData carries_CreateTunnelRequest
  carries_DisconnectTunnelRequest carries_TunnelMessage carries_TunnelDisconnectEvent carries_ClaimTunnelRequest
  carries_ClaimTunnelResponse carries_TOPRFRequest carries_TOPRFResponse carries_RequestClaimOnAvsRequest
  carries_RequestClaimOnAvsResponse carries_CompleteClaimOnAvsRequest carries_CompleteClaimOnAvsResponse
  carries_CreateTaskOnMechainRequest carries_CreateTaskOnMechainResponse carries_Empty

lemma carries_value:
  assumes "wire_spec W" and "ok_value tag v"
  shows "carries (encode_value W) (decode_value W tag) v"
  using assms by (cases v) (auto simp: decode_value_def intro!: carries_mapped rpc_carries)

text \<open>The members set so far, as a function.\<close>

lemma rpc_keys_distinct: "distinct (map snd rpc_fields)" "distinct (map fst rpc_fields)"
  by (simp_all add: rpc_fields_def js_def)

lemma map_of_map_filter:
  "distinct (map snd fs) \<Longrightarrow> map_of (List.map_filter (\<lambda>(tag, k). map_option (Pair k) (f k)) fs) k =
     (if k \<in> snd ` set fs then f k else None)"
  by (induction fs) (auto simp: List.map_filter_simps split: option.splits)

lemma member_of_members: "member_of (m\<lparr>rpc_members := members_of f\<rparr>) k = (if k \<in> snd ` set rpc_fields then f k else None)"
  by (simp add: member_of_def members_of_def map_of_map_filter[OF rpc_keys_distinct(1)])

lemma map_filter_cong: "(\<And>x. x \<in> set xs \<Longrightarrow> f x = g x) \<Longrightarrow> List.map_filter f xs = List.map_filter g xs"
  by (induction xs) (simp_all add: List.map_filter_simps split: option.split)

lemma members_of_cong: "(\<And>k. k \<in> snd ` set rpc_fields \<Longrightarrow> f k = g k) \<Longrightarrow> members_of f = members_of g"
  unfolding members_of_def by (rule map_filter_cong) force

lemma assign_member_members:
  "assign_member k v (m\<lparr>rpc_members := members_of f\<rparr>) = m\<lparr>rpc_members := members_of (f(k \<mapsto> v))\<rparr>"
proof -
  have "members_of ((member_of (m\<lparr>rpc_members := members_of f\<rparr>))(k \<mapsto> v)) = members_of (f(k \<mapsto> v))"
    by (rule members_of_cong) (simp add: member_of_members)
  then show ?thesis by (simp add: assign_member_def)
qed

text \<open>Reading the members one after the other sets them all.\<close>

lemma member_read:
  assumes "wire_spec W" and "(tag, k) \<in> set rpc_fields" and "pred_option (ok_value tag) x" and "f k = None"
  shows "reads W (RPCMessage_step W) (m\<lparr>rpc_members := members_of f\<rparr>) (put_message W tag (encode_value W) x)
     (m\<lparr>rpc_members := members_of (f(k := x))\<rparr>)"
proof -
  have t: "is_u32 tag" "tag \<noteq> 8" using assms(2) by (auto simp: rpc_fields_def)
  have k: "map_of rpc_fields tag = Some k" using assms(2) rpc_keys_distinct(2) by (simp add: map_of_eq_Some_iff)
  have n: "f(k := None) = f" using assms(4) by (simp add: fun_upd_idem)
  have c: "carries (encode_value W) (decode_value W tag) v" if "x = Some v" for v
    using carries_value assms(1,3) that by simp
  show ?thesis
    using reads_put_message[of "RPCMessage_step W" tag "m\<lparr>rpc_members := members_of f\<rparr>" W "decode_value W tag"
        "\<lambda>x. m\<lparr>rpc_members := members_of (f(k := x))\<rparr>" x "encode_value W"] assms(1) t k n c
    by (simp add: RPCMessage_step_def assign_member_members)
qed

lemma members_read:
  assumes "wire_spec W" and "set fs \<subseteq> set rpc_fields" and "distinct (map snd fs)"
    and "\<And>tag k. (tag, k) \<in> set fs \<Longrightarrow> pred_option (ok_value tag) (g k) \<and> f k = None"
  shows "reads W (RPCMessage_step W) (m\<lparr>rpc_members := members_of f\<rparr>)
     (concat (map (\<lambda>(tag, k). put_message W tag (encode_value W) (g k)) fs))
     (m\<lparr>rpc_members := members_of (\<lambda>k. if k \<in> snd ` set fs then g k else f k)\<rparr>)"
  using assms(2-4)
proof (induction fs arbitrary: f)
  case Nil
  then show ?case using assms(1) by (simp add: reads_nothing)
next
  case (Cons a fs)
  obtain tag k where a: "a = (tag, k)" by (cases a)
  have "reads W (RPCMessage_step W) (m\<lparr>rpc_members := members_of f\<rparr>) (put_message W tag (encode_value W) (g k))
     (m\<lparr>rpc_members := members_of (f(k := g k))\<rparr>)"
    using Cons.prems a by (intro member_read[OF assms(1)]) auto
  moreover have "reads W (RPCMessage_step W) (m\<lparr>rpc_members := members_of (f(k := g k))\<rparr>)
     (concat (map (\<lambda>(tag, k). put_message W tag (encode_value W) (g k)) fs))
     (m\<lparr>rpc_members := members_of (\<lambda>k'. if k' \<in> snd ` set fs then g k' else (f(k := g k)) k')\<rparr>)"
    using Cons.prems a by (intro Cons.IH) force+
  moreover have "(\<lambda>k'. if k' \<in> snd ` set fs then g k' else (f(k := g k)) k') = (\<lambda>k'. if k' \<in> snd ` set (a # fs) then g k' else f k')"
    using a by auto
  ultimately show ?case using a by (auto intro: reads_seq)
qed

lemma number_read:
  assumes "wire_spec W" and "0 \<le> n" and "n < 2 ^ 53" and "rpc_id m = 0"
  shows "reads W (RPCMessage_step W) m (put_uint64 W 8 n) (m\<lparr>rpc_id := n\<rparr>)"
proof -
  have "reads W (RPCMessage_step W) m (w_uint32 W 8 @ w_uint64 W n) (m\<lparr>rpc_id := n\<rparr>)"
    using assms reads_field[of W 8 "RPCMessage_step W" m
      "\<lambda>r. bindR (r_uint64 W r) (\<lambda>(n, r'). bindR (longToNumber n) (\<lambda>v. Inr (v, r')))" "\<lambda>v. m\<lparr>rpc_id := v\<rparr>" "w_uint64 W n" n]
      wire_specD(3)[of W n]
    by (simp add: RPCMessage_step_def is_u64_def longToNumber_def)
  moreover have "n = 0 \<Longrightarrow> m\<lparr>rpc_id := n\<rparr> = m" using assms(4) by simp
  ultimately show ?thesis using assms(1) by (auto simp: put_uint64_def reads_nothing)
qed

lemma carries_RPCMessage:
  assumes "wire_spec W" and "ok_RPCMessage m"
  shows "carries (RPCMessage_encode W) (RPCMessage_decode W) m"
  unfolding RPCMessage_decode_def
proof (rule carries_fields[OF _ _ assms(1)])
  let ?b = "createBaseRPCMessage\<lparr>rpc_id := rpc_id m\<rparr>"
  have e: "members_of (\<lambda>_. None) = []" by (simp add: members_of_def rpc_fields_def List.map_filter_simps)
  have b: "createBaseRPCMessage\<lparr>rpc_id := rpc_id m\<rparr> = ?b\<lparr>rpc_members := members_of (\<lambda>_. None)\<rparr>"
    by (simp add: e createBaseRPCMessage_def)
  have "reads W (RPCMessage_step W) createBaseRPCMessage (put_uint64 W 8 (rpc_id m)) (?b\<lparr>rpc_members := members_of (\<lambda>_. None)\<rparr>)"
    using number_read[of W "rpc_id m" createBaseRPCMessage] assms b by (simp add: ok_RPCMessage_def createBaseRPCMessage_def)
  moreover have "reads W (RPCMessage_step W) (?b\<lparr>rpc_members := members_of (\<lambda>_. None)\<rparr>)
      (concat (map (\<lambda>(tag, k). put_message W tag (encode_value W) (member_of m k)) rpc_fields))
      (?b\<lparr>rpc_members := members_of (\<lambda>k. if k \<in> snd ` set rpc_fields then member_of m k else None)\<rparr>)"
    using assms rpc_keys_distinct by (intro members_read) (auto simp: ok_RPCMessage_def list_all_iff)
  ultimately show "reads W (RPCMessage_step W) createBaseRPCMessage (RPCMessage_encode W m)
      (?b\<lparr>rpc_members := members_of (\<lambda>k. if k \<in> snd ` set rpc_fields then member_of m k else None)\<rparr>)"
    unfolding RPCMessage_encode_def by (rule reads_seq)
  have "members_of (\<lambda>k. if k \<in> snd ` set rpc_fields then member_of m k else None) = rpc_members m"
    using assms(2) members_of_cong[of "\<lambda>k. if k \<in> snd ` set rpc_fields then member_of m k else None" "member_of m"]
    by (simp add: ok_RPCMessage_def)
  then show "?b\<lparr>rpc_members := members_of (\<lambda>k. if k \<in> snd ` set rpc_fields then member_of m k else None)\<rparr> = m"
    by (simp add: createBaseRPCMessage_def)
qed

lemma carries_RPCMessages:
  assumes "wire_spec W" and "list_all ok_RPCMessage ms"
  shows "carries (RPCMessages_encode W) (RPCMessages_decode W) ms"
  using assms unfolding RPCMessages_encode_def RPCMessages_decode_def
  by - (rule carries_fields, (rule reads_put_messages[where upd = "\<lambda>f. f"] | (simp add: RPCMessages_step_def createBaseRPCMessages_def
    carries_RPCMessage list_all_iff; fail))+)

end
