(* ===== verification/Wire_Total.thy ===== *)
theory Wire_Total
  imports Wire_Messages
begin

text \<open>
  The decoders return: with a reader that consumes what it reads, the bytes left are enough turns for
  every loop, the nested ones included, whatever the bytes are. An exception of the reader (the data
  ends in a field, say) is a result too; running out of turns is not among the results.
\<close>

subsection \<open>Reads that consume\<close>

definition good_read :: "bytes \<Rightarrow> js_error + 'v \<times> bytes \<Rightarrow> bool" where
  "good_read r out \<longleftrightarrow> (case out of Inl e \<Rightarrow> e \<noteq> out_of_fuel | Inr (v, r') \<Rightarrow> length r' \<le> length r)"

definition wire_progress :: "wire_lib \<Rightarrow> bool" where
  "wire_progress W \<longleftrightarrow>
     (\<forall>r. good_read r (r_uint32 W r) \<and> (\<forall>n r'. r_uint32 W r = Inr (n, r') \<longrightarrow> length r' < length r))
     \<and> (\<forall>r. good_read r (r_int32 W r)) \<and> (\<forall>r. good_read r (r_uint64 W r)) \<and> (\<forall>r. good_read r (r_bytes W r))
     \<and> (\<forall>r. good_read r (r_string W r)) \<and> (\<forall>t r. good_read r (bindR (r_skip W t r) (\<lambda>r'. Inr ((), r'))))"

lemma wire_progressD:
  assumes "wire_progress W"
  shows "good_read r (r_uint32 W r)" "r_uint32 W r = Inr (n, r') \<Longrightarrow> length r' < length r"
    "good_read r (r_int32 W r)" "good_read r (r_uint64 W r)" "good_read r (r_bytes W r)" "good_read r (r_string W r)"
    "r_skip W t r = Inr r' \<Longrightarrow> length r' \<le> length r" "r_skip W t r \<noteq> Inl out_of_fuel"
proof -
  have s: "good_read r (bindR (r_skip W t r) (\<lambda>r'. Inr ((), r')))" using assms by (simp add: wire_progress_def)
  show "r_skip W t r = Inr r' \<Longrightarrow> length r' \<le> length r" "r_skip W t r \<noteq> Inl out_of_fuel"
    using s by (auto simp: good_read_def)
qed (use assms in \<open>auto simp: wire_progress_def\<close>)

definition good_step :: "'m step \<Rightarrow> bool" where
  "good_step step \<longleftrightarrow> (\<forall>tag m r. case step tag m r of None \<Rightarrow> True | Some out \<Rightarrow> good_read r out)"

text \<open>A reader that returns: the bytes left bound its turns.\<close>

definition returns :: "'m reader \<Rightarrow> bool" where
  "returns dec \<longleftrightarrow> (\<forall>len r. good_read r (dec len r))"

lemma good_read_shorter: "length r \<le> length r0 \<Longrightarrow> good_read r out \<Longrightarrow> good_read r0 out"
  by (auto simp: good_read_def split: sum.splits)

lemma good_bind:
  assumes "good_read r out" and "\<And>v r'. out = Inr (v, r') \<Longrightarrow> length r' \<le> length r \<Longrightarrow> good_read r' (f v r')"
  shows "good_read r (bindR out (\<lambda>(v, r'). f v r'))"
  using assms good_read_shorter by (fastforce simp: good_read_def bindR_def split: sum.splits)

lemma decode_loop_returns:
  assumes W: "wire_progress W" and step: "good_step step"
  shows "length r < fuel \<Longrightarrow> good_read r (decode_loop W step fuel stop m r)"
proof (induction fuel arbitrary: m r)
  case (Suc fuel)
  show ?case
  proof (cases "\<not> stop < int (length r)")
    case False
    have "good_read r1 (case step tag m r1 of Some out \<Rightarrow> bindR out (\<lambda>(m', r2). decode_loop W step fuel stop m' r2)
        | None \<Rightarrow> if tag mod 8 = 4 \<or> tag = 0 then Inr (m, r1)
            else bindR (r_skip W (tag mod 8) r1) (decode_loop W step fuel stop m))"
      if r: "r_uint32 W r = Inr (tag, r1)" for tag r1
    proof (cases "step tag m r1")
      case None
      have l: "length r1 < length r" using wire_progressD(2)[OF W r] .
      show ?thesis
      proof (cases "r_skip W (tag mod 8) r1")
        case (Inr r2)
        then have "length r2 \<le> length r1" by (rule wire_progressD(7)[OF W])
        moreover have "length r2 < fuel" using calculation l Suc.prems by linarith
        ultimately have "good_read r1 (decode_loop W step fuel stop m r2)" using Suc.IH good_read_shorter by blast
        then show ?thesis using None Inr by (simp add: good_read_def)
      qed (use None wire_progressD(8)[OF W] in \<open>auto simp: good_read_def\<close>)
    next
      case (Some out)
      then have g: "good_read r1 out" using step by (auto simp: good_step_def split: option.splits dest: spec)
      have "length r1 < length r" using wire_progressD(2)[OF W r] .
      then show ?thesis using Some g Suc by (auto intro!: good_bind)
    qed
    then show ?thesis using False by (auto intro!: good_bind wire_progressD(1)[OF W])
  qed (simp add: good_read_def)
qed simp

lemma decode_fields_returns: "wire_progress W \<Longrightarrow> good_step step \<Longrightarrow> returns (decode_fields W step base)"
  by (simp add: returns_def decode_fields_def decode_loop_returns del: decode_loop.simps)

lemma r_message_returns: "wire_progress W \<Longrightarrow> returns dec \<Longrightarrow> good_read r (r_message W dec r)"
  unfolding r_message_def by (rule good_bind) (auto simp: returns_def intro: wire_progressD)

lemma good_field: "field rd put = Some (bindR rd (\<lambda>(v, r). Inr (put v, r)))" "good_read r rd \<Longrightarrow> good_read r (bindR rd (\<lambda>(v, r). Inr (put v, r)))"
  by (auto simp: field_def good_read_def bindR_def split: sum.splits)

lemma bindR_Inr: "bindR x Inr = x"
  by (cases x) simp_all

lemmas wire_returns = decode_fields_returns good_field(2) r_message_returns wire_progressD(1,3-6)

subsection \<open>Every decoder returns\<close>

lemma returns_DataSlice: "wire_progress W \<Longrightarrow> returns (DataSlice_decode W)"
  unfolding DataSlice_decode_def
  by (rule decode_fields_returns) (auto simp: good_step_def DataSlice_step_def good_field(1) bindR_Inr intro!: wire_returns)

lemma returns_TOPRFResponse: "wire_progress W \<Longrightarrow> returns (TOPRFResponse_decode W)"
  unfolding TOPRFResponse_decode_def
  by (rule decode_fields_returns) (auto simp: good_step_def TOPRFResponse_step_def good_field(1) bindR_Inr intro!: wire_returns)

lemma returns_TOPRFPayload: "wire_progress W \<Longrightarrow> returns (TOPRFPayload_decode W)"
  unfolding TOPRFPayload_decode_def
  by (rule decode_fields_returns) (auto simp: good_step_def TOPRFPayload_step_def good_field(1) bindR_Inr intro!: wire_returns returns_DataSlice returns_TOPRFResponse)

lemma returns_ZKProof: "wire_progress W \<Longrightarrow> returns (ZKProof_decode W)"
  unfolding ZKProof_decode_def
  by (rule decode_fields_returns) (auto simp: good_step_def ZKProof_step_def good_field(1) bindR_Inr intro!: wire_returns returns_TOPRFPayload)

lemma returns_MessageRevealDirect: "wire_progress W \<Longrightarrow> returns (MessageRevealDirect_decode W)"
  unfolding MessageRevealDirect_decode_def
  by (rule decode_fields_returns) (auto simp: good_step_def MessageRevealDirect_step_def good_field(1) bindR_Inr intro!: wire_returns)

lemma returns_MessageRevealZk: "wire_progress W \<Longrightarrow> returns (MessageRevealZk_decode W)"
  unfolding MessageRevealZk_decode_def
  by (rule decode_fields_returns) (auto simp: good_step_def MessageRevealZk_step_def good_field(1) bindR_Inr intro!: wire_returns returns_ZKProof)

lemma returns_MessageReveal: "wire_progress W \<Longrightarrow> returns (MessageReveal_decode W)"
  unfolding MessageReveal_decode_def
  by (rule decode_fields_returns) (auto simp: good_step_def MessageReveal_step_def good_field(1) bindR_Inr intro!: wire_returns returns_MessageRevealDirect returns_MessageRevealZk)

lemma returns_TranscriptMessage: "wire_progress W \<Longrightarrow> returns (TranscriptMessage_decode W)"
  unfolding TranscriptMessage_decode_def
  by (rule decode_fields_returns) (auto simp: good_step_def TranscriptMessage_step_def good_field(1) bindR_Inr intro!: wire_returns returns_MessageReveal)

lemma returns_CreateTunnelRequest: "wire_progress W \<Longrightarrow> returns (CreateTunnelRequest_decode W)"
  unfolding CreateTunnelRequest_decode_def
  by (rule decode_fields_returns) (auto simp: good_step_def CreateTunnelRequest_step_def good_field(1) bindR_Inr intro!: wire_returns)

lemma returns_ClaimRequestData: "wire_progress W \<Longrightarrow> returns (ClaimRequestData_decode W)"
  unfolding ClaimRequestData_decode_def
  by (rule decode_fields_returns) (auto simp: good_step_def ClaimRequestData_step_def good_field(1) bindR_Inr intro!: wire_returns)

lemma returns_RequestSignatures: "wire_progress W \<Longrightarrow> returns (RequestSignatures_decode W)"
  unfolding RequestSignatures_decode_def
  by (rule decode_fields_returns) (auto simp: good_step_def RequestSignatures_step_def good_field(1) bindR_Inr intro!: wire_returns)

lemma returns_ClaimTunnelRequest: "wire_progress W \<Longrightarrow> returns (ClaimTunnelRequest_decode W)"
  unfolding ClaimTunnelRequest_decode_def
  by (rule decode_fields_returns) (auto simp: good_step_def ClaimTunnelRequest_step_def good_field(1) bindR_Inr intro!: wire_returns returns_CreateTunnelRequest returns_ClaimRequestData returns_TranscriptMessage returns_RequestSignatures)

lemma returns_ProviderClaimData: "wire_progress W \<Longrightarrow> returns (ProviderClaimData_decode W)"
  unfolding ProviderClaimData_decode_def
  by (rule decode_fields_returns) (auto simp: good_step_def ProviderClaimData_step_def good_field(1) bindR_Inr intro!: wire_returns)

lemma returns_ErrorData: "wire_progress W \<Longrightarrow> returns (ErrorData_decode W)"
  unfolding ErrorData_decode_def
  by (rule decode_fields_returns) (auto simp: good_step_def ErrorData_step_def good_field(1) bindR_Inr intro!: wire_returns)

lemma returns_ResponseSignatures: "wire_progress W \<Longrightarrow> returns (ResponseSignatures_decode W)"
  unfolding ResponseSignatures_decode_def
  by (rule decode_fields_returns) (auto simp: good_step_def ResponseSignatures_step_def good_field(1) bindR_Inr intro!: wire_returns)

lemma returns_ClaimTunnelResponse: "wire_progress W \<Longrightarrow> returns (ClaimTunnelResponse_decode W)"
  unfolding ClaimTunnelResponse_decode_def
  by (rule decode_fields_returns) (auto simp: good_step_def ClaimTunnelResponse_step_def good_field(1) bindR_Inr intro!: wire_returns returns_ClaimTunnelRequest returns_ProviderClaimData returns_ErrorData returns_ResponseSignatures)

lemma returns_DisconnectTunnelRequest: "wire_progress W \<Longrightarrow> returns (DisconnectTunnelRequest_decode W)"
  unfolding DisconnectTunnelRequest_decode_def
  by (rule decode_fields_returns) (auto simp: good_step_def DisconnectTunnelRequest_step_def good_field(1) bindR_Inr intro!: wire_returns)

lemma returns_Empty: "wire_progress W \<Longrightarrow> returns (Empty_decode W)"
  unfolding Empty_decode_def
  by (rule decode_fields_returns) (auto simp: good_step_def Empty_step_def good_field(1) bindR_Inr intro!: wire_returns)

lemma returns_TunnelMessage: "wire_progress W \<Longrightarrow> returns (TunnelMessage_decode W)"
  unfolding TunnelMessage_decode_def
  by (rule decode_fields_returns) (auto simp: good_step_def TunnelMessage_step_def good_field(1) bindR_Inr intro!: wire_returns)

lemma returns_TunnelDisconnectEvent: "wire_progress W \<Longrightarrow> returns (TunnelDisconnectEvent_decode W)"
  unfolding TunnelDisconnectEvent_decode_def
  by (rule decode_fields_returns) (auto simp: good_step_def TunnelDisconnectEvent_step_def good_field(1) bindR_Inr intro!: wire_returns returns_ErrorData)

lemma returns_AuthenticatedUserData: "wire_progress W \<Longrightarrow> returns (AuthenticatedUserData_decode W)"
  unfolding AuthenticatedUserData_decode_def
  by (rule decode_fields_returns) (auto simp: good_step_def AuthenticatedUserData_step_def good_field(1) bindR_Inr intro!: wire_returns)

lemma returns_AuthenticationRequest: "wire_progress W \<Longrightarrow> returns (AuthenticationRequest_decode W)"
  unfolding AuthenticationRequest_decode_def
  by (rule decode_fields_returns) (auto simp: good_step_def AuthenticationRequest_step_def good_field(1) bindR_Inr intro!: wire_returns returns_AuthenticatedUserData)

lemma returns_InitRequest: "wire_progress W \<Longrightarrow> returns (InitRequest_decode W)"
  unfolding InitRequest_decode_def
  by (rule decode_fields_returns) (auto simp: good_step_def InitRequest_step_def good_field(1) bindR_Inr intro!: wire_returns returns_AuthenticationRequest)

lemma returns_InitResponse: "wire_progress W \<Longrightarrow> returns (InitResponse_decode W)"
  unfolding InitResponse_decode_def
  by (rule decode_fields_returns) (auto simp: good_step_def InitResponse_step_def good_field(1) bindR_Inr intro!: wire_returns)

lemma returns_TOPRFRequest: "wire_progress W \<Longrightarrow> returns (TOPRFRequest_decode W)"
  unfolding TOPRFRequest_decode_def
  by (rule decode_fields_returns) (auto simp: good_step_def TOPRFRequest_step_def good_field(1) bindR_Inr intro!: wire_returns)

lemma returns_RequestClaimOnAvsRequest: "wire_progress W \<Longrightarrow> returns (RequestClaimOnAvsRequest_decode W)"
  unfolding RequestClaimOnAvsRequest_decode_def
  by (rule decode_fields_returns) (auto simp: good_step_def RequestClaimOnAvsRequest_step_def good_field(1) bindR_Inr intro!: wire_returns)

lemma returns_RequestClaimOnAvsResponse: "wire_progress W \<Longrightarrow> returns (RequestClaimOnAvsResponse_decode W)"
  unfolding RequestClaimOnAvsResponse_decode_def
  by (rule decode_fields_returns) (auto simp: good_step_def RequestClaimOnAvsResponse_step_def good_field(1) bindR_Inr intro!: wire_returns)

lemma returns_CompleteClaimOnAvsRequest: "wire_progress W \<Longrightarrow> returns (CompleteClaimOnAvsRequest_decode W)"
  unfolding CompleteClaimOnAvsRequest_decode_def
  by (rule decode_fields_returns) (auto simp: good_step_def CompleteClaimOnAvsRequest_step_def good_field(1) bindR_Inr intro!: wire_returns)

lemma returns_CompleteClaimOnAvsResponse: "wire_progress W \<Longrightarrow> returns (CompleteClaimOnAvsResponse_decode W)"
  unfolding CompleteClaimOnAvsResponse_decode_def
  by (rule decode_fields_returns) (auto simp: good_step_def CompleteClaimOnAvsResponse_step_def good_field(1) bindR_Inr intro!: wire_returns)

lemma returns_CreateTaskOnMechainRequest: "wire_progress W \<Longrightarrow> returns (CreateTaskOnMechainRequest_decode W)"
  unfolding CreateTaskOnMechainRequest_decode_def
  by (rule decode_fields_returns) (auto simp: good_step_def CreateTaskOnMechainRequest_step_def good_field(1) bindR_Inr intro!: wire_returns)

lemma returns_CreateTaskOnMechainResponse: "wire_progress W \<Longrightarrow> returns (CreateTaskOnMechainResponse_decode W)"
  unfolding CreateTaskOnMechainResponse_decode_def
  by (rule decode_fields_returns) (auto simp: good_step_def CreateTaskOnMechainResponse_step_def good_field(1) bindR_Inr intro!: wire_returns)

lemmas rpc_returns = returns_InitRequest returns_InitResponse returns_ErrorData returns_CreateTunnelRequest
  returns_DisconnectTunnelRequest returns_TunnelMessage returns_TunnelDisconnectEvent returns_ClaimTunnelRequest
  returns_ClaimTunnelResponse returns_TOPRFRequest returns_TOPRFResponse returns_RequestClaimOnAvsRequest
  returns_RequestClaimOnAvsResponse returns_CompleteClaimOnAvsRequest returns_CompleteClaimOnAvsResponse
  returns_CreateTaskOnMechainRequest returns_CreateTaskOnMechainResponse returns_Empty

lemma returns_mapped: "returns dec \<Longrightarrow> returns (map_reader f dec)"
  by (simp add: returns_def map_reader_def good_field(2))

lemma returns_value: "wire_progress W \<Longrightarrow> returns (decode_value W tag)"
  by (simp add: decode_value_def returns_mapped rpc_returns)

lemma returns_RPCMessage: "wire_progress W \<Longrightarrow> returns (RPCMessage_decode W)"
  unfolding RPCMessage_decode_def
proof (rule decode_fields_returns)
  assume W: "wire_progress W"
  have "good_read r (bindR (r_uint64 W r) (\<lambda>(n, r'). bindR (longToNumber n) (\<lambda>v. Inr (v, r'))))" for r
    by (rule good_bind[OF wire_progressD(4)[OF W]]) (auto simp: good_read_def longToNumber_def out_of_fuel_def)
  then show "good_step (RPCMessage_step W)"
    using W by (auto simp: good_step_def RPCMessage_step_def good_field(1) intro!: wire_returns returns_value split: option.split)
qed

lemma returns_RPCMessages: "wire_progress W \<Longrightarrow> returns (RPCMessages_decode W)"
  unfolding RPCMessages_decode_def
  by (rule decode_fields_returns) (auto simp: good_step_def RPCMessages_step_def good_field(1) intro!: wire_returns returns_RPCMessage)

end
