(* ===== verification/Wire_Ref.thy ===== *)
theory Wire_Ref
  imports Wire_Roundtrip Wire_Total
begin

text \<open>
  A wire library to run the codec on: the encoding that the format documents (base-128 varints, length
  before bytes, a negative \<open>int32\<close> as the varint of its 64 bit two's complement). It meets what the
  theorems ask of the library.
\<close>

function varint :: "nat \<Rightarrow> bytes" where
  "varint n = (if n < 128 then [of_nat n] else of_nat (n mod 128 + 128) # varint (n div 128))"
  by auto
termination varint by (relation "measure id") auto

declare varint.simps [simp del]

definition premature_EOF :: js_error where
  "premature_EOF = JsRangeError ''premature EOF''"

fun r_varint :: "bytes \<Rightarrow> js_error + nat \<times> bytes" where
  "r_varint [] = Inl premature_EOF"
| "r_varint (b # r) =
     (if unat b < 128 then Inr (unat b, r)
      else bindR (r_varint r) (\<lambda>(n, r'). Inr (unat b - 128 + 128 * n, r')))"

lemma r_varint_varint: "r_varint (varint n @ r) = Inr (n, r)"
proof (induction n arbitrary: r rule: varint.induct)
  case (1 n)
  have small: "unat (of_nat k :: byte) = k" if "k < 256" for k
    using that by (simp add: unat_of_nat take_bit_eq_mod)
  show ?case
  proof (cases "n < 128")
    case True
    then show ?thesis using small[of n] by (subst varint.simps) simp
  next
    case False
    have "unat (of_nat (n mod 128 + 128) :: byte) = n mod 128 + 128" by (rule small) (use mod_less_divisor[of 128 n] in linarith)
    then show ?thesis using False 1[OF False] by (subst varint.simps) simp
  qed
qed

lemma varint_nonempty: "0 < length (varint n)"
  by (subst varint.simps) simp

lemma good_varint: "r_varint r = Inl e \<Longrightarrow> e = premature_EOF" "r_varint r = Inr (n, r') \<Longrightarrow> length r' < length r"
  by (induction r arbitrary: n) (auto simp: bindR_Inl_iff bindR_Inr_iff split: if_splits) 

definition r_take :: "nat \<Rightarrow> bytes \<Rightarrow> js_error + bytes \<times> bytes" where
  "r_take n r = (if n \<le> length r then Inr (take n r, drop n r) else Inl premature_EOF)"

definition r_block :: "bytes \<Rightarrow> js_error + bytes \<times> bytes" where
  "r_block r = bindR (r_varint r) (\<lambda>(n, r'). r_take n r')"

definition wire_ref :: wire_lib where
  "wire_ref = \<lparr>w_uint32 = \<lambda>n. varint (nat n), w_int32 = \<lambda>n. varint (nat (n mod 2 ^ 64)), w_uint64 = \<lambda>n. varint (nat n),
     w_bytes = \<lambda>b. varint (length b) @ b, w_string = \<lambda>s. varint (length (text_encode s)) @ text_encode s,
     r_uint32 = \<lambda>r. bindR (r_varint r) (\<lambda>(n, r'). Inr (int n mod 2 ^ 32, r')),
     r_int32 = \<lambda>r. bindR (r_varint r) (\<lambda>(n, r'). Inr ((int n + 2 ^ 31) mod 2 ^ 32 - 2 ^ 31, r')),
     r_uint64 = \<lambda>r. bindR (r_varint r) (\<lambda>(n, r'). Inr (int n mod 2 ^ 64, r')),
     r_bytes = r_block, r_string = \<lambda>r. bindR (r_block r) (\<lambda>(b, r'). Inr (text_decode b, r')),
     r_skip = \<lambda>t r. if t = 0 then bindR (r_varint r) (\<lambda>(n, r'). Inr r')
       else if t = 1 then bindR (r_take 8 r) (\<lambda>(n, r'). Inr r')
       else if t = 2 then bindR (r_block r) (\<lambda>(n, r'). Inr r')
       else if t = 5 then bindR (r_take 4 r) (\<lambda>(n, r'). Inr r')
       else Inl (PlainError ''cant skip wire type'')\<rparr>"

lemma int32_mod: "is_i32 n \<Longrightarrow> (n mod 2 ^ 64 + 2 ^ 31) mod 2 ^ 32 - 2 ^ 31 = n"
proof -
  assume n: "is_i32 n"
  have "(n mod 2 ^ 64 + 2 ^ 31) mod 2 ^ 32 = (n mod 2 ^ 64 mod 2 ^ 32 + 2 ^ 31) mod 2 ^ 32" by (simp only: mod_add_left_eq)
  also have "n mod 2 ^ 64 mod 2 ^ 32 = n mod 2 ^ 32" by (rule mod_mod_cancel) simp
  also have "(n mod 2 ^ 32 + 2 ^ 31) mod 2 ^ 32 = (n + 2 ^ 31) mod 2 ^ 32" by (simp only: mod_add_left_eq)
  also have "\<dots> = n + 2 ^ 31" using n by (intro mod_pos_pos_trivial) (auto simp: is_i32_def)
  finally show ?thesis by simp
qed

lemma wire_ref_spec: "wire_spec wire_ref"
  unfolding wire_spec_def
proof (intro conjI allI impI)
  fix n r
  show "r_int32 wire_ref (w_int32 wire_ref n @ r) = Inr (n, r)" if "is_i32 n"
    using int32_mod[OF that] by (simp add: wire_ref_def r_varint_varint)
qed (auto simp: wire_ref_def r_varint_varint is_u32_def is_u64_def r_block_def r_take_def is_text_def)

lemma good_reads: "good_read r (r_varint r)" "good_read r (r_take k r)" "good_read r (r_block r)"
proof -
  show v: "good_read r (r_varint r)" for r
    using good_varint[of r] by (auto simp: good_read_def premature_EOF_def out_of_fuel_def split: sum.split)
  show t: "good_read r (r_take k r)" for r k
    by (simp add: r_take_def good_read_def premature_EOF_def out_of_fuel_def)
  show "good_read r (r_block r)" unfolding r_block_def by (rule good_bind[OF v]) (rule t)
qed

lemma wire_ref_progress: "wire_progress wire_ref"
  unfolding wire_progress_def
proof (intro conjI allI impI)
  fix r n r' t
  show "length r' < length r" if "r_uint32 wire_ref r = Inr (n, r')"
    using that good_varint(2)[of r] by (auto simp: wire_ref_def bindR_Inr_iff)
  have "good_read r (bindR (bindR x (\<lambda>(n, r'). Inr r')) (\<lambda>r'. Inr ((), r')))" if "good_read r x" for x :: "js_error + 'a \<times> bytes"
    using that by (cases x) (auto simp: good_read_def)
  note skip = this
  show "good_read r (bindR (r_skip wire_ref t r) (\<lambda>r'. Inr ((), r')))"
    using good_reads by (auto simp: wire_ref_def skip) (simp_all add: good_read_def out_of_fuel_def)
qed (auto simp: wire_ref_def intro!: good_bind good_reads, auto simp: good_read_def)

end
