(* ===== verification/Wire_Link.thy ===== *)
theory Wire_Link
  imports Wire_Ref Create_Claim
begin

text \<open>
  What the wire format means for the parts that use it: the packets of RPC messages, and the claim
  request, whose signature the client makes over the encoding of its own object and the attestor checks
  over the encoding of the object it decoded.
\<close>

subsection \<open>What a message keeps\<close>

text \<open>The objects of the client carry more than the message: the mask and the plaintext of a TOPRF claim.\<close>

definition wire_proof :: "ZKProof \<Rightarrow> ZKProof" where
  "wire_proof p = p\<lparr>zp_toprf := map_option (\<lambda>t. t\<lparr>mask := [], toprf_plaintext := []\<rparr>) (zp_toprf p)\<rparr>"

definition wire_reveal :: "MessageReveal \<Rightarrow> MessageReveal" where
  "wire_reveal r = r\<lparr>zkReveal := map_option (map wire_proof) (zkReveal r)\<rparr>"

definition wire_request :: "ClaimTunnelRequest \<Rightarrow> ClaimTunnelRequest" where
  "wire_request q = q\<lparr>cq_transcript := map (\<lambda>m. m\<lparr>tm_reveal := map_option wire_reveal (tm_reveal m)\<rparr>) (cq_transcript q)\<rparr>"

lemma put_messages_map: "(\<And>x. enc (f x) = enc x) \<Longrightarrow> put_messages W tag enc (map f xs) = put_messages W tag enc xs"
  by (simp add: put_messages_def comp_def)

lemma put_message_map: "(\<And>x. enc (f x) = enc x) \<Longrightarrow> put_message W tag enc (map_option f x) = put_message W tag enc x"
  by (simp add: put_message_def split: option.split)

lemma wire_proof_encode: "ZKProof_encode W (wire_proof p) = ZKProof_encode W p"
  by (simp add: ZKProof_encode_def wire_proof_def put_message_map TOPRFPayload_encode_def)

lemma wire_reveal_encode: "MessageReveal_encode W (wire_reveal r) = MessageReveal_encode W r"
  by (simp add: MessageReveal_encode_def wire_reveal_def put_message_map MessageRevealZk_encode_def put_messages_map wire_proof_encode)

lemma wire_request_encode: "ClaimTunnelRequest_encode W (wire_request q) = ClaimTunnelRequest_encode W q"
  by (simp add: ClaimTunnelRequest_encode_def wire_request_def put_messages_map TranscriptMessage_encode_def put_message_map wire_reveal_encode)

lemma wire_request_signature [simp]:
  "(wire_request q)\<lparr>cq_requestSignature := x\<rparr> = wire_request (q\<lparr>cq_requestSignature := x\<rparr>)"
  "cq_requestSignature (wire_request q) = cq_requestSignature q" "cq_data (wire_request q) = cq_data q"
  by (simp_all add: wire_request_def)

subsection \<open>Properties\<close>

text \<open>Every packet of RPC messages comes back from the wire as it was sent: for messages whose members
  are of their types, in the order of the object, with numbers in the range of their wire types, texts
  that UTF-8 can carry and enum values of the enum, and packets shorter than 4 GiB.\<close>

theorem packets_roundtrip:
  assumes "wire_spec W" and "list_all ok_RPCMessage ms" and "small (RPCMessages_encode W ms)"
  shows "decode_whole (RPCMessages_decode W) (RPCMessages_encode W ms) = Inr ms"
  using decode_whole_encode[OF carries_RPCMessages[OF assms(1,2)] assms(3)] .

text \<open>C6: Whatever bytes arrive, the decoder returns: a list of messages or an exception of the reader. The
  turns given to its loops and to those of the nested messages are never used up.\<close>

theorem packet_decoder_returns:
  assumes "wire_progress W"
  shows "decode_whole (RPCMessages_decode W) b \<noteq> Inl out_of_fuel"
proof -
  have "good_read b (RPCMessages_decode W (int (length b)) b)"
    using returns_RPCMessages[OF assms] by (simp add: returns_def)
  then show ?thesis by (auto simp: good_read_def decode_whole_def bindR_Inl_iff split: sum.splits)
qed

text \<open>The values a member may hold.\<close>

fun has_type :: "int \<Rightarrow> rpc_value \<Rightarrow> bool" where
  "has_type tag (VInitRequest m) = (tag = 18)"
| "has_type tag (VInitResponse b) = (tag = 26)"
| "has_type tag (VError d) = (tag = 34 \<or> tag = 42)"
| "has_type tag (VCreateTunnel m) = (tag = 50)"
| "has_type tag (VDisconnectTunnel i) = (tag = 66)"
| "has_type tag (VTunnelMessage i b) = (tag = 82)"
| "has_type tag (VTunnelDisconnect i e) = (tag = 90)"
| "has_type tag (VClaimTunnel m) = (tag = 98)"
| "has_type tag (VClaimTunnelResponse m) = (tag = 106)"
| "has_type tag (VToprf b e) = (tag = 146)"
| "has_type tag (VToprfResponse m) = (tag = 154)"
| "has_type tag (VClaimOnChain m) = (tag = 114)"
| "has_type tag (VClaimOnChainResponse m) = (tag = 122)"
| "has_type tag (VCompleteOnChain m) = (tag = 130)"
| "has_type tag (VCompleteOnChainResponse m) = (tag = 138)"
| "has_type tag (VMechainTask t) = (tag = 162)"
| "has_type tag (VMechainTaskResponse m) = (tag = 170)"
| "has_type tag VEmpty = (tag = 58 \<or> tag = 74)"

lemma decoded_value_type:
  "(tag, k) \<in> set rpc_fields \<Longrightarrow> decode_value W tag len r = Inr (v, r') \<Longrightarrow> has_type tag v"
  by (auto simp: rpc_fields_def decode_value_def map_reader_def bindR_Inr_iff)

definition typed_message :: "RPCMessage \<Rightarrow> bool" where
  "typed_message m \<longleftrightarrow> (\<forall>(k, v) \<in> set (rpc_members m). \<exists>tag. (tag, k) \<in> set rpc_fields \<and> has_type tag v)"

lemma members_of_mem: "(k, v) \<in> set (members_of f) \<longleftrightarrow> k \<in> snd ` set rpc_fields \<and> f k = Some v"
  unfolding members_of_def List.map_filter_def by (auto simp: image_iff) force+

lemma decoded_message_typed:
  assumes "RPCMessage_decode W len r = Inr (m, r')"
  shows "typed_message m"
proof -
  have step: "typed_message m'" if t: "typed_message m" and s: "RPCMessage_step W tag m r = Some (Inr (m', r'))" for tag m r m' r'
  proof (cases "tag = 8")
    case True
    then show ?thesis using t s by (auto simp: RPCMessage_step_def field_Some typed_message_def)
  next
    case False
    then obtain k v where k: "(tag, k) \<in> set rpc_fields" and m': "m' = assign_member k v m" and v: "has_type tag v"
      using s decoded_value_type
      by (auto simp: RPCMessage_step_def field_Some r_message_def bindR_Inr_iff split: option.splits dest!: map_of_SomeD) 
    have "(k', v') \<in> set (rpc_members m) \<or> (k', v') = (k, v)" if "(k', v') \<in> set (rpc_members m')" for k' v'
      using that by (auto simp: m' assign_member_def members_of_mem member_of_def split: if_splits dest: map_of_SomeD)
    then show ?thesis using t k v by (force simp: typed_message_def)
  qed
  then show ?thesis
    using decode_fields_inv[of W "RPCMessage_step W" createBaseRPCMessage len r m r' typed_message] assms step
    by (simp add: RPCMessage_decode_def typed_message_def createBaseRPCMessage_def)
qed

lemma decoded_packet_typed:
  assumes "decode_whole (RPCMessages_decode W) b = Inr ms" and "m \<in> set ms"
  shows "typed_message m"
proof -
  obtain r' where "RPCMessages_decode W (int (length b)) b = Inr (ms, r')"
    using assms(1) by (auto simp: decode_whole_def bindR_Inr_iff)
  moreover have "list_all typed_message m'"
    if "list_all typed_message m" "RPCMessages_step W tag m r = Some (Inr (m', r1))" for tag m r m' r1
    using that decoded_message_typed[of W]
    by (auto simp: RPCMessages_step_def field_Some r_message_def bindR_Inr_iff split: if_splits)
  ultimately have "list_all typed_message ms"
    using decode_fields_inv[of W "RPCMessages_step W" createBaseRPCMessages "int (length b)" b ms r' "list_all typed_message"]
    by (simp add: RPCMessages_decode_def createBaseRPCMessages_def)
  then show ?thesis using assms(2) by (simp add: list_all_iff)
qed

lemma request_key: "getRpcTypeFromKey k = Some (t, RpcRequest) \<Longrightarrow> getRpcRequestType t = k"
proof -
  assume a: "getRpcTypeFromKey k = Some (t, RpcRequest)"
  have n: "length (js ''Request'') = 7" by (simp add: js_def)
  have e: "js_endsWith k (js ''Request'')" and t: "t = js_slice k 0 (-7)"
    using a by (auto simp: getRpcTypeFromKey_def split: if_splits)
  have t': "t = take (length k - 7) k" using t js_slice_drop_last[of 7 k] by simp
  have "take 7 (rev k) = rev (js ''Request'')" using e n by (simp add: js_endsWith_def is_prefix_def)
  then have "drop (length k - 7) k = js ''Request''" by (simp add: take_rev)
  then show ?thesis using t' append_take_drop_id[of "length k - 7" k] by (simp add: getRpcRequestType_def)
qed

lemma request_names:
  assumes "(tag, getRpcRequestType t) \<in> set rpc_fields"
  shows "(tag, t) \<in> {(18, js ''init''), (50, js ''createTunnel''), (66, js ''disconnectTunnel''), (98, js ''claimTunnel''),
      (114, js ''createClaimOnChain''), (130, js ''completeClaimOnChain''), (146, js ''toprf''), (162, js ''createTaskOnMechain'')}"
proof -
  have names: "js ''initRequest'' = getRpcRequestType (js ''init'')" "js ''createTunnelRequest'' = getRpcRequestType (js ''createTunnel'')"
    "js ''disconnectTunnelRequest'' = getRpcRequestType (js ''disconnectTunnel'')" "js ''claimTunnelRequest'' = getRpcRequestType (js ''claimTunnel'')"
    "js ''createClaimOnChainRequest'' = getRpcRequestType (js ''createClaimOnChain'')"
    "js ''completeClaimOnChainRequest'' = getRpcRequestType (js ''completeClaimOnChain'')"
    "js ''toprfRequest'' = getRpcRequestType (js ''toprf'')" "js ''createTaskOnMechainRequest'' = getRpcRequestType (js ''createTaskOnMechain'')"
    by (simp_all add: getRpcRequestType_def js_def)
  have inj: "getRpcRequestType a = getRpcRequestType b \<longleftrightarrow> a = b" for a b by (simp add: getRpcRequestType_def)
  have no: "k \<noteq> getRpcRequestType t" if "last k \<noteq> 116 \<or> last (butlast k) \<noteq> 115" for k
    using key_ends[of t] that by auto
  have "getRpcRequestType t \<noteq> js ''initResponse''" "getRpcRequestType t \<noteq> js ''createTunnelResponse''"
    "getRpcRequestType t \<noteq> js ''disconnectTunnelResponse''" "getRpcRequestType t \<noteq> js ''tunnelMessage''"
    "getRpcRequestType t \<noteq> js ''tunnelDisconnectEvent''" "getRpcRequestType t \<noteq> js ''claimTunnelResponse''"
    "getRpcRequestType t \<noteq> js ''createClaimOnChainResponse''" "getRpcRequestType t \<noteq> js ''completeClaimOnChainResponse''"
    "getRpcRequestType t \<noteq> js ''toprfResponse''" "getRpcRequestType t \<noteq> js ''createTaskOnMechainResponse''"
    by (rule not_sym, rule no, simp add: js_def)+
  then show ?thesis using assms by (auto simp: rpc_fields_def names inj)
qed

lemma first_request_key:
  "first_rpc_key ms = Some (t, RpcRequest) \<Longrightarrow> \<exists>v. (getRpcRequestType t, v) \<in> set ms"
proof (induction ms)
  case (Cons a ms)
  obtain k v where a: "a = (k, v)" by (cases a)
  show ?case
  proof (cases "getRpcTypeFromKey k")
    case None
    then show ?thesis using Cons a by auto
  next
    case (Some x)
    then show ?thesis using Cons.prems a request_key by fastforce
  qed
qed simp

text \<open>C5: What the decoder lets through to the handlers of requests is typed: a request that a decoded packet
  leads to is one of the eight requests of the protocol and carries the data of its own type, whatever the
  bytes of the packet were. No handler has to expect another message's data, or none.\<close>

theorem decoded_requests_typed:
  assumes "decode_whole (RPCMessages_decode W) b = Inr ms" and "m \<in> set ms"
    and "handleMessage J isInitialised m = Inr (Dispatch (RpcRequestEvent i t data))"
  shows "(t = js ''init'' \<and> (\<exists>q. data = Some (VInitRequest q)))
    \<or> (t = js ''createTunnel'' \<and> (\<exists>q. data = Some (VCreateTunnel q)))
    \<or> (t = js ''disconnectTunnel'' \<and> (\<exists>n. data = Some (VDisconnectTunnel n)))
    \<or> (t = js ''claimTunnel'' \<and> (\<exists>q. data = Some (VClaimTunnel q)))
    \<or> (t = js ''createClaimOnChain'' \<and> (\<exists>q. data = Some (VClaimOnChain q)))
    \<or> (t = js ''completeClaimOnChain'' \<and> (\<exists>q. data = Some (VCompleteOnChain q)))
    \<or> (t = js ''toprf'' \<and> (\<exists>d e. data = Some (VToprf d e)))
    \<or> (t = js ''createTaskOnMechain'' \<and> (\<exists>n. data = Some (VMechainTask n)))"
proof -
  have f: "first_rpc_key (rpc_members m) = Some (t, RpcRequest)" and d: "data = member_of m (getRpcRequestType t)"
    using assms(3) by (auto simp: handleMessage_def getRpcRequest_def bindR_Inr_iff
      split: option.splits prod.splits rpc_direction.splits rpc_value.splits if_splits)
  obtain v0 where "(getRpcRequestType t, v0) \<in> set (rpc_members m)" using first_request_key[OF f] by blast
  then obtain v where v: "data = Some v" "(getRpcRequestType t, v) \<in> set (rpc_members m)"
    using d weak_map_of_SomeI map_of_SomeD unfolding member_of_def by fastforce
  then obtain tag where tag: "(tag, getRpcRequestType t) \<in> set rpc_fields" "has_type tag v"
    using decoded_packet_typed[OF assms(1,2)] by (auto simp: typed_message_def)
  have "(tag, t) \<in> {(18, js ''init''), (50, js ''createTunnel''), (66, js ''disconnectTunnel''), (98, js ''claimTunnel''),
      (114, js ''createClaimOnChain''), (130, js ''completeClaimOnChain''), (146, js ''toprf''), (162, js ''createTaskOnMechain'')}"
    by (rule request_names[OF tag(1)])
  then show ?thesis using tag(2) v(1) by (cases v) auto
qed

text \<open>The message that carries a claim request.\<close>

definition claim_message :: "int \<Rightarrow> ClaimTunnelRequest \<Rightarrow> RPCMessage" where
  "claim_message i q = \<lparr>rpc_id = i, rpc_members = [(js ''claimTunnelRequest'', VClaimTunnel q)]\<rparr>"

lemma claim_member: "member_of (claim_message i q) k = (if k = js ''claimTunnelRequest'' then Some (VClaimTunnel q) else None)"
  by (simp add: claim_message_def member_of_def)

lemma claim_message_ok: "0 \<le> i \<Longrightarrow> i < 2 ^ 53 \<Longrightarrow> ok_ClaimTunnelRequest q \<Longrightarrow> ok_RPCMessage (claim_message i q)"
  unfolding ok_RPCMessage_def members_of_def claim_member
  by (simp add: claim_message_def rpc_fields_def js_def List.map_filter_simps)

lemma claim_message_bytes:
  "RPCMessage_encode W (claim_message i q) = put_uint64 W 8 i @ w_uint32 W 98 @ fork_join W (ClaimTunnelRequest_encode W q)"
  unfolding RPCMessage_encode_def claim_member
  by (simp add: rpc_fields_def js_def put_message_def) (simp add: claim_message_def)

lemma claim_message_encode: "RPCMessages_encode W [claim_message i (wire_request q)] = RPCMessages_encode W [claim_message i q]"
  by (simp add: RPCMessages_encode_def put_messages_def claim_message_bytes wire_request_encode)

text \<open>C4: The signature of a claim request survives the wire. The client signs the encoding of its request and
  sends it in an RPC message; what the attestor decodes is that request without what the message does not
  carry, and the attestor's own encoding of it, with the signatures taken out, passes the check of the
  signature against the owner.\<close>

theorem signed_request_survives_wire:
  assumes "wire_spec W" and "ok_ClaimTunnelRequest (wire_request req)" and "0 \<le> i" and "i < 2 ^ 53"
    and "small (RPCMessages_encode W [claim_message i req])"
    and "verify_signature E (encode_ClaimTunnelRequest (wire_proto W) (req\<lparr>cq_requestSignature := None\<rparr>)) sig owner = Inr True"
  shows "\<exists>req'. decode_whole (RPCMessages_decode W) (RPCMessages_encode W [claim_message i req]) = Inr [claim_message i req']
    \<and> cq_data req' = cq_data req \<and> cq_requestSignature req' = cq_requestSignature req
    \<and> verify_signature E (encode_ClaimTunnelRequest (wire_proto W) (req'\<lparr>cq_requestSignature := None\<rparr>)) sig owner = Inr True"
proof (intro exI conjI)
  have "carries (RPCMessages_encode W) (RPCMessages_decode W) [claim_message i (wire_request req)]"
    using assms(1-4) by (intro carries_RPCMessages) (simp_all add: claim_message_ok)
  then show "decode_whole (RPCMessages_decode W) (RPCMessages_encode W [claim_message i req]) = Inr [claim_message i (wire_request req)]"
    using decode_whole_encode[of "RPCMessages_encode W" "RPCMessages_decode W" "[claim_message i (wire_request req)]"] assms(5)
    by (simp add: claim_message_encode)
  show "verify_signature E (encode_ClaimTunnelRequest (wire_proto W) ((wire_request req)\<lparr>cq_requestSignature := None\<rparr>)) sig owner = Inr True"
    using assms(6) by (simp add: wire_proto_def wire_request_encode)
qed simp_all

text \<open>The signature covers the request, not the bytes: with a field that the format does not know added
  to the encoding, the same request is decoded, and its signature still holds.\<close>

theorem unknown_fields_ignored:
  assumes "wire_spec W" and "ok_ClaimTunnelRequest q" and "small (ClaimTunnelRequest_encode W q)"
    and "is_u32 tag" and "tag mod 8 \<noteq> 4" and "tag \<notin> {0, 10, 18, 26, 34, 40, 50, 58}" and "r_skip W (tag mod 8) c = Inr []"
  shows "decode_whole (ClaimTunnelRequest_decode W) (ClaimTunnelRequest_encode W q @ w_uint32 W tag @ c) = Inr q"
  unfolding ClaimTunnelRequest_decode_def
  using assms by (intro unknown_field_skipped reads_ClaimTunnelRequest) (auto simp: ClaimTunnelRequest_step_def)

subsection \<open>Messages to apply them to\<close>

definition wire_example_request :: ClaimTunnelRequest where
  "wire_example_request = \<lparr>cq_request = Some ref_tunnel_request,
     cq_data = Some \<lparr>ci_provider = js ''http'', ci_parameters = [], ci_context = [], cd_owner = js ''k'', cd_timestampS = 300\<rparr>,
     cq_transcript = [\<lparr>tm_sender = SENDER_CLIENT, tm_message = [22, 3, 1],
       tm_reveal = Some \<lparr>directReveal = Some \<lparr>md_key = [7], md_iv = [], md_recordNumber = 200\<rparr>, zkReveal = None\<rparr>\<rparr>],
     cq_requestSignature = None, cq_zkEngine = ZK_ENGINE_GNARK, cq_fixedServerIV = [1, 2], cq_fixedClientIV = []\<rparr>"

lemma ascii_is_text: "ascii_string s \<Longrightarrow> is_text s"
proof -
  assume a: "ascii_string s"
  have b: "unat (ucast c :: byte) = unat c" if "c \<in> set s" for c
  proof -
    have "unat c < 128" using a that by (simp add: ascii_string_def list_all_iff)
    then show ?thesis by (simp add: unsigned_ucast_eq take_bit_eq_mod)
  qed
  then have "ascii_bytes (map ucast s)" using a by (simp add: ascii_bytes_def ascii_string_def list_all_iff)
  moreover have "(ucast (ucast c :: byte) :: 16 word) = c" if "c \<in> set s" for c
    by (subst of_nat_unat_ucast[symmetric], subst b[OF that]) simp
  ultimately show "is_text s"
    using a by (simp add: is_text_def text_encode_ascii text_decode_ascii comp_def map_idI)
qed

lemma ascii_js: "list_all (\<lambda>c. (of_char c :: nat) < 128) s \<Longrightarrow> ascii_string (js s)"
  by (simp add: ascii_string_def js_def list_all_iff unat_of_char)

lemma wire_example_ok: "ok_ClaimTunnelRequest (wire_request wire_example_request)"
  by (simp add: ok_ClaimTunnelRequest_def wire_request_def wire_example_request_def ok_CreateTunnelRequest_def ref_tunnel_request_def
    ok_ClaimRequestData_def ok_TranscriptMessage_def wire_reveal_def ok_MessageReveal_def ok_MessageRevealDirect_def is_u32_def
    ascii_is_text ascii_js ascii_string_def[of "[]"])

lemma length_varint:
  "n < 128 \<Longrightarrow> length (varint n) = 1"
  "128 \<le> n \<Longrightarrow> n < 16384 \<Longrightarrow> length (varint n) = 2"
proof -
  show one: "n < 128 \<Longrightarrow> length (varint n) = 1" for n by (subst varint.simps) simp
  have "n div 128 < 128" if "n < 16384" using that by (simp add: less_mult_imp_div_less)
  then show "128 \<le> n \<Longrightarrow> n < 16384 \<Longrightarrow> length (varint n) = 2"
    using one[of "n div 128"] by (subst varint.simps) simp
qed

lemmas wire_lengths = put_message_def put_uint32_def put_int32_def put_bytes_def put_string_def put_messages_def put_uint64_def
  fork_join_def wire_ref_def length_varint

lemma wire_example_size: "length (ClaimTunnelRequest_encode wire_ref wire_example_request) < 100"
  by (simp add: wire_example_request_def ref_tunnel_request_def ClaimTunnelRequest_encode_def CreateTunnelRequest_encode_def
    ClaimRequestData_encode_def TranscriptMessage_encode_def MessageReveal_encode_def MessageRevealDirect_encode_def
    text_encode_ascii ascii_js wire_lengths) (simp add: js_def length_varint)

lemma wire_example_small: "small (RPCMessages_encode wire_ref [claim_message 5 wire_example_request])"
  using wire_example_size
  by (simp add: small_def RPCMessages_encode_def put_messages_def claim_message_bytes put_uint64_def fork_join_def wire_ref_def length_varint)

theorem packets_roundtrip_witness:
  "decode_whole (RPCMessages_decode wire_ref) (RPCMessages_encode wire_ref [claim_message 5 (wire_request wire_example_request)])
     = Inr [claim_message 5 (wire_request wire_example_request)]"
proof (rule packets_roundtrip)
  show "small (RPCMessages_encode wire_ref [claim_message 5 (wire_request wire_example_request)])"
    using wire_example_small by (simp add: claim_message_encode)
qed (simp_all add: wire_ref_spec claim_message_ok wire_example_ok)

theorem decoded_requests_typed_witness:
  "\<exists>data. handleMessage \<lparr>JSON_parse = (\<lambda>_. None), JSON_stringify = (\<lambda>_. [])\<rparr> True (claim_message 5 (wire_request wire_example_request))
      = Inr (Dispatch (RpcRequestEvent 5 (js ''claimTunnel'') data)) \<and> (\<exists>q. data = Some (VClaimTunnel q))"
proof -
  let ?q = "wire_request wire_example_request" and ?J = "\<lparr>JSON_parse = (\<lambda>_. None), JSON_stringify = (\<lambda>_. [])\<rparr>"
  let ?b = "RPCMessages_encode wire_ref [claim_message 5 ?q]"
  have "small ?b" using wire_example_small by (simp add: claim_message_encode)
  then have d: "decode_whole (RPCMessages_decode wire_ref) ?b = Inr [claim_message 5 ?q]"
    using carries_RPCMessages[OF wire_ref_spec, of "[claim_message 5 ?q]"]
    by (intro decode_whole_encode) (simp_all add: claim_message_ok wire_example_ok)
  have "claim_message 5 ?q = \<lparr>rpc_id = 5, rpc_members = [(getRpcRequestType (js ''claimTunnel''), VClaimTunnel ?q)]\<rparr>"
    by (simp add: claim_message_def getRpcRequestType_def js_def)
  then have h: "handleMessage ?J True (claim_message 5 ?q) = Inr (Dispatch (RpcRequestEvent 5 (js ''claimTunnel'') (Some (VClaimTunnel ?q))))"
    by (simp only: request_dispatched) simp
  show ?thesis using decoded_requests_typed[OF d _ h] h by (auto simp: js_def)
qed

theorem packet_decoder_returns_witness:
  "decode_whole (RPCMessages_decode wire_ref) [10, 200, 1] \<noteq> Inl out_of_fuel"
  by (rule packet_decoder_returns[OF wire_ref_progress])

theorem signed_request_survives_wire_witness:
  "\<exists>sig req'. sign_data eth_ref (encode_ClaimTunnelRequest (wire_proto wire_ref) wire_example_request) (js ''k'') = Inr sig
    \<and> decode_whole (RPCMessages_decode wire_ref) (RPCMessages_encode wire_ref [claim_message 5 wire_example_request]) = Inr [claim_message 5 req']
    \<and> verify_signature eth_ref (encode_ClaimTunnelRequest (wire_proto wire_ref) (req'\<lparr>cq_requestSignature := None\<rparr>)) sig
        (getAddress eth_ref (getPublicKey eth_ref (js ''k''))) = Inr True"
proof -
  let ?b = "encode_ClaimTunnelRequest (wire_proto wire_ref) wire_example_request"
  obtain sig where sig: "sign_data eth_ref ?b (js ''k'') = Inr sig" by (simp add: sign_data_def js_def)
  have "verify_signature eth_ref ?b sig (getAddress eth_ref (getPublicKey eth_ref (js ''k''))) = Inr True"
    using signed_data_verifies[OF _ sig] eth_ref_correct by simp
  moreover have "wire_example_request\<lparr>cq_requestSignature := None\<rparr> = wire_example_request" by (simp add: wire_example_request_def)
  ultimately show ?thesis
    using signed_request_survives_wire[OF wire_ref_spec wire_example_ok _ _ wire_example_small, of eth_ref sig
      "getAddress eth_ref (getPublicKey eth_ref (js ''k''))"] sig by auto
qed

text \<open>Field 9 is not part of the format.\<close>

theorem unknown_fields_ignored_witness:
  "decode_whole (ClaimTunnelRequest_decode wire_ref)
     (ClaimTunnelRequest_encode wire_ref (wire_request wire_example_request) @ w_uint32 wire_ref 72 @ [5]) = Inr (wire_request wire_example_request)"
proof (rule unknown_fields_ignored)
  show "small (ClaimTunnelRequest_encode wire_ref (wire_request wire_example_request))"
    using wire_example_size by (simp add: wire_request_encode small_def)
  show "r_skip wire_ref (72 mod 8) [5] = Inr []" by (simp add: wire_ref_def)
qed (simp_all add: wire_ref_spec wire_example_ok is_u32_def)

end
