(* ===== verification/Chain_Claims.thy ===== *)
theory Chain_Claims
  imports Session
begin

text \<open>
  Claims on a chain: \<open>src/avs/utils/tasks.ts\<close>, \<open>src/avs/client/create-claim-on-avs.ts\<close>,
  \<open>src/mechain/client/create-claim-on-mechain.ts\<close>, the handlers \<open>createClaimOnChain\<close>,
  \<open>completeClaimOnChain\<close> and \<open>createTaskOnMechain\<close> of \<open>src/server/handlers/\<close>, and
  \<open>ethersStructToPlainObject\<close> of \<open>src/utils/generics.ts\<close>.

  The contracts live outside the repository (their bindings are generated, \<open>ethers\<close> is a package): the
  record \<open>avs_contract\<close> holds what a call of each returns, the wait for the transaction included. A request
  for a task is JSON, as the handler that receives one does not check it.
\<close>

subsection \<open>Results of contract calls\<close>

text \<open>An array of \<open>ethers\<close> whose elements may be named too.\<close>

datatype ethers_value = EPlain json | EStruct "(jsstring option \<times> ethers_value) list"

fun ethersStructToPlainObject :: "ethers_value \<Rightarrow> json" where
  "ethersStructToPlainObject (EPlain j) = j"
| "ethersStructToPlainObject (EStruct es) =
     (if list_all (\<lambda>(k, v). k = None) es then JArr (map (\<lambda>(k, v). ethersStructToPlainObject v) es)
      else JObj (concat (map (\<lambda>(k, v). case k of None \<Rightarrow> [] | Some n \<Rightarrow> [(n, ethersStructToPlainObject v)]) es)))"

text \<open>The event \<open>NewTaskCreated\<close>: \<open>ev_args\<close> is the event as it came, the rest what the code reads of it.\<close>

record task_operator =
  op_addr :: jsstring
  op_url :: jsstring

record new_task =
  ev_taskIndex :: int
  ev_createdAt :: int
  ev_operators :: "task_operator list"
  ev_args :: ethers_value

text \<open>
  \<open>ac_payer\<close> is the address of the wallet a call is made with. \<open>createNewTask\<close> and \<open>taskCompleted\<close> return
  the first event of the transaction, if it has one, and its hash.
\<close>

record avs_contract =
  ac_encodeClaimRequest :: "json \<Rightarrow> js_error + bytes"
  ac_createNewTask :: "jsstring \<Rightarrow> json \<Rightarrow> bytes \<Rightarrow> js_error + new_task option \<times> jsstring"
  ac_taskCompleted :: "json \<Rightarrow> int \<Rightarrow> js_error + ethers_value option \<times> jsstring"

text \<open>\<open>getContracts\<close>: the configured chains.\<close>

definition getContracts :: "(jsstring \<Rightarrow> avs_contract option) \<Rightarrow> jsstring \<Rightarrow> js_error + avs_contract" where
  "getContracts CHAIN_CONFIGS chainId =
     (case CHAIN_CONFIGS chainId of
        None \<Rightarrow> Inl (PlainError ''No config found for chain ID'')
      | Some c \<Rightarrow> Inr c)"

subsection \<open>Creating a task\<close>

text \<open>
  The owner of a request: a wallet, given by its address and its way to sign, or an address, with or
  without a member \<open>requestSignature\<close> (whose value may be \<open>undefined\<close>).
\<close>

datatype task_owner =
    OwnerWallet jsstring "bytes \<Rightarrow> js_error + bytes"
  | OwnerAddress jsstring "bytes option option"

fun ownerAddress :: "task_owner \<Rightarrow> jsstring" where
  "ownerAddress (OwnerWallet a signer) = a"
| "ownerAddress (OwnerAddress a sig) = a"

definition signClaimRequest :: "avs_contract \<Rightarrow> json \<Rightarrow> (bytes \<Rightarrow> js_error + bytes) \<Rightarrow> js_error + bytes" where
  "signClaimRequest K request signer = bindR (ac_encodeClaimRequest K request) signer"

definition getSignature :: "avs_contract \<Rightarrow> json \<Rightarrow> jsstring \<Rightarrow> task_owner \<Rightarrow> js_error + bytes option" where
  "getSignature K fullRequest payer own =
     (if js_toLowerCase (ownerAddress own) = js_toLowerCase payer then Inr None
      else (case own of
        OwnerAddress a (Some sig) \<Rightarrow> Inr sig
      | OwnerAddress a None \<Rightarrow> Inl (PlainError ''Owner wallet must be provided or requestSignature must be provided'')
      | OwnerWallet a signer \<Rightarrow> bindR (signClaimRequest K fullRequest signer) (\<lambda>s. Inr (Some s))))"

text \<open>
  \<open>{ ...request, owner }\<close>: the members of an object, the elements of an array and the units of a text by their
  index. \<open>signature || '0x00'\<close>: no signature is sent as one zero byte.
\<close>

fun spread_members :: "json \<Rightarrow> (jsstring \<times> json) list" where
  "spread_members (JObj ms) = ms"
| "spread_members (JArr xs) = map (\<lambda>(i, x). (int_to_js (int i), x)) (zip [0..<length xs] xs)"
| "spread_members (JStr s) = map (\<lambda>(i, x). (int_to_js (int i), JStr [x])) (zip [0..<length s] s)"
| "spread_members j = []"

definition with_owner :: "json \<Rightarrow> jsstring \<Rightarrow> json" where
  "with_owner request a = JObj (set_member (js ''owner'') (JStr a) (spread_members request))"

definition createNewClaimRequestOnChain ::
  "avs_contract \<Rightarrow> json \<Rightarrow> jsstring \<Rightarrow> task_owner \<Rightarrow> js_error + new_task option \<times> jsstring" where
  "createNewClaimRequestOnChain K request payer own =
     bindR (getSignature K (with_owner request (ownerAddress own)) payer own) (\<lambda>signature.
       ac_createNewTask K payer (with_owner request (ownerAddress own)) (case signature of None \<Rightarrow> [0] | Some s \<Rightarrow> s))"

subsection \<open>The handlers of the attestor\<close>

record chain_env =
  ch_json :: json_lib
  ch_contracts :: "jsstring \<Rightarrow> avs_contract option"
  ch_wallet :: jsstring

text \<open>The \<open>owner\<close> of a request from outside: an address, or an object that has one.\<close>

definition requested_owner :: "json \<Rightarrow> js_error + jsstring" where
  "requested_owner request =
     (case json_member request (js ''owner'') of
        Some (JStr a) \<Rightarrow> Inr a
      | Some w \<Rightarrow> (case json_member w (js ''address'') of Some (JStr a) \<Rightarrow> Inr a | _ \<Rightarrow> Inl (JsTypeError ''Cannot read properties of undefined''))
      | None \<Rightarrow> Inl (JsTypeError ''Cannot read properties of undefined''))"

definition parse_json :: "json_lib \<Rightarrow> jsstring \<Rightarrow> js_error + json" where
  "parse_json J s = (case JSON_parse J s of None \<Rightarrow> Inl (JsSyntaxError ''Unexpected token'') | Some j \<Rightarrow> Inr j)"

definition no_event :: js_error where
  "no_event = JsTypeError ''Cannot read properties of undefined''"

text \<open>What \<open>createClaimOnChain\<close> does once payments are accepted: the attestor's wallet pays.\<close>

definition create_on_chain :: "chain_env \<Rightarrow> RequestClaimOnAvsRequest \<Rightarrow> js_error + RequestClaimOnAvsResponse" where
  "create_on_chain X q =
     bindR (getContracts (ch_contracts X) (int_to_js (ra_chainId q))) (\<lambda>K.
     bindR (parse_json (ch_json X) (ra_jsonCreateClaimRequest q)) (\<lambda>request.
     bindR (requested_owner request) (\<lambda>own.
     bindR (createNewClaimRequestOnChain K request (ch_wallet X) (OwnerAddress own (Some (Some (ra_requestSignature q))))) (\<lambda>(task, hash).
       case task of
         None \<Rightarrow> Inl no_event
       | Some t \<Rightarrow> Inr \<lparr>rr_txHash = hash, rr_taskIndex = ev_taskIndex t,
                        rr_jsonTask = JSON_stringify (ch_json X) (ethersStructToPlainObject (ev_args t))\<rparr>))))"

text \<open>\<open>JSON.stringify\<close> of a missing event is \<open>undefined\<close>, which the message carries as an empty text.\<close>

definition complete_on_chain :: "chain_env \<Rightarrow> CompleteClaimOnAvsRequest \<Rightarrow> js_error + CompleteClaimOnAvsResponse" where
  "complete_on_chain X q =
     bindR (getContracts (ch_contracts X) (int_to_js (ca_chainId q))) (\<lambda>K.
     bindR (parse_json (ch_json X) (ca_completedTaskJson q)) (\<lambda>task.
     bindR (ac_taskCompleted K task (ca_taskIndex q)) (\<lambda>(ev, hash).
       Inr \<lparr>cr_txHash = hash, cr_taskCompletedObjectJson =
              (case ev of None \<Rightarrow> [] | Some e \<Rightarrow> JSON_stringify (ch_json X) (ethersStructToPlainObject e))\<rparr>)))"

text \<open>
  The mechain task contract: the static call returns the task and the hosts of its attestors; the call
  itself is made afterwards, with the same seed.
\<close>

record mechain_contract =
  mc_static :: "bytes \<Rightarrow> int \<Rightarrow> js_error + int \<times> jsstring list"
  mc_requiredAttestors :: "js_error + int"
  mc_createNewTaskRequest :: "bytes \<Rightarrow> int \<Rightarrow> js_error + unit"

definition createTaskOnMechain ::
  "jsstring option \<Rightarrow> (jsstring \<Rightarrow> js_error + mechain_contract) \<Rightarrow> bytes \<Rightarrow> int \<Rightarrow> js_error + CreateTaskOnMechainResponse" where
  "createTaskOnMechain MECHAIN_PRIVATE_KEY connect seed timestamp =
     (case MECHAIN_PRIVATE_KEY of
        None \<Rightarrow> Inl (PlainError ''MECHAIN_PRIVATE_KEY environment variable is not set'')
      | Some privateKey \<Rightarrow>
          if privateKey = [] then Inl (PlainError ''MECHAIN_PRIVATE_KEY environment variable is not set'') else
          bindR (connect privateKey) (\<lambda>K.
          bindR (mc_static K seed timestamp) (\<lambda>(taskId, attestors).
          bindR (mc_requiredAttestors K) (\<lambda>required.
          if int (length attestors) < required then Inl no_event
          else
            bindR (mc_createNewTaskRequest K seed timestamp) (\<lambda>_.
              Inr \<lparr>mt_taskId = taskId, mt_requiredAttestors = required, mt_hosts = take (nat required) attestors\<rparr>)))))"

subsection \<open>Claims by the operators of a task\<close>

text \<open>The first member in which a claim differs from the data it was asked for.\<close>

definition getClaimRequestDifference :: "ClaimRequestData \<Rightarrow> ProviderClaimData \<Rightarrow> string option" where
  "getClaimRequestDifference a b =
     (if ci_provider a \<noteq> ci_provider b then Some ''provider''
      else if ci_context a \<noteq> ci_context b then Some ''context''
      else if ci_parameters a \<noteq> ci_parameters b then Some ''parameters''
      else if cd_timestampS a \<noteq> cd_timestampS b then Some ''timestampS''
      else None)"

definition undefined_claim :: js_error where
  "undefined_claim = JsTypeError ''Cannot read properties of undefined (reading 'provider')''"

text \<open>
  One turn of the loop over the operators. An empty signature, which an answer without a claim has, is an
  array and counts as present.
\<close>

definition check_operator_response :: "ClaimTunnelResponse \<Rightarrow> js_error + ClaimTunnelResponse" where
  "check_operator_response r =
     (case cs_signatures r of
        None \<Rightarrow> Inl (PlainError ''INTERNAL: Claim signature not generated'')
      | Some _ \<Rightarrow>
          (case (case cs_request r of None \<Rightarrow> None | Some q \<Rightarrow> cq_data q, cs_claim r) of
             (Some d, Some c) \<Rightarrow>
               (case getClaimRequestDifference d c of
                  None \<Rightarrow> Inr r
                | Some diff \<Rightarrow> Inl (throwAttestor ERROR_INVALID_CLAIM ''Claim request does not match the claim res data''))
           | _ \<Rightarrow> Inl undefined_claim))"

definition operator_claims ::
  "(task_operator \<Rightarrow> int \<Rightarrow> js_error + ClaimTunnelResponse) \<Rightarrow> new_task \<Rightarrow> js_error + ClaimTunnelResponse list" where
  "operator_claims createClaimOnAttestor arg =
     mapR (\<lambda>op. bindR (createClaimOnAttestor op (ev_createdAt arg)) check_operator_response) (ev_operators arg)"

text \<open>
  \<open>createClaimOnAvs\<close>. \<open>requestClaim\<close> and \<open>completeTask\<close> are its two halves on the chain, by the owner's wallet
  or through an attestor that pays; \<open>completeTask\<close> gets the signatures of the claims.
\<close>

definition createClaimOnAvs ::
  "(unit \<Rightarrow> js_error + new_task) \<Rightarrow> (task_operator \<Rightarrow> int \<Rightarrow> js_error + ClaimTunnelResponse)
   \<Rightarrow> (new_task \<Rightarrow> bytes list \<Rightarrow> js_error + ethers_value option \<times> jsstring)
   \<Rightarrow> js_error + (ethers_value option \<times> jsstring) \<times> ProviderClaimData" where
  "createClaimOnAvs requestClaim createClaimOnAttestor completeTask =
     bindR (requestClaim ()) (\<lambda>arg.
     bindR (operator_claims createClaimOnAttestor arg) (\<lambda>responses.
     bindR (completeTask arg (map (\<lambda>r. case cs_signatures r of None \<Rightarrow> [] | Some s \<Rightarrow> sig_claim s) responses)) (\<lambda>rslt.
       case responses of
         [] \<Rightarrow> Inl no_event
       | r # rs \<Rightarrow> (case cs_claim r of None \<Rightarrow> Inl no_event | Some c \<Rightarrow> Inr (rslt, c)))))"

text \<open>The owner's wallet pays for its own request, so no signature is needed.\<close>

definition request_by_owner ::
  "avs_contract \<Rightarrow> jsstring \<Rightarrow> (bytes \<Rightarrow> js_error + bytes) \<Rightarrow> json \<Rightarrow> unit \<Rightarrow> js_error + new_task" where
  "request_by_owner K address signer request u =
     bindR (createNewClaimRequestOnChain K request address (OwnerWallet address signer)) (\<lambda>(task, hash).
       case task of None \<Rightarrow> Inl no_event | Some t \<Rightarrow> Inr t)"

text \<open>What is asked of the chain: the hash of the claim is the identifier of the request's own data.\<close>

definition avs_request :: "claim_lib \<Rightarrow> jsstring \<Rightarrow> json \<Rightarrow> json option \<Rightarrow> jsstring \<Rightarrow> int \<Rightarrow> js_error + json" where
  "avs_request C name params ctx owner now =
     bindR (getIdentifierFromClaimInfo C \<lparr>ci_provider = name, ci_parameters = canonicalStringify C (Some params),
              ci_context = canonicalStringify C ctx\<rparr>) (\<lambda>(_, claimHash).
       Inr (JObj [(js ''provider'', JStr name), (js ''claimUserId'', JStr (js ''0x'' @ concat (replicate 32 (js ''00'')))),
                  (js ''claimHash'', JStr claimHash), (js ''owner'', JStr owner), (js ''requestedAt'', JNum now)]))"

text \<open>\<open>createClaimOnMechain\<close>: one claim for each attestor required; the answers are not looked at.\<close>

definition createClaimOnMechain ::
  "js_error + CreateTaskOnMechainResponse \<Rightarrow> (jsstring option \<Rightarrow> js_error + ClaimTunnelResponse)
   \<Rightarrow> js_error + int \<times> ClaimTunnelResponse list" where
  "createClaimOnMechain task createClaimOnAttestor =
     bindR task (\<lambda>t.
     bindR (mapR (\<lambda>i. createClaimOnAttestor (js_get (mt_hosts t) i)) [0..mt_requiredAttestors t - 1]) (\<lambda>responses.
       Inr (mt_taskId t, responses)))"

subsection \<open>Properties\<close>

text \<open>
  What the proofs rely on of canonical JSON: the text of an object that has a member is not empty, and
  parsing it gives an object that has the member.
\<close>

definition canonical_keeps :: "claim_lib \<Rightarrow> jsstring \<Rightarrow> bool" where
  "canonical_keeps C k \<longleftrightarrow>
     (\<forall>ms. map_of ms k \<noteq> None \<longrightarrow> (\<exists>s ms'. canonicalize C (JObj ms) = Some s \<and> s \<noteq> []
        \<and> JSON_parse (cl_json C) s = Some (JObj ms') \<and> map_of ms' k \<noteq> None))"

lemma map_of_set_member: "map_of (set_member k v ms) k' = (if k' = k then Some v else map_of ms k')"
  by (induction ms) auto

lemma claim_context_keeps:
  assumes "claim_context E params (JObj ms) ex = Inr s" and "canonical_keeps (ce_claim E) (js ''providerHash'')"
  shows "s \<noteq> [] \<and> (\<exists>ms'. JSON_parse (cl_json (ce_claim E)) s = Some (JObj ms') \<and> map_of ms' (js ''providerHash'') \<noteq> None)"
proof -
  obtain ms2 where s: "s = canonicalStringify (ce_claim E) (Some (JObj ms2))" and m: "map_of ms2 (js ''providerHash'') \<noteq> None"
    using assms(1) by (auto simp: claim_context_def json_set_def bindR_Inr_iff map_of_set_member split: if_splits)
  obtain t0 ms' where "canonicalize (ce_claim E) (JObj ms2) = Some t0" "t0 \<noteq> []"
    "JSON_parse (cl_json (ce_claim E)) t0 = Some (JObj ms')" "map_of ms' (js ''providerHash'') \<noteq> None"
    using assms(2) m unfolding canonical_keeps_def by blast
  then show ?thesis unfolding s by (simp add: canonicalStringify_def json_falsy_def)
qed

lemma claimed_context_differs:
  assumes "assertValidProviderTranscript E appl d version = Inr c" and "canonical_keeps (ce_claim E) (js ''providerHash'')"
    and "niceParseJsonObject (cl_json (ce_claim E)) (ci_context d) = Inr (JObj ms)" and "map_of ms (js ''providerHash'') = None"
  shows "ci_context d \<noteq> ci_context c \<and> ci_provider d = ci_provider c"
proof -
  obtain params ex s where s: "claim_context E params (JObj ms) ex = Inr s" and c: "c = d\<lparr>ci_context := s\<rparr>"
    using assms(1,3) by (auto simp: assertValidProviderTranscript_def bindR_Inr_iff split: if_splits)
  obtain ms' where "s \<noteq> []" "JSON_parse (cl_json (ce_claim E)) s = Some (JObj ms')" "map_of ms' (js ''providerHash'') \<noteq> None"
    using claim_context_keeps[OF s assms(2)] by blast
  then show ?thesis using assms(3,4) c by (auto simp: niceParseJsonObject_def split: if_splits)
qed

text \<open>C40: No claim of an attestor is ever accepted by \<open>createClaimOnAvs\<close>, unless the context the caller gave
  names a provider hash already. The attestor adds the hash to the context of the claim it signs, and the
  client insists that the claim's context is that of its request: with an answer that holds a claim the
  call ends with an invalid-claim error about the context, and with one that holds an error it ends with a
  type error in place of the attestor's reason.\<close>

theorem avs_claims_always_fail:
  assumes "claimTunnel V now req s = (s', es, Inr (VClaimTunnelResponse rsp))" and "cq_data req = Some d"
    and "canonical_keeps (ce_claim (sv_claim V)) (js ''providerHash'')"
    and "niceParseJsonObject (sv_json V) (ci_context d) = Inr (JObj ms)" and "map_of ms (js ''providerHash'') = None"
    and "requestClaim () = Inr arg" and "ev_operators arg = op # ops" and "attestorClaim op (ev_createdAt arg) = Inr rsp"
  shows "createClaimOnAvs requestClaim attestorClaim completeTask =
    Inl (if cs_claim rsp = None then undefined_claim
         else throwAttestor ERROR_INVALID_CLAIM ''Claim request does not match the claim res data'')"
proof -
  have sg: "sign_response V (signatureType (ss_metadata s)) (claim_response V req (claim_of V now req (ss_metadata s))) = Inr rsp"
    using claimTunnel_success[OF assms(1)] by blast
  have sig: "cs_signatures rsp \<noteq> None" and q: "cs_request rsp = Some req"
    using sg sign_response_claim[OF sg] by (auto simp: sign_response_def claim_response_def bindR_Inr_iff)
  have "getClaimRequestDifference d c = Some ''context''" if c: "cs_claim rsp = Some c" for c
  proof -
    have "claim_of V now req (ss_metadata s) = Inr c"
      using sign_response_claim[OF sg] c by (simp add: claim_response_def split: sum.splits)
    then obtain c0 where "assertValidClaimRequest (sv_claim V) req (ss_metadata s) = Inr c0" "ci_context c = ci_context c0"
      "ci_provider c = ci_provider c0" by (auto simp: claim_of_def bindR_Inr_iff split_beta split: if_splits)
    moreover from this obtain appl where "assertValidProviderTranscript (sv_claim V) appl d (clientVersion (ss_metadata s)) = Inr c0"
      using assms(2) by (auto simp: assertValidClaimRequest_def bindR_Inr_iff split: option.splits if_splits)
    ultimately show ?thesis
      using claimed_context_differs[of "sv_claim V" appl d "clientVersion (ss_metadata s)" c0 ms] assms(3-5)
      by (simp add: getClaimRequestDifference_def)
  qed
  then have "check_operator_response rsp = Inl (if cs_claim rsp = None then undefined_claim
         else throwAttestor ERROR_INVALID_CLAIM ''Claim request does not match the claim res data'')"
    using sig q assms(2) by (auto simp: check_operator_response_def split: option.splits)
  then show ?thesis using assms(6-8) by (simp add: createClaimOnAvs_def operator_claims_def)
qed

text \<open>Whoever pays, a task for another owner goes to the contract with the signature that came with it.\<close>

lemma foreign_owner_signed:
  assumes "js_toLowerCase a \<noteq> js_toLowerCase payer"
  shows "createNewClaimRequestOnChain K request payer (OwnerAddress a (Some sig)) =
    ac_createNewTask K payer (with_owner request a) (case sig of None \<Rightarrow> [0] | Some s \<Rightarrow> s)"
  using assms by (simp add: createNewClaimRequestOnChain_def getSignature_def)

lemma with_owner_owner: "json_member (with_owner request a) (js ''owner'') = Some (JStr a)"
  by (simp add: with_owner_def json_member_def map_of_set_member)

text \<open>A task that names the attestor itself as its owner needs no signature.\<close>

lemma own_task_unsigned:
  assumes "requested_owner request = Inr (ch_wallet X)" and "parse_json (ch_json X) (ra_jsonCreateClaimRequest q) = Inr request"
    and "getContracts (ch_contracts X) (int_to_js (ra_chainId q)) = Inr K"
    and "ac_createNewTask K (ch_wallet X) (with_owner request (ch_wallet X)) [0] = Inr (Some t, hash)"
  shows "create_on_chain X q = Inr \<lparr>rr_txHash = hash, rr_taskIndex = ev_taskIndex t,
     rr_jsonTask = JSON_stringify (ch_json X) (ethersStructToPlainObject (ev_args t))\<rparr>"
  using assms by (simp add: create_on_chain_def createNewClaimRequestOnChain_def getSignature_def)

theorem avs_claims_always_fail_witness:
  "\<exists>rsp. createClaimOnAvs (\<lambda>_. Inr \<lparr>ev_taskIndex = 1, ev_createdAt = 1700000000, ev_operators = [\<lparr>op_addr = [], op_url = []\<rparr>],
        ev_args = EPlain JNull\<rparr>) (\<lambda>_ _. Inr rsp) (\<lambda>_ _. Inr (None, [])) =
      Inl (throwAttestor ERROR_INVALID_CLAIM ''Claim request does not match the claim res data'')"
proof -
  obtain s' es rsp c where r: "claimTunnel ref_server 1700000000 ref_request ref_session_state = (s', es, Inr (VClaimTunnelResponse rsp))"
    and c: "cs_claim rsp = Some c" using ref_claim_signed by blast
  have k: "canonical_keeps (ce_claim (sv_claim ref_server)) (js ''providerHash'')"
    by (simp add: canonical_keeps_def ref_server_fields ref_claim_env_def)
  obtain d where d: "cq_data ref_request = Some d" "ci_context d = []" by (simp add: ref_request_def)
  then have n: "niceParseJsonObject (sv_json ref_server) (ci_context d) = Inr (JObj [])" by (simp add: niceParseJsonObject_def)
  let ?arg = "\<lparr>ev_taskIndex = 1, ev_createdAt = 1700000000, ev_operators = [\<lparr>op_addr = [], op_url = []\<rparr>], ev_args = EPlain JNull\<rparr>"
  have "createClaimOnAvs (\<lambda>_. Inr ?arg) (\<lambda>_ _. Inr rsp) (\<lambda>_ _. Inr (None, [])) = Inl (if cs_claim rsp = None then undefined_claim
         else throwAttestor ERROR_INVALID_CLAIM ''Claim request does not match the claim res data'')"
    by (rule avs_claims_always_fail[OF r d(1) k n, where arg = ?arg and op = "\<lparr>op_addr = [], op_url = []\<rparr>" and ops = "[]"]) simp_all
  then show ?thesis using c by auto
qed

end
