(* ===== verification/Claim_Flow.thy ===== *)
theory Claim_Flow
  imports Create_Claim Client_Tunnels Client_Socket
begin

text \<open>
  The course of \<open>createClaimOnAttestor\<close> (\<open>src/client/create-claim.ts\<close>): choosing the tunnel and the client,
  waiting for the response while the TLS tunnel calls back, and the attempts.

  \<open>waitForAllData\<close> is a promise that \<open>endedHttpRequest\<close> settles. The variable is undefined until the
  request has been made, which is after the tunnel is there; a call before is lost. \<open>RequestMade\<close> is the
  continuation of the function after the \<open>await\<close> on the tunnel, which may come any time after the
  handshake. A response parser that threw is not fed again, as the TLS client ends the session.
\<close>

subsection \<open>The tunnel\<close>

text \<open>\<open>hostPort.split(':')\<close>; a port that is not a number is \<open>NaN\<close>.\<close>

definition split_hostPort :: "jsstring \<Rightarrow> jsstring \<times> jsnum" where
  "split_hostPort hostPort =
     (case js_split (js '':'') hostPort of
        host # port # _ \<Rightarrow> (host, if port = [] then Num DEFAULT_HTTPS_PORT else js_Number port)
      | [host] \<Rightarrow> (host, Num DEFAULT_HTTPS_PORT)
      | [] \<Rightarrow> ([], Num DEFAULT_HTTPS_PORT))"

text \<open>
  \<open>NaN\<close> is falsy: the tunnel is made for port 443 then (\<open>connect_messages\<close>). A claim request with it is
  refused by the encoder, see \<open>port_encodes\<close>.
\<close>

definition createTunnelReq :: "int \<Rightarrow> jsstring \<Rightarrow> jsstring option \<Rightarrow> CreateTunnelRequest" where
  "createTunnelReq tunnelId hostPort geoLocation =
     \<lparr>ct_id = tunnelId, ct_host = fst (split_hostPort hostPort),
      ct_port = (case snd (split_hostPort hostPort) of NaN \<Rightarrow> 0 | Num p \<Rightarrow> p),
      ct_geoLocation = (case geoLocation of None \<Rightarrow> [] | Some g \<Rightarrow> g)\<rparr>"

definition port_encodes :: "jsstring \<Rightarrow> js_error + unit" where
  "port_encodes hostPort =
     (if snd (split_hostPort hostPort) = NaN then Inl (PlainError ''invalid uint32: NaN'') else Inr ())"

subsection \<open>The client\<close>

text \<open>
  A client given by the caller, or the URL of one and what to authenticate with. \<open>fresh\<close> makes the client
  from the authentication and the messages to begin with.
\<close>

datatype client_init = GivenClient client | ClientUrl jsstring "AuthenticationRequest option"

datatype connect_effect =
    InitMessages "AuthenticationRequest option" "(jsstring \<times> rpc_value) list"
  | SendAfterInit "(jsstring \<times> rpc_value) list"

definition connect_client ::
  "client_init \<Rightarrow> client \<Rightarrow> (jsstring \<times> rpc_value) list \<Rightarrow> (jsstring \<rightharpoonup> client)
   \<Rightarrow> client \<times> (jsstring \<rightharpoonup> client) \<times> connect_effect" where
  "connect_client clientInit fresh connectMsgs pool =
     (case clientInit of
        GivenClient c \<Rightarrow> (c, pool, SendAfterInit connectMsgs)
      | ClientUrl url authRequest \<Rightarrow>
          (case getAttestorClientFromPool url fresh pool of (c, pool') \<Rightarrow>
             (c, pool', case pool url of
                 Some old \<Rightarrow> if isClosed old then InitMessages authRequest connectMsgs else SendAfterInit connectMsgs
               | None \<Rightarrow> InitMessages authRequest connectMsgs)))"

subsection \<open>Waiting for the response\<close>

record response_wait =
  rw_parser :: "parser option"
  rw_requestMade :: bool
  rw_wait :: "(js_error + unit) option"
  rw_timers :: "nat list"
  rw_now :: nat

definition new_response_wait :: response_wait where
  "new_response_wait =
     \<lparr>rw_parser = Some makeHttpResponseParser, rw_requestMade = False, rw_wait = None, rw_timers = [], rw_now = 0\<rparr>"

definition endedHttpRequest :: "js_error option \<Rightarrow> response_wait \<Rightarrow> response_wait" where
  "endedHttpRequest err s =
     (if rw_requestMade s \<and> rw_wait s = None
      then s\<lparr>rw_wait := Some (case err of Some e \<Rightarrow> Inl e | None \<Rightarrow> Inr ())\<rparr> else s)"

text \<open>A complete response ends the wait a second later.\<close>

definition on_response_data :: "tls_pkg \<Rightarrow> bytes \<Rightarrow> response_wait \<Rightarrow> response_wait" where
  "on_response_data L data s =
     (case rw_parser s of
        None \<Rightarrow> s
      | Some p \<Rightarrow>
          (case onChunk L p data of
             Inl _ \<Rightarrow> s\<lparr>rw_parser := None\<rparr>
           | Inr p' \<Rightarrow> s\<lparr>rw_parser := Some p',
               rw_timers := (if HttpResponse.complete (parser.res p') then rw_timers s @ [rw_now s + 1000] else rw_timers s)\<rparr>))"

definition on_session_end :: "js_error option \<Rightarrow> response_wait \<Rightarrow> response_wait" where
  "on_session_end err s =
     (let s1 = endedHttpRequest err s in
      s1\<lparr>rw_parser := (case rw_parser s1 of
           None \<Rightarrow> None
         | Some p \<Rightarrow> (case streamEnded p of Inl _ \<Rightarrow> Some p | Inr p' \<Rightarrow> Some p'))\<rparr>)"

definition wait_elapse :: "nat \<Rightarrow> response_wait \<Rightarrow> response_wait" where
  "wait_elapse d s =
     (let s1 = s\<lparr>rw_now := rw_now s + d, rw_timers := filter (\<lambda>due. rw_now s + d < due) (rw_timers s)\<rparr>
      in if \<exists>due \<in> set (rw_timers s). due \<le> rw_now s + d then endedHttpRequest None s1 else s1)"

subsection \<open>The tunnel and the wait together\<close>

record claim_flow =
  fl_tunnel :: rpc_tls_tunnel
  fl_wait :: response_wait

datatype flow_input = OnTls tls_tunnel_input | RequestMade | Elapsed nat

fun deliver :: "tls_pkg \<Rightarrow> tls_tunnel_effect \<Rightarrow> response_wait \<Rightarrow> response_wait" where
  "deliver L (AppData m) s = on_response_data L m s"
| "deliver L (Ended err) s = on_session_end err s"
| "deliver L _ s = s"

fun flow_step :: "tls_pkg \<Rightarrow> json_lib \<Rightarrow> flow_input \<Rightarrow> claim_flow \<Rightarrow> claim_flow \<times> tls_tunnel_effect list" where
  "flow_step L J (OnTls x) f =
     (let (t', es) = tls_tunnel_step L J x (fl_tunnel f)
      in (f\<lparr>fl_tunnel := t', fl_wait := fold (deliver L) es (fl_wait f)\<rparr>, es))"
| "flow_step L J RequestMade f =
     (if tr_handshake (fl_tunnel f) = Some (Inr ()) then f\<lparr>fl_wait := (fl_wait f)\<lparr>rw_requestMade := True\<rparr>\<rparr> else f, [])"
| "flow_step L J (Elapsed d) f = (f\<lparr>fl_wait := wait_elapse d (fl_wait f)\<rparr>, [])"

abbreviation flow_run :: "tls_pkg \<Rightarrow> json_lib \<Rightarrow> flow_input list \<Rightarrow> claim_flow \<Rightarrow> claim_flow \<times> tls_tunnel_effect list" where
  "flow_run L J \<equiv> run_steps (flow_step L J)"

definition new_flow :: "CreateTunnelRequest \<Rightarrow> claim_flow" where
  "new_flow q = \<lparr>fl_tunnel = new_tls_tunnel q, fl_wait = new_response_wait\<rparr>"

subsection \<open>An attempt and the attempts\<close>

text \<open>
  What an attempt gets from outside: \<open>at_open\<close> makes the TLS tunnel, \<open>at_session\<close> is the rest of the session
  given the tunnel after the write, up to \<open>tunnel.close\<close>, or the rejection of the wait, \<open>at_update\<close> is the
  optional callback that changes the parameters, \<open>at_rpc\<close> the call of \<open>claimTunnel\<close>.
\<close>

record 't attempt_env =
  at_tunnelId :: int
  at_open :: "CreateTunnelRequest \<Rightarrow> (jsstring \<times> jsstring list) list
    \<Rightarrow> js_error + TLSProtocolVersion option \<times> jsstring \<times> 't tls_tunnel"
  at_session :: "'t tls_tunnel \<Rightarrow> js_error + 't tls_tunnel"
  at_update :: "(CompleteTLSPacket Transcript \<Rightarrow> TLSProtocolVersion
    \<Rightarrow> js_error + (json \<Rightarrow> json) \<times> (HttpProviderSecretParameters \<Rightarrow> HttpProviderSecretParameters)) option"
  at_rpc :: "ClaimTunnelRequest \<Rightarrow> js_error + ClaimTunnelResponse"

definition updated_params :: "'t attempt_env \<Rightarrow> CompleteTLSPacket Transcript \<Rightarrow> TLSProtocolVersion option \<Rightarrow> json
    \<Rightarrow> HttpProviderSecretParameters \<Rightarrow> js_error + json \<times> HttpProviderSecretParameters" where
  "updated_params A tr v params secretParams =
     (case at_update A of
        None \<Rightarrow> Inr (params, secretParams)
      | Some f \<Rightarrow> bindR (f tr (case v of None \<Rightarrow> TLS1_2 | Some w \<Rightarrow> w)) (\<lambda>(p, sp). Inr (p params, sp secretParams)))"

definition createClaimAttempt ::
  "claim_env \<Rightarrow> 't tls_client \<Rightarrow> (nat \<Rightarrow> bytes \<Rightarrow> js_error + TOPRFProofParams)
   \<Rightarrow> (ZKProofToGenerate list \<Rightarrow> ZKProofToGenerate list) \<Rightarrow> claim_opts \<Rightarrow> json \<Rightarrow> 't attempt_env
   \<Rightarrow> js_error + ClaimTunnelResponse" where
  "createClaimAttempt E T oprf completion opts params A =
     (let ps = ce_params E params in
      bindR (getHostPort (env_url (ce_http E)) ps (Some (co_secretParams opts))) (\<lambda>hostPort.
      bindR (provider_geoLocation ps (Some (co_secretParams opts))) (\<lambda>geoLocation.
      let q = createTunnelReq (at_tunnelId A) hostPort geoLocation in
      bindR (at_open A q (additionalClientOptions ps)) (\<lambda>(v, cipherSuite, t).
      bindR (createRequest (ce_http E) (co_secretParams opts) ps) (\<lambda>r.
      bindR (at_session A (writeRequest T v ps r t)) (\<lambda>t'.
      bindR (updated_params A (tn_transcript t') v params (co_secretParams opts)) (\<lambda>(params', secretParams').
      bindR (makeClaimRequest E oprf completion (opts\<lparr>co_secretParams := secretParams'\<rparr>) q v cipherSuite params' t') (\<lambda>req.
      bindR (port_encodes hostPort) (\<lambda>_.
        at_rpc A req)))))))))"

definition createClaimOnAttestor ::
  "claim_env \<Rightarrow> 't tls_client \<Rightarrow> (nat \<Rightarrow> bytes \<Rightarrow> js_error + TOPRFProofParams)
   \<Rightarrow> (ZKProofToGenerate list \<Rightarrow> ZKProofToGenerate list) \<Rightarrow> claim_opts \<Rightarrow> json \<Rightarrow> (nat \<Rightarrow> 't attempt_env) \<Rightarrow> nat
   \<Rightarrow> js_error + ClaimTunnelResponse" where
  "createClaimOnAttestor E T oprf completion opts params A maxRetries =
     executeWithRetries (\<lambda>attempt. createClaimAttempt E T oprf completion opts params (A attempt)) shouldRetry maxRetries 0"

subsection \<open>The wait ends\<close>

text \<open>What any run keeps: a settled promise keeps its outcome, a timer fires when it is due.\<close>

definition wait_inv :: "response_wait \<Rightarrow> bool" where
  "wait_inv s \<longleftrightarrow> (\<forall>due \<in> set (rw_timers s). rw_now s < due)"

definition wait_progress :: "nat \<Rightarrow> response_wait \<Rightarrow> response_wait \<Rightarrow> bool" where
  "wait_progress d s s' \<longleftrightarrow> rw_now s' = rw_now s + d
     \<and> (rw_requestMade s \<longrightarrow> rw_requestMade s') \<and> (\<forall>r. rw_wait s = Some r \<longrightarrow> rw_wait s' = Some r)
     \<and> (\<forall>due \<in> set (rw_timers s). due \<in> set (rw_timers s') \<or> due \<le> rw_now s' \<and> (rw_requestMade s \<longrightarrow> rw_wait s' \<noteq> None))"

lemma wait_progress_refl: "wait_progress 0 s s"
  by (simp add: wait_progress_def)

lemma wait_progress_trans:
  assumes "wait_progress d s s1" and "wait_progress e s1 s2"
  shows "wait_progress (d + e) s s2"
  using assms unfolding wait_progress_def by (auto) (metis le_add1 le_trans option.exhaust)+

lemma ended_progress: "wait_progress 0 s (endedHttpRequest err s)" "wait_inv s \<Longrightarrow> wait_inv (endedHttpRequest err s)"
  by (auto simp: endedHttpRequest_def wait_progress_def wait_inv_def)

lemma data_progress:
  "wait_progress 0 s (on_response_data L m s)" "wait_inv s \<Longrightarrow> wait_inv (on_response_data L m s)"
  by (auto simp: on_response_data_def wait_progress_def wait_inv_def split: option.split sum.split)

lemma end_progress:
  "wait_progress 0 s (on_session_end err s)" "wait_inv s \<Longrightarrow> wait_inv (on_session_end err s)"
  by (auto simp: on_session_end_def endedHttpRequest_def wait_progress_def wait_inv_def Let_def)

lemma elapse_progress_wait:
  "wait_progress d s (wait_elapse d s)" "wait_inv (wait_elapse d s)"
  by (auto simp: wait_elapse_def endedHttpRequest_def wait_progress_def wait_inv_def Let_def not_less)

lemma deliver_progress:
  "wait_progress 0 s (deliver L e s)" "wait_inv s \<Longrightarrow> wait_inv (deliver L e s)"
  using data_progress end_progress wait_progress_refl by (cases e; simp)+

lemma deliver_all_progress: "wait_progress 0 s (fold (deliver L) es s)"
proof (induction es arbitrary: s)
  case (Cons e es)
  then show ?case using wait_progress_trans[OF deliver_progress(1)[of s L e] Cons.IH[of "deliver L e s"]] by simp
qed (simp add: wait_progress_refl)

lemma deliver_all_inv: "wait_inv s \<Longrightarrow> wait_inv (fold (deliver L) es s)"
  by (induction es arbitrary: s) (simp_all add: deliver_progress(2))

fun input_time :: "flow_input \<Rightarrow> nat" where
  "input_time (Elapsed d) = d"
| "input_time _ = 0"

lemma flow_step_progress:
  assumes "flow_step L J x f = (f', es)"
  shows "wait_progress (input_time x) (fl_wait f) (fl_wait f')" and "wait_inv (fl_wait f) \<Longrightarrow> wait_inv (fl_wait f')"
proof -
  have "wait_progress (input_time x) (fl_wait f) (fl_wait f') \<and> (wait_inv (fl_wait f) \<longrightarrow> wait_inv (fl_wait f'))"
  proof (cases x)
    case (OnTls y)
    then show ?thesis using assms deliver_all_progress deliver_all_inv by (auto split: prod.splits)
  next
    case RequestMade
    then show ?thesis using assms by (auto simp: wait_progress_def wait_inv_def split: if_splits)
  next
    case (Elapsed d)
    then show ?thesis using assms elapse_progress_wait by auto
  qed
  then show "wait_progress (input_time x) (fl_wait f) (fl_wait f')" and "wait_inv (fl_wait f) \<Longrightarrow> wait_inv (fl_wait f')" by auto
qed

interpretation flow: graded_machine "flow_step L J" "\<lambda>f. wait_inv (fl_wait f)" input_time
    "\<lambda>d f f'. wait_progress d (fl_wait f) (fl_wait f')" for L J
  by unfold_locales (auto intro: wait_progress_refl wait_progress_trans flow_step_progress)

text \<open>The session's end settles the wait of a request that has been made.\<close>

lemma end_settles:
  assumes "rw_requestMade s" and "Ended err \<in> set es"
  shows "rw_wait (fold (deliver L) es s) \<noteq> None"
proof -
  obtain es1 es2 where es: "es = es1 @ Ended err # es2" using assms(2) by (meson split_list)
  let ?s = "fold (deliver L) es1 s"
  have "rw_requestMade ?s" using assms(1) deliver_all_progress[of s L es1] by (simp add: wait_progress_def)
  then have "rw_wait (on_session_end err ?s) \<noteq> None" by (auto simp: on_session_end_def endedHttpRequest_def Let_def)
  then show ?thesis using deliver_all_progress[of "on_session_end err ?s" L es2] es by (auto simp: wait_progress_def)
qed

definition time_of :: "flow_input list \<Rightarrow> nat" where
  "time_of xs = sum_list (map input_time xs)"

lemma flow_run_progress:
  assumes "flow_run L J xs f = (f', es)" and "wait_inv (fl_wait f)"
  shows "wait_progress (time_of xs) (fl_wait f) (fl_wait f')" and "wait_inv (fl_wait f')"
  using flow.run_prog[OF assms(2,1)] flow.run_inv[OF assms(2,1)] by (simp_all add: time_of_def)

lemma new_flow_inv: "wait_inv (fl_wait (new_flow q))"
  by (simp add: new_flow_def new_response_wait_def wait_inv_def)

text \<open>The state after some input, with what follows.\<close>

lemma flow_run_at:
  assumes "flow_run L J (xs @ x # ys) (new_flow q) = (f', es)"
  obtains f f1 es1 es2 where "flow_run L J xs (new_flow q) = (f, es1)" "flow_step L J x f = (f1, es2)"
    "wait_progress (time_of ys) (fl_wait f1) (fl_wait f')" "wait_inv (fl_wait f')"
proof -
  obtain f es1 where f: "flow_run L J xs (new_flow q) = (f, es1)" by fastforce
  obtain f1 es2 where f1: "flow_step L J x f = (f1, es2)" by fastforce
  obtain es3 where r: "flow_run L J ys f1 = (f', es3)" using assms f f1 by (auto simp: run_steps_append split: prod.splits)
  have "wait_inv (fl_wait f1)" using flow_run_progress(2)[OF f new_flow_inv] flow_step_progress(2)[OF f1] by simp
  then show ?thesis using that f f1 flow_run_progress[OF r] by blast
qed

text \<open>C17: Waiting for the response ends. Once the request has been made, the end of the TLS session settles the
  wait, and so does a complete response, at the latest a second after the message that completes it;
  whatever else the tunnel does, and whatever it did before.\<close>

theorem response_wait_ends:
  assumes "flow_run L J (xs @ OnTls x # ys) (new_flow q) = (f', es)"
    and "flow_run L J xs (new_flow q) = (f, es1)" and "rw_requestMade (fl_wait f)"
    and "flow_step L J (OnTls x) f = (f1, es2)"
    and "(\<exists>err. Ended err \<in> set es2)
      \<or> (\<exists>p m. x = ApplicationData m \<and> rw_parser (fl_wait f1) = Some p \<and> HttpResponse.complete (parser.res p) \<and> 1000 \<le> time_of ys
         \<and> rw_parser (fl_wait f) \<noteq> None)"
  shows "rw_wait (fl_wait f') \<noteq> None"
proof -
  have prog: "wait_progress (time_of ys) (fl_wait f1) (fl_wait f')" and inv: "wait_inv (fl_wait f')"
    using flow_run_at[OF assms(1)] assms(2,4) by (metis Pair_inject)+
  have kept: "rw_requestMade (fl_wait f1)" using flow_step_progress(1)[OF assms(4)] assms(3) by (simp add: wait_progress_def)
  from assms(5) show ?thesis
  proof (elim disjE exE conjE)
    fix err assume "Ended err \<in> set es2"
    then have "rw_wait (fl_wait f1) \<noteq> None"
      using end_settles[OF assms(3)] assms(4) by (auto split: prod.splits)
    then show ?thesis using prog by (auto simp: wait_progress_def)
  next
    fix p m
    assume x: "x = ApplicationData m" and p: "rw_parser (fl_wait f1) = Some p" "HttpResponse.complete (parser.res p)"
      and t: "1000 \<le> time_of ys" "rw_parser (fl_wait f) \<noteq> None"
    have "fl_wait f1 = on_response_data L m (fl_wait f)" using assms(4) x by auto
    then have "rw_now (fl_wait f1) + 1000 \<in> set (rw_timers (fl_wait f1))"
      using p t(2) by (auto simp: on_response_data_def split: option.splits sum.splits)
    moreover have "rw_now (fl_wait f1) + 1000 \<le> rw_now (fl_wait f')" using prog t(1) by (simp add: wait_progress_def)
    moreover from this have "rw_now (fl_wait f1) + 1000 \<notin> set (rw_timers (fl_wait f'))"
      using inv by (auto simp: wait_inv_def)
    ultimately show ?thesis using prog kept unfolding wait_progress_def by blast
  qed
qed

subsection \<open>An end that is lost\<close>

text \<open>What a flow keeps once its tunnel has reported its end and nothing waits for it.\<close>

definition end_was_lost :: "claim_flow \<Rightarrow> bool" where
  "end_was_lost f \<longleftrightarrow> \<not> tr_onClose (fl_tunnel f) \<and> rw_timers (fl_wait f) = [] \<and> rw_wait (fl_wait f) = None"

definition no_response_data :: "flow_input \<Rightarrow> bool" where
  "no_response_data x \<longleftrightarrow> (\<forall>m. x \<noteq> OnTls (ApplicationData m))"

text \<open>What a step of the tunnel reports: application data as it comes, its end once.\<close>

lemma on_tcp_reports:
  assumes "on_tcp g t = (t', es)"
  shows "AppData m \<notin> set es \<and> Ended err \<notin> set es \<and> tr_onClose t' = tr_onClose t \<and> tr_handshake t' = tr_handshake t"
proof -
  have "tcp_effect e \<noteq> AppData m \<and> tcp_effect e \<noteq> Ended err" for e by (cases e) simp_all
  then show ?thesis using assms by (auto simp: on_tcp_def split: option.splits prod.splits) metis+
qed

lemma tunnel_reports:
  assumes "tls_tunnel_step L J x t = (t', es)"
  shows "(\<forall>m. AppData m \<in> set es \<longrightarrow> x = ApplicationData m)
    \<and> (\<forall>err. Ended err \<in> set es \<longrightarrow> tr_onClose t \<and> \<not> tr_onClose t') \<and> (tr_onClose t' \<longrightarrow> tr_onClose t)"
proof (cases x)
  case (WritePacket header content ctx)
  then show ?thesis using assms on_tcp_reports
    by (auto simp: write_packet_def Let_def split: option.splits)
next
  case (TunnelEvent ev)
  then show ?thesis using assms on_tcp_reports by auto
next
  case (CloseTls err)
  then show ?thesis using assms on_tcp_reports
    by (auto simp: close_tls_tunnel_def onConnectionClose_def split: prod.splits if_splits)
qed (use assms in \<open>auto simp: read_packet_def onConnectionClose_def\<close>)

lemma deliver_nothing:
  assumes "\<forall>m. AppData m \<notin> set es" and "\<forall>err. Ended err \<notin> set es"
  shows "fold (deliver L) es s = s"
  using assms
proof (induction es)
  case (Cons e es)
  then have "deliver L e s = s" by (cases e) auto
  then show ?case using Cons by auto
qed simp

lemma end_was_lost_step:
  assumes "no_response_data x" and "end_was_lost f" and "flow_step L J x f = (f', es)"
  shows "end_was_lost f'"
proof (cases x)
  case (OnTls y)
  obtain t' where t: "tls_tunnel_step L J y (fl_tunnel f) = (t', es)" and f': "f' = f\<lparr>fl_tunnel := t', fl_wait := fold (deliver L) es (fl_wait f)\<rparr>"
    using assms(3) OnTls by (auto split: prod.splits)
  have "\<forall>m. AppData m \<notin> set es" "\<forall>err. Ended err \<notin> set es" "\<not> tr_onClose t'"
    using tunnel_reports[OF t] assms(1,2) OnTls by (auto simp: no_response_data_def end_was_lost_def)
  then show ?thesis using assms(2) f' deliver_nothing by (simp add: end_was_lost_def)
qed (use assms in \<open>auto simp: end_was_lost_def wait_elapse_def split: if_splits\<close>)

interpretation lost_end: assuming_machine "flow_step L J" no_response_data end_was_lost for L J
  by unfold_locales (rule end_was_lost_step)

text \<open>Before the request and without response data nothing settles the wait or starts a timer.\<close>

definition before_request :: "claim_flow \<Rightarrow> bool" where
  "before_request f \<longleftrightarrow> rw_requestMade (fl_wait f) \<or> rw_timers (fl_wait f) = [] \<and> rw_wait (fl_wait f) = None"

lemma deliver_before_request:
  assumes "\<forall>m. AppData m \<notin> set es" and "\<not> rw_requestMade s"
  shows "rw_requestMade (fold (deliver L) es s) = False \<and> rw_timers (fold (deliver L) es s) = rw_timers s
    \<and> rw_wait (fold (deliver L) es s) = rw_wait s"
  using assms
proof (induction es arbitrary: s)
  case (Cons e es)
  then have "\<not> rw_requestMade (deliver L e s) \<and> rw_timers (deliver L e s) = rw_timers s \<and> rw_wait (deliver L e s) = rw_wait s"
    by (cases e) (auto simp: on_session_end_def endedHttpRequest_def)
  then show ?case using Cons by simp
qed simp

lemma before_request_step:
  assumes "no_response_data x" and "before_request f" and "flow_step L J x f = (f', es)"
  shows "before_request f'"
proof (cases x)
  case (OnTls y)
  obtain t' where t: "tls_tunnel_step L J y (fl_tunnel f) = (t', es)" and f': "f' = f\<lparr>fl_tunnel := t', fl_wait := fold (deliver L) es (fl_wait f)\<rparr>"
    using assms(3) OnTls by (auto split: prod.splits)
  have "\<forall>m. AppData m \<notin> set es" using tunnel_reports[OF t] assms(1) OnTls by (auto simp: no_response_data_def)
  then show ?thesis using assms(2) f' deliver_before_request[of es "fl_wait f" L] deliver_all_progress[of "fl_wait f" L es]
    by (cases "rw_requestMade (fl_wait f)") (auto simp: before_request_def wait_progress_def)
qed (use assms in \<open>auto simp: before_request_def wait_elapse_def endedHttpRequest_def Let_def split: if_splits\<close>)

interpretation early: assuming_machine "flow_step L J" no_response_data before_request for L J
  by unfold_locales (rule before_request_step)

text \<open>The tunnel's flag says whether it has reported its end.\<close>

lemma ended_run:
  "flow_run L J xs f = (f', es) \<Longrightarrow> (tr_onClose (fl_tunnel f') \<longrightarrow> tr_onClose (fl_tunnel f))
     \<and> (Ended err \<in> set es \<longrightarrow> \<not> tr_onClose (fl_tunnel f'))"
proof (induction xs arbitrary: f es)
  case (Cons x xs)
  obtain f1 es1 es2 where f1: "flow_step L J x f = (f1, es1)" "flow_run L J xs f1 = (f', es2)" "es = es1 @ es2"
    using Cons.prems by (auto split: prod.splits)
  have "(tr_onClose (fl_tunnel f1) \<longrightarrow> tr_onClose (fl_tunnel f)) \<and> (Ended err \<in> set es1 \<longrightarrow> \<not> tr_onClose (fl_tunnel f1))"
    using f1(1) tunnel_reports[of L J _ "fl_tunnel f" "fl_tunnel f1" es1]
    by (cases x) (auto split: prod.splits if_splits)
  then show ?case using Cons.IH[OF f1(2)] f1(3) by auto
qed simp

text \<open>C19: An end of the session that comes before the request has been made is lost: \<open>endedHttpRequest\<close> is not
  assigned yet, and the tunnel reports its end once. Without response data the wait of the request made
  afterwards never ends, however long it lasts.\<close>

theorem early_session_end_lost:
  assumes "flow_run L J xs (new_flow q) = (f, es)" and "\<not> rw_requestMade (fl_wait f)" and "Ended err \<in> set es"
    and "flow_run L J ys f = (f', es')" and "list_all no_response_data (xs @ ys)"
  shows "rw_wait (fl_wait f') = None"
proof -
  have "before_request (new_flow q)" by (simp add: before_request_def new_flow_def new_response_wait_def)
  then have "before_request f" using early.allowed_run_inv[OF _ _ assms(1)] assms(5) by simp
  moreover have "\<not> tr_onClose (fl_tunnel f)" using ended_run[OF assms(1)] assms(3) by blast
  ultimately have "end_was_lost f" using assms(2) by (simp add: before_request_def end_was_lost_def)
  then have "end_was_lost f'" using lost_end.allowed_run_inv[OF _ _ assms(4)] assms(5) by simp
  then show ?thesis by (simp add: end_was_lost_def)
qed

subsection \<open>Attempts\<close>

text \<open>A response that ended early is worth another attempt.\<close>

lemma stream_error_retried: "streamEnded p = Inl e \<Longrightarrow> shouldRetry e"
  by (auto simp: streamEnded_def msg_includes_def split: if_splits) (code_simp)+

lemma attempt_parts:
  fixes A :: "'t attempt_env" and rsp :: ClaimTunnelResponse
  assumes "createClaimAttempt E T oprf completion opts params A = Inr rsp"
  obtains hostPort geo sp v cs params' req and t' :: "'t tls_tunnel" where
    "getHostPort (env_url (ce_http E)) (ce_params E params) (Some (co_secretParams opts)) = Inr hostPort"
    "snd (split_hostPort hostPort) \<noteq> NaN"
    "makeClaimRequest E oprf completion (opts\<lparr>co_secretParams := sp\<rparr>) (createTunnelReq (at_tunnelId A) hostPort geo) v cs params' t'
       = Inr req"
    "at_rpc A req = Inr rsp"
  using assms that by (auto simp: createClaimAttempt_def port_encodes_def Let_def bindR_Inr_iff split: if_splits)

text \<open>C7: What \<open>createClaimOnAttestor\<close> returns is the attestor's answer to a claim request made in one attempt,
  before which every other failed with an error that is worth another attempt. The request is for the host
  of the parameters' URL with a port that is a number, and its signature passes the attestor's check for
  the owner it names.\<close>

theorem claim_answers_signed_request:
  fixes A :: "nat \<Rightarrow> 't attempt_env"
  assumes "createClaimOnAttestor E T oprf completion opts params A maxRetries = Inr rsp"
    and "eth_correct (ce_eth E) (co_ownerPrivateKey opts)"
  shows "\<exists>k req hostPort d sig. k < maxRetries
    \<and> retried_before (\<lambda>j. createClaimAttempt E T oprf completion opts params (A j)) shouldRetry 0 k
    \<and> at_rpc (A k) req = Inr rsp
    \<and> getHostPort (env_url (ce_http E)) (ce_params E params) (Some (co_secretParams opts)) = Inr hostPort
    \<and> (\<exists>p. snd (split_hostPort hostPort) = Num p \<and> map_option ct_host (cq_request req) = Some (fst (split_hostPort hostPort))
        \<and> map_option ct_port (cq_request req) = Some p)
    \<and> cq_data req = Some d \<and> cq_requestSignature req = Some sig
    \<and> verify_signature (ce_eth E) (encode_ClaimTunnelRequest (ce_proto E) (req\<lparr>cq_requestSignature := None\<rparr>)) sig (cd_owner d)
      = Inr True"
proof -
  obtain k where k: "k < maxRetries" "createClaimAttempt E T oprf completion opts params (A k) = Inr rsp"
    "retried_before (\<lambda>j. createClaimAttempt E T oprf completion opts params (A j)) shouldRetry 0 k"
    using assms(1) by (auto simp: createClaimOnAttestor_def executeWithRetries_Inr)
  obtain hostPort geo sp v cs params' req and t' :: "'t tls_tunnel" where host: "getHostPort (env_url (ce_http E)) (ce_params E params)
      (Some (co_secretParams opts)) = Inr hostPort" and port: "snd (split_hostPort hostPort) \<noteq> NaN"
    and req: "makeClaimRequest E oprf completion (opts\<lparr>co_secretParams := sp\<rparr>) (createTunnelReq (at_tunnelId (A k)) hostPort geo) v cs
      params' t' = Inr req" and rpc: "at_rpc (A k) req = Inr rsp"
    by (rule attempt_parts[OF k(2)])
  obtain p where p: "snd (split_hostPort hostPort) = Num p" using port by (cases "snd (split_hostPort hostPort)") auto
  have "cq_request req = Some (createTunnelReq (at_tunnelId (A k)) hostPort geo)"
    by (rule makeClaimRequest_parts[OF req]) (simp add: claim_request_of_def)
  moreover obtain d sig where "cq_data req = Some d" "cq_requestSignature req = Some sig"
    "verify_signature (ce_eth E) (encode_ClaimTunnelRequest (ce_proto E) (req\<lparr>cq_requestSignature := None\<rparr>)) sig (cd_owner d) = Inr True"
    using claim_request_signature_accepted[OF req] assms(2) by auto
  ultimately show ?thesis using k host rpc p by (intro exI[of _ k] exI[of _ req] exI[of _ hostPort] exI[of _ d] exI[of _ sig])
    (simp add: createTunnelReq_def)
qed

text \<open>
  A client of the pool that is still open is used whatever authentication the caller gives: the request
  goes out under the authentication of the claim that made the client.
\<close>

theorem pool_ignores_authentication:
  assumes "pool url = Some old" and "\<not> isClosed old"
  shows "connect_client (ClientUrl url authRequest) fresh connectMsgs pool = connect_client (ClientUrl url None) fresh connectMsgs pool
    \<and> fst (connect_client (ClientUrl url authRequest) fresh connectMsgs pool) = old"
  using assms by (simp add: connect_client_def getAttestorClientFromPool_def)

subsection \<open>Examples\<close>

definition example_json :: json_lib where
  "example_json = \<lparr>JSON_parse = (\<lambda>_. None), JSON_stringify = (\<lambda>_. [])\<rparr>"

theorem response_wait_ends_witness:
  "\<exists>f' es. flow_run tls_ref example_json [OnTls HandshakeDone, RequestMade, OnTls (TlsEnded None), Elapsed 5] (new_flow ref_tunnel_request)
      = (f', es) \<and> rw_wait (fl_wait f') \<noteq> None"
proof -
  obtain f' es where r: "flow_run tls_ref example_json ([OnTls HandshakeDone, RequestMade] @ OnTls (TlsEnded None) # [Elapsed 5])
      (new_flow ref_tunnel_request) = (f', es)" by fastforce
  obtain f es1 where f: "flow_run tls_ref example_json [OnTls HandshakeDone, RequestMade] (new_flow ref_tunnel_request) = (f, es1)"
    "rw_requestMade (fl_wait f)" "tr_onClose (fl_tunnel f)" by (simp add: new_flow_def new_tls_tunnel_def)
  obtain f1 es2 where f1: "flow_step tls_ref example_json (OnTls (TlsEnded None)) f = (f1, es2)" by fastforce
  then have "Ended None \<in> set es2" using f(3) by (auto simp: onConnectionClose_def)
  then show ?thesis using response_wait_ends[OF r f(1,2) f1] r by auto
qed

theorem early_session_end_lost_witness:
  "\<exists>f es f' es'. flow_run tls_ref example_json [OnTls HandshakeDone, OnTls (TlsEnded None)] (new_flow ref_tunnel_request) = (f, es)
     \<and> flow_run tls_ref example_json [RequestMade, Elapsed 3600000] f = (f', es')
     \<and> rw_requestMade (fl_wait f') \<and> rw_wait (fl_wait f') = None"
proof -
  let ?xs = "[OnTls HandshakeDone, OnTls (TlsEnded None)]" and ?ys = "[RequestMade, Elapsed 3600000]"
  obtain f es where f: "flow_run tls_ref example_json ?xs (new_flow ref_tunnel_request) = (f, es)" "\<not> rw_requestMade (fl_wait f)"
    "Ended None \<in> set es" "tr_handshake (fl_tunnel f) = Some (Inr ())" "rw_timers (fl_wait f) = []"
    by (simp add: new_flow_def new_tls_tunnel_def onConnectionClose_def on_session_end_def endedHttpRequest_def new_response_wait_def)
  obtain f' es' where f': "flow_run tls_ref example_json ?ys f = (f', es')" by fastforce
  then have "rw_requestMade (fl_wait f')" using f(4,5) by (auto simp: wait_elapse_def)
  moreover have "rw_wait (fl_wait f') = None"
    by (rule early_session_end_lost[OF f(1-3) f']) (simp add: no_response_data_def)
  ultimately show ?thesis using f(1) f' by blast
qed

definition ref_attempt :: "unit attempt_env" where
  "ref_attempt = \<lparr>at_tunnelId = 1, at_open = (\<lambda>_ _. Inr (Some TLS1_3, [], ref_one_key)), at_session = (\<lambda>_. Inr ref_one_key),
     at_update = None, at_rpc = (\<lambda>req. Inr \<lparr>cs_request = Some req, cs_claim = None, cs_error = None, cs_signatures = None\<rparr>)\<rparr>"

definition example_client :: "unit tls_client" where
  "example_client = \<lparr>tls_write = (\<lambda>t d. (t, [], None)), tls_updateTrafficKeys = (\<lambda>t. (t, [], None))\<rparr>"

lemma ref_host_port:
  "getHostPort (env_url (ce_http ref_create_env)) (ce_params ref_create_env JNull) sp = Inr (js ''h'')"
  "provider_geoLocation (ce_params ref_create_env JNull) sp = Inr None"
proof -
  show "getHostPort (env_url (ce_http ref_create_env)) (ce_params ref_create_env JNull) sp = Inr (js ''h'')"
    by (simp add: getHostPort_def getURL_def ref_create_env_def plain_params_def example_params_def template_names.simps template_at_None
      example_url_def new_URL_def ref_claim_env_def example_env_def js_def)
  show "provider_geoLocation (ce_params ref_create_env JNull) sp = Inr None"
    by (simp add: provider_geoLocation_def getGeoLocation_def ref_create_env_def plain_params_def example_params_def)
qed

lemma ref_host_split: "split_hostPort (js ''h'') = (js ''h'', Num 443)"
  by (simp add: split_hostPort_def js_split.simps js_def is_prefix_def DEFAULT_HTTPS_PORT_def)

lemma ref_attempt_answers:
  "\<exists>req. createClaimAttempt ref_create_env example_client (\<lambda>_ _. Inl (PlainError [])) id ref_claim_opts JNull ref_attempt
      = Inr \<lparr>cs_request = Some req, cs_claim = None, cs_error = None, cs_signatures = None\<rparr>"
proof -
  obtain req where req: "makeClaimRequest ref_create_env (\<lambda>_ _. Inl (PlainError [])) id ref_claim_opts ref_tunnel_request (Some TLS1_3) [] JNull
      ref_one_key = Inr req" using ref_one_key_made by blast
  obtain r where r: "createRequest (ce_http ref_create_env) (co_secretParams ref_claim_opts) (ce_params ref_create_env JNull) = Inr r"
    by (simp add: createRequest_def ref_create_env_def ref_claim_env_def ref_claim_opts_def example_secret_def plain_substitution
      example_env_def new_URL_def Let_def js_def)
  have "createTunnelReq 1 (js ''h'') None = ref_tunnel_request"
    by (simp add: createTunnelReq_def ref_host_split ref_tunnel_request_def)
  then show ?thesis using req r ref_host_split
    by (simp add: createClaimAttempt_def ref_host_port ref_attempt_def updated_params_def port_encodes_def Let_def)
qed

theorem claim_answers_signed_request_witness:
  "\<exists>rsp req d sig. createClaimOnAttestor ref_create_env example_client (\<lambda>_ _. Inl (PlainError [])) id ref_claim_opts JNull
      (\<lambda>_. ref_attempt) 3 = Inr rsp \<and> at_rpc ref_attempt req = Inr rsp \<and> cq_data req = Some d \<and> cq_requestSignature req = Some sig
    \<and> verify_signature eth_ref (encode_ClaimTunnelRequest (ce_proto ref_create_env) (req\<lparr>cq_requestSignature := None\<rparr>)) sig (cd_owner d)
      = Inr True"
proof -
  obtain rsp where rsp: "createClaimOnAttestor ref_create_env example_client (\<lambda>_ _. Inl (PlainError [])) id ref_claim_opts JNull
      (\<lambda>_. ref_attempt) 3 = Inr rsp"
    using ref_attempt_answers by (auto simp: createClaimOnAttestor_def executeWithRetries.simps)
  have "eth_correct (ce_eth ref_create_env) (co_ownerPrivateKey ref_claim_opts)" "ce_eth ref_create_env = eth_ref"
    using eth_ref_correct by (simp_all add: ref_create_env_def ref_claim_env_def ref_claim_opts_def)
  then show ?thesis using claim_answers_signed_request[OF rsp] rsp by auto
qed

end
