(* ===== verification/Base64.thy ===== *)
theory Base64
  imports Prelude
begin

text \<open>
  Base64, as \<open>Buffer.from(s, 'base64')\<close> of Node.js reads it and \<open>base64.encode\<close> of \<open>ethers\<close> documents that it
  writes it. The server reads the initial messages of a connection with it (\<open>src/server/utils/generics.ts\<close>),
  which the client has put into the URL (\<open>src/client/utils/client-socket.ts\<close>).

  The reader takes the letters of both alphabets, skips other characters and stops at the padding.
\<close>

definition b64_digit :: "nat \<Rightarrow> 16 word" where
  "b64_digit n =
     (if n < 26 then of_nat (65 + n)
      else if n < 52 then of_nat (71 + n)
      else if n < 62 then of_nat (n - 4)
      else if n = 62 then 43 else 47)"

definition b64_value :: "16 word \<Rightarrow> nat option" where
  "b64_value c =
     (if 65 \<le> c \<and> c \<le> 90 then Some (unat c - 65)
      else if 97 \<le> c \<and> c \<le> 122 then Some (unat c - 71)
      else if 48 \<le> c \<and> c \<le> 57 then Some (unat c + 4)
      else if c = 43 \<or> c = 45 then Some 62
      else if c = 47 \<or> c = 95 then Some 63
      else None)"

fun b64_encode :: "bytes \<Rightarrow> jsstring" where
  "b64_encode (a # b # c # r) =
     b64_digit (unat a div 4) # b64_digit (unat a mod 4 * 16 + unat b div 16)
       # b64_digit (unat b mod 16 * 4 + unat c div 64) # b64_digit (unat c mod 64) # b64_encode r"
| "b64_encode [a, b] = [b64_digit (unat a div 4), b64_digit (unat a mod 4 * 16 + unat b div 16), b64_digit (unat b mod 16 * 4), 61]"
| "b64_encode [a] = [b64_digit (unat a div 4), b64_digit (unat a mod 4 * 16), 61, 61]"
| "b64_encode [] = []"

fun b64_bytes :: "nat list \<Rightarrow> bytes" where
  "b64_bytes (w # x # y # z # r) =
     of_nat (w * 4 + x div 16) # of_nat (x mod 16 * 16 + y div 4) # of_nat (y mod 4 * 64 + z) # b64_bytes r"
| "b64_bytes [w, x, y] = [of_nat (w * 4 + x div 16), of_nat (x mod 16 * 16 + y div 4)]"
| "b64_bytes [w, x] = [of_nat (w * 4 + x div 16)]"
| "b64_bytes _ = []"

definition b64_values :: "jsstring \<Rightarrow> nat list" where
  "b64_values s = List.map_filter b64_value (takeWhile (\<lambda>c. c \<noteq> 61) s)"

definition b64_decode :: "jsstring \<Rightarrow> bytes" where
  "b64_decode s = b64_bytes (b64_values s)"

subsection \<open>Reading what was written\<close>

lemma b64_letter:
  assumes "n < 64"
  shows "b64_value (b64_digit n) = Some n" and "b64_digit n \<noteq> 61"
proof -
  have "\<forall>n \<in> set [0..<64]. b64_value (b64_digit n) = Some n \<and> b64_digit n \<noteq> 61" by code_simp
  then show "b64_value (b64_digit n) = Some n" and "b64_digit n \<noteq> 61" using assms by auto
qed

lemma b64_values_simps:
  "n < 64 \<Longrightarrow> b64_values (b64_digit n # s) = n # b64_values s" "b64_values (61 # s) = []" "b64_values [] = []"
  using b64_letter[of n] by (simp_all add: b64_values_def List.map_filter_simps)

lemma byte_bounds: "unat (a :: 8 word) < 256"
  using unsigned_less[of a] by simp

lemma b64_sextets:
  fixes a b c :: "8 word"
  shows "unat a div 4 < 64" "unat a mod 64 < 64" "unat a mod 4 * 16 + unat b div 16 < 64" "unat b mod 16 * 4 + unat c div 64 < 64"
    "unat a mod 4 * 16 < 64" "unat b mod 16 * 4 < 64"
proof -
  have "unat a div 4 < 64" "unat b div 16 < 16" "unat c div 64 < 4"
    using byte_bounds[of a] byte_bounds[of b] byte_bounds[of c] by (simp_all add: less_mult_imp_div_less)
  moreover have "unat a mod 4 < 4" "unat b mod 16 < 16" by simp_all
  ultimately show "unat a div 4 < 64" "unat a mod 64 < 64" "unat a mod 4 * 16 + unat b div 16 < 64"
    "unat b mod 16 * 4 + unat c div 64 < 64" "unat a mod 4 * 16 < 64" "unat b mod 16 * 4 < 64" by simp_all
qed

lemma b64_joined:
  fixes a b c :: "8 word"
  shows "unat a div 4 * 4 + (unat a mod 4 * 16 + unat b div 16) div 16 = unat a"
    "(unat a mod 4 * 16 + unat b div 16) mod 16 * 16 + (unat b mod 16 * 4 + unat c div 64) div 4 = unat b"
    "(unat b mod 16 * 4 + unat c div 64) mod 4 * 64 + unat c mod 64 = unat c"
    "unat a div 4 * 4 + unat a mod 4 * 16 div 16 = unat a"
    "(unat a mod 4 * 16 + unat b div 16) mod 16 * 16 + unat b mod 16 * 4 div 4 = unat b"
proof -
  have "unat b div 16 < 16" "unat c div 64 < 4"
    using byte_bounds[of b] byte_bounds[of c] by (simp_all add: less_mult_imp_div_less)
  then have "(unat a mod 4 * 16 + unat b div 16) div 16 = unat a mod 4" "(unat a mod 4 * 16 + unat b div 16) mod 16 = unat b div 16"
    "(unat b mod 16 * 4 + unat c div 64) div 4 = unat b mod 16" "(unat b mod 16 * 4 + unat c div 64) mod 4 = unat c div 64"
    by simp_all
  then show "unat a div 4 * 4 + (unat a mod 4 * 16 + unat b div 16) div 16 = unat a"
    "(unat a mod 4 * 16 + unat b div 16) mod 16 * 16 + (unat b mod 16 * 4 + unat c div 64) div 4 = unat b"
    "(unat b mod 16 * 4 + unat c div 64) mod 4 * 64 + unat c mod 64 = unat c"
    "unat a div 4 * 4 + unat a mod 4 * 16 div 16 = unat a"
    "(unat a mod 4 * 16 + unat b div 16) mod 16 * 16 + unat b mod 16 * 4 div 4 = unat b"
    by simp_all
qed

lemma b64_bytes_joined:
  "b64_bytes (unat a div 4 # (unat a mod 4 * 16 + unat b div 16) # (unat b mod 16 * 4 + unat c div 64) # unat c mod 64 # r)
     = a # b # c # b64_bytes r"
  "b64_bytes [unat a div 4, unat a mod 4 * 16 + unat b div 16, unat b mod 16 * 4] = [a, b]"
  "b64_bytes [unat a div 4, unat a mod 4 * 16] = [a]"
  for a b c :: "8 word"
  unfolding b64_bytes.simps b64_joined by simp_all

lemma b64_decode_encode: "b64_decode (b64_encode bs) = bs"
  by (induction bs rule: b64_encode.induct)
    (simp_all add: b64_decode_def b64_values_simps b64_sextets b64_bytes_joined del: b64_bytes.simps of_nat_add of_nat_mult,
     simp)

end
