(* ===== verification/Server_Socket.thy ===== *)
theory Server_Socket
  imports Session Base64 Wire_Link Client_Socket Client_Tunnels Keep_Alive
begin

text \<open>
  The socket of a client at the attestor server: accepting the connection with the initial messages of its
  URL (\<open>acceptConnection\<close> of \<open>src/server/socket.ts\<close>, \<open>getInitialMessagesFromQuery\<close> of
  \<open>src/server/utils/generics.ts\<close>, the upgrade in \<open>src/server/create-server.ts\<close>), and the packets that arrive
  (\<open>wsMessageHandler\<close> of \<open>src/client/utils/message-handler.ts\<close>, as the server runs it).

  The messages of a packet are handled one after the other, and \<open>handleMessage\<close> of a request is awaited until
  the request is answered: the rest of the packet waits for it (\<open>so_inflight\<close>) and is dropped if the
  answer is an error. Only \<open>createTunnel\<close> awaits anything outside, so only its packets are in flight. The
  session below is that of the theory \<open>Session\<close>; what it adds is this order.
\<close>

record connection_env =
  cn_server :: server_env
  cn_wire :: wire_lib
  cn_query :: "jsstring \<Rightarrow> js_error + jsstring option"
  cn_pathname :: "jsstring \<Rightarrow> js_error + jsstring"

text \<open>The URL package: \<open>cn_query\<close> reads the parameter \<open>messages\<close>, \<open>cn_pathname\<close> the path.\<close>

definition WS_PATHNAME :: jsstring where
  "WS_PATHNAME = js ''/ws''"

definition handleUpgrade :: "connection_env \<Rightarrow> jsstring \<Rightarrow> js_error + bool" where
  "handleUpgrade N url = bindR (cn_pathname N url) (\<lambda>pathname. Inr (pathname = WS_PATHNAME))"

definition getInitialMessagesFromQuery :: "connection_env \<Rightarrow> jsstring \<Rightarrow> js_error + RPCMessage list" where
  "getInitialMessagesFromQuery N url =
     bindR (cn_query N url) (\<lambda>messagesB64.
       case messagesB64 of
         None \<Rightarrow> Inr []
       | Some s \<Rightarrow> if s = [] then Inr [] else decode_whole (RPCMessages_decode (cn_wire N)) (b64_decode s))"

subsection \<open>One message, one packet\<close>

text \<open>What the promise of \<open>handleMessage\<close> does.\<close>

datatype message_end = Resolved | Rejected js_error | Awaiting int

definition request_end :: "session \<Rightarrow> js_error + rpc_value \<Rightarrow> message_end" where
  "request_end s rsp =
     (if \<not> isOpen s then Rejected (PlainError ''connection closed'')
      else (case rsp of Inl e \<Rightarrow> Rejected (AttestorErr (fromError e)) | Inr _ \<Rightarrow> Resolved))"

definition receive_one :: "server_env \<Rightarrow> int \<Rightarrow> RPCMessage \<Rightarrow> session \<Rightarrow> session \<times> session_effect list \<times> message_end" where
  "receive_one V now m s =
     (case handleMessage (sv_json V) (isInitialised s) m of
        Inl e \<Rightarrow> (s, [], Rejected e)
      | Inr (Dispatch (RpcRequestEvent i type data)) \<Rightarrow>
          (case rpc_handler V now i type data s of
             (s', es, None) \<Rightarrow> (s', es, Awaiting i)
           | (s', es, Some rsp) \<Rightarrow> (s', es @ respond V s' i type rsp, request_end s' rsp))
      | Inr (Dispatch ev) \<Rightarrow> (case handle_event V now ev s of (s', es) \<Rightarrow> (s', es, Resolved))
      | Inr (Refuse i) \<Rightarrow> (s, send s (refusal (sv_json V) i), Resolved)
      | Inr Unhandled \<Rightarrow> (s, [], Resolved))"

text \<open>The messages in order, up to one that is awaited or throws; with it the messages after it.\<close>

fun receive_packet :: "server_env \<Rightarrow> int \<Rightarrow> RPCMessage list \<Rightarrow> session
    \<Rightarrow> session \<times> session_effect list \<times> message_end \<times> RPCMessage list" where
  "receive_packet V now [] s = (s, [], Resolved, [])"
| "receive_packet V now (m # ms) s =
     (case receive_one V now m s of
        (s1, es1, Resolved) \<Rightarrow> (case receive_packet V now ms s1 of (s2, es2, e, rest) \<Rightarrow> (s2, es1 @ es2, e, rest))
      | (s1, es1, e) \<Rightarrow> (s1, es1, e, ms))"

subsection \<open>The socket\<close>

text \<open>
  The packets in flight with the request each waits for, what is left of it and whether it is the initial
  one; \<open>so_accepted\<close> is the outcome of \<open>acceptConnection\<close>, once there is one.
\<close>

record server_socket =
  so_session :: session
  so_inflight :: "(int \<times> RPCMessage list \<times> bool) list"
  so_accepted :: "bool option"

text \<open>\<open>terminateConnection\<close>: the tunnels are closed, then the alert is sent, then the websocket is closed.\<close>

definition terminate_socket :: "server_env \<Rightarrow> attestor_error \<Rightarrow> session \<Rightarrow> session \<times> session_effect list" where
  "terminate_socket V err s =
     (if \<not> isOpen s then (s, [])
      else (s\<lparr>isOpen := False\<rparr>, terminate_tunnels V s
              @ send s \<lparr>rpc_id = 0, rpc_members = [(js ''connectionTerminationAlert'', VError (toProto (sv_json V) err))]\<rparr>))"

fun accept_error :: "js_error \<Rightarrow> attestor_error" where
  "accept_error (AttestorErr e) = e"
| "accept_error err = badRequest (error_message err) None"

definition finish_packet ::
  "server_env \<Rightarrow> bool \<Rightarrow> session \<times> session_effect list \<times> message_end \<times> RPCMessage list \<Rightarrow> server_socket
   \<Rightarrow> server_socket \<times> session_effect list" where
  "finish_packet V initial r so =
     (case r of (s, es, e, rest) \<Rightarrow>
        (case e of
           Awaiting i \<Rightarrow> (so\<lparr>so_session := s, so_inflight := so_inflight so @ [(i, rest, initial)]\<rparr>, es)
         | Resolved \<Rightarrow> (so\<lparr>so_session := s, so_accepted := (if initial then Some True else so_accepted so)\<rparr>, es)
         | Rejected err \<Rightarrow>
             if initial
             then (case terminate_socket V (accept_error err) s of
                     (s', es') \<Rightarrow> (so\<lparr>so_session := s', so_accepted := Some False\<rparr>, es @ es'))
             else (so\<lparr>so_session := s\<rparr>, es)))"

definition acceptConnection :: "connection_env \<Rightarrow> int \<Rightarrow> jsstring \<Rightarrow> server_socket \<times> session_effect list" where
  "acceptConnection N now url =
     (let so = \<lparr>so_session = new_session, so_inflight = [], so_accepted = None\<rparr> in
      finish_packet (cn_server N) True
        (case getInitialMessagesFromQuery N url of
           Inl e \<Rightarrow> (new_session, [], Rejected e, [])
         | Inr ms \<Rightarrow> receive_packet (cn_server N) now ms new_session) so)"

text \<open>\<open>handleNewClient\<close> watches the websockets of accepted connections.\<close>

definition handleNewClient :: "nat \<Rightarrow> server_socket \<Rightarrow> keep_alive option" where
  "handleNewClient now so = (if so_accepted so = Some True then Some (addKeepAlive now) else None)"

definition on_packet :: "connection_env \<Rightarrow> int \<Rightarrow> ws_data \<Rightarrow> server_socket \<Rightarrow> server_socket \<times> session_effect list" where
  "on_packet N now d so =
     (case bindR (extractArrayBufferFromWsData (env_tls (ce_http (sv_claim (cn_server N)))) d)
             (decode_whole (RPCMessages_decode (cn_wire N))) of
        Inl e \<Rightarrow> (so, [])
      | Inr ms \<Rightarrow> finish_packet (cn_server N) False (receive_packet (cn_server N) now ms (so_session so)) so)"

text \<open>The connection of a \<open>createTunnel\<close> request is made, or fails; the packet of the request goes on.\<close>

definition on_connection :: "server_env \<Rightarrow> int \<Rightarrow> int \<Rightarrow> connect_event \<Rightarrow> server_socket \<Rightarrow> server_socket \<times> session_effect list" where
  "on_connection V now i ev so =
     (let s = so_session so in
      case List.find (\<lambda>p. fst p = i) (ss_pending s) of
        None \<Rightarrow> (so, [])
      | Some (_, q) \<Rightarrow>
          (case createTunnel_done V q ev (s\<lparr>ss_pending := remove1 (i, q) (ss_pending s)\<rparr>) of
             (s1, es, rsp) \<Rightarrow>
               (let es1 = es @ respond V s1 i (js ''createTunnel'') rsp in
                case List.find (\<lambda>p. fst p = i) (so_inflight so) of
                  None \<Rightarrow> (so\<lparr>so_session := s1\<rparr>, es1)
                | Some (j, rest, initial) \<Rightarrow>
                    (case (case request_end s1 rsp of
                             Resolved \<Rightarrow> receive_packet V now rest s1
                           | e \<Rightarrow> (s1, [], e, rest)) of
                       (s2, es2, e, rest') \<Rightarrow>
                         finish_packet V initial (s2, es1 @ es2, e, rest')
                           (so\<lparr>so_inflight := remove1 (j, rest, initial) (so_inflight so)\<rparr>)))))"

datatype socket_input =
    PacketIn int ws_data
  | ConnectionMade int int connect_event
  | TunnelSocket int tunnel_event
  | OverlapSeen int
  | WebsocketClosed

fun socket_step :: "connection_env \<Rightarrow> socket_input \<Rightarrow> server_socket \<Rightarrow> server_socket \<times> session_effect list" where
  "socket_step N (PacketIn now d) so = on_packet N now d so"
| "socket_step N (ConnectionMade now i ev) so = on_connection (cn_server N) now i ev so"
| "socket_step N (TunnelSocket i ev) so =
     (case session_step (cn_server N) (SocketEvent i ev) (so_session so) of (s, es) \<Rightarrow> (so\<lparr>so_session := s\<rparr>, es))"
| "socket_step N (OverlapSeen i) so =
     (case session_step (cn_server N) (BgpOverlap i) (so_session so) of (s, es) \<Rightarrow> (so\<lparr>so_session := s\<rparr>, es))"
| "socket_step N WebsocketClosed so =
     (case session_step (cn_server N) Session.SocketClosed (so_session so) of (s, es) \<Rightarrow> (so\<lparr>so_session := s\<rparr>, es))"

abbreviation socket_run :: "connection_env \<Rightarrow> socket_input list \<Rightarrow> server_socket \<Rightarrow> server_socket \<times> session_effect list" where
  "socket_run N \<equiv> run_steps (socket_step N)"

subsection \<open>The session of a socket\<close>

lemma receive_one_step: "receive_one V now m s = (s', es, e) \<Longrightarrow> session_step V (Receive now m) s = (s', es)"
  by (auto simp: receive_one_def handle_event_def handleRpcRequest_def answer_def
    split: sum.splits handled.splits rpc_event.splits prod.splits option.splits)

lemma receive_packet_reachable:
  "session_reachable V s \<Longrightarrow> session_reachable V (fst (receive_packet V now ms s))"
proof (induction ms arbitrary: s)
  case (Cons m ms)
  obtain s1 es e where one: "receive_one V now m s = (s1, es, e)" by (cases "receive_one V now m s") auto
  then have "session_reachable V s1"
    using Cons.prems receive_one_step[OF one] session_reachable.next_state by blast
  then show ?case using Cons.IH[of s1] one by (auto split: message_end.split prod.split)
qed simp

text \<open>What the handlers leave alone.\<close>

lemma on_tunnel_frame:
  "ss_pending (fst (on_tunnel V i ev s)) = ss_pending s" "isOpen (fst (on_tunnel V i ev s)) = isOpen s"
  by (simp_all add: on_tunnel_def set_tunnel_def split_beta split: option.split)

lemma handler_frames:
  "ss_pending (fst (init_handler V now r s)) = ss_pending s" "isOpen (fst (init_handler V now r s)) = isOpen s"
  "ss_pending (fst (disconnectTunnel V i s)) = ss_pending s" "isOpen (fst (disconnectTunnel V i s)) = isOpen s"
  "ss_pending (fst (claimTunnel V now q s)) = ss_pending s" "isOpen (fst (claimTunnel V now q s)) = isOpen s"
  "ss_pending (fst (createTunnel_done V cq cev s)) = ss_pending s" "isOpen (fst (createTunnel_done V cq cev s)) = isOpen s"
  by (simp_all add: init_handler_def disconnectTunnel_def claimTunnel_def createTunnel_done_def close_tunnel_def removeTunnel_def
    set_tunnel_def on_tunnel_frame split_beta Let_def split: option.split sum.split)

lemma settled_frame:
  "settled r = (s', es, out) \<Longrightarrow> s' = fst r \<and> out \<noteq> None"
  by (auto simp: settled_def split: prod.splits)

lemma rpc_handler_frame:
  assumes "rpc_handler V now i type data s = (s', es, out)"
  shows "isOpen s' = isOpen s \<and> (case out of Some _ \<Rightarrow> ss_pending s' = ss_pending s
    | None \<Rightarrow> type = js ''createTunnel'' \<and> es = [] \<and> (\<exists>q. data = Some (VCreateTunnel q) \<and> ss_pending s' = ss_pending s @ [(i, q)]))"
proof (cases "type = js ''createTunnel''")
  case True
  then show ?thesis using assms
    by (auto simp: rpc_handler_def settled_def createTunnel_start_def split: option.splits rpc_value.splits if_splits)
next
  case False
  then obtain r where r: "rpc_handler V now i type data s = settled r" "ss_pending (fst r) = ss_pending s" "isOpen (fst r) = isOpen s"
  proof (cases data)
    case None
    then show ?thesis using that False by (simp add: rpc_handler_def)
  next
    case (Some v)
    show ?thesis
      by (rule that[unfolded rpc_handler_def if_not_P[OF False]], rule refl) (use Some in \<open>cases v; simp add: handler_frames\<close>)+
  qed
  then show ?thesis using settled_frame[of r s' es out] assms by auto
qed

lemma handle_event_frame:
  "\<forall>i t d. ev \<noteq> RpcRequestEvent i t d \<Longrightarrow>
    ss_pending (fst (handle_event V now ev s)) = ss_pending s \<and> isOpen (fst (handle_event V now ev s)) = isOpen s"
  by (cases ev) (simp_all add: handle_event_def on_tunnel_frame)

lemma receive_one_frame:
  assumes "receive_one V now m s = (s', es, e)"
  shows "isOpen s' = isOpen s \<and> (case e of Awaiting i \<Rightarrow> \<exists>q. ss_pending s' = ss_pending s @ [(i, q)] | _ \<Rightarrow> ss_pending s' = ss_pending s)"
proof (cases "handleMessage (sv_json V) (isInitialised s) m")
  case (Inr h)
  show ?thesis
  proof (cases h)
    case (Dispatch ev)
    show ?thesis
    proof (cases ev)
      case (RpcRequestEvent i type data)
      obtain s1 es1 out where h: "rpc_handler V now i type data s = (s1, es1, out)" by (cases "rpc_handler V now i type data s") auto
      show ?thesis using rpc_handler_frame[OF h] assms Inr Dispatch RpcRequestEvent h
        by (auto simp: receive_one_def request_end_def split: option.splits if_splits sum.splits)
    qed (use assms Inr Dispatch handle_event_frame[of ev V now s] in \<open>auto simp: receive_one_def split: prod.splits\<close>)
  qed (use assms Inr in \<open>auto simp: receive_one_def\<close>)
qed (use assms in \<open>auto simp: receive_one_def\<close>)

lemma receive_packet_frame:
  "receive_packet V now ms s = (s', es, e, rest) \<Longrightarrow> isOpen s' = isOpen s
    \<and> (case e of Awaiting i \<Rightarrow> \<exists>q. ss_pending s' = ss_pending s @ [(i, q)] | _ \<Rightarrow> ss_pending s' = ss_pending s)"
proof (induction ms arbitrary: s es)
  case (Cons m ms)
  obtain s1 es1 e1 where one: "receive_one V now m s = (s1, es1, e1)" by (cases "receive_one V now m s") auto
  show ?case
  proof (cases "e1 = Resolved")
    case True
    obtain es2 where "receive_packet V now ms s1 = (s', es2, e, rest)"
      using Cons.prems one True by (auto split: prod.splits)
    from Cons.IH[OF this] show ?thesis using receive_one_frame[OF one] True by (auto split: message_end.splits)
  next
    case False
    then show ?thesis using Cons.prems one receive_one_frame[OF one] by (cases e1) auto
  qed
qed simp

subsection \<open>What holds of every socket\<close>

text \<open>
  A request is pending exactly when a packet waits for it, in this order; and a connection that was not
  accepted is closed.
\<close>

definition socket_ok :: "connection_env \<Rightarrow> server_socket \<Rightarrow> bool" where
  "socket_ok N so \<longleftrightarrow> session_reachable (cn_server N) (so_session so)
     \<and> map fst (so_inflight so) = map fst (ss_pending (so_session so))
     \<and> (so_accepted so = Some False \<longrightarrow> \<not> isOpen (so_session so))"

lemma session_step_reachable: "session_reachable V s \<Longrightarrow> session_reachable V (fst (session_step V ev s))"
  by (cases "session_step V ev s") (auto intro: session_reachable.next_state)

lemma terminate_socket_ok:
  assumes "session_reachable V s"
  shows "session_reachable V (fst (terminate_socket V err s))" and "\<not> isOpen (fst (terminate_socket V err s))"
    and "ss_pending (fst (terminate_socket V err s)) = ss_pending s"
  using assms session_step_reachable[OF assms, of Session.SocketClosed] by (auto simp: terminate_socket_def)

lemma finish_packet_ok:
  assumes "session_reachable (cn_server N) s"
    and "map fst (so_inflight so) @ (case e of Awaiting i \<Rightarrow> [i] | _ \<Rightarrow> []) = map fst (ss_pending s)"
    and "so_accepted so = Some False \<longrightarrow> \<not> isOpen s"
  shows "socket_ok N (fst (finish_packet (cn_server N) initial (s, es, e, rest) so))"
  using assms terminate_socket_ok[OF assms(1)]
  by (auto simp: finish_packet_def socket_ok_def split_beta split: message_end.split)

lemma received_ok:
  assumes "session_reachable (cn_server N) s" and "map fst (so_inflight so) = map fst (ss_pending s)"
    and "so_accepted so = Some False \<longrightarrow> \<not> isOpen s" and "receive_packet (cn_server N) now ms s = (s', es, e, rest)"
  shows "socket_ok N (fst (finish_packet (cn_server N) initial (s', es1 @ es, e, rest) so))"
  using receive_packet_frame[OF assms(4)] receive_packet_reachable[OF assms(1), of now ms] assms
  by (intro finish_packet_ok) (auto split: message_end.splits)

lemma find_removed:
  assumes "List.find (\<lambda>p. fst p = i) xs = Some p"
  shows "map fst (remove1 p xs) = remove1 i (map fst xs)"
proof -
  have "fst p = i" using assms by (auto simp: find_Some_iff)
  then show ?thesis using assms by (induction xs) (auto split: if_splits)
qed

lemma find_none: "List.find (\<lambda>p. fst p = i) xs = None \<longleftrightarrow> i \<notin> fst ` set xs"
  by (force simp: find_None_iff)

lemma on_connection_ok:
  assumes "socket_ok N so"
  shows "socket_ok N (fst (on_connection (cn_server N) now i ev so))"
proof (cases "List.find (\<lambda>p. fst p = i) (ss_pending (so_session so))")
  case None
  then show ?thesis using assms by (simp add: on_connection_def)
next
  case (Some p)
  let ?s = "so_session so" and ?V = "cn_server N"
  obtain q where p: "p = (i, q)" using Some by (auto simp: find_Some_iff) (metis prod.collapse)
  let ?sr = "?s\<lparr>ss_pending := remove1 (i, q) (ss_pending ?s)\<rparr>"
  obtain s1 es rsp where made: "createTunnel_done ?V q ev ?sr = (s1, es, rsp)" by (cases "createTunnel_done ?V q ev ?sr") auto
  have reach: "session_reachable ?V s1"
    using session_step_reachable[of ?V ?s "TunnelReady i ev"] assms Some p made by (simp add: socket_ok_def fst_answer)
  have pend: "map fst (ss_pending s1) = remove1 i (map fst (ss_pending ?s))" "isOpen s1 = isOpen ?s"
    using handler_frames(7,8)[of ?V q ev ?sr] made find_removed[OF Some] p by simp_all
  have "i \<in> fst ` set (so_inflight so)"
    using assms Some p find_none[of i "ss_pending ?s"] by (simp add: socket_ok_def flip: set_map)
  then obtain f where f: "List.find (\<lambda>p. fst p = i) (so_inflight so) = Some f"
    using find_none[of i "so_inflight so"] by (cases "List.find (\<lambda>p. fst p = i) (so_inflight so)") auto
  obtain j rest initial where fj: "f = (j, rest, initial)" by (cases f) auto
  let ?so = "so\<lparr>so_inflight := remove1 f (so_inflight so)\<rparr>"
  have infl: "map fst (so_inflight ?so) = map fst (ss_pending s1)" "so_accepted ?so = Some False \<longrightarrow> \<not> isOpen s1"
    using find_removed[OF f] pend assms by (simp_all add: socket_ok_def)
  show ?thesis
  proof (cases "request_end s1 rsp")
    case Resolved
    obtain s2 es2 e2 rest2 where r: "receive_packet ?V now rest s1 = (s2, es2, e2, rest2)"
      by (cases "receive_packet ?V now rest s1") auto
    show ?thesis using received_ok[OF reach infl r, of initial "es @ respond ?V s1 i (js ''createTunnel'') rsp"] Resolved Some p made f fj r
      by (simp add: on_connection_def Let_def)
  next
    case (Rejected err)
    then show ?thesis using finish_packet_ok[OF reach _ infl(2), of "Rejected err"] infl(1) Some p made f fj
      by (simp add: on_connection_def Let_def)
  next
    case (Awaiting k)
    then show ?thesis by (simp add: request_end_def split: if_splits sum.splits)
  qed
qed

inductive socket_reachable :: "connection_env \<Rightarrow> server_socket \<Rightarrow> bool" for N where
  accepting: "acceptConnection N now url = (so, es) \<Longrightarrow> socket_reachable N so"
| further: "socket_reachable N so \<Longrightarrow> socket_step N x so = (so', es) \<Longrightarrow> socket_reachable N so'"

lemma accepted_ok: "socket_ok N (fst (acceptConnection N now url))"
proof -
  let ?so = "\<lparr>so_session = new_session, so_inflight = [], so_accepted = None\<rparr>"
  have start: "session_reachable (cn_server N) new_session" "map fst (so_inflight ?so) = map fst (ss_pending new_session)"
    by (rule session_reachable.fresh) (simp add: new_session_def)
  show ?thesis
  proof (cases "getInitialMessagesFromQuery N url")
    case (Inl e)
    then show ?thesis using finish_packet_ok[OF start(1), of ?so "Rejected e"] start(2) by (simp add: acceptConnection_def)
  next
    case (Inr ms)
    obtain s es e rest where "receive_packet (cn_server N) now ms new_session = (s, es, e, rest)"
      by (cases "receive_packet (cn_server N) now ms new_session") auto
    then show ?thesis using received_ok[OF start, of now ms s es e rest True "[]"] Inr by (simp add: acceptConnection_def)
  qed
qed

lemma tunnel_event_frame:
  "ss_pending (fst (session_step V (SocketEvent i ev) s)) = ss_pending s" "isOpen (fst (session_step V (SocketEvent i ev) s)) = isOpen s"
  "ss_pending (fst (session_step V (BgpOverlap i) s)) = ss_pending s" "isOpen (fst (session_step V (BgpOverlap i) s)) = isOpen s"
  by (simp_all add: on_tunnel_frame close_tunnel_def)

lemma socket_step_ok:
  assumes "socket_ok N so"
  shows "socket_ok N (fst (socket_step N x so))"
proof (cases x)
  case (PacketIn now d)
  have so: "session_reachable (cn_server N) (so_session so)" "map fst (so_inflight so) = map fst (ss_pending (so_session so))"
    "so_accepted so = Some False \<longrightarrow> \<not> isOpen (so_session so)" using assms by (simp_all add: socket_ok_def)
  have "socket_ok N (fst (finish_packet (cn_server N) False (receive_packet (cn_server N) now ms (so_session so)) so))" for ms
  proof -
    obtain s es e rest where "receive_packet (cn_server N) now ms (so_session so) = (s, es, e, rest)"
      by (cases "receive_packet (cn_server N) now ms (so_session so)") auto
    then show ?thesis using received_ok[OF so, of now ms s es e rest False "[]"] by simp
  qed
  then show ?thesis using assms PacketIn by (auto simp: on_packet_def split: sum.split)
next
  case (ConnectionMade now i ev)
  then show ?thesis using on_connection_ok[OF assms] by simp
next
  case (TunnelSocket i ev)
  then show ?thesis using assms session_step_reachable[of "cn_server N" "so_session so" "SocketEvent i ev"]
      tunnel_event_frame(1,2)[of "cn_server N" i ev "so_session so"] by (simp add: socket_ok_def split_beta del: session_step.simps)
next
  case (OverlapSeen i)
  then show ?thesis using assms session_step_reachable[of "cn_server N" "so_session so" "BgpOverlap i"]
      tunnel_event_frame(3,4)[of "cn_server N" i "so_session so"] by (simp add: socket_ok_def split_beta del: session_step.simps)
next
  case WebsocketClosed
  then show ?thesis using assms session_step_reachable[of "cn_server N" "so_session so" Session.SocketClosed]
    by (simp add: socket_ok_def split_beta)
qed


subsection \<open>Setting up a connection\<close>

text \<open>
  What the client sends to open a tunnel (\<open>src/client/tunnels/make-rpc-tls-tunnel.ts\<close>): the request, with a
  number, and the first data for the tunnel, which packing numbers.
\<close>

definition create_tunnel_messages :: "int \<Rightarrow> CreateTunnelRequest \<Rightarrow> bytes \<Rightarrow> (int option \<times> (jsstring \<times> rpc_value) list) list" where
  "create_tunnel_messages createTunnelReqId request message =
     zip [Some createTunnelReqId, None] (map (\<lambda>m. [m]) (connect_messages request message))"

definition created :: "int \<Rightarrow> session_effect" where
  "created i = SendMessage \<lparr>rpc_id = i, rpc_members = [(getRpcResponseType (js ''createTunnel''), VEmpty)]\<rparr>"

lemma create_received:
  assumes "isInitialised s" and "map_of (ss_tunnels s) (ct_id q) = None" and "host_allowed (ss_metadata s) (ct_host q)"
  shows "receive_one V now \<lparr>rpc_id = i, rpc_members = [(js ''createTunnelRequest'', VCreateTunnel q)]\<rparr> s
    = (s\<lparr>ss_pending := ss_pending s @ [(i, q)]\<rparr>, [], Awaiting i)"
proof -
  have "js ''createTunnelRequest'' = getRpcRequestType (js ''createTunnel'')" by (simp add: getRpcRequestType_def js_def)
  then show ?thesis using assms
    by (simp add: receive_one_def request_dispatched rpc_handler_def createTunnel_start_def)
qed

lemma data_received:
  assumes "map_of (ss_tunnels s) i = Some t"
  shows "receive_one V now \<lparr>rpc_id = j, rpc_members = [(js ''tunnelMessage'', VTunnelMessage i m)]\<rparr> s
    = (set_tunnel i (t\<lparr>tt_transcript := tt_transcript t @ [(Client, m)]\<rparr>) s, [OnTunnel i (SocketWrite m)], Resolved)"
proof -
  have k: "js ''tunnelMessage'' \<noteq> js ''connectionTerminationAlert''" "js ''tunnelMessage'' \<noteq> js ''requestError''"
    "getRpcTypeFromKey (js ''tunnelMessage'') = None" by (simp_all add: js_def) code_simp
  then show ?thesis using assms
    by (simp add: receive_one_def handleMessage_def getRpcRequest_def member_of_def handle_event_def on_tunnel_def
      tunnel_write_def tunnel_callback_def)
qed

lemma init_received:
  assumes "\<not> isInitialised s" and "isOpen s" and "SIGNATURES (sv_eth V) (signatureType r) \<noteq> None" and "0 < clientVersion r"
    and "assertValidAuthRequest (sv_eth V) (encode_AuthenticatedUserData (ce_proto (sv_claim V))) (AUTHENTICATION_PUBLIC_KEY V) now
      (im_auth r) (signatureType r) = Inr ()" and "TOPRF_PUBLIC_KEY V = []"
  shows "receive_one V now \<lparr>rpc_id = i, rpc_members = [(js ''initRequest'', VInitRequest r)]\<rparr> s
    = (s\<lparr>ss_metadata := r, isInitialised := True\<rparr>,
       [SendMessage \<lparr>rpc_id = i, rpc_members = [(getRpcResponseType (js ''init''), VInitResponse [])]\<rparr>], Resolved)"
proof -
  have "js ''initRequest'' = getRpcRequestType (js ''init'')" by (simp add: getRpcRequestType_def js_def)
  then show ?thesis using assms
    by (simp add: receive_one_def request_dispatched rpc_handler_def type_names settled_pair init_handler_def respond_def send_def
      request_end_def)
qed

text \<open>The rest of the packet of a \<open>createTunnel\<close> request is handled once the tunnel is there.\<close>

lemma data_follows_connection:
  assumes "so = \<lparr>so_session = s\<lparr>ss_pending := ss_pending s @ [(i, q)]\<rparr>,
      so_inflight = infl @ [(i, [\<lparr>rpc_id = j, rpc_members = [(js ''tunnelMessage'', VTunnelMessage (ct_id q) m)]\<rparr>], initial)],
      so_accepted = acc\<rparr>"
    and "isOpen s" and "i \<notin> fst ` set (ss_pending s)" and "i \<notin> fst ` set infl"
    and "makeTcpTunnel (sv_net V) (tunnel_opts_of q) ev = Inr t"
  shows "\<exists>so'. on_connection V now i ev so = (so', [created i, OnTunnel (ct_id q) (SocketWrite m)])
    \<and> so_accepted so' = (if initial then Some True else acc) \<and> so_inflight so' = infl \<and> ss_pending (so_session so') = ss_pending s
    \<and> map_of (ss_tunnels (so_session so')) (ct_id q) = Some (t\<lparr>tt_transcript := tt_transcript t @ [(Client, m)]\<rparr>)"
proof -
  have f: "List.find (\<lambda>p. fst p = i) (xs @ [(i, x)]) = Some (i, x)" "remove1 (i, x) (xs @ [(i, x)]) = xs"
    if "i \<notin> fst ` set xs" for xs :: "(int \<times> 'x) list" and x
    using that by (induction xs) auto
  have sess: "s\<lparr>ss_pending := ss_pending s\<rparr> = s" by simp
  let ?s = "set_tunnel (ct_id q) t s"
  have "map_of (ss_tunnels ?s) (ct_id q) = Some t" by (simp add: set_tunnel_def update_conv)
  from data_received[OF this, of V now j m] show ?thesis
    using assms f[OF assms(3), of q] f[OF assms(4)]
    by (simp add: on_connection_def Let_def createTunnel_done_def sess respond_def send_def request_end_def finish_packet_def
      created_def set_tunnel_def update_conv)
qed

text \<open>If the connection fails the client is told, and the data is dropped.\<close>

lemma data_dropped:
  assumes "so = \<lparr>so_session = s\<lparr>ss_pending := ss_pending s @ [(i, q)]\<rparr>, so_inflight = infl @ [(i, rest, False)], so_accepted = acc\<rparr>"
    and "isOpen s" and "i \<notin> fst ` set (ss_pending s)" and "i \<notin> fst ` set infl"
    and "makeTcpTunnel (sv_net V) (tunnel_opts_of q) ev = Inl e"
  shows "on_connection V now i ev so = (\<lparr>so_session = s, so_inflight = infl, so_accepted = acc\<rparr>,
    [SendMessage \<lparr>rpc_id = i, rpc_members = [(js ''requestError'', VError (toProto (sv_json V) (fromError e)))]\<rparr>])"
proof -
  have f: "List.find (\<lambda>p. fst p = i) (xs @ [(i, x)]) = Some (i, x)" "remove1 (i, x) (xs @ [(i, x)]) = xs"
    if "i \<notin> fst ` set xs" for xs :: "(int \<times> 'x) list" and x
    using that by (induction xs) auto
  show ?thesis using assms f[OF assms(3), of q] f[OF assms(4), of "(rest, False)"]
    by (simp add: on_connection_def Let_def createTunnel_done_def respond_def send_def request_end_def finish_packet_def)
qed

lemma RPCMessages_encode_nonempty:
  assumes "wire_spec W"
  shows "RPCMessages_encode W (m # ms) \<noteq> []"
  using w_uint32_nonempty[OF assms, of 10] by (simp add: RPCMessages_encode_def put_messages_def is_u32_def fork_join_def)

lemma query_messages:
  assumes "cn_query N url = Inr (Some (b64_encode (RPCMessages_encode (cn_wire N) ms)))" and "ms \<noteq> []"
    and "wire_spec (cn_wire N)" and "list_all ok_RPCMessage ms" and "small (RPCMessages_encode (cn_wire N) ms)"
  shows "getInitialMessagesFromQuery N url = Inr ms"
proof -
  let ?b = "RPCMessages_encode (cn_wire N) ms"
  have "?b \<noteq> []" using RPCMessages_encode_nonempty[OF assms(3)] assms(2) by (cases ms) simp_all
  then have "b64_encode ?b \<noteq> []" using b64_decode_encode[of ?b] by (auto simp: b64_decode_def b64_values_simps)
  then show ?thesis using assms decode_whole_encode[OF carries_RPCMessages[OF assms(3,4)] assms(5)]
    by (simp add: getInitialMessagesFromQuery_def b64_decode_encode)
qed

text \<open>C8: A connection is set up in one trip. The client puts into the URL its initialisation, the request for a
  tunnel and the first data for it; they go through the wire format and base64. The server that accepts the
  connection answers the initialisation and awaits the tunnel; when the tunnel is there it tells the client,
  writes the data to it, enters it in the transcript, and accepts the connection. The data is never written
  before.\<close>

theorem connection_in_one_trip:
  assumes "cn_query N url = Inr (Some (b64_encode (RPCMessages_encode (cn_wire N) ms)))"
    and "ms = init_messages [a, b, c] r (create_tunnel_messages i request m)" and "i \<noteq> 0"
    and "wire_spec (cn_wire N)" and "list_all ok_RPCMessage ms" and "small (RPCMessages_encode (cn_wire N) ms)"
    and "SIGNATURES (sv_eth (cn_server N)) (signatureType r) \<noteq> None" and "0 < clientVersion r"
    and "assertValidAuthRequest (sv_eth (cn_server N)) (encode_AuthenticatedUserData (ce_proto (sv_claim (cn_server N))))
      (AUTHENTICATION_PUBLIC_KEY (cn_server N)) now (im_auth r) (signatureType r) = Inr ()"
    and "TOPRF_PUBLIC_KEY (cn_server N) = []" and "host_allowed r (ct_host request)"
    and "makeTcpTunnel (sv_net (cn_server N))
      (tunnel_opts_of (request\<lparr>ct_port := (if ct_port request = 0 then DEFAULT_HTTPS_PORT else ct_port request)\<rparr>)) ev = Inr t"
  shows "\<exists>so so'. acceptConnection N now url =
        (so, [SendMessage \<lparr>rpc_id = a, rpc_members = [(getRpcResponseType (js ''init''), VInitResponse [])]\<rparr>])
    \<and> so_accepted so = None
    \<and> socket_step N (ConnectionMade now' i ev) so = (so', [created i, OnTunnel (ct_id request) (SocketWrite m)])
    \<and> so_accepted so' = Some True
    \<and> map_of (ss_tunnels (so_session so')) (ct_id request) = Some (t\<lparr>tt_transcript := tt_transcript t @ [(Client, m)]\<rparr>)"
proof -
  let ?V = "cn_server N"
  let ?q = "request\<lparr>ct_port := (if ct_port request = 0 then DEFAULT_HTTPS_PORT else ct_port request)\<rparr>"
  let ?data = "\<lparr>rpc_id = c, rpc_members = [(js ''tunnelMessage'', VTunnelMessage (ct_id ?q) m)]\<rparr>"
  let ?s = "new_session\<lparr>ss_metadata := r, isInitialised := True\<rparr>"
  have ms: "ms = [\<lparr>rpc_id = a, rpc_members = [(js ''initRequest'', VInitRequest r)]\<rparr>,
      \<lparr>rpc_id = i, rpc_members = [(js ''createTunnelRequest'', VCreateTunnel ?q)]\<rparr>, ?data]"
    using assms(2,3) by (simp add: init_messages_def create_tunnel_messages_def packRpcMessages_def connect_messages_def)
  have ns: "\<not> isInitialised new_session" "isOpen new_session" "ss_tunnels new_session = []" "ss_pending new_session = []"
    by (simp_all add: new_session_def)
  have c: "receive_one ?V now \<lparr>rpc_id = i, rpc_members = [(js ''createTunnelRequest'', VCreateTunnel ?q)]\<rparr> ?s
      = (?s\<lparr>ss_pending := ss_pending ?s @ [(i, ?q)]\<rparr>, [], Awaiting i)"
    by (rule create_received) (use assms(11) ns in simp_all)
  let ?so = "\<lparr>so_session = ?s\<lparr>ss_pending := ss_pending ?s @ [(i, ?q)]\<rparr>, so_inflight = [] @ [(i, [?data], True)], so_accepted = None\<rparr>"
  have acc: "acceptConnection N now url =
      (?so, [SendMessage \<lparr>rpc_id = a, rpc_members = [(getRpcResponseType (js ''init''), VInitResponse [])]\<rparr>])"
    using query_messages[OF assms(1) _ assms(4-6)] ms c init_received[OF ns(1,2) assms(7-10), of a]
    by (simp add: acceptConnection_def finish_packet_def)
  obtain so' where "on_connection ?V now' i ev ?so = (so', [created i, OnTunnel (ct_id ?q) (SocketWrite m)])"
    "so_accepted so' = Some True"
    "map_of (ss_tunnels (so_session so')) (ct_id ?q) = Some (t\<lparr>tt_transcript := tt_transcript t @ [(Client, m)]\<rparr>)"
    using data_follows_connection[of ?so ?s i ?q "[]" c m True None ?V ev t now'] assms(12) ns by auto
  then show ?thesis using acc by auto
qed


text \<open>The URL of the example: tunnel 1 to the host \<open>h\<close>, and one byte for it.\<close>

definition trip_messages :: "RPCMessage list" where
  "trip_messages = init_messages [4, 5, 6] ref_init
     (create_tunnel_messages 5 \<lparr>ct_id = 1, ct_host = js ''h'', ct_port = 443, ct_geoLocation = []\<rparr> [22])"

definition trip_env :: connection_env where
  "trip_env = \<lparr>cn_server = ref_server, cn_wire = wire_ref,
     cn_query = (\<lambda>_. Inr (Some (b64_encode (RPCMessages_encode wire_ref trip_messages)))), cn_pathname = Inr\<rparr>"

lemma trip_messages:
  "trip_messages = [\<lparr>rpc_id = 4, rpc_members = [(js ''initRequest'', VInitRequest ref_init)]\<rparr>,
     \<lparr>rpc_id = 5, rpc_members = [(js ''createTunnelRequest'', VCreateTunnel \<lparr>ct_id = 1, ct_host = js ''h'', ct_port = 443, ct_geoLocation = []\<rparr>)]\<rparr>,
     \<lparr>rpc_id = 6, rpc_members = [(js ''tunnelMessage'', VTunnelMessage 1 [22])]\<rparr>]"
  by (simp add: trip_messages_def init_messages_def create_tunnel_messages_def packRpcMessages_def connect_messages_def)

lemma trip_messages_ok: "list_all ok_RPCMessage trip_messages"
  unfolding trip_messages ok_RPCMessage_def members_of_def
  by (simp add: member_of_def ref_init_def rpc_fields_def List.map_filter_simps js_def ok_InitRequest_def is_i32_def
      ok_CreateTunnelRequest_def ok_TunnelMessage_def is_u32_def)
    (simp add: ascii_is_text ascii_string_def)

lemma trip_messages_small: "small (RPCMessages_encode wire_ref trip_messages)"
  unfolding trip_messages
  by (simp add: small_def RPCMessages_encode_def RPCMessage_encode_def member_of_def rpc_fields_def js_def ref_init_def
    InitRequest_encode_def CreateTunnelRequest_encode_def TunnelMessage_encode_def wire_lengths text_encode_ascii ascii_string_def)

theorem connection_in_one_trip_witness:
  "\<exists>so so' t. acceptConnection trip_env 0 [] =
        (so, [SendMessage \<lparr>rpc_id = 4, rpc_members = [(getRpcResponseType (js ''init''), VInitResponse [])]\<rparr>])
    \<and> so_accepted so = None
    \<and> socket_step trip_env (ConnectionMade 0 5 Connected) so = (so', [created 5, OnTunnel 1 (SocketWrite [22])])
    \<and> so_accepted so' = Some True
    \<and> map_of (ss_tunnels (so_session so')) 1 = Some \<lparr>createRequest_opts = ref_opts, tt_transcript = [(Client, [22])], tt_closed = False, onClose_set = True\<rparr>"
proof -
  let ?q = "\<lparr>ct_id = 1, ct_host = js ''h'', ct_port = 443, ct_geoLocation = []\<rparr>"
  have t: "makeTcpTunnel (sv_net (cn_server trip_env)) (tunnel_opts_of (?q\<lparr>ct_port := (if ct_port ?q = 0 then DEFAULT_HTTPS_PORT else ct_port ?q)\<rparr>))
      Connected = Inr \<lparr>createRequest_opts = ref_opts, tt_transcript = [], tt_closed = False, onClose_set = True\<rparr>"
    by (simp add: trip_env_def ref_server_fields opts_ref direct_tunnel)
  have h: "cn_query trip_env [] = Inr (Some (b64_encode (RPCMessages_encode (cn_wire trip_env) trip_messages)))"
    "wire_spec (cn_wire trip_env)" "small (RPCMessages_encode (cn_wire trip_env) trip_messages)"
    "SIGNATURES (sv_eth (cn_server trip_env)) (signatureType ref_init) \<noteq> None" "0 < clientVersion ref_init"
    "assertValidAuthRequest (sv_eth (cn_server trip_env)) (encode_AuthenticatedUserData (ce_proto (sv_claim (cn_server trip_env))))
      (AUTHENTICATION_PUBLIC_KEY (cn_server trip_env)) 0 (im_auth ref_init) (signatureType ref_init) = Inr ()"
    "TOPRF_PUBLIC_KEY (cn_server trip_env) = []" "host_allowed ref_init (ct_host ?q)"
    using trip_messages_small
    by (simp_all add: trip_env_def wire_ref_spec ref_server_fields SIGNATURES_def ref_init_def assertValidAuthRequest_def host_allowed_def)
  show ?thesis
    using connection_in_one_trip[OF h(1) trip_messages_def _ h(2) trip_messages_ok h(3-8) t, of 0] by auto
qed


end
