(* ===== verification/Tunnel_Guard.thy ===== *)
theory Tunnel_Guard
  imports Bgp_Listener Tcp_Tunnel
begin

text \<open>
  The guard that \<open>createTunnel\<close> of \<open>src/server/handlers/createTunnel.ts\<close> puts on its tunnel when the server
  has a BGP listener: once the tunnel is there the addresses of its host are looked up and registered with
  the listener; an announcement for a watched address closes the tunnel with an error of its own; when
  the tunnel ends the registration is cancelled.

  The state is the listener, which all calls of the handler share, and the calls that have made their
  tunnel, in order. \<open>gc_cancel\<close> is the variable \<open>cancelBgp\<close>: the registration that calling it takes back. What the
  callbacks send to the client is in the theory \<open>Session\<close> (\<open>tunnel_callback\<close>).
\<close>

record guarded_call =
  gc_tunnel :: tcp_tunnel
  gc_resolving :: bool
  gc_cancel :: "(nat \<times> jsstring list) option"

record guard =
  gd_bgp :: bgp_listener
  gd_calls :: "guarded_call list"

datatype guard_output = OnCallTunnel nat tunnel_effect | CallReturned nat

definition overlap_error :: js_error where
  "overlap_error = throwAttestor ERROR_BGP_ANNOUNCEMENT_OVERLAP ''BGP announcement overlap detected''"

text \<open>\<open>cancelBgp?.()\<close>\<close>

definition cancelBgp :: "guarded_call \<Rightarrow> bgp_listener \<Rightarrow> bgp_listener" where
  "cancelBgp c = (case gc_cancel c of None \<Rightarrow> id | Some (n, ips) \<Rightarrow> cancelOverlap n ips)"

text \<open>The callback of a registration closes the tunnel of the call that made it.\<close>

definition on_announcement :: "guarded_call list \<Rightarrow> bgp_output \<Rightarrow> guard_output list" where
  "on_announcement calls b =
     (case b of
        Overlap n _ \<Rightarrow>
          concat (map (\<lambda>k. if map_option fst (gc_cancel (calls ! k)) = Some n
                           then map (OnCallTunnel k) (snd (tunnel_close (Some overlap_error) (gc_tunnel (calls ! k)))) else [])
            [0..<length calls])
      | _ \<Rightarrow> [])"

text \<open>After \<open>resolveHostnames\<close>: if the names could not be resolved the tunnel stays unguarded.\<close>

definition checkForBgp :: "nat \<Rightarrow> js_error + jsstring list \<Rightarrow> guard \<Rightarrow> guard" where
  "checkForBgp k r g =
     (let c = gd_calls g ! k in
      case r of
        Inl _ \<Rightarrow> g\<lparr>gd_calls := (gd_calls g)[k := c\<lparr>gc_resolving := False\<rparr>]\<rparr>
      | Inr ips \<Rightarrow>
          (case onOverlap ips (gd_bgp g) of
             (n, s) \<Rightarrow> g\<lparr>gd_bgp := s, gd_calls := (gd_calls g)[k := c\<lparr>gc_resolving := False, gc_cancel := Some (n, ips)\<rparr>]\<rparr>))"

definition tunnel_ended :: "tunnel_effect list \<Rightarrow> bool" where
  "tunnel_ended es = list_ex (\<lambda>e. case e of OnClose _ \<Rightarrow> True | _ \<Rightarrow> False) es"

definition on_call_tunnel :: "nat \<Rightarrow> tunnel_event \<Rightarrow> guard \<Rightarrow> guard \<times> guard_output list" where
  "on_call_tunnel k ev g =
     (let c = gd_calls g ! k in
      case tunnel_step ev (gc_tunnel c) of
        (t, es) \<Rightarrow>
          (g\<lparr>gd_bgp := (if tunnel_ended es then cancelBgp c (gd_bgp g) else gd_bgp g),
             gd_calls := (gd_calls g)[k := c\<lparr>gc_tunnel := t\<rparr>]\<rparr>,
           map (OnCallTunnel k) es))"

text \<open>\<open>Collector\<close> is what happens at the listener's websocket, or that the listener is closed.\<close>

datatype guard_input =
    CallConnected tunnel_opts connect_event
  | NamesResolved nat "js_error + jsstring list"
  | TunnelDoes nat tunnel_event
  | Collector bgp_input

fun of_collector :: "bgp_input \<Rightarrow> bool" where
  "of_collector (Watch _) = False"
| "of_collector (Cancel _) = False"
| "of_collector _ = True"

fun guard_step :: "net_env \<Rightarrow> json_lib \<Rightarrow> cidr_lib \<Rightarrow> guard_input \<Rightarrow> guard \<Rightarrow> guard \<times> guard_output list" where
  "guard_step N J C (CallConnected opts ev) g =
     (case makeTcpTunnel N opts ev of
        Inl _ \<Rightarrow> (g, [])
      | Inr t \<Rightarrow> (g\<lparr>gd_calls := gd_calls g @ [\<lparr>gc_tunnel = t, gc_resolving = True, gc_cancel = None\<rparr>]\<rparr>, []))"
| "guard_step N J C (NamesResolved k r) g =
     (if k < length (gd_calls g) \<and> gc_resolving (gd_calls g ! k) then (checkForBgp k r g, [CallReturned k]) else (g, []))"
| "guard_step N J C (TunnelDoes k ev) g = (if k < length (gd_calls g) then on_call_tunnel k ev g else (g, []))"
| "guard_step N J C (Collector b) g =
     (if of_collector b
      then (case bgp_step J C b (gd_bgp g) of
              (s, out) \<Rightarrow> (g\<lparr>gd_bgp := s\<rparr>, concat (map (on_announcement (gd_calls g)) out)))
      else (g, []))"

definition new_guard :: guard where
  "new_guard = \<lparr>gd_bgp = createBgpListener, gd_calls = []\<rparr>"

abbreviation guard_run :: "net_env \<Rightarrow> json_lib \<Rightarrow> cidr_lib \<Rightarrow> guard_input list \<Rightarrow> guard \<Rightarrow> guard \<times> guard_output list" where
  "guard_run N J C \<equiv> run_steps (guard_step N J C)"

subsection \<open>The registrations\<close>

text \<open>
  The registrations belong to the calls, those of an open tunnel are in the listener, and an address of an
  open tunnel is watched unless a tunnel that has ended had it too.
\<close>

abbreviation call_open :: "guarded_call \<Rightarrow> bool" where
  "call_open c \<equiv> \<not> tt_closed (gc_tunnel c)"

definition guards :: "guard \<Rightarrow> nat \<Rightarrow> nat \<Rightarrow> jsstring list \<Rightarrow> bool" where
  "guards g k n ips \<longleftrightarrow> k < length (gd_calls g) \<and> gc_cancel (gd_calls g ! k) = Some (n, ips)"

definition taken_away :: "guard \<Rightarrow> jsstring \<Rightarrow> bool" where
  "taken_away g ip \<longleftrightarrow> (\<exists>k n ips. guards g k n ips \<and> ip \<in> set ips \<and> \<not> call_open (gd_calls g ! k))"

definition guard_ok :: "guard \<Rightarrow> bool" where
  "guard_ok g \<longleftrightarrow>
     (\<forall>k < length (gd_calls g). onClose_set (gc_tunnel (gd_calls g ! k)) = call_open (gd_calls g ! k))
     \<and> (\<forall>k n ips. guards g k n ips \<longrightarrow> n < bl_registered (gd_bgp g) \<and> \<not> gc_resolving (gd_calls g ! k))
     \<and> (\<forall>j k n ips ips'. guards g j n ips \<longrightarrow> guards g k n ips' \<longrightarrow> j = k)
     \<and> (\<forall>k n ips. guards g k n ips \<longrightarrow> call_open (gd_calls g ! k) \<longrightarrow> (n, ips) \<in> set (bl_listeners (gd_bgp g)))
     \<and> (\<forall>k n ips. guards g k n ips \<longrightarrow> call_open (gd_calls g ! k) \<longrightarrow>
          (\<forall>ip \<in> set ips. ip \<in> set (targetIps (gd_bgp g)) \<or> taken_away g ip))"

lemma tunnel_step_ends:
  assumes "tunnel_step ev t = (t', es)" and "onClose_set t = (\<not> tt_closed t)"
  shows "onClose_set t' = (\<not> tt_closed t') \<and> (tt_closed t \<longrightarrow> tt_closed t') \<and> tunnel_ended es = (tt_closed t' \<and> \<not> tt_closed t)"
  using assms by (cases ev) (auto simp: tunnel_step_defs tunnel_ended_def split: if_splits)

lemma collector_frame:
  "of_collector b \<Longrightarrow> bgp_step J C b s = (s', out) \<Longrightarrow>
     targetIps s' = targetIps s \<and> bl_listeners s' = bl_listeners s \<and> bl_registered s' = bl_registered s"
  by (cases b) (auto simp: bgp_close_def bgp_onClose_def openWs_def split: if_splits)

lemma cancel_frame:
  "bl_registered (cancelOverlap n ips s) = bl_registered s"
  "(m, is) \<in> set (bl_listeners (cancelOverlap n ips s)) \<longleftrightarrow> (m, is) \<in> set (bl_listeners s) \<and> m \<noteq> n"
  "set (targetIps (cancelOverlap n ips s)) = set (targetIps s) - set ips"
  by (auto simp: cancelOverlap_def set_fold_removeAll)

lemma watch_frame:
  "onOverlap ips s = (n, s') \<Longrightarrow> n = bl_registered s \<and> bl_registered s' = Suc n
     \<and> set (bl_listeners s') = insert (n, ips) (set (bl_listeners s)) \<and> set (targetIps s') = set ips \<union> set (targetIps s)"
  by (auto simp: onOverlap_def set_fold_insert)

lemma guard_ok_start: "guard_ok new_guard"
  by (simp add: guard_ok_def new_guard_def guards_def)

lemma connected_ok:
  assumes "guard_ok g" and "onClose_set t = (\<not> tt_closed t)"
  shows "guard_ok (g\<lparr>gd_calls := gd_calls g @ [\<lparr>gc_tunnel = t, gc_resolving = True, gc_cancel = None\<rparr>]\<rparr>)"
proof -
  let ?g = "g\<lparr>gd_calls := gd_calls g @ [\<lparr>gc_tunnel = t, gc_resolving = True, gc_cancel = None\<rparr>]\<rparr>"
  have g: "guards ?g k n ips \<longleftrightarrow> guards g k n ips" for k n ips
    by (auto simp: guards_def nth_append)
  have n: "guards g k n ips \<Longrightarrow> gd_calls ?g ! k = gd_calls g ! k" for k n ips
    by (simp add: guards_def nth_append)
  have t: "taken_away g ip \<Longrightarrow> taken_away ?g ip" for ip
    unfolding taken_away_def g using n by metis
  have k: "k < length (gd_calls ?g) \<Longrightarrow> onClose_set (gc_tunnel (gd_calls ?g ! k)) = call_open (gd_calls ?g ! k)" for k
    using assms by (auto simp: nth_append guard_ok_def)
  show ?thesis
    using assms(1) n t k unfolding guard_ok_def g by (simp del: update_convs) (metis n t)
qed

lemma resolved_ok:
  assumes "guard_ok g" and "k < length (gd_calls g)" and "gc_resolving (gd_calls g ! k)"
  shows "guard_ok (checkForBgp k r g)"
proof (cases r)
  case (Inl e)
  let ?g = "checkForBgp k r g"
  have g: "guards ?g j n ips \<longleftrightarrow> guards g j n ips" for j n ips
    using assms(2) by (auto simp: Inl checkForBgp_def guards_def nth_list_update Let_def)
  have t: "taken_away ?g ip \<longleftrightarrow> taken_away g ip" for ip
    unfolding taken_away_def g using assms(2) by (auto simp: Inl checkForBgp_def nth_list_update guards_def Let_def)
  show ?thesis
    using assms(1,2) unfolding guard_ok_def g t
    by (auto simp: Inl checkForBgp_def nth_list_update guards_def Let_def)
next
  case (Inr ips0)
  let ?g = "checkForBgp k r g"
  obtain n0 s' where w: "onOverlap ips0 (gd_bgp g) = (n0, s')" by fastforce
  note f = watch_frame[OF w]
  have ng: "\<not> guards g k n ips" for n ips using assms unfolding guard_ok_def by blast
  have g: "guards ?g j n ips \<longleftrightarrow> (if j = k then n = n0 \<and> ips = ips0 else guards g j n ips)" for j n ips
    using assms(2) by (auto simp: Inr w checkForBgp_def guards_def nth_list_update Let_def)
  have o: "call_open (gd_calls ?g ! j) = call_open (gd_calls g ! j)" "onClose_set (gc_tunnel (gd_calls ?g ! j)) = onClose_set (gc_tunnel (gd_calls g ! j))"
      "length (gd_calls ?g) = length (gd_calls g)" "gd_bgp ?g = s'" for j
    using assms(2) by (auto simp: Inr w checkForBgp_def nth_list_update Let_def)
  have rs: "gc_resolving (gd_calls ?g ! j) = (j \<noteq> k \<and> gc_resolving (gd_calls g ! j))" for j
    using assms(2) by (auto simp: Inr w checkForBgp_def nth_list_update Let_def)
  have res: "guards ?g j n ips \<Longrightarrow> \<not> gc_resolving (gd_calls ?g ! j)" for j n ips
    using assms(1) unfolding g rs guard_ok_def by (auto split: if_splits)
  have t: "taken_away g ip \<Longrightarrow> taken_away ?g ip" for ip
    unfolding taken_away_def g o using ng by metis
  have uni: "guards g i n ips \<Longrightarrow> guards g j n ips' \<Longrightarrow> i = j" for i j n ips ips'
    using assms(1) unfolding guard_ok_def by blast
  have old: "guards g j n ips \<Longrightarrow> n < n0" for j n ips using assms(1) f unfolding guard_ok_def by auto
  show ?thesis
    unfolding guard_ok_def o(1-4)
  proof (intro conjI allI impI)
    fix j n ips assume j: "guards ?g j n ips"
    show "n < bl_registered s'" using j old[of j n ips] f by (auto simp: g split: if_splits)
    show "\<not> gc_resolving (gd_calls ?g ! j)" by (rule res[OF j])
    show "i = j" if "guards ?g i n ips'" for i ips'
      using j that old[of i n ips'] old[of j n ips] uni[of i n ips' j ips] by (auto simp: g split: if_splits)
    assume op: "call_open (gd_calls g ! j)"
    show "(n, ips) \<in> set (bl_listeners s')" using j op f assms(1) unfolding guard_ok_def by (auto simp: g split: if_splits)
    show "\<forall>ip \<in> set ips. ip \<in> set (targetIps s') \<or> taken_away ?g ip"
    proof (cases "j = k")
      case False
      then have "\<forall>ip \<in> set ips. ip \<in> set (targetIps (gd_bgp g)) \<or> taken_away g ip"
        using j op assms(1) unfolding guard_ok_def g by (simp; blast)
      then show ?thesis using f t by blast
    qed (use j f in \<open>simp add: g\<close>)
  qed (use assms(1) in \<open>auto simp: guard_ok_def\<close>)
qed

lemma tunnel_event_ok:
  assumes "guard_ok g" and "k < length (gd_calls g)"
  shows "guard_ok (fst (on_call_tunnel k ev g))"
proof -
  let ?c = "gd_calls g ! k"
  obtain t es where st: "tunnel_step ev (gc_tunnel ?c) = (t, es)" by fastforce
  let ?g = "fst (on_call_tunnel k ev g)"
  have c: "onClose_set (gc_tunnel ?c) = call_open ?c" using assms unfolding guard_ok_def by blast
  note e = tunnel_step_ends[OF st c]
  have g: "guards ?g j n ips \<longleftrightarrow> guards g j n ips" for j n ips
    using assms(2) by (auto simp: on_call_tunnel_def guards_def nth_list_update Let_def st)
  have o: "call_open (gd_calls ?g ! j) = (if j = k then \<not> tt_closed t else call_open (gd_calls g ! j))"
      "onClose_set (gc_tunnel (gd_calls ?g ! j)) = (if j = k then onClose_set t else onClose_set (gc_tunnel (gd_calls g ! j)))"
      "length (gd_calls ?g) = length (gd_calls g)" "gc_resolving (gd_calls ?g ! j) = gc_resolving (gd_calls g ! j)"
      "gd_bgp ?g = (if tunnel_ended es then cancelBgp ?c (gd_bgp g) else gd_bgp g)" for j
    using assms(2) by (auto simp: on_call_tunnel_def nth_list_update Let_def st)
  have t: "taken_away g ip \<Longrightarrow> taken_away ?g ip" for ip
    unfolding taken_away_def g o using e by metis
  have r: "bl_registered (gd_bgp ?g) = bl_registered (gd_bgp g)"
    by (auto simp: o cancelBgp_def cancel_frame split: option.split)
  have mine: "guards g k n ips \<Longrightarrow> cancelBgp ?c = cancelOverlap n ips" for n ips by (simp add: guards_def cancelBgp_def)
  have other: "guards g j n ips \<Longrightarrow> call_open (gd_calls ?g ! j) \<Longrightarrow> (n, ips) \<in> set (bl_listeners (gd_bgp ?g))
      \<and> (\<forall>ip \<in> set ips. ip \<in> set (targetIps (gd_bgp ?g)) \<or> taken_away ?g ip)" for j n ips
  proof -
    assume j: "guards g j n ips" and op: "call_open (gd_calls ?g ! j)"
    then have "call_open (gd_calls g ! j)" using e by (auto simp: o split: if_splits)
    then have old: "(n, ips) \<in> set (bl_listeners (gd_bgp g))" "\<forall>ip \<in> set ips. ip \<in> set (targetIps (gd_bgp g)) \<or> taken_away g ip"
      using assms(1) j unfolding guard_ok_def by blast+
    show ?thesis
    proof (cases "tunnel_ended es \<and> (\<exists>m ips'. gc_cancel ?c = Some (m, ips'))")
      case True
      then obtain m ips' where m: "gc_cancel ?c = Some (m, ips')" "tunnel_ended es" by blast
      then have mg: "guards g k m ips'" using assms(2) by (simp add: guards_def)
      have "\<not> call_open (gd_calls ?g ! k)" using e m(2) by (simp add: o)
      then have jk: "j \<noteq> k" and gone: "ip \<in> set ips' \<Longrightarrow> taken_away ?g ip" for ip
        using op mg unfolding taken_away_def g by blast+
      have "m \<noteq> n" using jk mg j assms(1) unfolding guard_ok_def by blast
      then show ?thesis using old t gone m mine[OF mg] by (auto simp: o(5) cancel_frame)
    next
      case False
      then have "gd_bgp ?g = gd_bgp g" by (auto simp: o(5) cancelBgp_def split: option.split)
      then show ?thesis using old t by auto
    qed
  qed
  show ?thesis
    unfolding guard_ok_def g r
  proof (intro conjI allI impI)
    fix j assume "j < length (gd_calls ?g)"
    then show "onClose_set (gc_tunnel (gd_calls ?g ! j)) = call_open (gd_calls ?g ! j)"
      using assms(1) e unfolding o guard_ok_def by auto
  next
    fix j n ips assume "guards g j n ips"
    then show "n < bl_registered (gd_bgp g)" "\<not> gc_resolving (gd_calls ?g ! j)"
      using assms(1) unfolding o guard_ok_def by blast+
  next
    fix i j n ips ips' assume "guards g i n ips" "guards g j n ips'"
    then show "i = j" using assms(1) unfolding guard_ok_def by blast
  qed (use other in blast)+
qed

lemma guard_ok_step:
  assumes "guard_ok g" and "guard_step N J C x g = (g', out)"
  shows "guard_ok g'"
proof (cases x)
  case (CallConnected opts ev)
  show ?thesis
  proof (cases "makeTcpTunnel N opts ev")
    case (Inr t)
    then have "onClose_set t = (\<not> tt_closed t)" using made_tunnel_inv[OF Inr] by (simp add: tunnel_inv_def)
    then show ?thesis using connected_ok[OF assms(1)] assms(2) CallConnected Inr by auto
  qed (use assms CallConnected in auto)
next
  case (NamesResolved k r)
  then show ?thesis using resolved_ok[OF assms(1), of k r] assms by (auto split: if_splits)
next
  case (TunnelDoes k ev)
  then show ?thesis using tunnel_event_ok[OF assms(1), of k ev] assms by (auto split: if_splits)
next
  case (Collector b)
  show ?thesis
  proof (cases "of_collector b")
    case True
    obtain s s_out where st: "bgp_step J C b (gd_bgp g) = (s, s_out)" by fastforce
    then have "g' = g\<lparr>gd_bgp := s\<rparr>" using assms(2) Collector True by auto
    then show ?thesis using assms(1) collector_frame[OF True st] by (simp add: guard_ok_def taken_away_def guards_def)
  qed (use assms Collector in auto)
qed

interpretation guarding: machine "guard_step N J C" guard_ok for N J C
  by unfold_locales (rule guard_ok_step)


subsection \<open>What the guard gives\<close>

lemma reported_address:
  assumes "ip \<in> set (targetIps s)" and "(n, ips) \<in> set (bl_listeners s)" and "JStr p \<in> set ps"
    and "\<not> js_endsWith p (js ''/0'')" and "C p = Inr contains" and "contains ip"
  shows "Overlap n p \<in> set (reports C s ps)"
  using assms by (force simp: reports_def watched_def)

lemma closed_by_overlap:
  assumes "guards g k n ips" and "call_open (gd_calls g ! k)"
  shows "OnCallTunnel k (SocketDestroy (Some overlap_error)) \<in> set (on_announcement (gd_calls g) (Overlap n p))"
  using assms by (force simp: on_announcement_def guards_def tunnel_close_def)

text \<open>C18: Safety of the guard. In every run of the server's tunnels: a tunnel that is open and guarded is closed by
  every well-formed update of the collector that announces a prefix with one of its addresses, unless a
  tunnel that has ended had this address too. The socket reports the error of the overlap, and then the
  tunnel's end is reported with it and its registration is gone.\<close>

theorem overlap_closes_tunnel:
  assumes "guard_run N J C xs new_guard = (g, out)" and "guards g k n ips" and "call_open (gd_calls g ! k)"
    and "ip \<in> set ips" and "\<not> taken_away g ip"
    and "JSON_parse J message = Some msg" and "json_member msg (js ''data'') = Some d"
    and "json_member d (js ''announcements'') = Some (JArr as)" and "json_truthy (json_member d (js ''path''))"
    and "\<forall>a \<in> set as. \<exists>ps. json_member a (js ''prefixes'') = Some (JArr ps) \<and> ps \<noteq> [] \<and> (\<forall>p \<in> set ps. good_prefix C p)"
    and "a \<in> set as" and "json_member a (js ''prefixes'') = Some (JArr ps)" and "JStr p \<in> set ps"
    and "\<not> js_endsWith p (js ''/0'')" and "C p = Inr contains" and "contains ip"
  shows "\<exists>out' g'. guard_step N J C (Collector (WsData j message)) g = (g, out')
    \<and> OnCallTunnel k (SocketDestroy (Some overlap_error)) \<in> set out'
    \<and> guard_step N J C (TunnelDoes k (Failed overlap_error)) g = (g', [OnCallTunnel k (OnClose (Some overlap_error))])
    \<and> n \<notin> fst ` set (bl_listeners (gd_bgp g'))"
proof -
  have ok: "guard_ok g" by (rule guarding.run_inv[OF guard_ok_start assms(1)])
  then have w: "ip \<in> set (targetIps (gd_bgp g))" "(n, ips) \<in> set (bl_listeners (gd_bgp g))"
      "onClose_set (gc_tunnel (gd_calls g ! k))"
    using assms(2-5) unfolding guard_ok_def guards_def by blast+
  have "bgp_onMessage J C message (gd_bgp g) =
      (concat (map (\<lambda>a. case json_member a (js ''prefixes'') of Some (JArr ps) \<Rightarrow> reports C (gd_bgp g) ps | _ \<Rightarrow> []) as), None)"
    using scan_announcements_reports[OF assms(10,9), of "gd_bgp g"] assms(6-8) by (simp add: bgp_onMessage_def opt_member_def)
  moreover have "Overlap n p \<in> set (reports C (gd_bgp g) ps)" by (rule reported_address[where C = C, OF w(1,2) assms(13-16)])
  ultimately have "Overlap n p \<in> set (fst (bgp_onMessage J C message (gd_bgp g)))"
    using assms(11,12) by (force simp: assms(12))
  then have o: "OnCallTunnel k (SocketDestroy (Some overlap_error))
      \<in> set (snd (guard_step N J C (Collector (WsData j message)) g))"
    using closed_by_overlap[OF assms(2,3), of p] by auto
  have "n \<notin> fst ` set (bl_listeners (cancelOverlap n ips (gd_bgp g)))" by (auto simp: cancelOverlap_def)
  then have "\<exists>g'. guard_step N J C (TunnelDoes k (Failed overlap_error)) g = (g', [OnCallTunnel k (OnClose (Some overlap_error))])
      \<and> n \<notin> fst ` set (bl_listeners (gd_bgp g'))"
    using assms(2,3) w(3) by (simp add: guards_def on_call_tunnel_def Let_def onSocketClose_def tunnel_ended_def cancelBgp_def)
  then show ?thesis using o by auto
qed

text \<open>A registration whose tunnel has ended is never taken back.\<close>

definition leaked :: "nat \<Rightarrow> nat \<Rightarrow> jsstring list \<Rightarrow> guard \<Rightarrow> bool" where
  "leaked k n ips g \<longleftrightarrow> guard_ok g \<and> guards g k n ips \<and> \<not> call_open (gd_calls g ! k) \<and> (n, ips) \<in> set (bl_listeners (gd_bgp g))"

lemma leaked_step:
  assumes "leaked k n ips g" and "guard_step N J C x g = (g', out)"
  shows "leaked k n ips g'"
proof -
  have ok: "guard_ok g" "guards g k n ips" "\<not> call_open (gd_calls g ! k)" "(n, ips) \<in> set (bl_listeners (gd_bgp g))"
    using assms(1) by (auto simp: leaked_def)
  have "guards g' k n ips \<and> \<not> call_open (gd_calls g' ! k) \<and> (n, ips) \<in> set (bl_listeners (gd_bgp g'))"
  proof (cases x)
    case (CallConnected opts ev)
    then show ?thesis using assms(2) ok(2-4) by (auto simp: guards_def nth_append split: sum.splits)
  next
    case (NamesResolved j r)
    show ?thesis
    proof (cases "j < length (gd_calls g) \<and> gc_resolving (gd_calls g ! j)")
      case True
      then have "j \<noteq> k" using ok(1,2) unfolding guard_ok_def by blast
      then show ?thesis using True assms(2) NamesResolved ok(2-4)
        by (auto simp: checkForBgp_def guards_def Let_def onOverlap_def split: sum.split)
    qed (use assms(2) NamesResolved ok in auto)
  next
    case (TunnelDoes j ev)
    show ?thesis
    proof (cases "j < length (gd_calls g)")
      case True
      obtain t es where st: "tunnel_step ev (gc_tunnel (gd_calls g ! j)) = (t, es)" by fastforce
      have "onClose_set (gc_tunnel (gd_calls g ! j)) = call_open (gd_calls g ! j)" using True ok(1) unfolding guard_ok_def by blast
      note e = tunnel_step_ends[OF st this]
      have g': "g' = g\<lparr>gd_bgp := (if tunnel_ended es then cancelBgp (gd_calls g ! j) (gd_bgp g) else gd_bgp g),
          gd_calls := (gd_calls g)[j := (gd_calls g ! j)\<lparr>gc_tunnel := t\<rparr>]\<rparr>"
        using assms(2) TunnelDoes True by (auto simp: on_call_tunnel_def st Let_def)
      have other: "(n, ips) \<in> set (bl_listeners (cancelBgp (gd_calls g ! j) (gd_bgp g)))" if "j \<noteq> k"
      proof (cases "gc_cancel (gd_calls g ! j)")
        case (Some p)
        then have "guards g j (fst p) (snd p)" using True by (simp add: guards_def)
        then have "fst p \<noteq> n" using that ok(1,2) unfolding guard_ok_def by metis
        then show ?thesis using Some ok(4) by (cases p) (simp add: cancelBgp_def cancel_frame)
      qed (simp add: cancelBgp_def ok(4))
      show ?thesis using e other ok(2-4) True
        by (cases "j = k") (auto simp: g' guards_def)
    qed (use assms(2) TunnelDoes ok in auto)
  next
    case (Collector b)
    show ?thesis
    proof (cases "of_collector b")
      case True
      obtain s s_out where st: "bgp_step J C b (gd_bgp g) = (s, s_out)" by fastforce
      then show ?thesis using assms(2) Collector True ok(2-4) collector_frame[OF True st] by (auto simp: guards_def)
    qed (use assms Collector ok in auto)
  qed
  then show ?thesis using guard_ok_step[OF ok(1) assms(2)] by (simp add: leaked_def)
qed

interpretation leaking: machine "guard_step N J C" "leaked k n ips" for N J C k n ips
  by unfold_locales (rule leaked_step)

text \<open>C20: A tunnel that ends while the names of its host are being looked up is guarded for ever: its end has nothing
  to cancel yet, and the registration made afterwards stays in the listener, whatever happens then.\<close>

theorem guard_of_ended_tunnel_stays:
  assumes "guard_run N J C xs new_guard = (g, out)" and "k < length (gd_calls g)" and "gc_resolving (gd_calls g ! k)"
    and "guard_run N J C (TunnelDoes k Closed # NamesResolved k (Inr ips) # ys) g = (g', out')"
  shows "(bl_registered (gd_bgp g), ips) \<in> set (bl_listeners (gd_bgp g'))"
proof -
  let ?g1 = "fst (on_call_tunnel k Closed g)" and ?n = "bl_registered (gd_bgp g)"
  let ?g2 = "checkForBgp k (Inr ips) ?g1"
  have ok: "guard_ok g" by (rule guarding.run_inv[OF guard_ok_start assms(1)])
  have nc: "gc_cancel (gd_calls g ! k) = None"
    using ok assms(2,3) unfolding guard_ok_def guards_def by (cases "gc_cancel (gd_calls g ! k)") auto
  have g1: "gd_bgp ?g1 = gd_bgp g" "length (gd_calls ?g1) = length (gd_calls g)" "gc_resolving (gd_calls ?g1 ! k)"
      "\<not> call_open (gd_calls ?g1 ! k)"
    using assms(2,3) nc by (auto simp: on_call_tunnel_def Let_def onSocketClose_def cancelBgp_def split: if_splits)
  have run: "guard_run N J C ys ?g2 = (g', snd (guard_run N J C ys ?g2))"
    using assms(4) g1 assms(2) by (auto split: prod.splits)
  have "guard_ok ?g1" by (rule tunnel_event_ok[OF ok assms(2)])
  from resolved_ok[OF this, of k "Inr ips"] have "guard_ok ?g2" using g1 assms(2) by simp
  moreover have "guards ?g2 k ?n ips \<and> \<not> call_open (gd_calls ?g2 ! k) \<and> (?n, ips) \<in> set (bl_listeners (gd_bgp ?g2))"
    using g1 assms(2) by (simp add: checkForBgp_def guards_def Let_def onOverlap_def)
  ultimately have "leaked k ?n ips ?g2" by (simp add: leaked_def)
  then have "leaked k ?n ips g'" by (rule leaking.run_inv[OF _ run])
  then show ?thesis by (simp add: leaked_def)
qed

subsection \<open>Witnesses\<close>

text \<open>A tunnel to \<open>1.2.3.4\<close>, guarded, and the update of the listener's example.\<close>

definition guard_inputs :: "guard_input list" where
  "guard_inputs = [CallConnected ref_opts Connected, NamesResolved 0 (Inr [js ''1.2.3.4''])]"

definition one_guard :: guard where
  "one_guard = fst (guard_run ref_net \<lparr>JSON_parse = (\<lambda>_. Some ref_update), JSON_stringify = (\<lambda>_. [])\<rparr>
     (\<lambda>_. Inr (\<lambda>ip. ip = js ''1.2.3.4'')) guard_inputs new_guard)"

lemma one_guard:
  "one_guard = \<lparr>gd_bgp = snd (onOverlap [js ''1.2.3.4''] createBgpListener),
     gd_calls = [\<lparr>gc_tunnel = \<lparr>createRequest_opts = ref_opts, tt_transcript = [], tt_closed = False, onClose_set = True\<rparr>,
       gc_resolving = False, gc_cancel = Some (0, [js ''1.2.3.4''])\<rparr>]\<rparr>"
  by (simp add: one_guard_def guard_inputs_def ref_tunnel new_guard_def checkForBgp_def onOverlap_def createBgpListener_def openWs_def Let_def)

theorem overlap_closes_tunnel_witness:
  "OnCallTunnel 0 (SocketDestroy (Some overlap_error)) \<in>
     set (snd (guard_step ref_net \<lparr>JSON_parse = (\<lambda>_. Some ref_update), JSON_stringify = (\<lambda>_. [])\<rparr>
       (\<lambda>_. Inr (\<lambda>ip. ip = js ''1.2.3.4'')) (Collector (WsData 0 [])) one_guard))"
proof -
  let ?J = "\<lparr>JSON_parse = (\<lambda>_. Some ref_update), JSON_stringify = (\<lambda>_. [])\<rparr>" and ?C = "\<lambda>_ :: jsstring. Inr (\<lambda>ip. ip = js ''1.2.3.4'')"
  let ?ps = "[JStr (js ''1.2.0.0/16''), JStr (js ''0.0.0.0/0'')]"
  let ?a = "JObj [(js ''prefixes'', JArr ?ps)]"
  have run: "guard_run ref_net ?J ?C guard_inputs new_guard = (one_guard, snd (guard_run ref_net ?J ?C guard_inputs new_guard))"
    by (simp add: one_guard_def)
  have n: "js ''path'' \<noteq> js ''announcements''" by (simp add: js_def)
  have "\<not> js_endsWith (js ''1.2.0.0/16'') (js ''/0'')" by (simp add: js_endsWith_def is_prefix_def js_def)
  then show ?thesis
    using overlap_closes_tunnel[OF run, of 0 0 "[js ''1.2.3.4'']" "js ''1.2.3.4''" "[]" ref_update
        "JObj [(js ''path'', JArr []), (js ''announcements'', JArr [?a])]" "[?a]" ?a ?ps "js ''1.2.0.0/16''" "\<lambda>ip. ip = js ''1.2.3.4''" 0]
    by (auto simp: one_guard guards_def taken_away_def less_Suc_eq ref_update_def json_member_def n not_sym[OF n] good_prefix_def)
qed

theorem guard_of_ended_tunnel_stays_witness:
  "bl_listeners (gd_bgp (fst (guard_run ref_net \<lparr>JSON_parse = (\<lambda>_. None), JSON_stringify = (\<lambda>_. [])\<rparr> (\<lambda>_. Inr (\<lambda>_. True))
     [CallConnected ref_opts Connected, TunnelDoes 0 Closed, NamesResolved 0 (Inr [js ''1.2.3.4''])] new_guard))) \<noteq> []"
proof -
  let ?J = "\<lparr>JSON_parse = (\<lambda>_. None), JSON_stringify = (\<lambda>_. [])\<rparr>" and ?C = "\<lambda>_ :: jsstring. Inr (\<lambda>_ :: jsstring. True)"
  let ?g = "fst (guard_run ref_net ?J ?C [CallConnected ref_opts Connected] new_guard)"
  let ?run = "guard_run ref_net ?J ?C [TunnelDoes 0 Closed, NamesResolved 0 (Inr [js ''1.2.3.4''])] ?g"
  have g: "length (gd_calls ?g) = 1" "gc_resolving (gd_calls ?g ! 0)" by (simp_all add: ref_tunnel new_guard_def)
  have run: "guard_run ref_net ?J ?C [CallConnected ref_opts Connected] new_guard = (?g, snd (guard_run ref_net ?J ?C
      [CallConnected ref_opts Connected] new_guard))"
    by (simp only: prod.collapse)
  have all: "guard_run ref_net ?J ?C ([CallConnected ref_opts Connected] @ [TunnelDoes 0 Closed, NamesResolved 0 (Inr [js ''1.2.3.4''])])
      new_guard = (fst ?run, snd (guard_run ref_net ?J ?C [CallConnected ref_opts Connected] new_guard) @ snd ?run)"
    unfolding run_steps_append by (simp only: split_beta Let_def prod.collapse fst_conv snd_conv)
  have last: "?run = (fst ?run, snd ?run)" by (simp only: prod.collapse)
  have "(bl_registered (gd_bgp ?g), [js ''1.2.3.4'']) \<in> set (bl_listeners (gd_bgp (fst ?run)))"
    by (rule guard_of_ended_tunnel_stays[OF run _ _ last]) (simp_all only: g less_one)
  then show ?thesis using all by (metis append_Cons append_Nil empty_iff empty_set fst_conv)
qed

end
