(* ===== verification/Window_Rpc.thy ===== *)
theory Window_Rpc
  imports Claims Machine Base64
begin

text \<open>
  The RPC of a web page with the application around it (\<open>src/window-rpc/setup-window-rpc.ts\<close>, \<open>utils.ts\<close>,
  \<open>window-rpc-zk.ts\<close>) and the JSON its messages travel in, with bytes as base64
  (\<open>src/utils/b64-json.ts\<close>).

  A message of the window is a request, whose handler ends at once or works on (a claim, the
  benchmark), or the answer of the application to a call that such a handler has made: the ZK and OPRF
  operators and the update of the parameters are calls to the application. The state holds the requests,
  numbered in order, the promises of the calls and what waits for them. Logging is left out, save for the
  lines that \<open>setLogLevel\<close> sends to the application.
\<close>

subsection \<open>Values and JSON\<close>

datatype wval =
    WNull
  | WBool bool
  | WNum int
  | WStr jsstring
  | WBytes bytes
  | WArr "wval list"
  | WObj "(jsstring \<times> wval) list"

fun w_member :: "wval \<Rightarrow> jsstring \<Rightarrow> wval option" where
  "w_member (WObj ms) k = map_of ms k"
| "w_member _ _ = None"

fun w_truthy :: "wval option \<Rightarrow> bool" where
  "w_truthy None = False"
| "w_truthy (Some WNull) = False"
| "w_truthy (Some (WBool b)) = b"
| "w_truthy (Some (WNum n)) = (n \<noteq> 0)"
| "w_truthy (Some (WStr s)) = (s \<noteq> [])"
| "w_truthy (Some _) = True"

text \<open>
  The packages and the page: base64 of \<open>ethers\<close>, which reads whatever the member \<open>value\<close> holds, \<open>String\<close> of
  what is no string, URLs (host and protocol), the libraries of the requests that are answered at once,
  the time as text, loggers of a level, the stack of an error, and the members of \<open>window\<close> that a channel can name.
\<close>

record window_env =
  we_json :: json_lib
  we_encode :: "bytes \<Rightarrow> jsstring"
  we_decode :: "wval option \<Rightarrow> js_error + bytes"
  we_string :: "wval \<Rightarrow> jsstring"
  we_claims :: claim_lib
  we_hexlify :: "bytes \<Rightarrow> jsstring"
  we_base :: jsstring
  we_url :: "jsstring \<Rightarrow> js_error + jsstring \<times> jsstring"
  we_extractHTMLElement :: "wval option \<Rightarrow> wval option \<Rightarrow> wval option \<Rightarrow> js_error + wval"
  we_extractJSONValueIndex :: "wval option \<Rightarrow> wval option \<Rightarrow> js_error + wval"
  we_date :: "nat \<Rightarrow> jsstring"
  we_makeLogger :: "wval option \<Rightarrow> js_error + unit"
  we_stack :: "js_error \<Rightarrow> jsstring"
  we_channels :: "wval \<Rightarrow> bool"

definition b64_type :: jsstring where
  "b64_type = js ''uint8array''"

text \<open>What \<open>JSON.stringify\<close> with \<open>B64_JSON_REPLACER\<close> writes and \<open>JSON.parse\<close> with \<open>B64_JSON_REVIVER\<close> makes of it.\<close>

fun b64_json_replacer :: "(bytes \<Rightarrow> jsstring) \<Rightarrow> wval \<Rightarrow> json" where
  "b64_json_replacer enc WNull = JNull"
| "b64_json_replacer enc (WBool b) = JBool b"
| "b64_json_replacer enc (WNum n) = JNum n"
| "b64_json_replacer enc (WStr s) = JStr s"
| "b64_json_replacer enc (WBytes b) = JObj [(js ''type'', JStr b64_type), (js ''value'', JStr (enc b))]"
| "b64_json_replacer enc (WArr vs) = JArr (map (b64_json_replacer enc) vs)"
| "b64_json_replacer enc (WObj ms) = JObj (map (\<lambda>(k, v). (k, b64_json_replacer enc v)) ms)"

definition revive_object :: "(wval option \<Rightarrow> js_error + bytes) \<Rightarrow> (jsstring \<times> wval) list \<Rightarrow> js_error + wval" where
  "revive_object dec ms =
     (if map_of ms (js ''type'') = Some (WStr b64_type)
      then bindR (dec (map_of ms (js ''value''))) (\<lambda>b. Inr (WBytes b)) else Inr (WObj ms))"

fun b64_json_reviver :: "(wval option \<Rightarrow> js_error + bytes) \<Rightarrow> json \<Rightarrow> js_error + wval"
  and revive_all :: "(wval option \<Rightarrow> js_error + bytes) \<Rightarrow> json list \<Rightarrow> js_error + wval list"
  and revive_members :: "(wval option \<Rightarrow> js_error + bytes) \<Rightarrow> (jsstring \<times> json) list \<Rightarrow> js_error + (jsstring \<times> wval) list" where
  "b64_json_reviver dec JNull = Inr WNull"
| "b64_json_reviver dec (JBool b) = Inr (WBool b)"
| "b64_json_reviver dec (JNum n) = Inr (WNum n)"
| "b64_json_reviver dec (JStr s) = Inr (WStr s)"
| "b64_json_reviver dec (JArr xs) = bindR (revive_all dec xs) (\<lambda>vs. Inr (WArr vs))"
| "b64_json_reviver dec (JObj ms) = bindR (revive_members dec ms) (revive_object dec)"
| "revive_all dec [] = Inr []"
| "revive_all dec (x # xs) = bindR (b64_json_reviver dec x) (\<lambda>v. bindR (revive_all dec xs) (\<lambda>vs. Inr (v # vs)))"
| "revive_members dec [] = Inr []"
| "revive_members dec ((k, x) # ms) =
     bindR (b64_json_reviver dec x) (\<lambda>v. bindR (revive_members dec ms) (\<lambda>vs. Inr ((k, v) # vs)))"

definition window_text :: "window_env \<Rightarrow> wval \<Rightarrow> jsstring" where
  "window_text E v = JSON_stringify (we_json E) (b64_json_replacer (we_encode E) v)"

subsection \<open>The answer to a claim\<close>

definition getWsApiUrlFromBaseUrl :: "window_env \<Rightarrow> js_error + jsstring" where
  "getWsApiUrlFromBaseUrl E =
     bindR (we_url E (we_base E)) (\<lambda>(host, protocol).
       Inr ((if protocol = js ''https:'' then js ''wss:'' else js ''ws:'') @ js ''//'' @ host @ js ''/ws''))"

definition claim_value :: "ProviderClaimData \<Rightarrow> wval" where
  "claim_value c = WObj [(js ''provider'', WStr (ci_provider c)), (js ''parameters'', WStr (ci_parameters c)),
     (js ''owner'', WStr (cd_owner c)), (js ''timestampS'', WNum (cd_timestampS c)), (js ''context'', WStr (ci_context c)),
     (js ''identifier'', WStr (pc_identifier c)), (js ''epoch'', WNum (pc_epoch c))]"

definition mapToCreateClaimResponse :: "window_env \<Rightarrow> ClaimTunnelResponse \<Rightarrow> js_error + wval" where
  "mapToCreateClaimResponse E r =
     (case cs_claim r of
        None \<Rightarrow> bindR (fromProto (we_json E) (cs_error r)) (\<lambda>e. Inl (AttestorErr e))
      | Some c \<Rightarrow>
          bindR (getIdentifierFromClaimInfo (we_claims E) c) (\<lambda>(c', identifier).
            case cs_signatures r of
              None \<Rightarrow> Inl (JsTypeError ''Cannot read properties of undefined'')
            | Some g \<Rightarrow>
                bindR (getWsApiUrlFromBaseUrl E) (\<lambda>url.
                  Inr (WObj [(js ''identifier'', WStr identifier), (js ''claimData'', claim_value c'),
                    (js ''witnesses'', WArr [WObj [(js ''id'', WStr (sig_attestorAddress g)), (js ''url'', WStr url)]]),
                    (js ''signatures'', WArr [WStr (js_toLowerCase (we_hexlify E (sig_claim g)))])]))))"

subsection \<open>Requests and calls\<close>

record window_request =
  wq_source :: "nat option"
  wq_channel :: "wval option"
  wq_id :: wval
  wq_module :: wval
  wq_type :: "wval option"
  wq_request :: "wval option"
  wq_open :: bool

text \<open>How a call to the application ends.\<close>

datatype app_outcome = AppReturned "wval option" | AppRefused "wval option" | AppTimedOut

record app_wait =
  aw_call :: nat
  aw_type :: jsstring
  aw_id :: jsstring
  aw_due :: nat

record window_rpc =
  wr_now :: nat
  wr_requests :: "window_request list"
  wr_waits :: "app_wait list"
  wr_calls :: "app_outcome option list"

datatype window_target = ToChannel wval | ToWindow nat

datatype window_output =
    Posted window_target jsstring
  | WorkStarted nat bool
  | UnhandledError

definition new_window :: window_rpc where
  "new_window = \<lparr>wr_now = 0, wr_requests = [], wr_waits = [], wr_calls = []\<rparr>"

subsection \<open>Sending\<close>

text \<open>
  \<open>sendMessage\<close>: a channel that \<open>window\<close> does not have swallows the message; without a channel and a source it
  throws (\<open>None\<close>).
\<close>

definition window_post :: "window_env \<Rightarrow> window_request \<Rightarrow> wval \<Rightarrow> window_output list option" where
  "window_post E q v =
     (case wq_channel q of
        Some c \<Rightarrow> Some (if we_channels E c then [Posted (ToChannel c) (window_text E v)] else [])
      | None \<Rightarrow> (case wq_source q of Some w \<Rightarrow> Some [Posted (ToWindow w) (window_text E v)] | None \<Rightarrow> None))"

definition response_value :: "window_request \<Rightarrow> (jsstring \<times> wval) list \<Rightarrow> wval" where
  "response_value q ms = WObj (ms @ [(js ''id'', wq_id q), (js ''module'', WStr (js ''attestor-core'')), (js ''isResponse'', WBool True)])"

definition error_value :: "window_env \<Rightarrow> js_error \<Rightarrow> (jsstring \<times> wval) list" where
  "error_value E e = [(js ''type'', WStr (js ''error'')),
     (js ''data'', WObj [(js ''message'', WStr (js (error_message e))), (js ''stack'', WStr (we_stack E e))])]"

text \<open>\<open>respond\<close>, in the handler or in its \<open>catch\<close>: when it throws there is no one to catch it.\<close>

definition window_respond :: "window_env \<Rightarrow> window_request \<Rightarrow> (jsstring \<times> wval) list \<Rightarrow> window_output list" where
  "window_respond E q ms = (case window_post E q (response_value q ms) of None \<Rightarrow> [UnhandledError] | Some out \<Rightarrow> out)"

definition done_value :: "jsstring \<Rightarrow> wval option \<Rightarrow> (jsstring \<times> wval) list" where
  "done_value t v = (js ''type'', WStr (t @ js ''Done'')) # (case v of None \<Rightarrow> [] | Some w \<Rightarrow> [(js ''response'', w)])"

definition answer_window :: "window_env \<Rightarrow> window_request \<Rightarrow> jsstring \<Rightarrow> js_error + wval option \<Rightarrow> window_output list" where
  "answer_window E q t r = window_respond E q (case r of Inl e \<Rightarrow> error_value E e | Inr v \<Rightarrow> done_value t v)"

subsection \<open>Requests of the application\<close>

definition VALID_MODULES :: "wval list" where
  "VALID_MODULES = [WStr (js ''attestor-core''), WStr (js ''witness-sdk'')]"

definition claim_types :: "jsstring list" where
  "claim_types = [js ''createClaim'', js ''createClaimOnAvs'', js ''createClaimOnMechain'']"

text \<open>\<open>x.key\<close> of what may be \<open>undefined\<close> or \<open>null\<close>, and \<open>String(x)\<close>.\<close>

definition member_or_throw :: "wval option \<Rightarrow> jsstring \<Rightarrow> js_error + wval option" where
  "member_or_throw x k =
     (case x of
        None \<Rightarrow> Inl (JsTypeError ''Cannot read properties of undefined'')
      | Some WNull \<Rightarrow> Inl (JsTypeError ''Cannot read properties of null'')
      | Some v \<Rightarrow> Inr (w_member v k))"

fun text_of_value :: "window_env \<Rightarrow> wval \<Rightarrow> jsstring" where
  "text_of_value E (WStr s) = s"
| "text_of_value E v = we_string E v"

definition rpc_operators :: "wval option \<Rightarrow> bool" where
  "rpc_operators mode = (mode \<noteq> None \<and> mode \<noteq> Some (WStr (js ''default'')))"

text \<open>The context of the claim is parsed before the work starts; the result tells where its proofs are made.\<close>

definition start_claim :: "window_env \<Rightarrow> wval option \<Rightarrow> js_error + bool" where
  "start_claim E request =
     bindR (member_or_throw request (js ''context'')) (\<lambda>context0.
     bindR (if w_truthy context0
            then (case JSON_parse (we_json E) (text_of_value E (the context0)) of
                    None \<Rightarrow> Inl (JsSyntaxError ''JSON.parse'') | Some _ \<Rightarrow> Inr ())
            else Inr ()) (\<lambda>_.
     bindR (member_or_throw request (js ''zkOperatorMode'')) (\<lambda>mode. Inr (rpc_operators mode))))"

definition window_request_done :: "window_env \<Rightarrow> nat \<Rightarrow> jsstring \<Rightarrow> wval option \<Rightarrow> (js_error + wval option) option" where
  "window_request_done E now t request =
     (let arg = (\<lambda>k. member_or_throw request (js k)) in
      if t = js ''extractHtmlElement'' then
        Some (bindR (arg ''html'') (\<lambda>html. bindR (arg ''xpathExpression'') (\<lambda>x. bindR (arg ''contentsOnly'') (\<lambda>c.
          bindR (we_extractHTMLElement E html x c) (\<lambda>v. Inr (Some v))))))
      else if t = js ''extractJSONValueIndex'' then
        Some (bindR (arg ''json'') (\<lambda>j. bindR (arg ''jsonPath'') (\<lambda>p.
          bindR (we_extractJSONValueIndex E j p) (\<lambda>v. Inr (Some v)))))
      else if t = js ''setLogLevel'' then Some (bindR (arg ''logLevel'') (\<lambda>l. bindR (we_makeLogger E l) (\<lambda>_. Inr None)))
      else if t = js ''ping'' then Some (Inr (Some (WObj [(js ''pong'', WStr (we_date E now))])))
      else None)"

definition handle_request :: "window_env \<Rightarrow> window_request \<Rightarrow> window_rpc \<Rightarrow> window_rpc \<times> window_output list" where
  "handle_request E q s =
     (let n = length (wr_requests s);
          add = (\<lambda>b. s\<lparr>wr_requests := wr_requests s @ [q\<lparr>wq_open := b\<rparr>]\<rparr>) in
      case wq_type q of
        Some (WStr t) \<Rightarrow>
          if t \<in> set claim_types then
            (case start_claim E (wq_request q) of
               Inl e \<Rightarrow> (add False, window_respond E q (error_value E e))
             | Inr ops \<Rightarrow> (add True, [WorkStarted n ops]))
          else if t = js ''getCurrentMemoryUsage'' \<or> t = js ''benchmarkZK'' then (add True, [WorkStarted n False])
          else (case window_request_done E (wr_now s) t (wq_request q) of
                  Some r \<Rightarrow> (add False, answer_window E q t r)
                | None \<Rightarrow> (add False, []))
      | _ \<Rightarrow> (add False, []))"

subsection \<open>Answers of the application\<close>

text \<open>The listener of \<open>waitForResponse\<close>: \<open>None\<close> when the message is not for it, or when it throws.\<close>

definition answer_of :: "wval \<Rightarrow> app_wait \<Rightarrow> app_outcome option" where
  "answer_of msg w =
     (if w_member msg (js ''id'') \<noteq> Some (WStr (aw_id w)) then None
      else if w_member msg (js ''type'') = Some (WStr (js ''error'')) then
        (case member_or_throw (w_member msg (js ''data'')) (js ''message'') of Inl _ \<Rightarrow> None | Inr m \<Rightarrow> Some (AppRefused m))
      else if w_member msg (js ''type'') = Some (WStr (aw_type w @ js ''Done'')) then Some (AppReturned (w_member msg (js ''response'')))
      else None)"

definition settled_calls :: "(app_wait \<Rightarrow> app_outcome option) \<Rightarrow> app_wait list \<Rightarrow> app_outcome option list \<Rightarrow> app_outcome option list" where
  "settled_calls f = fold (\<lambda>w cs. case f w of None \<Rightarrow> cs | Some r \<Rightarrow> cs[aw_call w := Some r])"

definition settle_calls :: "(app_wait \<Rightarrow> app_outcome option) \<Rightarrow> window_rpc \<Rightarrow> window_rpc" where
  "settle_calls f s =
     s\<lparr>wr_waits := filter (\<lambda>w. f w = None) (wr_waits s),
       wr_calls := settled_calls f (wr_waits s) (wr_calls s)\<rparr>"

text \<open>\<open>bridge.send\<close> after \<open>waitForResponse\<close>; the timer is that of its default, a minute.\<close>

definition callApp :: "window_env \<Rightarrow> nat \<Rightarrow> jsstring \<Rightarrow> jsstring \<Rightarrow> wval \<Rightarrow> window_rpc \<Rightarrow> window_rpc \<times> window_output list" where
  "callApp E n t i request s =
     (if n < length (wr_requests s) then
        (s\<lparr>wr_waits := wr_waits s @ [\<lparr>aw_call = length (wr_calls s), aw_type = t, aw_id = i, aw_due = wr_now s + 60000\<rparr>],
           wr_calls := wr_calls s @ [None]\<rparr>,
         case window_post E (wr_requests s ! n) (WObj [(js ''type'', WStr t), (js ''id'', WStr i), (js ''request'', request),
             (js ''module'', WStr (js ''attestor-core''))]) of
           None \<Rightarrow> [] | Some out \<Rightarrow> out)
      else (s, []))"

subsection \<open>Messages\<close>

datatype window_data = NoData | DataText jsstring | DataValue wval

fun parse_window_data :: "window_env \<Rightarrow> window_data \<Rightarrow> (js_error + wval) option" where
  "parse_window_data E NoData = None"
| "parse_window_data E (DataText s) =
     (if s = [] then None
      else Some (case JSON_parse (we_json E) s of
                   None \<Rightarrow> Inl (JsSyntaxError ''JSON.parse'')
                 | Some j \<Rightarrow> b64_json_reviver (we_decode E) j))"
| "parse_window_data E (DataValue v) = (if w_truthy (Some v) then Some (Inr v) else None)"

definition request_of :: "nat option \<Rightarrow> wval \<Rightarrow> window_request" where
  "request_of src req =
     \<lparr>wq_source = src, wq_channel = (if w_truthy (w_member req (js ''channel'')) then w_member req (js ''channel'') else None),
      wq_id = (case w_member req (js ''id'') of None \<Rightarrow> WNull | Some i \<Rightarrow> i),
      wq_module = (case w_member req (js ''module'') of None \<Rightarrow> WNull | Some m \<Rightarrow> m),
      wq_type = w_member req (js ''type''), wq_request = w_member req (js ''request''), wq_open = False\<rparr>"

text \<open>What is known of a message before it has been read: where it came from.\<close>

definition unread_request :: "nat option \<Rightarrow> window_request" where
  "unread_request src = \<lparr>wq_source = src, wq_channel = None, wq_id = WStr [], wq_module = WNull, wq_type = None, wq_request = None,
     wq_open = False\<rparr>"

definition is_ours :: "wval \<Rightarrow> bool" where
  "is_ours req \<longleftrightarrow> (case w_member req (js ''module'') of None \<Rightarrow> False | Some m \<Rightarrow> m \<in> set VALID_MODULES)"

definition onWindowMessage :: "window_env \<Rightarrow> nat option \<Rightarrow> window_data \<Rightarrow> window_rpc \<Rightarrow> window_rpc \<times> window_output list" where
  "onWindowMessage E src d s =
     (case parse_window_data E d of
        None \<Rightarrow> (s, [])
      | Some (Inl e) \<Rightarrow> (s, window_respond E (unread_request src) (error_value E e))
      | Some (Inr WNull) \<Rightarrow> (s, window_respond E (unread_request src) (error_value E (JsTypeError ''Cannot read properties of null'')))
      | Some (Inr req) \<Rightarrow>
          if \<not> is_ours req then (s, [])
          else
            (let s1 = settle_calls (answer_of req) s in
             if w_truthy (w_member req (js ''isResponse'')) \<or> \<not> w_truthy (w_member req (js ''id'')) then (s1, [])
             else handle_request E (request_of src req) s1))"

subsection \<open>Steps\<close>

datatype work_result = ClaimMade ClaimTunnelResponse | TaskMade wval "ClaimTunnelResponse list" | WorkValue wval

definition work_value :: "window_env \<Rightarrow> work_result \<Rightarrow> js_error + wval" where
  "work_value E r =
     (case r of
        ClaimMade rsp \<Rightarrow> mapToCreateClaimResponse E rsp
      | TaskMade taskId rsps \<Rightarrow> bindR (mapR (mapToCreateClaimResponse E) rsps) (\<lambda>vs.
          Inr (WObj [(js ''taskId'', taskId), (js ''data'', WArr vs)]))
      | WorkValue v \<Rightarrow> Inr v)"

text \<open>
  \<open>WorkDone\<close> is the end of the promise that a handler awaits, \<open>WorkStep\<close> a progress callback of a claim, \<open>AppCall\<close> a call
  it makes to the application (with its type, its random id and what it asks), \<open>LogLine\<close> a line of the logger
  that a \<open>setLogLevel\<close> made.
\<close>

datatype window_input =
    WindowMessage "nat option" window_data
  | WorkDone nat "js_error + work_result"
  | WorkStep nat wval
  | AppCall nat jsstring jsstring wval
  | LogLine nat jsstring wval
  | WindowElapse nat

definition tell_app :: "window_env \<Rightarrow> window_request \<Rightarrow> (jsstring \<times> wval) list \<Rightarrow> window_output list" where
  "tell_app E q ms =
     (case window_post E q (WObj (ms @ [(js ''module'', wq_module q), (js ''id'', wq_id q)])) of None \<Rightarrow> [] | Some out \<Rightarrow> out)"

definition step_message :: "window_request \<Rightarrow> wval \<Rightarrow> (jsstring \<times> wval) list" where
  "step_message q step =
     (case wq_type q of
        Some (WStr t) \<Rightarrow> [(js ''type'', WStr (t @ js ''Step'')),
          (js ''step'', if t = js ''createClaim''
             then WObj [(js ''name'', WStr (if wq_module q = WStr (js ''witness-sdk'') then js ''witness-progress'' else js ''attestor-progress'')),
                        (js ''step'', step)]
             else step)]
      | _ \<Rightarrow> [])"

definition sends_logs :: "window_request \<Rightarrow> bool" where
  "sends_logs q \<longleftrightarrow> wq_type q = Some (WStr (js ''setLogLevel''))
     \<and> (case wq_request q of None \<Rightarrow> False | Some r \<Rightarrow> w_truthy (w_member r (js ''sendLogsToApp'')))"

fun window_step :: "window_env \<Rightarrow> window_input \<Rightarrow> window_rpc \<Rightarrow> window_rpc \<times> window_output list" where
  "window_step E (WindowMessage src d) s = onWindowMessage E src d s"
| "window_step E (WorkDone n r) s =
     (if n < length (wr_requests s) \<and> wq_open (wr_requests s ! n) then
        (let q = wr_requests s ! n in
         (s\<lparr>wr_requests := (wr_requests s)[n := q\<lparr>wq_open := False\<rparr>]\<rparr>,
          answer_window E q (case wq_type q of Some (WStr t) \<Rightarrow> t | _ \<Rightarrow> [])
            (bindR (bindR r (work_value E)) (\<lambda>v. Inr (Some v)))))
      else (s, []))"
| "window_step E (WorkStep n step) s =
     (if n < length (wr_requests s) \<and> wq_open (wr_requests s ! n) \<and> wq_type (wr_requests s ! n) \<in> Some ` WStr ` set claim_types
      then (s, tell_app E (wr_requests s ! n) (step_message (wr_requests s ! n) step)) else (s, []))"
| "window_step E (AppCall n t i request) s = callApp E n t i request s"
| "window_step E (LogLine n level message) s =
     (if n < length (wr_requests s) \<and> sends_logs (wr_requests s ! n)
      then (s, tell_app E (wr_requests s ! n) [(js ''type'', WStr (js ''log'')), (js ''level'', WStr level), (js ''message'', message)])
      else (s, []))"
| "window_step E (WindowElapse d) s =
     (settle_calls (\<lambda>w. if aw_due w \<le> wr_now s + d then Some AppTimedOut else None) (s\<lparr>wr_now := wr_now s + d\<rparr>), [])"

abbreviation window_run :: "window_env \<Rightarrow> window_input list \<Rightarrow> window_rpc \<Rightarrow> window_rpc \<times> window_output list" where
  "window_run E \<equiv> run_steps (window_step E)"


subsection \<open>Bytes in JSON\<close>

fun plain :: "wval \<Rightarrow> bool" where
  "plain (WArr vs) = list_all plain vs"
| "plain (WObj ms) = (map_of ms (js ''type'') \<noteq> Some (WStr b64_type) \<and> list_all (\<lambda>(k, v). plain v) ms)"
| "plain _ = True"

lemma revive_all_map: "\<forall>v \<in> set vs. b64_json_reviver dec (f v) = Inr v \<Longrightarrow> revive_all dec (map f vs) = Inr vs"
  by (induction vs) simp_all

lemma revive_members_map:
  "\<forall>(k, v) \<in> set ms. b64_json_reviver dec (f v) = Inr v \<Longrightarrow> revive_members dec (map (\<lambda>(k, v). (k, f v)) ms) = Inr ms"
  by (induction ms) auto

lemma b64_json_revives:
  assumes "\<forall>b. dec (Some (WStr (enc b))) = Inr b"
  shows "plain v \<Longrightarrow> b64_json_reviver dec (b64_json_replacer enc v) = Inr v"
proof (induction v)
  case (WBytes b)
  have "js ''type'' \<noteq> js ''value''" by (simp add: js_def)
  then show ?case using assms by (simp add: revive_object_def)
next
  case (WArr vs)
  then show ?case by (simp add: revive_all_map list_all_iff)
next
  case (WObj ms)
  have "\<forall>(k, v) \<in> set ms. b64_json_reviver dec (b64_json_replacer enc v) = Inr v"
    using WObj by (fastforce simp: list_all_iff)
  then show ?case using revive_members_map[of ms dec "b64_json_replacer enc"] WObj.prems by (simp add: revive_object_def)
qed simp_all

lemma window_text_read:
  assumes "json_roundtrip (we_json E) (b64_json_replacer (we_encode E) v)"
    and "\<forall>b. we_decode E (Some (WStr (we_encode E b))) = Inr b" and "plain v"
  shows "parse_window_data E (DataText (window_text E v)) = Some (Inr v)"
  using assms b64_json_revives[OF assms(2,3)] by (simp add: window_text_def json_roundtrip_def)

subsection \<open>Calls\<close>

text \<open>A call is pending exactly when it has one wait, whose timer is still to fire.\<close>

definition window_inv :: "window_rpc \<Rightarrow> bool" where
  "window_inv s \<longleftrightarrow> distinct (map aw_call (wr_waits s))
     \<and> (\<forall>w \<in> set (wr_waits s). aw_call w < length (wr_calls s) \<and> wr_now s < aw_due w)
     \<and> (\<forall>c < length (wr_calls s). wr_calls s ! c = None \<longleftrightarrow> c \<in> aw_call ` set (wr_waits s))"

definition window_progress :: "nat \<Rightarrow> window_rpc \<Rightarrow> window_rpc \<Rightarrow> bool" where
  "window_progress d s s' \<longleftrightarrow> wr_now s' = wr_now s + d \<and> length (wr_calls s) \<le> length (wr_calls s')
     \<and> (\<forall>c r. c < length (wr_calls s) \<and> wr_calls s ! c = Some r \<longrightarrow> wr_calls s' ! c = Some r)
     \<and> (\<forall>w \<in> set (wr_waits s'). aw_call w < length (wr_calls s) \<longrightarrow> w \<in> set (wr_waits s))"

lemma settled_calls:
  assumes "distinct (map aw_call ws)" and "\<forall>w \<in> set ws. aw_call w < length cs"
  shows "length (settled_calls f ws cs) = length cs"
    and "\<forall>w \<in> set ws. \<forall>r. f w = Some r \<longrightarrow> settled_calls f ws cs ! aw_call w = Some r"
    and "\<forall>c. (\<forall>w \<in> set ws. aw_call w = c \<longrightarrow> f w = None) \<longrightarrow> settled_calls f ws cs ! c = cs ! c"
proof -
  have "length (settled_calls f ws cs) = length cs
    \<and> (\<forall>w \<in> set ws. \<forall>r. f w = Some r \<longrightarrow> settled_calls f ws cs ! aw_call w = Some r)
    \<and> (\<forall>c. (\<forall>w \<in> set ws. aw_call w = c \<longrightarrow> f w = None) \<longrightarrow> settled_calls f ws cs ! c = cs ! c)"
    using assms
  proof (induction ws arbitrary: cs)
    case (Cons w ws)
    define cs1 where "cs1 = (case f w of None \<Rightarrow> cs | Some r \<Rightarrow> cs[aw_call w := Some r])"
    have len: "length cs1 = length cs" by (simp add: cs1_def split: option.split)
    have d: "aw_call w \<notin> aw_call ` set ws" using Cons.prems(1) by simp
    have c: "settled_calls f (w # ws) cs = settled_calls f ws cs1" by (simp add: settled_calls_def cs1_def)
    have IH: "length (settled_calls f ws cs1) = length cs1"
      "\<forall>w \<in> set ws. \<forall>r. f w = Some r \<longrightarrow> settled_calls f ws cs1 ! aw_call w = Some r"
      "\<forall>c. (\<forall>w \<in> set ws. aw_call w = c \<longrightarrow> f w = None) \<longrightarrow> settled_calls f ws cs1 ! c = cs1 ! c"
      using Cons.IH[of cs1] Cons.prems len by simp_all
    have here: "f w = Some r \<Longrightarrow> cs1 ! aw_call w = Some r" for r using Cons.prems(2) by (simp add: cs1_def)
    have there: "aw_call w \<noteq> c \<or> f w = None \<Longrightarrow> cs1 ! c = cs ! c" for c by (auto simp: cs1_def split: option.split)
    have w: "settled_calls f ws cs1 ! aw_call w = cs1 ! aw_call w"
      using IH(3)[THEN spec, THEN mp, of "aw_call w"] d by (metis image_eqI)
    show ?case unfolding c using IH here there w len by simp
  qed (simp add: settled_calls_def)
  then show "length (settled_calls f ws cs) = length cs"
    and "\<forall>w \<in> set ws. \<forall>r. f w = Some r \<longrightarrow> settled_calls f ws cs ! aw_call w = Some r"
    and "\<forall>c. (\<forall>w \<in> set ws. aw_call w = c \<longrightarrow> f w = None) \<longrightarrow> settled_calls f ws cs ! c = cs ! c" by auto
qed

lemma settle_calls_frame [simp]:
  "wr_now (settle_calls f s) = wr_now s" "wr_requests (settle_calls f s) = wr_requests s"
  "wr_waits (settle_calls f s) = filter (\<lambda>w. f w = None) (wr_waits s)"
  by (simp_all add: settle_calls_def)


lemma settle_calls_steps:
  assumes "distinct (map aw_call (wr_waits s))" and "\<forall>w \<in> set (wr_waits s). aw_call w < length (wr_calls s)"
    and "\<forall>c < length (wr_calls s). wr_calls s ! c = None \<longleftrightarrow> c \<in> aw_call ` set (wr_waits s)"
  shows "distinct (map aw_call (wr_waits (settle_calls f s)))"
    and "length (wr_calls (settle_calls f s)) = length (wr_calls s)"
    and "\<forall>c < length (wr_calls s). wr_calls (settle_calls f s) ! c = None \<longleftrightarrow> c \<in> aw_call ` set (wr_waits (settle_calls f s))"
    and "\<forall>c r. c < length (wr_calls s) \<and> wr_calls s ! c = Some r \<longrightarrow> wr_calls (settle_calls f s) ! c = Some r"
    and "\<forall>w \<in> set (wr_waits s). \<forall>r. f w = Some r \<longrightarrow> wr_calls (settle_calls f s) ! aw_call w = Some r"
    and "\<forall>w \<in> set (wr_waits s). f w = None \<longrightarrow> wr_calls (settle_calls f s) ! aw_call w = None"
proof -
  let ?cs = "settled_calls f (wr_waits s) (wr_calls s)"
  note sc = settled_calls[OF assms(1,2), of f]
  have one: "w = w'" if "w \<in> set (wr_waits s)" "w' \<in> set (wr_waits s)" "aw_call w = aw_call w'" for w w'
    using assms(1) that by (metis distinct_map inj_onD)
  show "distinct (map aw_call (wr_waits (settle_calls f s)))" using assms(1) by (simp add: distinct_map_filter)
  show "length (wr_calls (settle_calls f s)) = length (wr_calls s)" using sc(1) by (simp add: settle_calls_def)
  have kept: "?cs ! c = wr_calls s ! c" if "c \<notin> aw_call ` {w \<in> set (wr_waits s). f w \<noteq> None}" for c
    by (rule sc(3)[THEN spec, THEN mp]) (use that in blast)
  have none: "wr_calls (settle_calls f s) ! aw_call w = None" if "w \<in> set (wr_waits s)" "f w = None" for w
  proof -
    have "aw_call w \<notin> aw_call ` {w \<in> set (wr_waits s). f w \<noteq> None}" using one[OF that(1)] that(2) by force
    then have "?cs ! aw_call w = wr_calls s ! aw_call w" by (rule kept)
    then show ?thesis using assms(2,3) that(1) by (simp add: settle_calls_def)
  qed
  then show "\<forall>w \<in> set (wr_waits s). f w = None \<longrightarrow> wr_calls (settle_calls f s) ! aw_call w = None" by blast
  show some: "\<forall>w \<in> set (wr_waits s). \<forall>r. f w = Some r \<longrightarrow> wr_calls (settle_calls f s) ! aw_call w = Some r"
    using sc(2) by (simp add: settle_calls_def)
  show old: "\<forall>c r. c < length (wr_calls s) \<and> wr_calls s ! c = Some r \<longrightarrow> wr_calls (settle_calls f s) ! c = Some r"
  proof (intro allI impI)
    fix c r assume c: "c < length (wr_calls s) \<and> wr_calls s ! c = Some r"
    then have "c \<notin> aw_call ` set (wr_waits s)" using assms(3) by (metis option.distinct(1))
    then have "?cs ! c = wr_calls s ! c" by (intro kept) auto
    then show "wr_calls (settle_calls f s) ! c = Some r" using c by (simp add: settle_calls_def)
  qed
  show "\<forall>c < length (wr_calls s). wr_calls (settle_calls f s) ! c = None \<longleftrightarrow> c \<in> aw_call ` set (wr_waits (settle_calls f s))"
  proof (intro allI impI)
    fix c assume c: "c < length (wr_calls s)"
    show "wr_calls (settle_calls f s) ! c = None \<longleftrightarrow> c \<in> aw_call ` set (wr_waits (settle_calls f s))"
    proof (cases "c \<in> aw_call ` set (wr_waits s)")
      case True
      then obtain w where w: "w \<in> set (wr_waits s)" "c = aw_call w" by blast
      show ?thesis
      proof (cases "f w")
        case None
        then show ?thesis using none[OF w(1) None] w by auto
      next
        case (Some r)
        have "c \<notin> aw_call ` set (wr_waits (settle_calls f s))"
        proof
          assume "c \<in> aw_call ` set (wr_waits (settle_calls f s))"
          then obtain w' where w': "w' \<in> set (wr_waits s)" "f w' = None" "aw_call w' = c" by auto
          have "w = w'" by (rule one[OF w(1) w'(1)]) (simp add: w(2) w'(3))
          then show False using w'(2) Some by simp
        qed
        moreover have "wr_calls (settle_calls f s) ! c = Some r"
          unfolding w(2) by (rule some[THEN bspec, THEN spec, THEN mp, OF w(1) Some])
        ultimately show ?thesis by (simp only: option.distinct not_False_eq_True refl simp_thms)
      qed
    next
      case False
      then obtain r where "wr_calls s ! c = Some r" using assms(3) c by (metis not_Some_eq)
      then have "wr_calls (settle_calls f s) ! c = Some r" using old c by blast
      then show ?thesis using False by auto
    qed
  qed
qed

lemma settle_window_progress:
  assumes "window_inv s"
  shows "window_progress 0 s (settle_calls f s)" and "window_inv (settle_calls f s)"
  using settle_calls_steps[of s f] assms by (auto simp: window_progress_def window_inv_def)

lemma window_progress_refl: "window_progress 0 s s"
  by (simp add: window_progress_def)

lemma window_progress_trans: "window_progress d s s1 \<Longrightarrow> window_progress e s1 s2 \<Longrightarrow> window_progress (d + e) s s2"
  unfolding window_progress_def by auto

lemma requests_progress:
  "window_inv s \<Longrightarrow> window_progress 0 s (s\<lparr>wr_requests := qs\<rparr>) \<and> window_inv (s\<lparr>wr_requests := qs\<rparr>)"
  by (simp add: window_progress_def window_inv_def)

lemma handle_request_progress:
  "window_inv s \<Longrightarrow> window_progress 0 s (fst (handle_request E q s)) \<and> window_inv (fst (handle_request E q s))"
  using requests_progress[of s] window_progress_refl[of s]
  by (auto simp: handle_request_def Let_def split: option.split wval.split sum.split)

lemma callApp_progress:
  assumes "window_inv s"
  shows "window_progress 0 s (fst (callApp E n t i request s))" and "window_inv (fst (callApp E n t i request s))"
  using assms by (auto simp: callApp_def window_progress_def window_inv_def nth_append less_Suc_eq)

lemma message_progress:
  assumes "window_inv s"
  shows "window_progress 0 s (fst (onWindowMessage E src d s)) \<and> window_inv (fst (onWindowMessage E src d s))"
proof (cases "parse_window_data E d")
  case (Some r)
  show ?thesis
  proof (cases r)
    case (Inr req)
    let ?s = "settle_calls (answer_of req) s"
    have st: "window_progress 0 s ?s" "window_inv ?s" using settle_window_progress[OF assms] by auto
    then have "window_progress 0 s (fst (handle_request E q ?s)) \<and> window_inv (fst (handle_request E q ?s))" for q
      using handle_request_progress[OF st(2), of E q] window_progress_trans[OF st(1)] by fastforce
    then show ?thesis using assms st Some Inr window_progress_refl[of s]
      by (cases req) (auto simp: onWindowMessage_def Let_def)
  qed (use assms Some window_progress_refl[of s] in \<open>simp add: onWindowMessage_def\<close>)
qed (use assms window_progress_refl[of s] in \<open>simp add: onWindowMessage_def\<close>)

fun window_time :: "window_input \<Rightarrow> nat" where
  "window_time (WindowElapse d) = d"
| "window_time _ = 0"

lemma elapse_window:
  assumes "window_inv s" and "s' = fst (window_step E (WindowElapse d) s)"
  shows "window_progress d s s' \<and> window_inv s'"
proof -
  let ?f = "\<lambda>w. if aw_due w \<le> wr_now s + d then Some AppTimedOut else None"
  let ?s = "s\<lparr>wr_now := wr_now s + d\<rparr>"
  have "s' = settle_calls ?f ?s" using assms(2) by simp
  then show ?thesis using settle_calls_steps[of ?s ?f] assms(1)
    by (auto simp: window_progress_def window_inv_def)
qed

lemma window_step_progress:
  assumes "window_inv s" and "window_step E x s = (s', out)"
  shows "window_progress (window_time x) s s' \<and> window_inv s'"
proof (cases x)
  case (WindowMessage src d)
  then show ?thesis using message_progress[OF assms(1), of E src d] assms(2) by simp
next
  case (AppCall n t i request)
  then show ?thesis using callApp_progress[OF assms(1), of E n t i request] assms(2) by simp
next
  case (WindowElapse d)
  then show ?thesis using elapse_window[OF assms(1), of s' E d] assms(2) by simp
qed (use assms requests_progress[OF assms(1)] window_progress_refl[of s] in \<open>auto simp: Let_def split: if_splits\<close>)

interpretation window: graded_machine "window_step E" window_inv window_time window_progress for E
  by unfold_locales (auto simp: window_progress_refl intro: window_progress_trans dest: window_step_progress)

lemma new_window_inv: "window_inv new_window"
  by (simp add: new_window_def window_inv_def)

text \<open>Every call to the application ends. A minute after a handler has called the application, whatever came
  in between, the promise of the call is settled, with the application's answer, its error or the
  timeout, and nothing waits for it any more.\<close>

theorem app_call_settles:
  assumes "window_run E before new_window = (s0, out0)" and "k < length (wr_requests s0)"
    and "window_step E (AppCall k t i request) s0 = (s, out)"
    and "window_run E after s = (s', out')" and "60000 \<le> sum_list (map window_time after)"
  shows "\<exists>r. wr_calls s' ! length (wr_calls s0) = Some r \<and> length (wr_calls s0) \<notin> aw_call ` set (wr_waits s')"
proof -
  let ?c = "length (wr_calls s0)"
  have inv0: "window_inv s0" by (rule window.run_inv[OF new_window_inv assms(1)])
  have s: "wr_waits s = wr_waits s0 @ [\<lparr>aw_call = ?c, aw_type = t, aw_id = i, aw_due = wr_now s0 + 60000\<rparr>]"
    "wr_calls s = wr_calls s0 @ [None]" "wr_now s = wr_now s0"
    using assms(2,3) by (auto simp: callApp_def)
  have inv: "window_inv s" using window_step_progress[OF inv0 assms(3)] by simp
  have p: "window_progress (sum_list (map window_time after)) s s'" and inv': "window_inv s'"
    using window.run_prog[OF inv assms(4)] window.run_inv[OF inv assms(4)] by auto
  have "?c \<notin> aw_call ` set (wr_waits s')"
  proof
    assume "?c \<in> aw_call ` set (wr_waits s')"
    then obtain w where w: "w \<in> set (wr_waits s')" "aw_call w = ?c" by auto
    then have "w \<in> set (wr_waits s)" using p s(2) by (auto simp: window_progress_def)
    then have "aw_due w = wr_now s0 + 60000" using w(2) s(1) inv0 by (fastforce simp: window_inv_def)
    moreover have "wr_now s' < aw_due w" using inv' w(1) by (simp add: window_inv_def)
    ultimately show False using p s(3) assms(5) by (simp add: window_progress_def)
  qed
  moreover have "?c < length (wr_calls s')" using p s(2) by (simp add: window_progress_def)
  ultimately show ?thesis using inv' by (metis not_None_eq window_inv_def)
qed


text \<open>The answer that the application sends for a call.\<close>

definition app_answer :: "jsstring \<Rightarrow> jsstring \<Rightarrow> wval \<Rightarrow> wval" where
  "app_answer t i r = WObj [(js ''type'', WStr (t @ js ''Done'')), (js ''response'', r), (js ''id'', WStr i),
     (js ''module'', WStr (js ''attestor-core'')), (js ''isResponse'', WBool True)]"

lemma answer_members:
  "w_member (app_answer t i r) (js ''type'') = Some (WStr (t @ js ''Done''))"
  "w_member (app_answer t i r) (js ''response'') = Some r"
  "w_member (app_answer t i r) (js ''id'') = Some (WStr i)"
  "w_member (app_answer t i r) (js ''module'') = Some (WStr (js ''attestor-core''))"
  "w_member (app_answer t i r) (js ''isResponse'') = Some (WBool True)"
  by (simp_all add: app_answer_def) (simp_all add: js_def)

lemma answer_plain: "plain r \<Longrightarrow> plain (app_answer t i r)"
proof -
  have "t @ js ''Done'' \<noteq> b64_type"
  proof
    assume "t @ js ''Done'' = b64_type"
    then have "last (t @ js ''Done'') = last b64_type" by simp
    then show False by (simp add: b64_type_def js_def)
  qed
  then show "plain r \<Longrightarrow> plain (app_answer t i r)" by (simp add: app_answer_def)
qed

lemma answer_not_error: "t @ js ''Done'' \<noteq> js ''error''"
proof
  assume "t @ js ''Done'' = js ''error''"
  then have "last (t @ js ''Done'') = last (js ''error'')" by simp
  then show False by (simp add: js_def)
qed

lemma answer_handled:
  assumes "parse_window_data E d = Some (Inr (app_answer t i r))"
  shows "onWindowMessage E src d s = (settle_calls (answer_of (app_answer t i r)) s, [])"
proof -
  have "is_ours (app_answer t i r)" by (simp add: is_ours_def answer_members VALID_MODULES_def)
  moreover have "w_truthy (w_member (app_answer t i r) (js ''isResponse''))" by (simp add: answer_members)
  moreover obtain ms where "app_answer t i r = WObj ms" by (simp add: app_answer_def)
  ultimately show ?thesis using assms by (simp add: onWindowMessage_def Let_def)
qed

text \<open>C36: A call to the application returns what the application answers. The answer travels as JSON text with its
  bytes in base64; the promise of every call with its id and type is settled with the value that was sent,
  bytes included, and calls with other ids, the requests and the other promises are as they were.\<close>

theorem app_call_returns:
  assumes "window_run E before new_window = (s, out)" and "w \<in> set (wr_waits s)" and "aw_id w = i" and "aw_type w = t"
    and "json_roundtrip (we_json E) (b64_json_replacer (we_encode E) (app_answer t i r))"
    and "\<forall>b. we_decode E (Some (WStr (we_encode E b))) = Inr b" and "plain r"
  shows "\<exists>s'. window_step E (WindowMessage src (DataText (window_text E (app_answer t i r)))) s = (s', [])
    \<and> wr_calls s' ! aw_call w = Some (AppReturned (Some r)) \<and> w \<notin> set (wr_waits s')
    \<and> wr_requests s' = wr_requests s
    \<and> (\<forall>w' \<in> set (wr_waits s). aw_id w' \<noteq> i \<longrightarrow> w' \<in> set (wr_waits s') \<and> wr_calls s' ! aw_call w' = None)
    \<and> (\<forall>c r'. c < length (wr_calls s) \<and> wr_calls s ! c = Some r' \<longrightarrow> wr_calls s' ! c = Some r')"
proof -
  let ?f = "answer_of (app_answer t i r)" and ?s' = "settle_calls (answer_of (app_answer t i r)) s"
  have inv: "window_inv s" by (rule window.run_inv[OF new_window_inv assms(1)])
  have st: "window_step E (WindowMessage src (DataText (window_text E (app_answer t i r)))) s = (?s', [])"
    using answer_handled[OF window_text_read[OF assms(5,6) answer_plain[OF assms(7)]]] by simp
  have fw: "?f w = Some (AppReturned (Some r))" using assms(3,4) by (simp add: answer_of_def answer_members answer_not_error)
  have other: "aw_id w' \<noteq> i \<Longrightarrow> ?f w' = None" for w' by (simp add: answer_of_def answer_members)
  note sc = settle_calls_steps[of s ?f]
  have h: "distinct (map aw_call (wr_waits s))" "\<forall>w \<in> set (wr_waits s). aw_call w < length (wr_calls s)"
    "\<forall>c < length (wr_calls s). wr_calls s ! c = None \<longleftrightarrow> c \<in> aw_call ` set (wr_waits s)"
    using inv by (simp_all add: window_inv_def)
  have "wr_calls ?s' ! aw_call w = Some (AppReturned (Some r))" using sc(5)[OF h] assms(2) fw by blast
  moreover have "\<forall>w' \<in> set (wr_waits s). aw_id w' \<noteq> i \<longrightarrow> w' \<in> set (wr_waits ?s') \<and> wr_calls ?s' ! aw_call w' = None"
    using sc(6)[OF h] other by simp
  ultimately show ?thesis using st fw sc(4)[OF h] by (intro exI[of _ ?s']) simp
qed

subsection \<open>What is posted\<close>

text \<open>The requests that messages carry, and the posts they account for.\<close>

definition came_in :: "window_env \<Rightarrow> window_input list \<Rightarrow> window_request \<Rightarrow> bool" where
  "came_in E xs q \<longleftrightarrow> (\<exists>src d req. WindowMessage src d \<in> set xs \<and> parse_window_data E d = Some (Inr req) \<and> is_ours req
     \<and> w_truthy (w_member req (js ''id'')) \<and> \<not> w_truthy (w_member req (js ''isResponse'')) \<and> q\<lparr>wq_open := False\<rparr> = request_of src req)"

definition unread :: "window_env \<Rightarrow> window_input list \<Rightarrow> window_request \<Rightarrow> bool" where
  "unread E xs q \<longleftrightarrow> (\<exists>src d. WindowMessage src d \<in> set xs \<and> q = unread_request src
     \<and> (case parse_window_data E d of Some (Inl _) \<Rightarrow> True | Some (Inr v) \<Rightarrow> v = WNull | None \<Rightarrow> False))"

definition post_target :: "window_request \<Rightarrow> window_target option" where
  "post_target q = (case wq_channel q of Some c \<Rightarrow> Some (ToChannel c) | None \<Rightarrow> map_option ToWindow (wq_source q))"

definition post_explained :: "window_env \<Rightarrow> window_input list \<Rightarrow> window_output \<Rightarrow> bool" where
  "post_explained E xs y \<longleftrightarrow>
     (\<forall>tgt message. y = Posted tgt message \<longrightarrow>
        (\<exists>q v. post_target q = Some tgt \<and> message = window_text E v
           \<and> (came_in E xs q \<and> (w_member v (js ''isResponse'') = Some (WBool True) \<longrightarrow> w_member v (js ''id'') = Some (wq_id q))
              \<or> unread E xs q \<and> w_member v (js ''type'') = Some (WStr (js ''error'')) \<and> w_member v (js ''id'') = Some (WStr []))))"

lemma window_post_target: "window_post E q v = Some out \<Longrightarrow> Posted tgt m \<in> set out \<Longrightarrow> post_target q = Some tgt \<and> m = window_text E v"
  by (auto simp: window_post_def post_target_def split: option.splits if_splits)

lemma response_members:
  "\<forall>(k, v) \<in> set ms. k \<noteq> js ''id'' \<Longrightarrow> w_member (response_value q ms) (js ''id'') = Some (wq_id q)"
  "map_of ms (js ''type'') = Some v \<Longrightarrow> w_member (response_value q ms) (js ''type'') = Some v"
proof -
  assume "\<forall>(k, v) \<in> set ms. k \<noteq> js ''id''"
  then have "map_of ms (js ''id'') = None" by (force simp: map_of_eq_None_iff)
  then show "w_member (response_value q ms) (js ''id'') = Some (wq_id q)" by (simp add: response_value_def map_add_def)
next
  assume "map_of ms (js ''type'') = Some v"
  then show "w_member (response_value q ms) (js ''type'') = Some v"
    by (simp add: response_value_def map_add_def)
qed

lemma not_id: "js ''type'' \<noteq> js ''id''" "js ''response'' \<noteq> js ''id''" "js ''data'' \<noteq> js ''id''" "js ''module'' \<noteq> js ''id''"
  "js ''step'' \<noteq> js ''id''" "js ''level'' \<noteq> js ''id''" "js ''message'' \<noteq> js ''id''"
  by (simp_all add: js_def)

lemma respond_explained:
  assumes "came_in E xs q" and "\<forall>(k, v) \<in> set ms. k \<noteq> js ''id''" and "y \<in> set (window_respond E q ms)"
  shows "post_explained E xs y"
  unfolding post_explained_def
proof (intro allI impI)
  fix tgt message assume y: "y = Posted tgt message"
  then obtain out where "window_post E q (response_value q ms) = Some out" "Posted tgt message \<in> set out"
    using assms(3) by (auto simp: window_respond_def split: option.splits)
  from window_post_target[OF this] show "\<exists>q v. post_target q = Some tgt \<and> message = window_text E v
      \<and> (came_in E xs q \<and> (w_member v (js ''isResponse'') = Some (WBool True) \<longrightarrow> w_member v (js ''id'') = Some (wq_id q))
        \<or> unread E xs q \<and> w_member v (js ''type'') = Some (WStr (js ''error'')) \<and> w_member v (js ''id'') = Some (WStr []))"
    using assms(1) response_members(1)[OF assms(2)] by blast
qed

lemma answer_explained:
  assumes "came_in E xs q" and "y \<in> set (answer_window E q t r)"
  shows "post_explained E xs y"
proof (rule respond_explained[OF assms(1)])
  show "y \<in> set (window_respond E q (case r of Inl e \<Rightarrow> error_value E e | Inr v \<Rightarrow> done_value t v))"
    using assms(2) by (simp add: answer_window_def)
qed (auto simp: error_value_def done_value_def not_id split: sum.split option.split)

lemma unread_explained:
  assumes "unread E xs q" and "wq_id q = WStr []" and "y \<in> set (window_respond E q (error_value E e))"
  shows "post_explained E xs y"
  unfolding post_explained_def
proof (intro allI impI)
  fix tgt message assume y: "y = Posted tgt message"
  then obtain out where "window_post E q (response_value q (error_value E e)) = Some out" "Posted tgt message \<in> set out"
    using assms(3) by (auto simp: window_respond_def split: option.splits)
  from window_post_target[OF this] show "\<exists>q v. post_target q = Some tgt \<and> message = window_text E v
      \<and> (came_in E xs q \<and> (w_member v (js ''isResponse'') = Some (WBool True) \<longrightarrow> w_member v (js ''id'') = Some (wq_id q))
        \<or> unread E xs q \<and> w_member v (js ''type'') = Some (WStr (js ''error'')) \<and> w_member v (js ''id'') = Some (WStr []))"
    using assms(1,2) response_members[of "error_value E e"] by (intro exI[of _ q] exI[of _ "response_value q (error_value E e)"])
      (auto simp: error_value_def not_id)
qed

lemma message_explained:
  assumes "came_in E xs q" and "w_member v (js ''isResponse'') = None" and "window_post E q v = Some out" and "y \<in> set out"
  shows "post_explained E xs y"
  using assms window_post_target[OF assms(3)] unfolding post_explained_def by (metis option.distinct(1))

lemma came_in_more: "came_in E xs q \<Longrightarrow> came_in E (xs @ [x]) q"
  unfolding came_in_def by auto

lemma came_in_open: "came_in E xs (q\<lparr>wq_open := b\<rparr>) = came_in E xs q"
  by (simp add: came_in_def)

definition all_came_in :: "window_env \<Rightarrow> window_input list \<Rightarrow> window_rpc \<Rightarrow> bool" where
  "all_came_in E xs s \<longleftrightarrow> (\<forall>q \<in> set (wr_requests s). came_in E xs q)"

lemma handle_request_came_in:
  assumes "all_came_in E xs s" and "came_in E xs q" and "handle_request E q s = (s', out)"
  shows "all_came_in E xs s' \<and> (\<forall>y \<in> set out. post_explained E xs y)"
proof -
  have r: "wr_requests s' \<in> {wr_requests s @ [q\<lparr>wq_open := b\<rparr>] | b. True}"
    using assms(3) by (auto simp: handle_request_def Let_def split: option.splits wval.splits sum.splits if_splits)
  then have "all_came_in E xs s'" using assms(1,2) by (auto simp: all_came_in_def came_in_open)
  moreover have "post_explained E xs y" if "y \<in> set out" for y
  proof -
    have "y \<in> set (window_respond E q (error_value E e)) \<Longrightarrow> post_explained E xs y" for e
      by (rule respond_explained[OF assms(2)]) (auto simp: error_value_def not_id)
    moreover have "post_explained E xs (WorkStarted n b)" for n b by (simp add: post_explained_def)
    ultimately show ?thesis using assms(3) that answer_explained[OF assms(2)]
      by (auto simp: handle_request_def Let_def split: option.splits wval.splits sum.splits if_splits)
  qed
  ultimately show ?thesis by blast
qed


lemma window_step_explained:
  assumes "all_came_in E xs s" and "window_step E x s = (s', out)"
  shows "all_came_in E (xs @ [x]) s' \<and> (\<forall>y \<in> set out. post_explained E (xs @ [x]) y)"
proof -
  let ?xs = "xs @ [x]"
  have told: "all_came_in E ?xs s" using assms(1) came_in_more unfolding all_came_in_def by blast
  have at: "came_in E ?xs (wr_requests s ! n)" if "n < length (wr_requests s)" for n
    using told that by (simp add: all_came_in_def)
  have app: "y \<in> set (tell_app E q ms) \<Longrightarrow> came_in E ?xs q \<Longrightarrow> map_of ms (js ''isResponse'') = None \<Longrightarrow> post_explained E ?xs y" for y q ms
  proof -
    assume y: "y \<in> set (tell_app E q ms)" and q: "came_in E ?xs q" and ms: "map_of ms (js ''isResponse'') = None"
    let ?v = "WObj (ms @ [(js ''module'', wq_module q), (js ''id'', wq_id q)])"
    obtain out' where "window_post E q ?v = Some out'" "y \<in> set out'"
      using y by (cases "window_post E q ?v") (simp_all add: tell_app_def)
    moreover have "w_member (WObj (ms @ [(js ''module'', wq_module q), (js ''id'', wq_id q)])) (js ''isResponse'') = None"
      using ms by (simp add: map_add_def) (simp add: js_def)
    ultimately show ?thesis using message_explained[OF q] by blast
  qed
  show ?thesis
  proof (cases x)
    case (WindowMessage src d)
    show ?thesis
    proof (cases "parse_window_data E d")
      case None
      then show ?thesis using told assms(2) WindowMessage by (simp add: onWindowMessage_def)
    next
      case (Some r)
      show ?thesis
      proof (cases "\<exists>req. r = Inr req \<and> req \<noteq> WNull")
        case True
        then obtain req where req: "r = Inr req" "req \<noteq> WNull" by blast
        let ?s1 = "settle_calls (answer_of req) s"
        have told1: "all_came_in E ?xs ?s1" using told by (simp add: all_came_in_def)
        have "came_in E ?xs (request_of src req)" if "is_ours req" "w_truthy (w_member req (js ''id''))"
          "\<not> w_truthy (w_member req (js ''isResponse''))"
          using Some req(1) that WindowMessage unfolding came_in_def by (intro exI[of _ src] exI[of _ d] exI[of _ req]) (simp add: request_of_def)
        then show ?thesis using told told1 handle_request_came_in[OF told1, of "request_of src req" s' out] assms(2) WindowMessage Some req
          by (cases req) (auto simp: onWindowMessage_def Let_def split: if_splits)
      next
        case False
        then have "unread E ?xs (unread_request src)"
          using Some WindowMessage unfolding unread_def by (intro exI[of _ src] exI[of _ d]) (cases r; simp)
        moreover obtain e where "(s', out) = (s, window_respond E (unread_request src) (error_value E e))"
          using False assms(2) WindowMessage Some by (cases r) (auto simp: onWindowMessage_def)
        ultimately show ?thesis using told unread_explained[of E ?xs "unread_request src"] by (auto simp: unread_request_def)
      qed
    qed
  next
    case (WorkDone n r)
    show ?thesis
    proof (cases "n < length (wr_requests s) \<and> wq_open (wr_requests s ! n)")
      case True
      let ?q = "wr_requests s ! n"
      have "all_came_in E ?xs s'"
        using told assms(2) WorkDone True at[of n] by (auto simp: all_came_in_def Let_def came_in_open dest!: set_update_subset_insert[THEN subsetD])
      then show ?thesis using answer_explained[OF at] assms(2) WorkDone True by (auto simp: Let_def)
    qed (use told assms(2) WorkDone in auto)
  next
    case (WorkStep n step)
    have "map_of (step_message q step) (js ''isResponse'') = None" for q
      by (simp add: step_message_def split: option.split wval.split) (simp add: js_def)
    then show ?thesis using told app at assms(2) WorkStep by (auto split: if_splits)
  next
    case (LogLine n level message)
    have "map_of [(js ''type'', WStr (js ''log'')), (js ''level'', WStr level), (js ''message'', message)] (js ''isResponse'') = None"
      by (simp add: js_def)
    then show ?thesis using told app at assms(2) LogLine by (auto split: if_splits)
  next
    case (AppCall n t i request)
    show ?thesis
    proof (cases "n < length (wr_requests s)")
      case True
      let ?v = "WObj [(js ''type'', WStr t), (js ''id'', WStr i), (js ''request'', request), (js ''module'', WStr (js ''attestor-core''))]"
      have "w_member ?v (js ''isResponse'') = None" by (simp add: js_def)
      then have "post_explained E ?xs y" if "window_post E (wr_requests s ! n) ?v = Some out'" "y \<in> set out'" for out' y
        using message_explained[OF at[OF True]] that by blast
      then show ?thesis using told True assms(2) AppCall by (auto simp: callApp_def all_came_in_def split: option.splits)
    qed (use told assms(2) AppCall in \<open>simp add: callApp_def\<close>)
  next
    case (WindowElapse d)
    then show ?thesis using told assms(2) by (auto simp: all_came_in_def)
  qed
qed

interpretation posts: history_machine "window_step E" new_window "all_came_in E" "post_explained E" for E
  by unfold_locales (auto simp: all_came_in_def[of _ "[]"] new_window_def dest: window_step_explained)


text \<open>
  A text that is no JSON, such as the messages other scripts of a page exchange, is answered with an error,
  although messages that are not for the attestor are to be ignored.
\<close>

theorem foreign_text_answered:
  assumes "m \<noteq> []" and "JSON_parse (we_json E) m = None"
  shows "window_step E (WindowMessage (Some w) (DataText m)) s =
    (s, [Posted (ToWindow w) (window_text E (response_value (unread_request (Some w)) (error_value E (JsSyntaxError ''JSON.parse''))))])"
  using assms by (simp add: onWindowMessage_def window_respond_def window_post_def unread_request_def)


subsection \<open>Examples\<close>

text \<open>A page that benchmarks, and an operator of it that asks the application for a proof, here three bytes.\<close>

definition example_answer :: wval where
  "example_answer = app_answer (js ''executeZkFunctionV3'') (js ''r'') (WObj [(js ''proof'', WBytes [1, 2, 255])])"

definition example_window :: window_env where
  "example_window = \<lparr>we_json = \<lparr>JSON_parse = (\<lambda>m. if m = js ''{'' then None else Some (b64_json_replacer b64_encode example_answer)),
       JSON_stringify = (\<lambda>_. js ''a'')\<rparr>,
     we_encode = b64_encode,
     we_decode = (\<lambda>v. case v of Some (WStr s) \<Rightarrow> Inr (b64_decode s) | _ \<Rightarrow> Inl (JsTypeError ''base64'')),
     we_string = (\<lambda>_. []),
     we_claims = \<lparr>keccak256 = (\<lambda>_. []), canonicalize = (\<lambda>_. None), cl_json = \<lparr>JSON_parse = (\<lambda>_. None), JSON_stringify = (\<lambda>_. [])\<rparr>\<rparr>,
     we_hexlify = (\<lambda>_. []), we_base = js ''https://a.b'', we_url = (\<lambda>_. Inr (js ''a.b'', js ''https:'')),
     we_extractHTMLElement = (\<lambda>_ _ _. Inl (PlainError ''no element'')), we_extractJSONValueIndex = (\<lambda>_ _. Inl (PlainError ''no value'')),
     we_date = (\<lambda>_. []), we_makeLogger = (\<lambda>_. Inr ()), we_stack = (\<lambda>_. []), we_channels = (\<lambda>_. False)\<rparr>"

definition example_request :: wval where
  "example_request = WObj [(js ''module'', WStr (js ''attestor-core'')), (js ''id'', WStr (js ''q'')), (js ''type'', WStr (js ''benchmarkZK''))]"

definition example_inputs :: "window_input list" where
  "example_inputs = [WindowMessage (Some 7) (DataValue example_request), AppCall 0 (js ''executeZkFunctionV3'') (js ''r'') WNull]"

lemma object_handled:
  "parse_window_data E d = Some (Inr (WObj ms)) \<Longrightarrow> is_ours (WObj ms) \<Longrightarrow> \<not> w_truthy (w_member (WObj ms) (js ''isResponse''))
    \<Longrightarrow> w_truthy (w_member (WObj ms) (js ''id''))
    \<Longrightarrow> onWindowMessage E src d s = handle_request E (request_of src (WObj ms)) (settle_calls (answer_of (WObj ms)) s)"
  by (simp add: onWindowMessage_def Let_def)

lemma example_started:
  "window_step example_window (WindowMessage (Some 7) (DataValue example_request)) new_window =
    (new_window\<lparr>wr_requests := [(request_of (Some 7) example_request)\<lparr>wq_open := True\<rparr>]\<rparr>, [WorkStarted 0 False])"
proof -
  have m: "w_member example_request (js ''module'') = Some (WStr (js ''attestor-core''))"
    "w_member example_request (js ''id'') = Some (WStr (js ''q''))"
    "w_member example_request (js ''type'') = Some (WStr (js ''benchmarkZK''))"
    "w_member example_request (js ''isResponse'') = None" "w_member example_request (js ''channel'') = None"
    "w_member example_request (js ''request'') = None"
    by (simp_all add: example_request_def) (simp_all add: js_def)
  have "is_ours example_request" by (simp add: is_ours_def m VALID_MODULES_def)
  moreover have "js ''q'' \<noteq> []" by (simp add: js_def)
  moreover obtain ms where e: "example_request = WObj ms" by (simp add: example_request_def)
  moreover have "w_truthy (Some example_request)" by (simp add: example_request_def)
  moreover have "settle_calls f new_window = new_window" for f
    by (simp add: settle_calls_def settled_calls_def new_window_def)
  ultimately have "onWindowMessage example_window (Some 7) (DataValue example_request) new_window
      = handle_request example_window (request_of (Some 7) example_request) new_window"
    using object_handled[of example_window "DataValue example_request" ms] m(2,4) by simp
  moreover have "js ''benchmarkZK'' \<notin> set claim_types" by (simp add: claim_types_def js_def)
  ultimately show ?thesis by (simp add: handle_request_def Let_def request_of_def m new_window_def)
qed

lemma example_state:
  "\<exists>out. window_run example_window example_inputs new_window =
    (\<lparr>wr_now = 0, wr_requests = [(request_of (Some 7) example_request)\<lparr>wq_open := True\<rparr>],
       wr_waits = [\<lparr>aw_call = 0, aw_type = js ''executeZkFunctionV3'', aw_id = js ''r'', aw_due = 60000\<rparr>], wr_calls = [None]\<rparr>, out)"
  by (simp add: example_inputs_def example_started del: window_step.simps(1)) (simp add: callApp_def new_window_def)

theorem app_call_returns_witness:
  "\<exists>s s'. fst (window_run example_window example_inputs new_window) = s \<and> wr_calls s ! 0 = None
    \<and> window_step example_window (WindowMessage (Some 7) (DataText (window_text example_window example_answer))) s = (s', [])
    \<and> wr_calls s' ! 0 = Some (AppReturned (Some (WObj [(js ''proof'', WBytes [1, 2, 255])])))"
proof -
  obtain s out where r: "window_run example_window example_inputs new_window = (s, out)"
    and s: "wr_waits s = [\<lparr>aw_call = 0, aw_type = js ''executeZkFunctionV3'', aw_id = js ''r'', aw_due = 60000\<rparr>]" "wr_calls s = [None]"
    using example_state by force
  let ?w = "\<lparr>aw_call = 0, aw_type = js ''executeZkFunctionV3'', aw_id = js ''r'', aw_due = 60000\<rparr>"
  let ?r = "WObj [(js ''proof'', WBytes [1, 2, 255])]"
  have w: "?w \<in> set (wr_waits s)" "aw_id ?w = js ''r''" "aw_type ?w = js ''executeZkFunctionV3''" using s by simp_all
  have j: "json_roundtrip (we_json example_window) (b64_json_replacer (we_encode example_window)
      (app_answer (js ''executeZkFunctionV3'') (js ''r'') ?r))"
    "\<forall>b. we_decode example_window (Some (WStr (we_encode example_window b))) = Inr b"
    by (simp_all add: example_window_def json_roundtrip_def example_answer_def b64_decode_encode) (simp add: js_def)
  have "plain ?r" by (simp add: b64_type_def js_def)
  from app_call_returns[OF r w j this, of "Some 7"] show ?thesis using r s by (auto simp: example_answer_def)
qed

theorem app_call_settles_witness:
  "\<exists>s s'. window_run example_window example_inputs new_window = s
    \<and> window_run example_window [WindowElapse 59000, WindowElapse 1000] (fst s) = s' \<and> wr_calls (fst s') ! 0 \<noteq> None"
proof -
  let ?first = "[WindowMessage (Some 7) (DataValue example_request)]"
  obtain s0 out0 where r0: "window_run example_window ?first new_window = (s0, out0)" by fastforce
  then have "s0 = new_window\<lparr>wr_requests := [(request_of (Some 7) example_request)\<lparr>wq_open := True\<rparr>]\<rparr>"
    by (simp add: example_started del: window_step.simps(1))
  then have s0: "length (wr_requests s0) = 1" "wr_calls s0 = []" by (simp_all add: new_window_def)
  obtain s out where st: "window_step example_window (AppCall 0 (js ''executeZkFunctionV3'') (js ''r'') WNull) s0 = (s, out)" by fastforce
  obtain s' out' where a: "window_run example_window [WindowElapse 59000, WindowElapse 1000] s = (s', out')" by fastforce
  have "window_run example_window example_inputs new_window = (s, out0 @ out)"
    using r0 st by (auto simp: example_inputs_def simp del: window_step.simps split: prod.splits)
  then show ?thesis using app_call_settles[OF r0 _ st a] s0 a by auto
qed


theorem foreign_text_answered_witness:
  "\<exists>y. window_step example_window (WindowMessage (Some 7) (DataText (js ''{''))) new_window = (new_window, [y])"
  using foreign_text_answered[of "js ''{''" example_window 7 new_window] by (simp add: js_def example_window_def)

end
