(* ===== verification/Logger.thy ===== *)
theory Logger
  imports Attestor_Error
begin

text \<open>
  What the logger writes when it redacts personal data (\<open>redact\<close> of \<open>src/utils/logger.ts\<close>).

  What is logged is an object with its identity, a number, since the code tells objects it has seen from
  new ones; an object that is referred to again has its number again, so that values with cycles have
  a finite form: what hangs below a repeated number is not looked at. Members that JSON leaves out, and
  objects with a \<open>toJSON\<close> of their own, are taken as JSON takes them.
\<close>

datatype logged =
    LNull
  | LBool bool
  | LNum int
  | LStr jsstring
  | LArr nat "logged list"
  | LObj nat "(jsstring \<times> logged) list"

definition PII_PROPERTIES :: "jsstring list" where
  "PII_PROPERTIES = [js ''ownerPrivateKey'', js ''secretParams'']"

definition redactedText :: jsstring where
  "redactedText = js ''[REDACTED]''"

text \<open>\<open>JSON.parse(JSON.stringify(json, getReplacer()))\<close>, with the objects seen so far.\<close>

fun json_copy :: "logged \<Rightarrow> nat set \<Rightarrow> json \<times> nat set"
  and copy_list :: "logged list \<Rightarrow> nat set \<Rightarrow> json list \<times> nat set"
  and copy_members :: "(jsstring \<times> logged) list \<Rightarrow> nat set \<Rightarrow> (jsstring \<times> json) list \<times> nat set" where
  "json_copy LNull refs = (JNull, refs)"
| "json_copy (LBool b) refs = (JBool b, refs)"
| "json_copy (LNum n) refs = (JNum n, refs)"
| "json_copy (LStr s) refs = (JStr s, refs)"
| "json_copy (LArr i vs) refs =
     (if i \<in> refs then (JStr (js ''[CIRCULAR]''), refs)
      else (case copy_list vs (insert i refs) of (xs, refs') \<Rightarrow> (JArr xs, refs')))"
| "json_copy (LObj i ms) refs =
     (if i \<in> refs then (JStr (js ''[CIRCULAR]''), refs)
      else (case copy_members ms (insert i refs) of (xs, refs') \<Rightarrow> (JObj xs, refs')))"
| "copy_list [] refs = ([], refs)"
| "copy_list (v # vs) refs =
     (case json_copy v refs of (x, r1) \<Rightarrow> (case copy_list vs r1 of (xs, r2) \<Rightarrow> (x # xs, r2)))"
| "copy_members [] refs = ([], refs)"
| "copy_members ((k, v) # ms) refs =
     (case json_copy v refs of (x, r1) \<Rightarrow> (case copy_members ms r1 of (xs, r2) \<Rightarrow> ((k, x) # xs, r2)))"

text \<open>
  The loop over the copy. The code copies again on each level; a copy shares nothing, and copying what
  shares nothing changes nothing (\<open>copy_unshared\<close>).
\<close>

fun redact_copy :: "json \<Rightarrow> json" where
  "redact_copy (JObj ms) = JObj (map (\<lambda>(k, v). (k, if k \<in> set PII_PROPERTIES then JStr redactedText else redact_copy v)) ms)"
| "redact_copy (JArr xs) = JArr (map redact_copy xs)"
| "redact_copy j = j"

definition redact :: "logged \<Rightarrow> json" where
  "redact v = redact_copy (fst (json_copy v {}))"

subsection \<open>Copies\<close>

fun labels :: "logged \<Rightarrow> nat list" where
  "labels (LArr i vs) = i # concat (map labels vs)"
| "labels (LObj i ms) = i # concat (map (\<lambda>(k, v). labels v) ms)"
| "labels _ = []"

fun as_json :: "logged \<Rightarrow> json" where
  "as_json LNull = JNull"
| "as_json (LBool b) = JBool b"
| "as_json (LNum n) = JNum n"
| "as_json (LStr s) = JStr s"
| "as_json (LArr i vs) = JArr (map as_json vs)"
| "as_json (LObj i ms) = JObj (map (\<lambda>(k, v). (k, as_json v)) ms)"

lemma copy_unshared_list:
  "\<forall>v \<in> set vs. \<forall>refs. distinct (labels v) \<longrightarrow> set (labels v) \<inter> refs = {} \<longrightarrow> json_copy v refs = (as_json v, refs \<union> set (labels v))
   \<Longrightarrow> distinct (concat (map labels vs)) \<Longrightarrow> set (concat (map labels vs)) \<inter> refs = {}
   \<Longrightarrow> copy_list vs refs = (map as_json vs, refs \<union> set (concat (map labels vs)))"
proof (induction vs arbitrary: refs)
  case (Cons v vs)
  have "json_copy v refs = (as_json v, refs \<union> set (labels v))" using Cons.prems by auto
  moreover have "copy_list vs (refs \<union> set (labels v)) = (map as_json vs, refs \<union> set (labels v) \<union> set (concat (map labels vs)))"
    by (rule Cons.IH) (use Cons.prems in \<open>auto simp del: set_concat\<close>)
  ultimately show ?case by (simp add: Un_assoc)
qed simp

lemma copy_members_list: "copy_members ms refs = (case copy_list (map snd ms) refs of (xs, r) \<Rightarrow> (zip (map fst ms) xs, r))"
  by (induction ms arbitrary: refs) (auto split: prod.split)

lemma zip_members: "zip (map fst ms) (map (f \<circ> snd) ms) = map (\<lambda>(k, v). (k, f v)) ms"
  by (induction ms) auto

text \<open>What shares nothing is copied as it is.\<close>

lemma copy_unshared:
  "distinct (labels v) \<Longrightarrow> set (labels v) \<inter> refs = {} \<Longrightarrow> json_copy v refs = (as_json v, refs \<union> set (labels v))"
proof (induction v arbitrary: refs)
  case (LArr i vs)
  have "copy_list vs (insert i refs) = (map as_json vs, insert i refs \<union> set (concat (map labels vs)))"
    by (rule copy_unshared_list) (use LArr in \<open>auto simp del: set_concat\<close>)
  then show ?case using LArr.prems by auto
next
  case (LObj i ms)
  have l: "map (\<lambda>(k, v). labels v) ms = map labels (map snd ms)" by auto
  have "copy_list (map snd ms) (insert i refs) = (map as_json (map snd ms), insert i refs \<union> set (concat (map labels (map snd ms))))"
  proof (rule copy_unshared_list)
    show "\<forall>v \<in> set (map snd ms). \<forall>refs. distinct (labels v) \<longrightarrow> set (labels v) \<inter> refs = {}
        \<longrightarrow> json_copy v refs = (as_json v, refs \<union> set (labels v))"
    proof (intro ballI allI impI)
      fix v refs assume "v \<in> set (map snd ms)" and h: "distinct (labels v)" "set (labels v) \<inter> refs = {}"
      then obtain k where "(k, v) \<in> set ms" by auto
      then show "json_copy v refs = (as_json v, refs \<union> set (labels v))" using LObj.IH[of "(k, v)" v refs] h by simp
    qed
  qed (use LObj.prems l in \<open>simp_all del: set_concat\<close>)
  then show ?case using LObj.prems l by (auto simp: copy_members_list zip_members)
qed simp_all

text \<open>An object that occurs twice is called circular the second time, whether it is or not.\<close>

lemma repeated_object_marked:
  "redact (LArr 0 [LObj 1 [], LObj 1 []]) = JArr [JObj [], JStr (js ''[CIRCULAR]'')]"
  by (simp add: redact_def)

subsection \<open>Redaction\<close>

text \<open>The values under the names that are personal, at any depth, and a value without them.\<close>

fun pii_values :: "json \<Rightarrow> json list" where
  "pii_values (JObj ms) = concat (map (\<lambda>(k, v). if k \<in> set PII_PROPERTIES then [v] else pii_values v) ms)"
| "pii_values (JArr xs) = concat (map pii_values xs)"
| "pii_values _ = []"

fun without_pii :: "json \<Rightarrow> json" where
  "without_pii (JObj ms) = JObj (map (\<lambda>(k, v). (k, without_pii v)) (filter (\<lambda>(k, v). k \<notin> set PII_PROPERTIES) ms))"
| "without_pii (JArr xs) = JArr (map without_pii xs)"
| "without_pii j = j"

lemma redact_copy_pii: "set (pii_values (redact_copy j)) \<subseteq> {JStr redactedText}"
  by (induction j) (fastforce split: if_splits)+

lemma redact_copy_rest: "without_pii (redact_copy j) = without_pii j"
proof (induction j)
  case (JObj ms)
  then have "map (\<lambda>(k, v). (k, without_pii v)) (filter (\<lambda>(k, v). k \<notin> set PII_PROPERTIES)
        (map (\<lambda>(k, v). (k, if k \<in> set PII_PROPERTIES then JStr redactedText else redact_copy v)) ms))
      = map (\<lambda>(k, v). (k, without_pii v)) (filter (\<lambda>(k, v). k \<notin> set PII_PROPERTIES) ms)"
    by (induction ms) fastforce+
  then show ?case by simp
qed auto

text \<open>C38: The redacting logger writes no personal data that has its name: in what it makes of any object, cyclic
  or not, every member with such a name is the redaction mark, and all the rest is that of the object's
  copy.\<close>

theorem redact_hides_pii:
  "set (pii_values (redact v)) \<subseteq> {JStr redactedText} \<and> without_pii (redact v) = without_pii (fst (json_copy v {}))"
  by (simp add: redact_def redact_copy_pii redact_copy_rest)

text \<open>
  A text is not looked into. The window RPC logs the data of a message it could not handle, which is the
  JSON text of the request with all its members.
\<close>

theorem redact_keeps_text:
  "k \<notin> set PII_PROPERTIES \<Longrightarrow> redact (LObj i [(k, LStr s)]) = JObj [(k, JStr s)]"
  by (simp add: redact_def)

theorem redact_keeps_text_witness:
  "redact (LObj 0 [(js ''data'', LStr (js ''{ownerPrivateKey}''))]) = JObj [(js ''data'', JStr (js ''{ownerPrivateKey}''))]"
  by (rule redact_keeps_text) (simp add: PII_PROPERTIES_def js_def)

end
