(* ===== verification/Zk_Operators.thy ===== *)
theory Zk_Operators
  imports Machine Attestor_Error
begin

text \<open>
  The default operators of \<open>src/utils/zk.ts\<close>: \<open>makeDefaultZkOperator\<close> and \<open>makeDefaultOPRFOperator\<close> make the operator
  of an engine for an algorithm when it is first asked for and keep it. The makers of the package are a
  table; as a maker need not make the same thing twice, it is told which of its calls this is.
\<close>

datatype operator_fetcher = LocalFiles | RemoteFiles jsstring

record 'p operator_env =
  oe_node :: bool
  oe_base :: "jsstring option"
  oe_url :: "jsstring \<Rightarrow> jsstring \<Rightarrow> js_error + jsstring"
  oe_makers :: "jsstring \<rightharpoonup> (nat \<Rightarrow> jsstring \<Rightarrow> operator_fetcher \<Rightarrow> js_error + 'p)"

record 'p operator_cache =
  oc_engines :: "jsstring \<rightharpoonup> (jsstring \<rightharpoonup> 'p)"
  oc_made :: nat

text \<open>\<open>oe_base\<close> is \<open>WINDOW_RPC_ATTESTOR_BASE_URL\<close> of the window, \<open>oe_url\<close> the URL of a path at a base.\<close>

definition DEFAULT_REMOTE_FILE_FETCH_BASE_URL :: jsstring where
  "DEFAULT_REMOTE_FILE_FETCH_BASE_URL = js ''/browser-rpc/resources''"

definition getZkResourcesBaseUrl :: "'p operator_env \<Rightarrow> js_error + jsstring" where
  "getZkResourcesBaseUrl E =
     (case oe_base E of
        None \<Rightarrow> Inr DEFAULT_REMOTE_FILE_FETCH_BASE_URL
      | Some base \<Rightarrow> if base = [] then Inr DEFAULT_REMOTE_FILE_FETCH_BASE_URL
                     else oe_url E DEFAULT_REMOTE_FILE_FETCH_BASE_URL base)"

definition operator_fetcher_of :: "'p operator_env \<Rightarrow> js_error + operator_fetcher" where
  "operator_fetcher_of E =
     (if oe_node E then Inr LocalFiles else bindR (getZkResourcesBaseUrl E) (\<lambda>url. Inr (RemoteFiles url)))"

definition makeDefaultOperator :: "'p operator_env \<Rightarrow> jsstring \<Rightarrow> jsstring \<Rightarrow> 'p operator_cache
    \<Rightarrow> 'p operator_cache \<times> (js_error + 'p)" where
  "makeDefaultOperator E algorithm zkEngine c0 =
     (let c = (if oc_engines c0 zkEngine = None then c0\<lparr>oc_engines := (oc_engines c0)(zkEngine \<mapsto> Map.empty)\<rparr> else c0);
          operators = the (oc_engines c zkEngine) in
      case operators algorithm of
        Some p \<Rightarrow> (c, Inr p)
      | None \<Rightarrow>
          (case operator_fetcher_of E of
             Inl e \<Rightarrow> (c, Inl e)
           | Inr fetcher \<Rightarrow>
               (case oe_makers E zkEngine of
                  None \<Rightarrow> (c, Inl (PlainError ''No ZK operator maker''))
                | Some maker \<Rightarrow>
                    (let c' = c\<lparr>oc_made := Suc (oc_made c)\<rparr> in
                     case maker (oc_made c) algorithm fetcher of
                       Inl e \<Rightarrow> (c', Inl e)
                     | Inr p \<Rightarrow> (c'\<lparr>oc_engines := (oc_engines c)(zkEngine \<mapsto> operators(algorithm \<mapsto> p))\<rparr>, Inr p)))))"

text \<open>The two functions are that on their own tables and caches.\<close>

definition operatorMakers :: "(nat \<Rightarrow> jsstring \<Rightarrow> operator_fetcher \<Rightarrow> js_error + 'p) \<Rightarrow> (nat \<Rightarrow> jsstring \<Rightarrow> operator_fetcher \<Rightarrow> js_error + 'p)
    \<Rightarrow> jsstring \<rightharpoonup> (nat \<Rightarrow> jsstring \<Rightarrow> operator_fetcher \<Rightarrow> js_error + 'p)" where
  "operatorMakers snarkjs gnark = [js ''snarkjs'' \<mapsto> snarkjs, js ''gnark'' \<mapsto> gnark]"

definition OPRF_OPERATOR_MAKERS :: "(nat \<Rightarrow> jsstring \<Rightarrow> operator_fetcher \<Rightarrow> js_error + 'p)
    \<Rightarrow> jsstring \<rightharpoonup> (nat \<Rightarrow> jsstring \<Rightarrow> operator_fetcher \<Rightarrow> js_error + 'p)" where
  "OPRF_OPERATOR_MAKERS gnark = [js ''gnark'' \<mapsto> gnark]"

definition operator_step :: "'p operator_env \<Rightarrow> jsstring \<times> jsstring \<Rightarrow> 'p operator_cache
    \<Rightarrow> 'p operator_cache \<times> (jsstring \<times> jsstring \<times> (js_error + 'p)) list" where
  "operator_step E x c = (case x of (algorithm, zkEngine) \<Rightarrow>
     (case makeDefaultOperator E algorithm zkEngine c of (c', r) \<Rightarrow> (c', [(algorithm, zkEngine, r)])))"

abbreviation operator_run :: "'p operator_env \<Rightarrow> (jsstring \<times> jsstring) list \<Rightarrow> 'p operator_cache
    \<Rightarrow> 'p operator_cache \<times> (jsstring \<times> jsstring \<times> (js_error + 'p)) list" where
  "operator_run E \<equiv> run_steps (operator_step E)"

definition no_operators :: "'p operator_cache" where
  "no_operators = \<lparr>oc_engines = Map.empty, oc_made = 0\<rparr>"

subsection \<open>One operator for each engine and algorithm\<close>

definition kept_operator :: "'p operator_cache \<Rightarrow> jsstring \<Rightarrow> jsstring \<Rightarrow> 'p option" where
  "kept_operator c algorithm zkEngine = Option.bind (oc_engines c zkEngine) (\<lambda>m. m algorithm)"

lemma makeDefaultOperator_keeps:
  assumes "makeDefaultOperator E a z c = (c', r)"
  shows "kept_operator c b y = Some p \<longrightarrow> kept_operator c' b y = Some p"
    and "r = Inr p \<Longrightarrow> kept_operator c' a z = Some p" and "kept_operator c a z = Some q \<Longrightarrow> r = Inr q"
  using assms by (auto simp: makeDefaultOperator_def kept_operator_def Let_def split: if_splits option.splits sum.splits)

lemma operator_run_kept:
  assumes "operator_run E xs c = (c', out)"
  shows "kept_operator c a z = Some p \<Longrightarrow> (a, z, r) \<in> set out \<Longrightarrow> r = Inr p"
    and "(a, z, Inr q) \<in> set out \<Longrightarrow> kept_operator c' a z = Some q"
    and "kept_operator c a z = Some p \<Longrightarrow> kept_operator c' a z = Some p"
proof -
  have "(\<forall>a z p r. kept_operator c a z = Some p \<longrightarrow> (a, z, r) \<in> set out \<longrightarrow> r = Inr p)
    \<and> (\<forall>a z q. (a, z, Inr q) \<in> set out \<longrightarrow> kept_operator c' a z = Some q)
    \<and> (\<forall>a z p. kept_operator c a z = Some p \<longrightarrow> kept_operator c' a z = Some p)"
    using assms
  proof (induction xs arbitrary: c out)
    case (Cons x xs)
    obtain a0 z0 where x: "x = (a0, z0)" by fastforce
    obtain c1 r1 where m: "makeDefaultOperator E a0 z0 c = (c1, r1)" by fastforce
    obtain out2 where r: "operator_run E xs c1 = (c', out2)" and out: "out = (a0, z0, r1) # out2"
    proof -
      have "operator_step E x c = (c1, [(a0, z0, r1)])" by (simp add: operator_step_def x m)
      then show ?thesis using Cons.prems that by (auto split: prod.splits)
    qed
    note k = makeDefaultOperator_keeps[OF m]
    have IH: "\<forall>a z p r. kept_operator c1 a z = Some p \<longrightarrow> (a, z, r) \<in> set out2 \<longrightarrow> r = Inr p"
      "\<forall>a z q. (a, z, Inr q) \<in> set out2 \<longrightarrow> kept_operator c' a z = Some q"
      "\<forall>a z p. kept_operator c1 a z = Some p \<longrightarrow> kept_operator c' a z = Some p"
      using Cons.IH[OF r] by blast+
    show ?case unfolding out
    proof (intro conjI allI impI)
      fix a z p r assume "kept_operator c a z = Some p" and "(a, z, r) \<in> set ((a0, z0, r1) # out2)"
      then show "r = Inr p" using IH(1) k(1)[of a z p] k(3)[of p] by (cases "(a, z, r) = (a0, z0, r1)") auto
    next
      fix a z q assume "(a, z, Inr q) \<in> set ((a0, z0, r1) # out2)"
      then show "kept_operator c' a z = Some q" using IH(2,3) k(2)[of q] by auto
    next
      fix a z p assume "kept_operator c a z = Some p"
      then show "kept_operator c' a z = Some p" using IH(3) k(1)[of a z p] by blast
    qed
  qed simp
  then show "kept_operator c a z = Some p \<Longrightarrow> (a, z, r) \<in> set out \<Longrightarrow> r = Inr p"
    and "(a, z, Inr q) \<in> set out \<Longrightarrow> kept_operator c' a z = Some q"
    and "kept_operator c a z = Some p \<Longrightarrow> kept_operator c' a z = Some p" by blast+
qed

text \<open>All who ask for the default operator of an engine and an algorithm get the same one, once one has been
  made; a later failure of the maker cannot take it away.\<close>

theorem default_operator_shared:
  assumes "operator_run E (xs @ ys) no_operators = (c, out)" and "operator_run E xs no_operators = (c1, out1)"
    and "(algorithm, zkEngine, Inr p) \<in> set out1"
  shows "\<exists>out2. out = out1 @ out2 \<and> (\<forall>r. (algorithm, zkEngine, r) \<in> set out2 \<longrightarrow> r = Inr p)"
proof -
  obtain out2 where r: "operator_run E ys c1 = (c, out2)" "out = out1 @ out2"
    using assms(1,2) by (auto simp: run_steps_append split: prod.splits)
  have "kept_operator c1 algorithm zkEngine = Some p" by (rule operator_run_kept(2)[OF assms(2,3)])
  then show ?thesis using operator_run_kept(1)[OF r(1)] r(2) by blast
qed

text \<open>Engines without a maker are refused, always.\<close>

lemma unknown_engine_refused:
  assumes "operator_fetcher_of E = Inr f" and "oe_makers E zkEngine = None" and "oc_engines c zkEngine \<in> {None, Some Map.empty}"
  shows "\<exists>c'. makeDefaultOperator E algorithm zkEngine c = (c', Inl (PlainError ''No ZK operator maker''))
    \<and> oc_engines c' zkEngine = Some Map.empty"
  using assms by (auto simp: makeDefaultOperator_def Let_def)

definition counting_operators :: "nat operator_env" where
  "counting_operators = \<lparr>oe_node = True, oe_base = None, oe_url = (\<lambda>_ _. Inr []),
     oe_makers = operatorMakers (\<lambda>n _ _. if n = 0 then Inl (PlainError ''no files'') else Inr n) (\<lambda>n _ _. Inr n)\<rparr>"

theorem default_operator_shared_witness:
  "let a = js ''chacha20''; z = js ''snarkjs'' in
   snd (operator_run counting_operators ([(a, z), (a, z)] @ [(a, z)]) no_operators) =
     [(a, z, Inl (PlainError ''no files'')), (a, z, Inr 1), (a, z, Inr 1)]"
proof -
  let ?a = "js ''chacha20''" and ?z = "js ''snarkjs''"
  have z: "js ''snarkjs'' \<noteq> js ''gnark''" by (simp add: js_def)
  have r: "operator_run counting_operators [(?a, ?z), (?a, ?z)] no_operators
      = (fst (operator_run counting_operators [(?a, ?z), (?a, ?z)] no_operators),
         [(?a, ?z, Inl (PlainError ''no files'')), (?a, ?z, Inr 1)])"
    by (simp add: operator_step_def makeDefaultOperator_def counting_operators_def operatorMakers_def no_operators_def z
      operator_fetcher_of_def Let_def)
  obtain c out where all: "operator_run counting_operators ([(?a, ?z), (?a, ?z)] @ [(?a, ?z)]) no_operators = (c, out)" by fastforce
  obtain out2 where o2: "out = [(?a, ?z, Inl (PlainError ''no files'')), (?a, ?z, Inr 1)] @ out2"
      "\<forall>r. (?a, ?z, r) \<in> set out2 \<longrightarrow> r = Inr 1"
    using default_operator_shared[OF all r, of ?a ?z 1] by auto
  have "\<exists>r. out2 = [(?a, ?z, r)]"
    using all r o2(1) by (auto simp: run_steps_append operator_step_def split: prod.splits)
  then have "out2 = [(?a, ?z, Inr 1)]" using o2(2) by auto
  then show ?thesis using all o2(1) by (simp only: Let_def snd_conv append_Cons append_Nil)
qed

end
