(* ===== verification/Chain_Payment.thy ===== *)
theory Chain_Payment
  imports Chain_Claims
begin

text \<open>
  The two halves of \<open>createClaimOnAvs\<close> on the chain (\<open>requestClaimCreation\<close> and \<open>completeTask\<close> of
  \<open>src/avs/client/create-claim-on-avs.ts\<close>): the owner's wallet pays itself (\<open>request_by_owner\<close> of \<open>Chain_Claims\<close>), or
  an attestor pays, which gets the request with the owner's signature in an RPC call and answers with the
  task as JSON.

  A member that is missing from the task of an attestor is \<open>undefined\<close>, and reading on throws. Of a
  transaction without an event the owner gets no object; the attestor answers with an empty text, which is no
  JSON.
\<close>

subsection \<open>Requesting\<close>

definition operator_of_json :: "json \<Rightarrow> js_error + task_operator" where
  "operator_of_json j =
     (case (json_member j (js ''addr''), json_member j (js ''url'')) of
        (Some (JStr a), Some (JStr u)) \<Rightarrow> Inr \<lparr>op_addr = a, op_url = u\<rparr>
      | _ \<Rightarrow> Inl no_event)"

definition task_of_json :: "json \<Rightarrow> js_error + new_task" where
  "task_of_json j =
     (case (json_member j (js ''taskIndex''), json_member j (js ''task'')) of
        (Some (JNum i), Some t) \<Rightarrow>
          (case (json_member t (js ''createdAt''), json_member t (js ''operators'')) of
             (Some (JNum c), Some (JArr os)) \<Rightarrow>
               bindR (mapR operator_of_json os) (\<lambda>ops.
                 Inr \<lparr>ev_taskIndex = i, ev_createdAt = c, ev_operators = ops, ev_args = EPlain j\<rparr>)
           | _ \<Rightarrow> Inl no_event)
      | _ \<Rightarrow> Inl no_event)"

definition request_by_attestor ::
  "json_lib \<Rightarrow> avs_contract \<Rightarrow> (bytes \<Rightarrow> js_error + bytes) \<Rightarrow> int
   \<Rightarrow> (RequestClaimOnAvsRequest \<Rightarrow> js_error + RequestClaimOnAvsResponse) \<Rightarrow> json \<Rightarrow> unit \<Rightarrow> js_error + new_task" where
  "request_by_attestor J K signer chainId rpc_create request u =
     bindR (signClaimRequest K request signer) (\<lambda>requestSignature.
     bindR (rpc_create \<lparr>ra_chainId = chainId, ra_jsonCreateClaimRequest = JSON_stringify J request,
              ra_requestSignature = requestSignature\<rparr>) (\<lambda>rslt.
     bindR (parse_json J (rr_jsonTask rslt)) task_of_json))"

subsection \<open>Completing\<close>

text \<open>The task goes to the contract by the names of its members.\<close>

definition completed_task :: "(bytes \<Rightarrow> jsstring) \<Rightarrow> new_task \<Rightarrow> bytes list \<Rightarrow> json" where
  "completed_task hexlify arg signatures =
     JObj ((case json_member (ethersStructToPlainObject (ev_args arg)) (js ''task'') of
              None \<Rightarrow> [] | Some t \<Rightarrow> [(js ''task'', t)])
           @ [(js ''signatures'', JArr (map (\<lambda>s. JStr (hexlify s)) signatures))])"

definition complete_by_owner ::
  "(bytes \<Rightarrow> jsstring) \<Rightarrow> avs_contract \<Rightarrow> new_task \<Rightarrow> bytes list \<Rightarrow> js_error + ethers_value option \<times> jsstring" where
  "complete_by_owner hexlify K arg signatures = ac_taskCompleted K (completed_task hexlify arg signatures) (ev_taskIndex arg)"

definition complete_by_attestor ::
  "json_lib \<Rightarrow> (bytes \<Rightarrow> jsstring) \<Rightarrow> int \<Rightarrow> (CompleteClaimOnAvsRequest \<Rightarrow> js_error + CompleteClaimOnAvsResponse)
   \<Rightarrow> new_task \<Rightarrow> bytes list \<Rightarrow> js_error + ethers_value option \<times> jsstring" where
  "complete_by_attestor J hexlify chainId rpc_complete arg signatures =
     bindR (rpc_complete \<lparr>ca_chainId = chainId, ca_taskIndex = ev_taskIndex arg,
              ca_completedTaskJson = JSON_stringify J (completed_task hexlify arg signatures)\<rparr>) (\<lambda>rslt.
     bindR (parse_json J (cr_taskCompletedObjectJson rslt)) (\<lambda>object. Inr (Some (EPlain object), cr_txHash rslt)))"

subsection \<open>Events\<close>

text \<open>The event of a new task, as the contract's interface describes it, with the members nothing here reads.\<close>

definition operator_struct :: "task_operator \<Rightarrow> ethers_value" where
  "operator_struct op = EStruct [(Some (js ''addr''), EPlain (JStr (op_addr op))), (Some (js ''url''), EPlain (JStr (op_url op)))]"

definition task_event :: "new_task \<Rightarrow> ethers_value \<Rightarrow> (jsstring \<times> json) list \<Rightarrow> ethers_value" where
  "task_event t request others =
     EStruct [(Some (js ''taskIndex''), EPlain (JNum (ev_taskIndex t))),
       (Some (js ''task''), EStruct ([(Some (js ''request''), request), (Some (js ''createdAt''), EPlain (JNum (ev_createdAt t))),
          (Some (js ''operators''), EStruct (map (\<lambda>op. (None, operator_struct op)) (ev_operators t)))]
          @ map (\<lambda>(k, v). (Some k, EPlain v)) others))]"

lemma event_names:
  "js ''task'' \<noteq> js ''taskIndex''" "js ''createdAt'' \<noteq> js ''request''" "js ''operators'' \<noteq> js ''request''"
  "js ''operators'' \<noteq> js ''createdAt''" "js ''url'' \<noteq> js ''addr''"
  by (simp_all add: js_def)

lemma operator_read: "operator_of_json (ethersStructToPlainObject (operator_struct op)) = Inr op"
  using event_names(5) by (simp add: operator_of_json_def operator_struct_def json_member_def)

lemma operators_read:
  "mapR operator_of_json (map (\<lambda>op. ethersStructToPlainObject (operator_struct op)) ops) = Inr ops"
  by (induction ops) (simp_all add: operator_read)

lemma event_read:
  assumes "ev_args t = task_event t request others"
  shows "\<exists>t'. task_of_json (ethersStructToPlainObject (ev_args t)) = Inr t' \<and> ev_taskIndex t' = ev_taskIndex t
    \<and> ev_createdAt t' = ev_createdAt t \<and> ev_operators t' = ev_operators t
    \<and> ev_args t' = EPlain (ethersStructToPlainObject (ev_args t))"
proof -
  have ops: "ethersStructToPlainObject (EStruct (map (\<lambda>op. (None, operator_struct op)) os))
      = JArr (map (\<lambda>op. ethersStructToPlainObject (operator_struct op)) os)" for os
    by (simp add: list_all_iff)
  show ?thesis unfolding assms
    by (simp add: task_event_def task_of_json_def json_member_def event_names not_sym[OF event_names(1)] operators_read ops
      del: ethersStructToPlainObject.simps(2)) (simp add: json_member_def event_names operators_read ops[simplified])
qed


lemma set_member_same: "map_of ms k = Some v \<Longrightarrow> set_member k v ms = ms"
  by (induction ms) (auto split: if_splits)

lemma requested_by_attestor:
  assumes "ch_contracts X (int_to_js chainId) = Some K" and "ch_json X = J" and "request = JObj ms"
    and "map_of ms (js ''owner'') = Some (JStr a)" and "json_roundtrip J request" and "js_toLowerCase a \<noteq> js_toLowerCase (ch_wallet X)"
    and "signClaimRequest K request signer = Inr sig" and "ac_createNewTask K (ch_wallet X) request sig = Inr (Some t, hash)"
    and "json_roundtrip J (ethersStructToPlainObject (ev_args t))"
  shows "request_by_attestor J K signer chainId (create_on_chain X) request () = task_of_json (ethersStructToPlainObject (ev_args t))"
proof -
  have same: "with_owner request a = request" using assms(3,4) by (simp add: with_owner_def set_member_same)
  have own: "requested_owner request = Inr a" using assms(3,4) by (simp add: requested_owner_def json_member_def)
  have "createNewClaimRequestOnChain K request (ch_wallet X) (OwnerAddress a (Some (Some sig))) = Inr (Some t, hash)"
    using assms(6,8) by (simp add: createNewClaimRequestOnChain_def getSignature_def same)
  then show ?thesis using assms(1,2,5,7,9) own
    by (simp add: request_by_attestor_def create_on_chain_def getContracts_def parse_json_def json_roundtrip_def)
qed

text \<open>C39: A claim paid for by an attestor is the owner's claim. The contract is asked for the owner's request, unchanged by
  its way as JSON, with the owner's signature over it; the client gets the number, the time and the
  operators of the task that the contract made. Its completion, too, asks the contract for what the
  owner paying for it would ask, and returns the same transaction and the plain form of the same event.\<close>

theorem attestor_payment_equivalent:
  assumes "ch_contracts X (int_to_js chainId) = Some K" and "ch_json X = J" and "request = JObj ms"
    and "map_of ms (js ''owner'') = Some (JStr a)" and "json_roundtrip J request" and "js_toLowerCase a \<noteq> js_toLowerCase (ch_wallet X)"
    and "signClaimRequest K request signer = Inr sig" and "ac_createNewTask K (ch_wallet X) request sig = Inr (Some t, hash)"
    and "ev_args t = task_event t req others" and "json_roundtrip J (ethersStructToPlainObject (ev_args t))"
  shows "\<exists>t'. request_by_attestor J K signer chainId (create_on_chain X) request () = Inr t'
    \<and> ev_taskIndex t' = ev_taskIndex t \<and> ev_createdAt t' = ev_createdAt t \<and> ev_operators t' = ev_operators t
    \<and> (\<forall>hexlify signatures ev hash'. complete_by_owner hexlify K t signatures = Inr (Some ev, hash') \<longrightarrow>
         json_roundtrip J (completed_task hexlify t signatures) \<longrightarrow> json_roundtrip J (ethersStructToPlainObject ev) \<longrightarrow>
         complete_by_attestor J hexlify chainId (complete_on_chain X) t' signatures = Inr (Some (EPlain (ethersStructToPlainObject ev)), hash'))"
proof -
  obtain t' where t': "task_of_json (ethersStructToPlainObject (ev_args t)) = Inr t'" "ev_taskIndex t' = ev_taskIndex t"
    "ev_createdAt t' = ev_createdAt t" "ev_operators t' = ev_operators t" "ev_args t' = EPlain (ethersStructToPlainObject (ev_args t))"
    using event_read[OF assms(9)] by blast
  have same: "completed_task hexlify t' signatures = completed_task hexlify t signatures" for hexlify signatures
    by (simp add: completed_task_def t'(5))
  have "complete_by_attestor J hexlify chainId (complete_on_chain X) t' signatures = Inr (Some (EPlain (ethersStructToPlainObject ev)), hash')"
    if "complete_by_owner hexlify K t signatures = Inr (Some ev, hash')" "json_roundtrip J (completed_task hexlify t signatures)"
      "json_roundtrip J (ethersStructToPlainObject ev)" for hexlify signatures ev hash'
    using that assms(1,2) t'(2) by (simp add: complete_by_attestor_def complete_by_owner_def complete_on_chain_def getContracts_def
      parse_json_def json_roundtrip_def same)
  then show ?thesis using requested_by_attestor[OF assms(1-8,10)] t' by auto
qed

text \<open>
  A completed task without an event comes back from the attestor as a text that is no JSON, although the
  transaction went through.
\<close>

theorem completed_without_event_fails:
  assumes "ch_contracts X (int_to_js chainId) = Some K" and "ch_json X = J" and "JSON_parse J [] = None"
    and "json_roundtrip J (completed_task hexlify t signatures)" and "complete_by_owner hexlify K t signatures = Inr (None, hash)"
  shows "complete_by_attestor J hexlify chainId (complete_on_chain X) t signatures = Inl (JsSyntaxError ''Unexpected token'')"
  using assms by (simp add: complete_by_attestor_def complete_by_owner_def complete_on_chain_def getContracts_def
    parse_json_def json_roundtrip_def)

subsection \<open>Example\<close>

definition paid_task :: new_task where
  "paid_task = \<lparr>ev_taskIndex = 3, ev_createdAt = 1700000000, ev_operators = [\<lparr>op_addr = js ''0x1'', op_url = js ''wss://a''\<rparr>],
     ev_args = EStruct [(Some (js ''taskIndex''), EPlain (JNum 3)), (Some (js ''task''),
       EStruct [(Some (js ''request''), EPlain JNull), (Some (js ''createdAt''), EPlain (JNum 1700000000)),
         (Some (js ''operators''), EStruct [(None, EStruct [(Some (js ''addr''), EPlain (JStr (js ''0x1''))), (Some (js ''url''), EPlain (JStr (js ''wss://a'')))])])])]\<rparr>"

definition paid_request :: json where
  "paid_request = JObj [(js ''owner'', JStr (js ''0xa''))]"

text \<open>JSON for the two values of the example.\<close>

definition paid_json :: json_lib where
  "paid_json = \<lparr>JSON_parse = (\<lambda>s. if s = [1] then Some paid_request else if s = [2] then Some (ethersStructToPlainObject (ev_args paid_task)) else None),
     JSON_stringify = (\<lambda>j. if j = paid_request then [1] else [2])\<rparr>"

definition paid_contract :: avs_contract where
  "paid_contract = \<lparr>ac_encodeClaimRequest = (\<lambda>_. Inr [7]), ac_createNewTask = (\<lambda>_ _ sig. if sig = [7, 7] then Inr (Some paid_task, js ''h'')
       else Inl (PlainError ''bad signature'')), ac_taskCompleted = (\<lambda>_ _. Inr (None, js ''h''))\<rparr>"

definition paid_env :: chain_env where
  "paid_env = \<lparr>ch_json = paid_json, ch_contracts = (\<lambda>_. Some paid_contract), ch_wallet = js ''0xb''\<rparr>"

lemma paid_differs: "paid_request \<noteq> ethersStructToPlainObject (ev_args paid_task)"
  by (simp add: paid_request_def paid_task_def)

theorem attestor_payment_equivalent_witness:
  "\<exists>t'. request_by_attestor paid_json paid_contract (\<lambda>b. Inr (b @ b)) 5 (create_on_chain paid_env) paid_request () = Inr t'
    \<and> ev_taskIndex t' = 3 \<and> map op_url (ev_operators t') = [js ''wss://a'']"
proof -
  have o: "js_toLowerCase (js ''0xa'') \<noteq> js_toLowerCase (js ''0xb'')" by code_simp
  have e: "ev_args paid_task = task_event paid_task (EPlain JNull) []"
    by (simp add: paid_task_def task_event_def operator_struct_def)
  have "json_roundtrip paid_json paid_request" "json_roundtrip paid_json (ethersStructToPlainObject (ev_args paid_task))"
    using paid_differs by (auto simp: json_roundtrip_def paid_json_def)
  from attestor_payment_equivalent[OF _ _ _ _ this(1) _ _ _ e this(2), of paid_env 5 paid_contract "[(js ''owner'', JStr (js ''0xa''))]" "js ''0xa''"
      "\<lambda>b. Inr (b @ b)" "[7, 7]" "js ''h''"]
  obtain t' where "request_by_attestor paid_json paid_contract (\<lambda>b. Inr (b @ b)) 5 (create_on_chain paid_env) paid_request () = Inr t'"
    "ev_taskIndex t' = ev_taskIndex paid_task" "ev_operators t' = ev_operators paid_task"
    using o by (auto simp: paid_env_def paid_request_def signClaimRequest_def paid_contract_def)
  then show ?thesis by (simp add: paid_task_def)
qed

theorem completed_without_event_fails_witness:
  "complete_by_attestor \<lparr>JSON_parse = (\<lambda>s. if s = [] then None else Some (completed_task (\<lambda>_. []) paid_task [])), JSON_stringify = (\<lambda>_. [1])\<rparr>
     (\<lambda>_. []) 5 (complete_on_chain \<lparr>ch_json = \<lparr>JSON_parse = (\<lambda>s. if s = [] then None else Some (completed_task (\<lambda>_. []) paid_task [])),
       JSON_stringify = (\<lambda>_. [1])\<rparr>, ch_contracts = (\<lambda>_. Some paid_contract), ch_wallet = []\<rparr>) paid_task []
   = Inl (JsSyntaxError ''Unexpected token'')"
  by (rule completed_without_event_fails[where K = paid_contract])
    (simp_all add: json_roundtrip_def complete_by_owner_def paid_contract_def)

end
