(* ===== verification/Register_Operator.thy ===== *)
theory Register_Operator
  imports Attestor_Error
begin

text \<open>
  The registration of an operator (\<open>src/avs/utils/register.ts\<close>): as an operator of the delegation manager, with the
  service, by a signature over a digest the directory computes, and with its URL in the metadata.

  The contracts are outside the repository: the record holds their calls on the state of the chain, the wait for
  the transaction included; \<open>registry_spec\<close> is what is documented of them. A random salt and the time are
  arguments.
\<close>

record operator_metadata =
  om_addr :: jsstring
  om_url :: jsstring

record operator_signature =
  os_expiry :: int
  os_salt :: bytes
  os_signature :: bytes

record 'c registry =
  rg_registerAsOperator :: "jsstring \<Rightarrow> 'c \<Rightarrow> 'c \<times> (js_error + unit)"
  rg_digest :: "jsstring \<Rightarrow> bytes \<Rightarrow> int \<Rightarrow> 'c \<Rightarrow> js_error + bytes"
  rg_signDigest :: "bytes \<Rightarrow> bytes"
  rg_operatorRegistered :: "jsstring \<Rightarrow> 'c \<Rightarrow> js_error + bool"
  rg_registerWithSignature :: "jsstring \<Rightarrow> operator_signature \<Rightarrow> 'c \<Rightarrow> 'c \<times> (js_error + unit)"
  rg_getMetadata :: "jsstring \<Rightarrow> 'c \<Rightarrow> js_error + operator_metadata"
  rg_updateMetadata :: "operator_metadata \<Rightarrow> 'c \<Rightarrow> 'c \<times> (js_error + unit)"

type_synonym 'c chain_step = "'c \<Rightarrow> 'c \<times> (js_error + unit)"

text \<open>One step after the other, until one throws; the state stays as it was left.\<close>

definition then_step :: "'c chain_step \<Rightarrow> 'c chain_step \<Rightarrow> 'c chain_step" where
  "then_step f g c = (case f c of (c', Inl e) \<Rightarrow> (c', Inl e) | (c', Inr _) \<Rightarrow> g c')"

definition register_delegation :: "'c registry \<Rightarrow> jsstring \<Rightarrow> 'c chain_step" where
  "register_delegation R addr c =
     (case rg_registerAsOperator R addr c of
        (c', Inl err) \<Rightarrow>
          if msg_includes (error_message err) ''operator has already registered'' then (c', Inr ()) else (c', Inl err)
      | (c', Inr _) \<Rightarrow> (c', Inr ()))"

definition register_service :: "'c registry \<Rightarrow> jsstring \<Rightarrow> bytes \<Rightarrow> int \<Rightarrow> 'c chain_step" where
  "register_service R addr salt now c =
     (let expiry = now + 3600 in
      case rg_digest R addr salt expiry c of
        Inl e \<Rightarrow> (c, Inl e)
      | Inr digestHash \<Rightarrow>
          (case rg_operatorRegistered R addr c of
             Inl e \<Rightarrow> (c, Inl e)
           | Inr True \<Rightarrow> (c, Inr ())
           | Inr False \<Rightarrow> rg_registerWithSignature R addr
               \<lparr>os_expiry = expiry, os_salt = salt, os_signature = rg_signDigest R digestHash\<rparr> c))"

definition register_metadata :: "'c registry \<Rightarrow> jsstring \<Rightarrow> jsstring \<Rightarrow> 'c chain_step" where
  "register_metadata R addr url c =
     (let metadata = \<lparr>om_addr = addr, om_url = url\<rparr> in
      case rg_getMetadata R addr c of
        Inl err \<Rightarrow> if msg_includes (error_message err) ''Operator not found'' then rg_updateMetadata R metadata c else (c, Inl err)
      | Inr existing \<Rightarrow> if existing = metadata then (c, Inr ()) else rg_updateMetadata R metadata c)"

definition registerOperator :: "'c registry \<Rightarrow> jsstring \<Rightarrow> jsstring \<Rightarrow> bytes \<Rightarrow> int \<Rightarrow> 'c chain_step" where
  "registerOperator R addr url salt now =
     then_step (register_delegation R addr) (then_step (register_service R addr salt now) (register_metadata R addr url))"

subsection \<open>What is documented of the contracts\<close>

text \<open>
  The views \<open>dm\<close>, \<open>avs\<close> and \<open>meta\<close> tell who is registered and with what. A contract refuses a second registration
  with the delegation manager and takes a signature of the digest; each call touches its own entry only.
\<close>

definition registry_spec ::
  "'c registry \<Rightarrow> ('c \<Rightarrow> jsstring \<Rightarrow> bool) \<Rightarrow> ('c \<Rightarrow> jsstring \<Rightarrow> bool) \<Rightarrow> ('c \<Rightarrow> jsstring \<Rightarrow> operator_metadata option) \<Rightarrow> bool" where
  "registry_spec R dm avs meta \<longleftrightarrow>
     (\<forall>c a. if dm c a then \<exists>e. rg_registerAsOperator R a c = (c, Inl e) \<and> msg_includes (error_message e) ''operator has already registered''
            else \<exists>c'. rg_registerAsOperator R a c = (c', Inr ()) \<and> dm c' = (dm c)(a := True) \<and> avs c' = avs c \<and> meta c' = meta c)
     \<and> (\<forall>c a salt n. \<exists>h. rg_digest R a salt n c = Inr h \<and> (\<not> avs c a \<longrightarrow>
            (\<exists>c'. rg_registerWithSignature R a \<lparr>os_expiry = n, os_salt = salt, os_signature = rg_signDigest R h\<rparr> c = (c', Inr ())
               \<and> avs c' = (avs c)(a := True) \<and> dm c' = dm c \<and> meta c' = meta c)))
     \<and> (\<forall>c a. rg_operatorRegistered R a c = Inr (avs c a))
     \<and> (\<forall>c a. case meta c a of None \<Rightarrow> \<exists>e. rg_getMetadata R a c = Inl e \<and> msg_includes (error_message e) ''Operator not found''
            | Some m \<Rightarrow> rg_getMetadata R a c = Inr m)
     \<and> (\<forall>c m. \<exists>c'. rg_updateMetadata R m c = (c', Inr ()) \<and> meta c' = (meta c)(om_addr m := Some m) \<and> dm c' = dm c \<and> avs c' = avs c)"

lemma delegation_done:
  assumes "registry_spec R dm avs meta"
  shows "\<exists>c'. register_delegation R addr c = (c', Inr ()) \<and> dm c' = (dm c)(addr := True) \<and> avs c' = avs c \<and> meta c' = meta c
    \<and> (dm c addr \<longrightarrow> c' = c)"
proof -
  have "if dm c addr then \<exists>e. rg_registerAsOperator R addr c = (c, Inl e) \<and> msg_includes (error_message e) ''operator has already registered''
      else \<exists>c'. rg_registerAsOperator R addr c = (c', Inr ()) \<and> dm c' = (dm c)(addr := True) \<and> avs c' = avs c \<and> meta c' = meta c"
    using assms unfolding registry_spec_def by blast
  then show ?thesis by (auto simp: register_delegation_def fun_upd_idem split: if_splits)
qed

lemma service_done:
  assumes "registry_spec R dm avs meta"
  shows "\<exists>c'. register_service R addr salt now c = (c', Inr ()) \<and> avs c' = (avs c)(addr := True) \<and> dm c' = dm c \<and> meta c' = meta c
    \<and> (avs c addr \<longrightarrow> c' = c)"
proof -
  obtain h where h: "rg_digest R addr salt (now + 3600) c = Inr h" "\<not> avs c addr \<longrightarrow>
      (\<exists>c'. rg_registerWithSignature R addr \<lparr>os_expiry = now + 3600, os_salt = salt, os_signature = rg_signDigest R h\<rparr> c = (c', Inr ())
         \<and> avs c' = (avs c)(addr := True) \<and> dm c' = dm c \<and> meta c' = meta c)"
    using assms unfolding registry_spec_def by blast
  moreover have "rg_operatorRegistered R addr c = Inr (avs c addr)" using assms unfolding registry_spec_def by blast
  ultimately show ?thesis by (cases "avs c addr") (auto simp: register_service_def Let_def fun_upd_idem)
qed

lemma metadata_done:
  assumes "registry_spec R dm avs meta"
  shows "\<exists>c'. register_metadata R addr url c = (c', Inr ()) \<and> meta c' = (meta c)(addr \<mapsto> \<lparr>om_addr = addr, om_url = url\<rparr>)
    \<and> dm c' = dm c \<and> avs c' = avs c \<and> (meta c addr = Some \<lparr>om_addr = addr, om_url = url\<rparr> \<longrightarrow> c' = c)"
proof -
  let ?m = "\<lparr>om_addr = addr, om_url = url\<rparr>"
  obtain c' where u: "rg_updateMetadata R ?m c = (c', Inr ())" "meta c' = (meta c)(om_addr ?m := Some ?m)" "dm c' = dm c" "avs c' = avs c"
    using assms unfolding registry_spec_def by blast
  have g: "case meta c addr of None \<Rightarrow> \<exists>e. rg_getMetadata R addr c = Inl e \<and> msg_includes (error_message e) ''Operator not found''
      | Some m \<Rightarrow> rg_getMetadata R addr c = Inr m"
    using assms unfolding registry_spec_def by blast
  show ?thesis
  proof (cases "meta c addr")
    case None
    then show ?thesis using g u by (auto simp: register_metadata_def Let_def)
  next
    case (Some m)
    then show ?thesis using g u by (cases "m = ?m") (auto simp: register_metadata_def Let_def fun_upd_idem)
  qed
qed

text \<open>Registering works from any state of the chain, also one that an attempt which failed half way has left: the operator
  ends up registered with both contracts and with its URL, and nobody else's entries change. Registering
  again changes nothing.\<close>

theorem registration_completes:
  assumes "registry_spec R dm avs meta"
  shows "\<exists>c'. registerOperator R addr url salt now c = (c', Inr ())
    \<and> dm c' = (dm c)(addr := True) \<and> avs c' = (avs c)(addr := True) \<and> meta c' = (meta c)(addr \<mapsto> \<lparr>om_addr = addr, om_url = url\<rparr>)
    \<and> registerOperator R addr url salt' now' c' = (c', Inr ())"
proof -
  obtain c1 where c1: "register_delegation R addr c = (c1, Inr ())" "dm c1 = (dm c)(addr := True)" "avs c1 = avs c" "meta c1 = meta c"
    using delegation_done[OF assms] by blast
  obtain c2 where c2: "register_service R addr salt now c1 = (c2, Inr ())" "avs c2 = (avs c1)(addr := True)" "dm c2 = dm c1" "meta c2 = meta c1"
    using service_done[OF assms] by blast
  obtain c3 where c3: "register_metadata R addr url c2 = (c3, Inr ())" "meta c3 = (meta c2)(addr \<mapsto> \<lparr>om_addr = addr, om_url = url\<rparr>)"
      "dm c3 = dm c2" "avs c3 = avs c2"
    using metadata_done[OF assms] by blast
  have all: "dm c3 addr" "avs c3 addr" "meta c3 addr = Some \<lparr>om_addr = addr, om_url = url\<rparr>" using c1 c2 c3 by simp_all
  have "register_delegation R addr c3 = (c3, Inr ())" "register_service R addr salt' now' c3 = (c3, Inr ())"
      "register_metadata R addr url c3 = (c3, Inr ())"
    using delegation_done[OF assms, of addr c3] service_done[OF assms, of addr salt' now' c3] metadata_done[OF assms, of addr url c3] all
    by blast+
  then have "registerOperator R addr url salt' now' c3 = (c3, Inr ())" by (simp add: registerOperator_def then_step_def)
  moreover have "registerOperator R addr url salt now c = (c3, Inr ())" using c1(1) c2(1) c3(1) by (simp add: registerOperator_def then_step_def)
  ultimately show ?thesis using c1 c2 c3 by (intro exI[of _ c3]) simp
qed

subsection \<open>Example\<close>

text \<open>Contracts on three maps.\<close>

type_synonym map_chain = "(jsstring \<Rightarrow> bool) \<times> (jsstring \<Rightarrow> bool) \<times> (jsstring \<Rightarrow> operator_metadata option)"

definition map_registry :: "map_chain registry" where
  "map_registry = \<lparr>rg_registerAsOperator = (\<lambda>a (d, v, m). if d a then ((d, v, m), Inl (PlainError ''execution reverted: operator has already registered''))
       else ((d(a := True), v, m), Inr ())),
     rg_digest = (\<lambda>a s n c. Inr s), rg_signDigest = (\<lambda>h. 1 # h),
     rg_operatorRegistered = (\<lambda>a (d, v, m). Inr (v a)),
     rg_registerWithSignature = (\<lambda>a g (d, v, m). if os_signature g = 1 # os_salt g then ((d, v(a := True), m), Inr ())
       else ((d, v, m), Inl (PlainError ''bad signature''))),
     rg_getMetadata = (\<lambda>a (d, v, m). case m a of None \<Rightarrow> Inl (PlainError ''Operator not found'') | Some x \<Rightarrow> Inr x),
     rg_updateMetadata = (\<lambda>x (d, v, m). ((d, v, m(om_addr x := Some x)), Inr ()))\<rparr>"

lemma map_registry_spec: "registry_spec map_registry fst (fst \<circ> snd) (snd \<circ> snd)"
proof -
  have "msg_includes ''execution reverted: operator has already registered'' ''operator has already registered''"
    "msg_includes ''Operator not found'' ''Operator not found''" by code_simp+
  then show ?thesis by (auto simp: registry_spec_def map_registry_def split: option.split)
qed

theorem registration_completes_witness:
  "\<exists>c. registerOperator map_registry (js ''0x1'') (js ''wss://a'') [9] 5 ((\<lambda>_. True), (\<lambda>_. False), (\<lambda>_. None)) = (c, Inr ())
    \<and> fst (snd c) (js ''0x1'') \<and> snd (snd c) (js ''0x1'') = Some \<lparr>om_addr = js ''0x1'', om_url = js ''wss://a''\<rparr>"
  using registration_completes[OF map_registry_spec, of "js ''0x1''" "js ''wss://a''" "[9]" 5 "((\<lambda>_. True), (\<lambda>_. False), (\<lambda>_. None))" "[8]" 6]
  by (auto simp: fun_upd_def)

end
