(* ===== verification/Spec2Isabelle.thy ===== *)
theory Spec2Isabelle
  imports Create_Claim Rpc_Calls Tunnel_Link Keep_Alive Bgp_Listener Wire_Link Chain_Claims
    Claim_Flow Server_Socket Tunnel_Guard Window_Rpc Logger Zk_Operators Chain_Payment Register_Operator
begin

text \<open>
  A verification development for the attestor core. A client wants a claim signed, say that a page of a
  server shows some value. It opens a tunnel through an attestor, speaks TLS with the server over it, and
  reveals a redacted transcript to the attestor, which checks that the transcript is the one it
  forwarded, decrypts what is revealed, asks the provider (HTTP) whether that supports the claim, and
  signs. All paths below are under \<open>src/\<close>.

  \<^bold>\<open>Shared.\<close>
  \<^item> \<open>Prelude\<close>: bytes, JavaScript strings (lists of UTF-16 units), arrays, \<open>js_error\<close>, the result type
    \<open>js_error + 'a\<close> with \<open>bindR\<close> and \<open>mapR\<close>. A \<open>throw\<close> is \<open>Inl\<close>. The rules of slices are in \<open>js_slices\<close>.
  \<^item> \<open>Js_Text\<close>: what the code uses of the standard library on text. \<open>Generics\<close>: \<open>utils/generics.ts\<close>.
    \<open>Attestor_Error\<close>: \<open>utils/error.ts\<close> and \<open>utils/retries.ts\<close>. \<open>Logger\<close>: what the redacting logger of \<open>utils/logger.ts\<close>
    makes of an object. \<open>Messages\<close>: the records of \<open>proto/api.ts\<close>.
  \<^item> \<open>Machine\<close>: runs of step functions, with locales for an invariant of all runs, for an invariant with a
    quantity that only grows, for an invariant of runs with inputs of a kind, and for an invariant about the history. \<open>Store\<close>: objects used as maps.

  \<^bold>\<open>What the client and the attestor both use.\<close>
  \<^item> \<open>Redactions\<close>: \<open>utils/redactions.ts\<close>. The walk over blocks is proved to be the redaction of the
    concatenated blocks, where no block is empty; an empty block shifts it.
  \<^item> \<open>Http_Parser\<close>, \<open>Http_Parser_Stream\<close>, \<open>Http_Parser_Positions\<close>: \<open>utils/http-parser.ts\<close>; parsing in
    pieces is parsing the whole, and what the recorded positions are.
  \<^item> \<open>Http_Utils\<close>, \<open>Http_Templates\<close>, \<open>Http_Provider\<close>: \<open>providers/http/\<close>. \<open>createRequest\<close> and the redaction of
    secrets, \<open>getResponseRedactions\<close>, \<open>assertValidProviderReceipt\<close>, parameters in templates. The lemmas
    say what is revealed and what an accepted receipt implies.
  \<^item> \<open>Zk\<close>: \<open>utils/zk.ts\<close>. A proof is checked to be a proof of the plaintext it reveals; proofs the client
    generates verify. \<open>Zk_Operators\<close>: the default operators of the same file, made once for each engine.
  \<^item> \<open>Signing\<close>, \<open>Claims\<close>: \<open>utils/signatures/\<close>, \<open>utils/auth.ts\<close>, \<open>utils/claims.ts\<close>.

  \<^bold>\<open>The client.\<close>
  \<^item> \<open>Client_Writes\<close>, \<open>Reveal_Packets\<close>, \<open>Create_Claim\<close>: \<open>client/create-claim.ts\<close> and
    \<open>utils/prepare-packets.ts\<close>: writing the request so that secrets are under keys of their own, marking
    the records to reveal, preparing the transcript, building the claim request. The lemmas say which keys
    are given away and that the attestor decrypts what was marked. \<open>Claim_Flow\<close> is the course of a claim: the
    tunnel and the client, the wait for the response while the TLS tunnel calls back, the attempts.
  \<^item> \<open>Client_Socket\<close>, \<open>Message_Handler\<close>: \<open>utils/socket-base.ts\<close> and \<open>client/utils/\<close>: the promises of calls,
    their timers and the end of the connection. \<open>Client_Tunnels\<close>: \<open>client/tunnels/\<close>.
  \<^item> \<open>Chain_Claims\<close>: claims through a contract, \<open>avs/client/\<close>, \<open>avs/utils/tasks.ts\<close>, \<open>mechain/client/\<close> and the
    handlers they call. \<open>Chain_Payment\<close>: their two halves where an attestor pays. \<open>Register_Operator\<close>:
    \<open>avs/utils/register.ts\<close>.
  \<^item> \<open>Window_Rpc\<close>: the client in a web page, \<open>window-rpc/\<close> and \<open>utils/b64-json.ts\<close>: the messages of the window, the
    calls the page makes to the application around it, and bytes in JSON.

  \<^bold>\<open>The attestor.\<close>
  \<^item> \<open>Session\<close>: \<open>server/socket.ts\<close> and \<open>server/handlers/\<close>. The record \<open>session\<close> is the state of a socket,
    \<open>session_step\<close> its events; a handler may end at once or await a connection, whose end is a later event.
  \<^item> \<open>Server_Socket\<close>: accepting a connection with the messages in its URL, and the packets that arrive, each of
    which waits for the requests in it (\<open>server/create-server.ts\<close>, \<open>server/utils/generics.ts\<close>). Its state is
    proved to refine the session. \<open>Base64\<close>: the encoding of the messages in the URL.
  \<^item> \<open>Tunnel_Guard\<close>: \<open>server/handlers/createTunnel.ts\<close>, the tunnels of the server and the BGP listener they share.
  \<^item> \<open>Tcp_Tunnel\<close>: \<open>server/tunnels/make-tcp-tunnel.ts\<close> with its transcript. \<open>Handshake\<close>:
    \<open>server/utils/process-handshake.ts\<close>. \<open>Claim_Request\<close>: \<open>server/utils/assert-valid-claim-request.ts\<close>.
    \<open>Keep_Alive\<close>: \<open>server/utils/keep-alive.ts\<close>. \<open>Bgp_Listener\<close>: \<open>utils/bgp-listener.ts\<close>.

  \<^bold>\<open>Between them.\<close>
  \<^item> \<open>Wire\<close>, \<open>Wire_Messages\<close>, \<open>Wire_Roundtrip\<close>, \<open>Wire_Total\<close>, \<open>Wire_Ref\<close>, \<open>Wire_Link\<close>: \<open>encode\<close> and \<open>decode\<close> of
    \<open>proto/api.ts\<close>, that one undoes the other, that decoding returns for any bytes, and what that means for
    packets and for the signature of a claim request.
  \<^item> \<open>Rpc_Calls\<close>: a call of the client meets the handler of the attestor. \<open>Tunnel_Link\<close>: the two ends of a
    tunnel with messages under way; whatever the timing, the transcript an honest client claims agrees
    with that of the attestor.

  \<^bold>\<open>How the code is read.\<close>
  A closure with \<open>let\<close> variables is a record of them; an object is a record, an enum a datatype, a promise
  that is awaited either a result (nothing can come between) or an event of the step function (something
  can). Numbers are \<open>int\<close>: all that the modelled code adds or compares stays far below \<open>2 ^ 53\<close>, and
  the places with 8, 16 or 32 bits (bytes, record headers, the 24 bit length of a handshake message, which
  is read as 16 bits) have their width. Time is an argument. Logging and progress callbacks are left out.

  \<^bold>\<open>Parameters.\<close>
  Packages and services are arguments: the TLS package (records of functions such as the one to decrypt a
  record), the ZK and OPRF operators, ECDSA and keccak (\<open>eth_pkg\<close>, \<open>claim_lib\<close>), JSON
  and its canonical form, regular expressions, HTML and JSON path, schemas, the protobuf writer and reader
  (\<open>wire_lib\<close>), sockets, the page of the window and contracts (\<open>registry_spec\<close> is what
  is documented of those that register operators). What a theorem relies on of one is a hypothesis in its
  statement: that decrypting undoes encrypting, that a proof made verifies, that the reader reads what the
  writer wrote. The witnesses instantiate them with concrete functions.

  \<^bold>\<open>Recursion and fuel.\<close>
  Loops are structural or have a measure. \<open>decode_loop\<close> takes turns to spend: a decoder is given one more
  than there are bytes, and \<open>packet_decoder_returns\<close> shows that it never runs out, whatever the bytes.
  The retry loop is bounded by its number of attempts.

  \<^bold>\<open>Not modelled.\<close>
  The HTTP server around the websockets (the rest of \<open>server/create-server.ts\<close>) and the scripts: I/O around
  packages. Bindings and ABIs of contracts: generated tables. The logger package around the redaction, tracing,
  environment, benchmark. Of
  \<open>proto/api.ts\<close> the JSON forms and \<open>fromPartial\<close>, which no modelled component uses; of
  \<open>client/create-claim.ts\<close> the TLS handshake, which is the package's.
\<close>

end
